(* ===== verification/Prelude.thy ===== *)
theory Prelude
  imports Complex_Main "HOL-Library.Char_ord" "HOL-Library.List_Lexorder" "HOL-Library.Sublist"
begin

text \<open>
  The vocabulary the components share: the string operations of Python the sources use
  (\<open>lower\<close>, \<open>strip\<close>, \<open>split\<close>, \<open>startswith\<close>, \<open>in\<close>, \<open>join\<close>), results that may be
  exceptions, the generic lemmas on lists and association lists, and the locale of a state
  machine with an inductive invariant, which the circuit breaker, the ingestion status and
  the login lockout interpret.

  A Python \<open>str\<close> is a \<^typ>\<open>string\<close> holding its UTF-8 bytes; the two non-ASCII characters
  that occur in messages (the em dash and the arrow) are named byte sequences, and case
  folding acts on ASCII letters.
\<close>

named_theorems vx_defs \<open>defining equations of the components' small helpers\<close>
named_theorems vx_inv \<open>operations preserve the invariant of their component\<close>

section \<open>Exceptions as values\<close>

text \<open>An exception carries its class name (\<open>type(exc).__qualname__\<close>), its message
  (\<open>str(exc)\<close>) and, for an HTTP status error, the status code of its response.\<close>

datatype exn = Exn (qualname: string) (exn_msg: string) (exn_status: "int option")

type_synonym 'a res = "exn + 'a"

fun rbind :: "'e + 'a \<Rightarrow> ('a \<Rightarrow> 'e + 'b) \<Rightarrow> 'e + 'b" where
  "rbind (Inl e) f = Inl e"
| "rbind (Inr x) f = f x"

lemma rbind_eq_Inr [simp]: "rbind r f = Inr y \<longleftrightarrow> (\<exists>x. r = Inr x \<and> f x = Inr y)"
  by (cases r) auto

lemma rbind_eq_Inl: "rbind r f = Inl e \<longleftrightarrow> r = Inl e \<or> (\<exists>x. r = Inr x \<and> f x = Inl e)"
  by (cases r) auto

text \<open>A loop that applies a fallible body to every element and stops at the first exception.\<close>

fun rmap :: "('a \<Rightarrow> 'e + 'b) \<Rightarrow> 'a list \<Rightarrow> 'e + 'b list" where
  "rmap f [] = Inr []"
| "rmap f (x # xs) = rbind (f x) (\<lambda>y. rbind (rmap f xs) (\<lambda>ys. Inr (y # ys)))"

lemma rmap_length: "rmap f xs = Inr ys \<Longrightarrow> length ys = length xs"
  by (induction xs arbitrary: ys) auto

lemma rmap_total: "(\<And>x. x \<in> set xs \<Longrightarrow> \<exists>y. f x = Inr y) \<Longrightarrow> \<exists>ys. rmap f xs = Inr ys"
  by (induction xs) fastforce+

section \<open>Python strings\<close>

definition emdash :: string where
  "emdash = [CHR 0xE2, CHR 0x80, CHR 0x94]"

definition arrow :: string where
  "arrow = [CHR 0xE2, CHR 0x86, CHR 0x92]"

definition middot :: string where
  "middot = [CHR 0xC2, CHR 0xB7]"

definition lower_char :: "char \<Rightarrow> char" where
  "lower_char c = (if 65 \<le> (of_char c :: nat) \<and> (of_char c :: nat) \<le> 90
     then char_of ((of_char c :: nat) + 32) else c)"

definition lower :: "string \<Rightarrow> string" where
  "lower s = map lower_char s"

lemma length_lower [simp]: "length (lower s) = length s"
  by (simp add: lower_def)

lemma lower_append [simp]: "lower (s @ t) = lower s @ lower t"
  by (simp add: lower_def)

lemma lower_Nil [simp]: "lower [] = []" and lower_eq_Nil [simp]: "lower s = [] \<longleftrightarrow> s = []"
  by (simp_all add: lower_def)

lemma lower_char_idem [simp]: "lower_char (lower_char c) = lower_char c"
  by (simp add: lower_char_def)

lemma lower_idem [simp]: "lower (lower s) = lower s"
  by (simp add: lower_def)

definition startswith :: "string \<Rightarrow> string \<Rightarrow> bool" where
  "startswith s p \<longleftrightarrow> take (length p) s = p"

definition endswith :: "string \<Rightarrow> string \<Rightarrow> bool" where
  "endswith s p \<longleftrightarrow> length p \<le> length s \<and> drop (length s - length p) s = p"

fun contains :: "string \<Rightarrow> string \<Rightarrow> bool" where
  "contains p [] = (p = [])"
| "contains p (c # s) = (startswith (c # s) p \<or> contains p s)"

lemma startswith_prefix: "startswith s p \<longleftrightarrow> prefix p s"
proof
  assume "startswith s p"
  then have "s = p @ drop (length p) s"
    by (metis append_take_drop_id startswith_def)
  then show "prefix p s" by (metis prefixI)
qed (auto simp: startswith_def prefix_def)

lemma endswith_suffix: "endswith s p \<longleftrightarrow> suffix p s"
proof
  assume "endswith s p"
  then have "s = take (length s - length p) s @ p"
    by (metis append_take_drop_id endswith_def)
  then show "suffix p s" by (metis suffixI)
qed (auto simp: endswith_def suffix_def)

lemma contains_sublist: "contains p s \<longleftrightarrow> sublist p s"
  by (induction p s rule: contains.induct) (auto simp: startswith_prefix sublist_Cons_right)

lemma contains_mono: "contains p q \<Longrightarrow> contains q s \<Longrightarrow> contains p s"
  by (metis contains_sublist sublist_order.order_trans)

definition is_space :: "char \<Rightarrow> bool" where
  "is_space c \<longleftrightarrow> (of_char c :: nat) \<in> {9, 10, 11, 12, 13, 28, 29, 30, 31, 32}"

definition rstrip_where :: "(char \<Rightarrow> bool) \<Rightarrow> string \<Rightarrow> string" where
  "rstrip_where p s = rev (dropWhile p (rev s))"

definition strip :: "string \<Rightarrow> string" where
  "strip s = rstrip_where is_space (dropWhile is_space s)"

definition rstrip_char :: "char \<Rightarrow> string \<Rightarrow> string" where
  "rstrip_char c s = rstrip_where (\<lambda>d. d = c) s"

lemma length_rstrip_where: "length (rstrip_where p s) \<le> length s"
  by (metis length_dropWhile_le length_rev rstrip_where_def)

lemma rstrip_where_prefix: "prefix (rstrip_where p s) s"
  by (metis rstrip_where_def rev_rev_ident suffix_dropWhile suffix_to_prefix)

text \<open>\<open>s.split(c)\<close> with a one-character separator: always at least one field.\<close>

fun split_on :: "char \<Rightarrow> string \<Rightarrow> string list" where
  "split_on c [] = [[]]"
| "split_on c (x # s) =
     (if x = c then [] # split_on c s
      else (case split_on c s of [] \<Rightarrow> [[x]] | f # fs \<Rightarrow> (x # f) # fs))"

fun join :: "string \<Rightarrow> string list \<Rightarrow> string" where
  "join sep [] = []"
| "join sep [f] = f"
| "join sep (f # fs) = f @ sep @ join sep fs"

lemma split_on_ne [simp]: "split_on c s \<noteq> []"
  by (induction s) (auto split: list.splits)

lemma join_Cons_ne: "fs \<noteq> [] \<Longrightarrow> join sep (f # fs) = f @ sep @ join sep fs"
  by (cases fs) auto

lemma join_split_on: "join [c] (split_on c s) = s"
proof (induction s)
  case (Cons x s)
  show ?case
  proof (cases "split_on c s")
    case (Cons f fs)
    with Cons.IH show ?thesis by (cases fs) auto
  qed simp
qed simp

lemma split_on_no_sep: "f \<in> set (split_on c s) \<Longrightarrow> c \<notin> set f"
proof (induction s arbitrary: f)
  case (Cons x s)
  then show ?case by (cases "split_on c s") (auto split: if_splits)
qed simp

lemma split_on_single: "c \<notin> set s \<Longrightarrow> split_on c s = [s]"
  by (induction s) auto

lemma split_on_append: "c \<notin> set f \<Longrightarrow> split_on c (f @ c # s) = f # split_on c s"
  by (induction f) auto

section \<open>Decimal numerals\<close>

definition digit :: "nat \<Rightarrow> char" where
  "digit n = char_of (48 + n)"

fun show_nat :: "nat \<Rightarrow> string" where
  "show_nat n = (if n < 10 then [digit n] else show_nat (n div 10) @ [digit (n mod 10)])"

declare show_nat.simps [simp del]

definition show_int :: "int \<Rightarrow> string" where
  "show_int i = (if i < 0 then ''-'' @ show_nat (nat (- i)) else show_nat (nat i))"

lemma show_nat_ne [simp]: "show_nat n \<noteq> []"
  by (subst show_nat.simps) simp

lemma of_char_digit: "n < 10 \<Longrightarrow> (of_char (digit n) :: nat) = 48 + n"
  by (simp add: digit_def of_char_of)

lemma digit_less: "m < 10 \<Longrightarrow> n < 10 \<Longrightarrow> digit m < digit n \<longleftrightarrow> m < n"
  by (simp add: less_char_def of_char_digit)

lemma digit_inject: "m < 10 \<Longrightarrow> n < 10 \<Longrightarrow> digit m = digit n \<longleftrightarrow> m = n"
  by (metis add_left_cancel of_char_digit)

section \<open>Association lists as dictionaries\<close>

text \<open>A Python dict keeps insertion order: assigning to a key that is present keeps its
  place, a new key goes to the end.\<close>

fun dict_set :: "'k \<Rightarrow> 'v \<Rightarrow> ('k \<times> 'v) list \<Rightarrow> ('k \<times> 'v) list" where
  "dict_set k v [] = [(k, v)]"
| "dict_set k v ((k', v') # d) = (if k = k' then (k, v) # d else (k', v') # dict_set k v d)"

definition dict_del :: "'k \<Rightarrow> ('k \<times> 'v) list \<Rightarrow> ('k \<times> 'v) list" where
  "dict_del k d = filter (\<lambda>p. fst p \<noteq> k) d"

lemma map_of_dict_set [simp]: "map_of (dict_set k v d) = (map_of d)(k \<mapsto> v)"
  by (induction d) auto

lemma map_of_dict_del [simp]: "map_of (dict_del k d) = (map_of d)(k := None)"
  unfolding dict_del_def by (induction d) auto

lemma dict_set_keys: "set (map fst (dict_set k v d)) = insert k (set (map fst d))"
proof (induction d)
  case (Cons p d)
  then show ?case by (cases p) auto
qed simp

lemma dict_set_distinct: "distinct (map fst d) \<Longrightarrow> distinct (map fst (dict_set k v d))"
proof (induction d)
  case (Cons p d)
  then show ?case using dict_set_keys [of k v d] by (cases p) auto
qed simp

lemma dict_del_distinct: "distinct (map fst d) \<Longrightarrow> distinct (map fst (dict_del k d))"
  by (simp add: dict_del_def distinct_map_filter)

section \<open>First maximum and stable sorting, as Python's \<open>max\<close> and \<open>sort\<close>\<close>

text \<open>\<open>max(xs, key=f)\<close> returns the first element whose key is greatest.\<close>

fun max_by :: "('a \<Rightarrow> 'k::linorder) \<Rightarrow> 'a \<Rightarrow> 'a list \<Rightarrow> 'a" where
  "max_by f best [] = best"
| "max_by f best (x # xs) = (if f best < f x then max_by f x xs else max_by f best xs)"

lemma max_by_mem: "max_by f b xs \<in> set (b # xs)"
  by (induction xs arbitrary: b) auto

lemma max_by_ge_best: "f b \<le> f (max_by f b xs)"
proof (induction xs arbitrary: b)
  case (Cons y ys)
  from Cons.IH [of y] Cons.IH [of b] show ?case by auto
qed simp

lemma max_by_ge: "x \<in> set (b # xs) \<Longrightarrow> f x \<le> f (max_by f b xs)"
proof (induction xs arbitrary: b)
  case (Cons y ys)
  show ?case
  proof (cases "f b < f y")
    case True
    with Cons.IH [of y] Cons.prems max_by_ge_best [of f y ys] show ?thesis by auto
  next
    case False
    with Cons.IH [of b] Cons.prems max_by_ge_best [of f b ys] show ?thesis by auto
  qed
qed simp

section \<open>State machines with an inductive invariant\<close>

locale invariant_machine =
  fixes step :: "'s \<Rightarrow> 'e \<Rightarrow> 's"
    and inv :: "'s \<Rightarrow> bool"
  assumes inv_step: "inv s \<Longrightarrow> inv (step s e)"
begin

lemma inv_run: "inv s \<Longrightarrow> inv (foldl step s es)"
  by (induction es arbitrary: s) (auto intro: inv_step)

lemma inv_every_prefix: "inv s \<Longrightarrow> prefix es' es \<Longrightarrow> inv (foldl step s es')"
  by (rule inv_run)

end

end
