(* ===== verification/Errors.thy ===== *)
theory Errors
  imports Prelude
begin

text \<open>
  The error hierarchy of \<open>src/errors\<close>: the classes, their stable machine-readable codes, the
  subclass relation that decides which handler catches them, and the rendering \<open>__str__\<close> of
  an error with its optional detail.
\<close>

datatype error_class =
    AppErrorClass
  | OperationalErrorClass
  | ProgrammerErrorClass
  | EveParseError
  | SuricataConfigInvalid
  | SuricataConfigMissing
  | LLMUnavailable
  | VTRateLimited
  | VTAuthFailed
  | RDAPTimeout
  | MaxMindDBMissing
  | EventStoreWriteFailed
  | CircuitBreakerOpenClass

fun error_code :: "error_class \<Rightarrow> string" where
  "error_code AppErrorClass = ''APP_ERROR''"
| "error_code OperationalErrorClass = ''OPERATIONAL_ERROR''"
| "error_code ProgrammerErrorClass = ''PROGRAMMER_ERROR''"
| "error_code EveParseError = ''EVE_PARSE_ERROR''"
| "error_code SuricataConfigInvalid = ''SURICATA_CONFIG_INVALID''"
| "error_code SuricataConfigMissing = ''SURICATA_CONFIG_MISSING''"
| "error_code LLMUnavailable = ''LLM_UNAVAILABLE''"
| "error_code VTRateLimited = ''VT_RATE_LIMITED''"
| "error_code VTAuthFailed = ''VT_AUTH_FAILED''"
| "error_code RDAPTimeout = ''RDAP_TIMEOUT''"
| "error_code MaxMindDBMissing = ''MAXMIND_DB_MISSING''"
| "error_code EventStoreWriteFailed = ''EVENT_STORE_WRITE_FAILED''"
| "error_code CircuitBreakerOpenClass = ''CIRCUIT_BREAKER_OPEN''"

fun error_parent :: "error_class \<Rightarrow> error_class option" where
  "error_parent AppErrorClass = None"
| "error_parent OperationalErrorClass = Some AppErrorClass"
| "error_parent ProgrammerErrorClass = Some AppErrorClass"
| "error_parent _ = Some OperationalErrorClass"

text \<open>\<open>isinstance(exc, cls)\<close>: the class itself or one above it.\<close>

definition is_subclass :: "error_class \<Rightarrow> error_class \<Rightarrow> bool" where
  "is_subclass c k =
     (c = k \<or> error_parent c = Some k \<or> Option.bind (error_parent c) error_parent = Some k)"

record app_error =
  err_class :: error_class
  err_message :: string
  err_detail :: "string option"
  err_cause :: "exn option"

definition app_error_str :: "app_error \<Rightarrow> string" where
  "app_error_str e =
     join '' ''
       ([''['' @ error_code (err_class e) @ ''] '' @ err_message e]
        @ (case err_detail e of
             None \<Rightarrow> []
           | Some d \<Rightarrow> if d = [] then [] else [''('' @ d @ '')'']))"

lemma error_code_inj: "error_code c = error_code k \<longleftrightarrow> c = k"
  by (cases c; cases k) simp_all

text \<open>Every class of \<open>operational.py\<close> is operational and none is a programmer error, so a
  handler for \<open>OperationalError\<close> catches exactly the expected failures.\<close>

lemma is_subclass_operational:
  "is_subclass c OperationalErrorClass \<longleftrightarrow> c \<noteq> AppErrorClass \<and> c \<noteq> ProgrammerErrorClass"
  by (cases c) (auto simp: is_subclass_def)

lemma is_subclass_app: "is_subclass c AppErrorClass"
  by (cases c) (auto simp: is_subclass_def)

lemma is_subclass_trans: "is_subclass a b \<Longrightarrow> is_subclass b c \<Longrightarrow> is_subclass a c"
  by (cases a; cases b; cases c) (auto simp: is_subclass_def)

end
