(* ===== verification/Rate_Limiter.thy ===== *)
theory Rate_Limiter
  imports Prelude
begin

text \<open>
  The client-side token bucket of \<open>src/enrichment/virustotal/rate_limiter.py\<close>. Every turn of the
  loop in \<open>acquire\<close> reads the monotonic clock once; a turn that finds no token sleeps and tries again.
  The lock serialises the turns of all callers, so a run of the limiter is the sequence of the readings.
\<close>

record rate_limiter =
  rl_rate :: int
  rl_period :: rat
  rl_tokens :: rat
  rl_last_refill :: rat

definition new_limiter :: "int \<Rightarrow> rat \<Rightarrow> rat \<Rightarrow> rate_limiter" where
  "new_limiter rate period now =
     \<lparr>rl_rate = rate, rl_period = period, rl_tokens = of_int rate, rl_last_refill = now\<rparr>"

definition refill :: "rat \<Rightarrow> rate_limiter \<Rightarrow> rate_limiter" where
  "refill now l =
     (let elapsed = now - rl_last_refill l
      in l\<lparr>rl_tokens := min (of_int (rl_rate l)) (rl_tokens l + elapsed * (of_int (rl_rate l) / rl_period l)),
           rl_last_refill := now\<rparr>)"

text \<open>How long a turn that finds no token sleeps.\<close>

definition sleep_time :: "rate_limiter \<Rightarrow> rat" where
  "sleep_time l = (1 - rl_tokens l) * (rl_period l / of_int (rl_rate l))"

definition acquire_turn :: "rat \<Rightarrow> rate_limiter \<Rightarrow> bool \<times> rate_limiter" where
  "acquire_turn now l =
     (let l = refill now l
      in if rl_tokens l \<ge> 1 then (True, l\<lparr>rl_tokens := rl_tokens l - 1\<rparr>) else (False, l))"

text \<open>The loop over the clock readings its turns make: the limiter and the unused readings once a token is
  taken, or \<open>None\<close> while it still sleeps when the readings end.\<close>

fun acquire :: "rate_limiter \<Rightarrow> rat list \<Rightarrow> (rate_limiter \<times> rat list) option" where
  "acquire l [] = None"
| "acquire l (now # nows) =
     (case acquire_turn now l of
        (True, l') \<Rightarrow> Some (l', nows)
      | (False, l') \<Rightarrow> acquire l' nows)"

text \<open>The times at which requests are let through, over a whole run.\<close>

fun grants :: "rate_limiter \<Rightarrow> rat list \<Rightarrow> rat list" where
  "grants l [] = []"
| "grants l (now # nows) =
     (case acquire_turn now l of
        (True, l') \<Rightarrow> now # grants l' nows
      | (False, l') \<Rightarrow> grants l' nows)"

definition limiter_ok :: "rate_limiter \<Rightarrow> bool" where
  "limiter_ok l \<longleftrightarrow>
     1 \<le> rl_rate l \<and> 0 < rl_period l \<and> 0 \<le> rl_tokens l \<and> rl_tokens l \<le> of_int (rl_rate l)"

lemma limiter_ok_new [vx_inv]: "1 \<le> r \<Longrightarrow> 0 < p \<Longrightarrow> limiter_ok (new_limiter r p now)"
  by (simp add: limiter_ok_def new_limiter_def)

lemma refill_params [simp]:
  "rl_rate (refill now l) = rl_rate l" "rl_period (refill now l) = rl_period l"
  "rl_last_refill (refill now l) = now"
  by (simp_all add: refill_def Let_def)

lemma acquire_turn_params:
  "acquire_turn now l = (b, l') \<Longrightarrow>
     rl_rate l' = rl_rate l \<and> rl_period l' = rl_period l \<and> rl_last_refill l' = now"
  by (auto simp: acquire_turn_def Let_def split: if_splits)

lemma limiter_ok_refill [vx_inv]:
  "limiter_ok l \<Longrightarrow> rl_last_refill l \<le> now \<Longrightarrow> limiter_ok (refill now l)"
  by (auto simp: limiter_ok_def refill_def Let_def min_def)

lemma limiter_ok_turn [vx_inv]:
  "limiter_ok l \<Longrightarrow> rl_last_refill l \<le> now \<Longrightarrow> limiter_ok (snd (acquire_turn now l))"
  using limiter_ok_refill [of l now] by (auto simp: acquire_turn_def Let_def limiter_ok_def)

text \<open>The bucket pays for every grant: what a turn leaves is at most what it found, plus the refill of the
  elapsed time, minus the token taken.\<close>

lemma turn_tokens:
  assumes "limiter_ok l" "rl_last_refill l \<le> now" "acquire_turn now l = (b, l')"
  shows "rl_tokens l' + (if b then 1 else 0)
     \<le> rl_tokens l + (now - rl_last_refill l) * (of_int (rl_rate l) / rl_period l)"
  using assms by (auto simp: acquire_turn_def refill_def Let_def split: if_splits)

lemma grants_paid:
  assumes "limiter_ok l" "sorted (rl_last_refill l # nows)" "\<forall>t\<in>set nows. t \<le> t1" "rl_last_refill l \<le> t1"
  shows "of_nat (length (grants l nows))
     \<le> rl_tokens l + (t1 - rl_last_refill l) * (of_int (rl_rate l) / rl_period l)"
  using assms
proof (induction nows arbitrary: l)
  case Nil
  then show ?case by (simp add: limiter_ok_def)
next
  case (Cons t nows)
  obtain b l' where turn: "acquire_turn t l = (b, l')" by fastforce
  let ?q = "of_int (rl_rate l) / rl_period l"
  note p = acquire_turn_params [OF turn]
  have le: "rl_last_refill l \<le> t" using Cons.prems by simp
  have "limiter_ok l'" using limiter_ok_turn [OF Cons.prems(1) le] turn by simp
  from Cons.IH [OF this] have "of_nat (length (grants l' nows)) \<le> rl_tokens l' + (t1 - t) * ?q"
    using Cons.prems p by simp
  moreover have "rl_tokens l' + (if b then 1 else 0) \<le> rl_tokens l + (t - rl_last_refill l) * ?q"
    by (rule turn_tokens [OF Cons.prems(1) le turn])
  moreover have "(t1 - t) * ?q + (t - rl_last_refill l) * ?q = (t1 - rl_last_refill l) * ?q"
    unfolding distrib_right [symmetric] by simp
  ultimately show ?case using turn by (auto split: if_splits)
qed

lemma grants_refill:
  assumes "limiter_ok l" "rl_last_refill l \<le> t"
  shows "grants l (t # nows) = grants (refill t l) (t # nows)"
proof -
  have "refill t (refill t l) = refill t l"
    by (auto simp: refill_def Let_def)
  then show ?thesis by (simp add: acquire_turn_def)
qed

section \<open>Properties\<close>

text \<open>The rate the limiter enforces. Of the requests it lets through at clock readings in a window
  from \<open>t0\<close> to \<open>t1\<close> there are at most \<open>rate\<close> (a full bucket) plus \<open>rate / period\<close> per second of the
  window, whatever the callers do.\<close>

theorem limiter_window_bound:
  assumes "limiter_ok l" "sorted nows" "\<forall>t\<in>set nows. t0 \<le> t \<and> t \<le> t1" "rl_last_refill l \<le> t0" "t0 \<le> t1"
  shows "of_nat (length (grants l nows)) \<le> of_int (rl_rate l) + (t1 - t0) * (of_int (rl_rate l) / rl_period l)"
proof (cases nows)
  case Nil
  with assms show ?thesis by (simp add: limiter_ok_def)
next
  case (Cons t ts)
  let ?l = "refill t l" and ?q = "of_int (rl_rate l) / rl_period l"
  have le: "rl_last_refill l \<le> t" "t0 \<le> t" "t \<le> t1" using assms Cons by auto
  have ok: "limiter_ok ?l" using assms le by (simp add: limiter_ok_refill)
  have "of_nat (length (grants ?l nows)) \<le> rl_tokens ?l + (t1 - t) * ?q"
    using grants_paid [OF ok, of nows t1] assms Cons le by simp
  also have "\<dots> \<le> of_int (rl_rate l) + (t1 - t0) * ?q"
    using ok assms(1) le by (intro add_mono mult_right_mono) (auto simp: limiter_ok_def)
  finally show ?thesis using grants_refill [OF assms(1) le(1)] Cons by simp
qed

theorem limiter_window_bound_witness:
  "of_nat (length (grants (new_limiter 4 60 0) [0, 0, 0, 0, 0, 15, 30, 45])) \<le> (7::rat)"
  using limiter_window_bound [of "new_limiter 4 60 0" "[0, 0, 0, 0, 0, 15, 30, 45]" 0 45]
  by (simp add: limiter_ok_def new_limiter_def)



text \<open>The limiter is a token bucket and not a sliding window: with the default four requests per sixty
  seconds, seven requests get through within forty-five seconds of an idle start.\<close>

theorem limiter_burst_exceeds_rate:
  "grants (new_limiter 4 60 0) [0, 0, 0, 0, 15, 30, 45] = [0, 0, 0, 0, 15, 30, 45]"
  by (simp add: new_limiter_def acquire_turn_def refill_def Let_def)

end
