(* ===== verification/Json.thy ===== *)
theory Json
  imports Prelude
begin

text \<open>
  Parsed JSON and YAML documents as the Python objects \<open>json.loads\<close> and \<open>yaml.safe_load\<close>
  build, with the operations the sources use on them: \<open>d.get(k, default)\<close>, truth value,
  \<open>isinstance\<close> and \<open>str\<close>. Using a value that is not a dictionary as one is an exception,
  as in Python. A dictionary is an association list in insertion order. A float is kept as the
  text of its \<open>repr\<close>: no modelled code computes with one.
\<close>

datatype json =
    JNull
  | JBool bool
  | JInt int
  | JFloat string
  | JStr string
  | JArr "json list"
  | JObj "(string \<times> json) list"

type_synonym jdict = "(string \<times> json) list"

section \<open>Truth value and type tests\<close>

fun truthy :: "json \<Rightarrow> bool" where
  "truthy JNull = False"
| "truthy (JBool b) = b"
| "truthy (JInt i) = (i \<noteq> 0)"
| "truthy (JFloat s) = (s \<noteq> ''0.0'' \<and> s \<noteq> ''-0.0'')"
| "truthy (JStr s) = (s \<noteq> [])"
| "truthy (JArr xs) = (xs \<noteq> [])"
| "truthy (JObj d) = (d \<noteq> [])"

text \<open>Python's \<open>a or b\<close>.\<close>

definition jor :: "json \<Rightarrow> json \<Rightarrow> json" where
  "jor a b = (if truthy a then a else b)"

fun is_dict :: "json \<Rightarrow> bool" where
  "is_dict (JObj _) = True"
| "is_dict _ = False"

fun is_list :: "json \<Rightarrow> bool" where
  "is_list (JArr _) = True"
| "is_list _ = False"

fun type_name :: "json \<Rightarrow> string" where
  "type_name JNull = ''NoneType''"
| "type_name (JBool _) = ''bool''"
| "type_name (JInt _) = ''int''"
| "type_name (JFloat _) = ''float''"
| "type_name (JStr _) = ''str''"
| "type_name (JArr _) = ''list''"
| "type_name (JObj _) = ''dict''"

definition AttributeError :: "json \<Rightarrow> string \<Rightarrow> exn" where
  "AttributeError v a =
     Exn ''AttributeError'' ([CHR 0x27] @ type_name v @ [CHR 0x27] @ '' object has no attribute ''
       @ [CHR 0x27] @ a @ [CHR 0x27]) None"

definition TypeError :: "string \<Rightarrow> exn" where
  "TypeError m = Exn ''TypeError'' m None"

definition KeyError :: "string \<Rightarrow> exn" where
  "KeyError k = Exn ''KeyError'' ([CHR 0x27] @ k @ [CHR 0x27]) None"

section \<open>Dictionary access\<close>

definition dget :: "jdict \<Rightarrow> string \<Rightarrow> json \<Rightarrow> json" where
  "dget d k dflt = (case map_of d k of None \<Rightarrow> dflt | Some v \<Rightarrow> v)"

text \<open>\<open>v.get(k, dflt)\<close> and \<open>v[k]\<close> on a value that should be a dictionary.\<close>

fun jget :: "json \<Rightarrow> string \<Rightarrow> json \<Rightarrow> json res" where
  "jget (JObj d) k dflt = Inr (dget d k dflt)"
| "jget v k dflt = Inl (AttributeError v ''get'')"

fun jindex :: "json \<Rightarrow> string \<Rightarrow> json res" where
  "jindex (JObj d) k = (case map_of d k of None \<Rightarrow> Inl (KeyError k) | Some v \<Rightarrow> Inr v)"
| "jindex v k = Inl (TypeError ''object is not subscriptable with a string'')"

text \<open>\<open>v.lower()\<close> and its kin need a string.\<close>

fun jstr :: "string \<Rightarrow> json \<Rightarrow> string res" where
  "jstr meth (JStr s) = Inr s"
| "jstr meth v = Inl (AttributeError v meth)"

text \<open>Iteration over a value of unknown type: a list's elements, a dictionary's keys, a string's characters. Lists and
  dictionaries cannot be members of a set or keys.\<close>

fun jiter :: "json \<Rightarrow> json list res" where
  "jiter (JArr xs) = Inr xs"
| "jiter (JObj d) = Inr (map (\<lambda>p. JStr (fst p)) d)"
| "jiter (JStr s) = Inr (map (\<lambda>c. JStr [c]) s)"
| "jiter v = Inl (TypeError ([CHR 0x27] @ type_name v @ [CHR 0x27] @ '' object is not iterable''))"

fun hashable :: "json \<Rightarrow> bool" where
  "hashable (JArr _) = False"
| "hashable (JObj _) = False"
| "hashable _ = True"

definition unhashable :: exn where
  "unhashable = TypeError ''unhashable type''"

lemma dget_present [simp]: "map_of d k = Some v \<Longrightarrow> dget d k dflt = v"
  by (simp add: dget_def)

lemma dget_absent [simp]: "map_of d k = None \<Longrightarrow> dget d k dflt = dflt"
  by (simp add: dget_def)

lemma jget_cases:
  "jget v k dflt = Inr w \<longleftrightarrow> (\<exists>d. v = JObj d \<and> w = dget d k dflt)"
  by (cases v) auto

lemma jor_truthy [simp]: "truthy a \<Longrightarrow> jor a b = a" and jor_falsy [simp]: "\<not> truthy a \<Longrightarrow> jor a b = b"
  by (simp_all add: jor_def)

section \<open>\<open>str\<close> and \<open>repr\<close>\<close>

definition hex_digit :: "nat \<Rightarrow> char" where
  "hex_digit n = (if n < 10 then char_of (48 + n) else char_of (87 + n))"

definition repr_char :: "char \<Rightarrow> char \<Rightarrow> string" where
  "repr_char q c =
     (let n = (of_char c :: nat)
      in if c = q \<or> n = 92 then [CHR 0x5C, c]
         else if n = 10 then [CHR 0x5C, CHR ''n'']
         else if n = 13 then [CHR 0x5C, CHR ''r'']
         else if n = 9 then [CHR 0x5C, CHR ''t'']
         else if n < 32 \<or> n = 127
           then [CHR 0x5C, CHR ''x'', hex_digit (n div 16), hex_digit (n mod 16)]
         else [c])"

definition repr_str :: "string \<Rightarrow> string" where
  "repr_str s =
     (let q = (if CHR 0x27 \<in> set s \<and> CHR 0x22 \<notin> set s then CHR 0x22 else CHR 0x27)
      in [q] @ concat (map (repr_char q) s) @ [q])"

fun py_repr :: "json \<Rightarrow> string" and py_repr_list :: "json list \<Rightarrow> string list"
  and py_repr_dict :: "(string \<times> json) list \<Rightarrow> string list" where
  "py_repr JNull = ''None''"
| "py_repr (JBool b) = (if b then ''True'' else ''False'')"
| "py_repr (JInt i) = show_int i"
| "py_repr (JFloat s) = s"
| "py_repr (JStr s) = repr_str s"
| "py_repr (JArr xs) = ''['' @ join '', '' (py_repr_list xs) @ '']''"
| "py_repr (JObj d) = ''{'' @ join '', '' (py_repr_dict d) @ ''}''"
| "py_repr_list [] = []"
| "py_repr_list (x # xs) = py_repr x # py_repr_list xs"
| "py_repr_dict [] = []"
| "py_repr_dict ((k, v) # d) = (repr_str k @ '': '' @ py_repr v) # py_repr_dict d"

fun py_str :: "json \<Rightarrow> string" where
  "py_str (JStr s) = s"
| "py_str v = py_repr v"

text \<open>An optional string as a JSON value: \<open>None\<close> is null.\<close>

fun jopt :: "string option \<Rightarrow> json" where
  "jopt None = JNull"
| "jopt (Some s) = JStr s"

fun jopt_int :: "int option \<Rightarrow> json" where
  "jopt_int None = JNull"
| "jopt_int (Some i) = JInt i"

end
