(* ===== verification/Ip_Address.thy ===== *)
theory Ip_Address
  imports Json "HOL-Library.Word"
begin

text \<open>
  What the sources use of Python's \<open>ipaddress\<close> module: parsing of addresses and networks, network membership,
  the classification properties (private, loopback, link-local, reserved, multicast) and the text form. Addresses
  are 32-bit and 128-bit words; the special-purpose networks are those of Python 3.13, where an IPv4-mapped IPv6
  address is classified as the IPv4 address it maps.
\<close>

datatype ipaddr = V4 "32 word" | V6 "128 word"

datatype ipnet = Net (net_address: ipaddr) (net_prefixlen: nat)

section \<open>Addresses\<close>

definition ascii_digit :: "char \<Rightarrow> bool" where
  "ascii_digit c \<longleftrightarrow> 48 \<le> (of_char c :: nat) \<and> (of_char c :: nat) \<le> 57"

definition int_of_digits :: "string \<Rightarrow> int" where
  "int_of_digits s = foldl (\<lambda>n c. 10 * n + (of_char c - 48)) 0 s"

definition parse_octet :: "string \<Rightarrow> int option" where
  "parse_octet s =
     (if s = [] \<or> \<not> list_all ascii_digit s \<or> length s > 3 \<or> (s \<noteq> ''0'' \<and> hd s = CHR ''0'') then None
      else if int_of_digits s > 255 then None else Some (int_of_digits s))"

definition parse_v4 :: "string \<Rightarrow> 32 word option" where
  "parse_v4 s =
     (case map parse_octet (split_on CHR ''.'' s) of
        [Some a, Some b, Some c, Some d] \<Rightarrow> Some (word_of_int (((a * 256 + b) * 256 + c) * 256 + d))
      | _ \<Rightarrow> None)"

definition hex_value :: "char \<Rightarrow> int option" where
  "hex_value c =
     (let n = (of_char c :: int)
      in if 48 \<le> n \<and> n \<le> 57 then Some (n - 48)
         else if 97 \<le> n \<and> n \<le> 102 then Some (n - 87)
         else if 65 \<le> n \<and> n \<le> 70 then Some (n - 55) else None)"

text \<open>An empty hextet fails too, in \<open>int('', 16)\<close>.\<close>

fun hextet_acc :: "int \<Rightarrow> string \<Rightarrow> int option" where
  "hextet_acc n [] = Some n"
| "hextet_acc n (c # s) = (case hex_value c of None \<Rightarrow> None | Some d \<Rightarrow> hextet_acc (16 * n + d) s)"

definition parse_hextet :: "string \<Rightarrow> int option" where
  "parse_hextet s = (if s = [] \<or> length s > 4 then None else hextet_acc 0 s)"

fun parse_hextets :: "string list \<Rightarrow> int list option" where
  "parse_hextets [] = Some []"
| "parse_hextets (p # ps) =
     (case (parse_hextet p, parse_hextets ps) of (Some h, Some hs) \<Rightarrow> Some (h # hs) | _ \<Rightarrow> None)"

definition word_of_hextets :: "int list \<Rightarrow> 128 word" where
  "word_of_hextets hs = word_of_int (foldl (\<lambda>n h. 65536 * n + h) 0 hs)"

definition hex_digits4 :: "int \<Rightarrow> string" where
  "hex_digits4 n = map (\<lambda>k. hex_digit (nat (n div k mod 16))) [4096, 256, 16, 1]"

text \<open>\<open>'%x' % n\<close> for a 16-bit number: no leading zeros.\<close>

definition show_hex :: "int \<Rightarrow> string" where
  "show_hex n = (if n = 0 then ''0'' else dropWhile (\<lambda>c. c = CHR ''0'') (hex_digits4 n))"

text \<open>A trailing dotted quad becomes two hextets.\<close>

definition v4_suffix :: "string list \<Rightarrow> string list option" where
  "v4_suffix parts =
     (if CHR ''.'' \<in> set (last parts)
      then (case parse_v4 (last parts) of
              None \<Rightarrow> None
            | Some w \<Rightarrow> Some (butlast parts @ [show_hex (uint w div 65536), show_hex (uint w mod 65536)]))
      else Some parts)"

definition skip_indices :: "string list \<Rightarrow> nat list" where
  "skip_indices parts = filter (\<lambda>i. parts ! i = []) [1..<length parts - 1]"

definition parse_parts :: "string list \<Rightarrow> 128 word option" where
  "parse_parts parts =
     (case skip_indices parts of
        [] \<Rightarrow>
          (if length parts \<noteq> 8 \<or> hd parts = [] \<or> last parts = [] then None
           else map_option word_of_hextets (parse_hextets parts))
      | [i] \<Rightarrow>
          (let lo0 = length parts - i - 1;
               hi = (if hd parts = [] then i - 1 else i);
               lo = (if last parts = [] then lo0 - 1 else lo0)
           in if (hd parts = [] \<and> hi \<noteq> 0) \<or> (last parts = [] \<and> lo \<noteq> 0) \<or> hi + lo \<ge> 8 then None
              else (case (parse_hextets (take hi parts), parse_hextets (drop (length parts - lo) parts)) of
                      (Some hs, Some ls) \<Rightarrow> Some (word_of_hextets (hs @ replicate (8 - (hi + lo)) 0 @ ls))
                    | _ \<Rightarrow> None))
      | _ \<Rightarrow> None)"

definition parse_v6_int :: "string \<Rightarrow> 128 word option" where
  "parse_v6_int s =
     (let parts = split_on CHR '':'' s
      in if s = [] \<or> length parts < 3 then None
         else (case v4_suffix parts of
                 None \<Rightarrow> None
               | Some parts' \<Rightarrow> if length parts' > 9 then None else parse_parts parts'))"

text \<open>A scope identifier after \<open>%\<close> must be non-empty and hold no second \<open>%\<close>.\<close>

definition parse_v6 :: "string \<Rightarrow> 128 word option" where
  "parse_v6 s =
     (case split_on CHR ''%'' s of
        [a] \<Rightarrow> parse_v6_int a
      | [a, scope] \<Rightarrow> (if scope = [] then None else parse_v6_int a)
      | _ \<Rightarrow> None)"

definition parse_address :: "string \<Rightarrow> ipaddr option" where
  "parse_address s =
     (if CHR ''/'' \<in> set s then None
      else case parse_v4 s of
             Some w \<Rightarrow> Some (V4 w)
           | None \<Rightarrow> map_option V6 (parse_v6 s))"

text \<open>\<open>ipaddress.ip_address(v)\<close>, \<open>None\<close> standing for its \<open>ValueError\<close>: a string is parsed, an integer is the
  address itself, and the text of any other value is no address.\<close>

fun ip_address :: "json \<Rightarrow> ipaddr option" where
  "ip_address (JStr s) = parse_address s"
| "ip_address (JInt i) =
     (if 0 \<le> i \<and> i < 2 ^ 32 then Some (V4 (word_of_int i))
      else if 0 \<le> i \<and> i < 2 ^ 128 then Some (V6 (word_of_int i)) else None)"
| "ip_address (JBool b) = Some (V4 (if b then 1 else 0))"
| "ip_address _ = None"

section \<open>Networks\<close>

text \<open>The netmask as a prefix length: a number, or for IPv4 a dotted netmask or hostmask.\<close>

definition prefix_of_mask :: "32 word \<Rightarrow> nat option" where
  "prefix_of_mask w = find (\<lambda>n. push_bit (32 - n) (drop_bit (32 - n) (- 1)) = w) [0..<33]"

definition prefix_number :: "int \<Rightarrow> string \<Rightarrow> nat option" where
  "prefix_number m s =
     (if s \<noteq> [] \<and> list_all ascii_digit s \<and> int_of_digits s \<le> m then Some (nat (int_of_digits s)) else None)"

definition prefix_v4 :: "string \<Rightarrow> nat option" where
  "prefix_v4 s =
     (case prefix_number 32 s of
        Some n \<Rightarrow> Some n
      | None \<Rightarrow>
          (case parse_v4 s of
             None \<Rightarrow> None
           | Some w \<Rightarrow> (case prefix_of_mask w of Some n \<Rightarrow> Some n | None \<Rightarrow> prefix_of_mask (- 1 - w))))"

text \<open>\<open>ip_network(s, strict=False)\<close>: the host bits are cleared.\<close>

definition net4 :: "32 word \<Rightarrow> nat \<Rightarrow> ipnet" where
  "net4 w n = Net (V4 (push_bit (32 - n) (drop_bit (32 - n) w))) n"

definition net6 :: "128 word \<Rightarrow> nat \<Rightarrow> ipnet" where
  "net6 w n = Net (V6 (push_bit (128 - n) (drop_bit (128 - n) w))) n"

definition ip_network :: "string \<Rightarrow> ipnet option" where
  "ip_network s =
     (case split_on CHR ''/'' s of
        [a] \<Rightarrow>
          (case parse_v4 a of
             Some w \<Rightarrow> Some (net4 w 32)
           | None \<Rightarrow> map_option (\<lambda>w. net6 w 128) (parse_v6 a))
      | [a, m] \<Rightarrow>
          (case (parse_v4 a, prefix_v4 m) of
             (Some w, Some n) \<Rightarrow> Some (net4 w n)
           | _ \<Rightarrow>
               (case (parse_v6 a, prefix_number 128 m) of
                  (Some w, Some n) \<Rightarrow> Some (net6 w n)
                | _ \<Rightarrow> None))
      | _ \<Rightarrow> None)"

text \<open>\<open>addr in net\<close>: the address, its host bits cleared, is the network address.\<close>

fun in_net :: "ipaddr \<Rightarrow> ipnet \<Rightarrow> bool" where
  "in_net (V4 a) (Net (V4 w) n) = (push_bit (32 - n) (drop_bit (32 - n) a) = w)"
| "in_net (V6 a) (Net (V6 w) n) = (push_bit (128 - n) (drop_bit (128 - n) a) = w)"
| "in_net _ _ = False"

lemma in_net4 [simp]: "in_net (V4 a) (net4 a n)"
  by (simp add: net4_def)

lemma in_net6 [simp]: "in_net (V6 a) (net6 a n)"
  by (simp add: net6_def)

section \<open>Classification\<close>

definition private_v4 :: "ipnet list" where
  "private_v4 =
     [net4 0x00000000 8, net4 0x0A000000 8, net4 0x7F000000 8, net4 0xA9FE0000 16, net4 0xAC100000 12,
      net4 0xC0000000 24, net4 0xC00000AA 31, net4 0xC0000200 24, net4 0xC0A80000 16, net4 0xC6120000 15,
      net4 0xC6336400 24, net4 0xCB007100 24, net4 0xF0000000 4, net4 0xFFFFFFFF 32]"

definition private_v4_exceptions :: "ipnet list" where
  "private_v4_exceptions = [net4 0xC0000009 32, net4 0xC000000A 32]"

definition private_v6 :: "ipnet list" where
  "private_v6 =
     [net6 1 128, net6 0 128, net6 0xFFFF00000000 96, net6 0x0064FF9B000100000000000000000000 48,
      net6 0x01000000000000000000000000000000 64, net6 0x20010000000000000000000000000000 23,
      net6 0x20010DB8000000000000000000000000 32, net6 0x20020000000000000000000000000000 16,
      net6 0x3FFF0000000000000000000000000000 20,
      net6 0xFC000000000000000000000000000000 7, net6 0xFE800000000000000000000000000000 10]"

definition private_v6_exceptions :: "ipnet list" where
  "private_v6_exceptions =
     [net6 0x20010001000000000000000000000001 128, net6 0x20010001000000000000000000000002 128,
      net6 0x20010003000000000000000000000000 32, net6 0x20010004011200000000000000000000 48,
      net6 0x20010020000000000000000000000000 28, net6 0x20010030000000000000000000000000 28]"

definition reserved_v6 :: "ipnet list" where
  "reserved_v6 =
     [net6 0 8, net6 0x01000000000000000000000000000000 8, net6 0x02000000000000000000000000000000 7,
      net6 0x04000000000000000000000000000000 6, net6 0x08000000000000000000000000000000 5,
      net6 0x10000000000000000000000000000000 4, net6 0x40000000000000000000000000000000 3,
      net6 0x60000000000000000000000000000000 3, net6 0x80000000000000000000000000000000 3,
      net6 0xA0000000000000000000000000000000 3, net6 0xC0000000000000000000000000000000 3,
      net6 0xE0000000000000000000000000000000 4, net6 0xF0000000000000000000000000000000 5,
      net6 0xF8000000000000000000000000000000 6, net6 0xFE000000000000000000000000000000 9]"

text \<open>The address that classification looks at.\<close>

fun unmapped :: "ipaddr \<Rightarrow> ipaddr" where
  "unmapped (V4 a) = V4 a"
| "unmapped (V6 a) = (if drop_bit 32 a = 0xFFFF then V4 (ucast a) else V6 a)"

fun private_raw :: "ipaddr \<Rightarrow> bool" where
  "private_raw (V4 a) =
     (list_ex (in_net (V4 a)) private_v4 \<and> \<not> list_ex (in_net (V4 a)) private_v4_exceptions)"
| "private_raw (V6 a) =
     (list_ex (in_net (V6 a)) private_v6 \<and> \<not> list_ex (in_net (V6 a)) private_v6_exceptions)"

fun loopback_raw :: "ipaddr \<Rightarrow> bool" where
  "loopback_raw (V4 a) = in_net (V4 a) (net4 0x7F000000 8)"
| "loopback_raw (V6 a) = (a = 1)"

fun link_local_raw :: "ipaddr \<Rightarrow> bool" where
  "link_local_raw (V4 a) = in_net (V4 a) (net4 0xA9FE0000 16)"
| "link_local_raw (V6 a) = in_net (V6 a) (net6 0xFE800000000000000000000000000000 10)"

fun reserved_raw :: "ipaddr \<Rightarrow> bool" where
  "reserved_raw (V4 a) = in_net (V4 a) (net4 0xF0000000 4)"
| "reserved_raw (V6 a) = list_ex (in_net (V6 a)) reserved_v6"

fun multicast_raw :: "ipaddr \<Rightarrow> bool" where
  "multicast_raw (V4 a) = in_net (V4 a) (net4 0xE0000000 4)"
| "multicast_raw (V6 a) = in_net (V6 a) (net6 0xFF000000000000000000000000000000 8)"

definition is_private :: "ipaddr \<Rightarrow> bool" where
  "is_private a = private_raw (unmapped a)"

definition is_loopback :: "ipaddr \<Rightarrow> bool" where
  "is_loopback a = loopback_raw (unmapped a)"

definition is_link_local :: "ipaddr \<Rightarrow> bool" where
  "is_link_local a = link_local_raw (unmapped a)"

definition is_reserved :: "ipaddr \<Rightarrow> bool" where
  "is_reserved a = reserved_raw (unmapped a)"

definition is_multicast :: "ipaddr \<Rightarrow> bool" where
  "is_multicast a = multicast_raw (unmapped a)"

lemmas ip_class_defs = is_private_def is_loopback_def is_link_local_def is_reserved_def is_multicast_def

section \<open>Text form\<close>

definition octets :: "32 word \<Rightarrow> int list" where
  "octets w = (let n = uint w in [n div 16777216, n div 65536 mod 256, n div 256 mod 256, n mod 256])"

definition hextets :: "128 word \<Rightarrow> int list" where
  "hextets w = map (\<lambda>i. uint w div 65536 ^ i mod 65536) [7, 6, 5, 4, 3, 2, 1, 0]"

text \<open>The first longest run of zero hextets, as (start, length).\<close>

fun zero_run :: "nat \<Rightarrow> int list \<Rightarrow> nat \<times> nat \<Rightarrow> nat \<times> nat \<Rightarrow> nat \<times> nat" where
  "zero_run i [] cur best = best"
| "zero_run i (h # hs) (st, len) best =
     (if h = 0
      then (let cur = (if len = 0 then i else st, len + 1)
            in zero_run (i + 1) hs cur (if snd cur > snd best then cur else best))
      else zero_run (i + 1) hs (0, 0) best)"

definition v6_text :: "128 word \<Rightarrow> string" where
  "v6_text w =
     (let hs = hextets w; (st, len) = zero_run 0 hs (0, 0) (0, 0); parts = map show_hex hs
      in if len > 1
         then join '':'' (take st parts) @ ''::'' @ join '':'' (drop (st + len) parts)
         else join '':'' parts)"

fun ip_text :: "ipaddr \<Rightarrow> string" where
  "ip_text (V4 w) = join ''.'' (map show_int (octets w))"
| "ip_text (V6 w) = v6_text w"

fun net_text :: "ipnet \<Rightarrow> string" where
  "net_text (Net a n) = ip_text a @ ''/'' @ show_nat n"

end
