(* ===== verification/Datetime.thy ===== *)
theory Datetime
  imports Prelude
begin

text \<open>
  Python's timezone-aware UTC datetimes as the sources use them: an instant is the number of microseconds
  since 0001-01-01T00:00:00 UTC; \<open>isoformat\<close> and \<open>fromisoformat\<close> convert between an instant and the text the
  database stores, and the queries compare those texts as strings. The main result is that this comparison is
  the comparison of the instants: \<open>isoformat\<close> is strictly monotone, although it leaves out the fraction of a
  whole second.
\<close>

section \<open>Lexicographic order of concatenations\<close>

lemma lex_append_less:
  fixes a b c d :: string
  assumes "length a = length b"
  shows "a @ c < b @ d \<longleftrightarrow> a < b \<or> (a = b \<and> c < d)"
  using assms by (induction a b rule: list_induct2) auto

lemma lex_append_same [simp]: "a @ c < a @ d \<longleftrightarrow> c < (d::string)"
  using lex_append_less [of a a c d] by auto

section \<open>Fixed-width decimal fields\<close>

fun pad :: "nat \<Rightarrow> int \<Rightarrow> string" where
  "pad 0 n = []"
| "pad (Suc k) n = pad k (n div 10) @ [digit (nat (n mod 10))]"

lemma length_pad [simp]: "length (pad k n) = k"
  by (induction k arbitrary: n) auto

lemma less_digits:
  fixes a b a' b' :: int
  assumes "m = 10 * a + b" "n = 10 * a' + b'" "0 \<le> b" "b < 10" "0 \<le> b'" "b' < 10"
  shows "m < n \<longleftrightarrow> a < a' \<or> (a = a' \<and> b < b')"
  using assms by linarith

lemma pad_less: "0 \<le> m \<Longrightarrow> 0 \<le> n \<Longrightarrow> m < 10 ^ k \<Longrightarrow> n < 10 ^ k \<Longrightarrow> pad k m < pad k n \<longleftrightarrow> m < n"
proof (induction k arbitrary: m n)
  case (Suc k)
  have b: "0 \<le> m div 10" "0 \<le> n div 10" "m div 10 < 10 ^ k" "n div 10 < 10 ^ k"
    using Suc.prems by auto
  have lt: "pad k (m div 10) < pad k (n div 10) \<longleftrightarrow> m div 10 < n div 10"
    "pad k (n div 10) < pad k (m div 10) \<longleftrightarrow> n div 10 < m div 10"
    using Suc.IH b by blast+
  have eq: "pad k (m div 10) = pad k (n div 10) \<longleftrightarrow> m div 10 = n div 10"
    by (metis less_irrefl linorder_less_linear lt)
  have "digit (nat (m mod 10)) < digit (nat (n mod 10)) \<longleftrightarrow> m mod 10 < n mod 10"
    by (subst digit_less) (auto simp: nat_less_iff)
  moreover have "m < n \<longleftrightarrow> m div 10 < n div 10 \<or> (m div 10 = n div 10 \<and> m mod 10 < n mod 10)"
    by (rule less_digits) simp_all
  ultimately show ?case using eq lt by (simp add: lex_append_less)
qed simp

lemma pad_inject: "0 \<le> m \<Longrightarrow> 0 \<le> n \<Longrightarrow> m < 10 ^ k \<Longrightarrow> n < 10 ^ k \<Longrightarrow> pad k m = pad k n \<longleftrightarrow> m = n"
  using pad_less [of m n k] pad_less [of n m k] by (metis linorder_less_linear less_irrefl)

text \<open>Reading a field back: the value of a run of digits, or \<open>None\<close> at any other character.\<close>

fun read_digits :: "int \<Rightarrow> string \<Rightarrow> int option" where
  "read_digits acc [] = Some acc"
| "read_digits acc (c # s) =
     (if 48 \<le> (of_char c :: nat) \<and> (of_char c :: nat) \<le> 57
      then read_digits (acc * 10 + (int (of_char c) - 48)) s else None)"

lemma read_digits_append: "read_digits acc (s @ t) = Option.bind (read_digits acc s) (\<lambda>a. read_digits a t)"
  by (induction s arbitrary: acc) auto

lemma read_digits_pad: "0 \<le> n \<Longrightarrow> n < 10 ^ k \<Longrightarrow> read_digits 0 (pad k n) = Some n"
proof (induction k arbitrary: n)
  case (Suc k)
  have "read_digits 0 (pad k (n div 10)) = Some (n div 10)"
    using Suc.IH [of "n div 10"] Suc.prems by auto
  moreover have "nat (n mod 10) < 10" by (simp add: nat_less_iff)
  ultimately show ?case by (simp add: read_digits_append of_char_digit)
qed simp

section \<open>The calendar\<close>

definition leap :: "int \<Rightarrow> bool" where
  "leap y \<longleftrightarrow> y mod 4 = 0 \<and> (y mod 100 \<noteq> 0 \<or> y mod 400 = 0)"

text \<open>The number of days before January 1st of year \<open>y\<close>, counted from 0001-01-01.\<close>

definition days_before_year :: "int \<Rightarrow> int" where
  "days_before_year y = (let z = y - 1 in z * 365 + z div 4 - z div 100 + z div 400)"

definition month_lengths :: "int \<Rightarrow> int list" where
  "month_lengths y = [31, if leap y then 29 else 28, 31, 30, 31, 30, 31, 31, 30, 31, 30, 31]"

lemma div_pred: "0 < (k::int) \<Longrightarrow> y div k = (y - 1) div k + (if y mod k = 0 then 1 else 0)"
proof (cases "y mod k = 0")
  case True
  assume k: "0 < k"
  have "y - 1 = k * (y div k - 1) + (k - 1)"
    using True mult_div_mod_eq [of k y] by (simp add: right_diff_distrib)
  from int_div_pos_eq [OF this] k True show ?thesis by simp
next
  case False
  assume k: "0 < k"
  have "0 < y mod k" using False k by (simp add: less_le)
  have "y - 1 = k * (y div k) + (y mod k - 1)" using mult_div_mod_eq [of k y] by simp
  from int_div_pos_eq [OF this] k False pos_mod_bound [OF k, of y] \<open>0 < y mod k\<close> show ?thesis by simp
qed

lemma leap_step:
  fixes a b c z :: int
  assumes "a' = a + (if p then 1 else 0)" "b' = b + (if q then 1 else 0)" "c' = c + (if r then 1 else 0)"
    and "r \<longrightarrow> q" "q \<longrightarrow> p"
  shows "(z + 1) * 365 + a' - b' + c' = (z * 365 + a - b + c) + (if p \<and> (\<not> q \<or> r) then 366 else 365)"
  using assms by (cases p; cases q; cases r) (simp_all add: distrib_right)

lemma days_before_year_Suc: "days_before_year (y + 1) = days_before_year y + (if leap y then 366 else 365)"
proof -
  have "y mod 400 = 0 \<longrightarrow> y mod 100 = 0" "y mod 100 = 0 \<longrightarrow> y mod 4 = 0"
    using dvd_trans [of 100 400 y] dvd_trans [of 4 100 y] by (simp_all add: dvd_eq_mod_eq_0)
  note step = leap_step [OF div_pred [OF zero_less_numeral] div_pred [OF zero_less_numeral]
      div_pred [OF zero_less_numeral] this, of "y - 1"]
  show ?thesis
    unfolding days_before_year_def Let_def leap_def using step
    by (simp only: diff_add_cancel add_diff_cancel_right')
qed

lemma sum_month_lengths: "sum_list (month_lengths y) = (if leap y then 366 else 365)"
  by (simp add: month_lengths_def)

function year_from :: "int \<Rightarrow> int \<Rightarrow> int" where
  "year_from y d = (if days_before_year (y + 1) \<le> d then year_from (y + 1) d else y)"
  by pat_completeness auto
termination
  by (relation "measure (\<lambda>(y, d). nat (d + 1 - days_before_year y))") (auto simp: days_before_year_Suc split: if_splits)

declare year_from.simps [simp del]

text \<open>A first guess that is not too late, then at most a few steps: every year has at most 366 days.\<close>

definition year_of :: "int \<Rightarrow> int" where
  "year_of d = year_from (d div 366 + 1) d"

fun month_day :: "int \<Rightarrow> int list \<Rightarrow> int \<Rightarrow> int \<times> int" where
  "month_day m [] d = (m, d + 1)"
| "month_day m (l # ls) d = (if d < l then (m, d + 1) else month_day (m + 1) ls (d - l))"

definition ymd :: "int \<Rightarrow> int \<times> int \<times> int" where
  "ymd d = (let y = year_of d in (y, month_day 1 (month_lengths y) (d - days_before_year y)))"

lemma year_from_bounds:
  "days_before_year y \<le> d \<Longrightarrow>
     days_before_year (year_from y d) \<le> d \<and> d < days_before_year (year_from y d + 1) \<and> y \<le> year_from y d"
proof (induction y d rule: year_from.induct)
  case (1 y d)
  then show ?case by (subst (1 2 3) year_from.simps) force
qed

lemma days_before_year_le: "1 \<le> y \<Longrightarrow> days_before_year y \<le> (y - 1) * 366"
proof -
  have "(y - 1) div 400 \<le> (y - 1) div 100" if "1 \<le> y" using that by (intro zdiv_mono2) auto
  moreover have "(y - 1) div 4 \<le> y - 1" if "1 \<le> y" using that by simp
  ultimately show "1 \<le> y \<Longrightarrow> ?thesis" by (simp add: days_before_year_def Let_def)
qed

lemma year_of_bounds:
  assumes "0 \<le> d"
  shows "days_before_year (year_of d) \<le> d \<and> d < days_before_year (year_of d + 1) \<and> 1 \<le> year_of d"
proof -
  have g: "days_before_year (d div 366 + 1) \<le> d"
    using days_before_year_le [of "d div 366 + 1"] assms mult_div_mod_eq [of 366 d] pos_mod_sign [of 366 d]
    by (simp add: pos_imp_zdiv_nonneg_iff)
  have "0 \<le> d div 366" using assms by simp
  with year_from_bounds [OF g] show ?thesis by (auto simp: year_of_def)
qed

lemma days_before_year_mono: "y \<le> z \<Longrightarrow> days_before_year y \<le> days_before_year z"
proof (induction z rule: int_ge_induct)
  case (step z)
  then show ?case by (simp add: days_before_year_Suc split: if_splits)
qed simp

lemma year_of_mono: "0 \<le> d \<Longrightarrow> d \<le> e \<Longrightarrow> year_of d \<le> year_of e"
  using year_of_bounds [of d] year_of_bounds [of e] days_before_year_mono [of "year_of e + 1" "year_of d"]
  by linarith

text \<open>Within a year, month and day advance together, lexicographically.\<close>

lemma month_day_ge: "0 \<le> d \<Longrightarrow> m \<le> fst (month_day m ls d)"
proof (induction ls arbitrary: m d)
  case (Cons l ls)
  from Cons.IH [of "d - l" "m + 1"] Cons.prems show ?case by auto
qed simp

lemma month_day_mono:
  "0 \<le> d \<Longrightarrow> d < e \<Longrightarrow>
     fst (month_day m ls d) < fst (month_day m ls e) \<or>
     fst (month_day m ls d) = fst (month_day m ls e) \<and> snd (month_day m ls d) < snd (month_day m ls e)"
proof (induction ls arbitrary: m d e)
  case (Cons l ls)
  then show ?case
    using month_day_ge [of "e - l" "m + 1" ls] Cons.IH [of "d - l" "e - l" "m + 1"] by (auto split: if_splits)
qed simp

lemma month_day_range:
  "0 \<le> d \<Longrightarrow> d < sum_list ls \<Longrightarrow> \<forall>l\<in>set ls. l \<le> 31 \<Longrightarrow>
     m \<le> fst (month_day m ls d) \<and> fst (month_day m ls d) < m + int (length ls) \<and>
     1 \<le> snd (month_day m ls d) \<and> snd (month_day m ls d) \<le> 31"
proof (induction ls arbitrary: m d)
  case (Cons l ls)
  show ?case
  proof (cases "d < l")
    case False
    have "m + 1 \<le> fst (month_day (m + 1) ls (d - l)) \<and>
        fst (month_day (m + 1) ls (d - l)) < m + 1 + int (length ls) \<and>
        1 \<le> snd (month_day (m + 1) ls (d - l)) \<and> snd (month_day (m + 1) ls (d - l)) \<le> 31"
      by (rule Cons.IH) (use False Cons.prems in auto)
    with False show ?thesis by simp
  qed (use Cons.prems in auto)
qed simp

lemma ymd_range:
  assumes "0 \<le> d" "ymd d = (y, m, dd)"
  shows "1 \<le> y \<and> 1 \<le> m \<and> m \<le> 12 \<and> 1 \<le> dd \<and> dd \<le> 31"
proof -
  have y: "y = year_of d" "(m, dd) = month_day 1 (month_lengths y) (d - days_before_year y)"
    using assms(2) by (auto simp: ymd_def Let_def)
  have "d - days_before_year y < sum_list (month_lengths y)" "0 \<le> d - days_before_year y" "1 \<le> y"
    using year_of_bounds [OF assms(1)] y(1) by (auto simp: sum_month_lengths days_before_year_Suc)
  moreover have "\<forall>l\<in>set (month_lengths y). l \<le> 31" "length (month_lengths y) = 12"
    by (auto simp: month_lengths_def)
  ultimately show ?thesis
    using month_day_range [of "d - days_before_year y" "month_lengths y" 1] y(2) [symmetric] by simp
qed

lemma ymd_mono:
  assumes "0 \<le> d" "d < e" "ymd d = (y, m, dd)" "ymd e = (y', m', dd')"
  shows "y < y' \<or> (y = y' \<and> (m < m' \<or> (m = m' \<and> dd < dd')))"
proof (cases "y = y'")
  case True
  then have "month_day 1 (month_lengths y) (d - days_before_year y) = (m, dd)"
    "month_day 1 (month_lengths y) (e - days_before_year y) = (m', dd')" "y = year_of d"
    using assms(3,4) by (auto simp: ymd_def Let_def)
  with month_day_mono [of "d - days_before_year y" "e - days_before_year y" 1 "month_lengths y"] True
  show ?thesis using year_of_bounds [OF assms(1)] assms(2) by auto
next
  case False
  with year_of_mono [of d e] assms show ?thesis by (auto simp: ymd_def Let_def)
qed

lemma month_day_inverse:
  "0 \<le> d \<Longrightarrow> d < sum_list ls \<Longrightarrow> month_day m ls d = (m', dd) \<Longrightarrow>
     sum_list (take (nat (m' - m)) ls) + dd - 1 = d"
proof (induction ls arbitrary: m d)
  case (Cons l ls)
  show ?case
  proof (cases "d < l")
    case False
    have "month_day (m + 1) ls (d - l) = (m', dd)" using False Cons.prems by simp
    moreover from this have "m + 1 \<le> m'" using month_day_ge [of "d - l" "m + 1" ls] False by simp
    then have "nat (m' - m) = Suc (nat (m' - (m + 1)))" by simp
    ultimately show ?thesis using Cons.IH [of "d - l" "m + 1"] False Cons.prems by simp
  qed (use Cons.prems in auto)
qed simp

definition days_of :: "int \<Rightarrow> int \<Rightarrow> int \<Rightarrow> int" where
  "days_of y m d = days_before_year y + sum_list (take (nat (m - 1)) (month_lengths y)) + d - 1"

lemma days_of_ymd:
  assumes "0 \<le> d" "ymd d = (y, m, dd)"
  shows "days_of y m dd = d"
proof -
  have y: "y = year_of d" "month_day 1 (month_lengths y) (d - days_before_year y) = (m, dd)"
    using assms(2) by (auto simp: ymd_def Let_def)
  have "d - days_before_year y < sum_list (month_lengths y)" "0 \<le> d - days_before_year y"
    using year_of_bounds [OF assms(1)] y(1) by (auto simp: sum_month_lengths days_before_year_Suc)
  from month_day_inverse [OF this(2,1) y(2)] show ?thesis by (simp add: days_of_def)
qed

section \<open>Instants\<close>

type_synonym instant = int

definition sec_us :: int where
  "sec_us = 1000000"

definition hour_us :: int where
  "hour_us = 3600 * 1000000"

definition day_us :: int where
  "day_us = 86400 * 1000000"

lemmas us_defs = sec_us_def hour_us_def day_us_def

text \<open>The range of Python's \<open>datetime\<close>: years 1 to 9999.\<close>

definition in_range :: "instant \<Rightarrow> bool" where
  "in_range t \<longleftrightarrow> 0 \<le> t \<and> t < days_before_year 10000 * day_us"

text \<open>\<open>t - timedelta\<close>: an \<open>OverflowError\<close> outside the range.\<close>

definition OverflowError :: exn where
  "OverflowError = Exn ''OverflowError'' ''date value out of range'' None"

definition dt_sub :: "instant \<Rightarrow> int \<Rightarrow> instant res" where
  "dt_sub t delta = (if in_range (t - delta) then Inr (t - delta) else Inl OverflowError)"

text \<open>\<open>t.replace(hour=h, minute=0, second=0, microsecond=0)\<close>.\<close>

definition at_hour :: "instant \<Rightarrow> int \<Rightarrow> instant res" where
  "at_hour t h =
     (if 0 \<le> h \<and> h \<le> 23 then Inr (t div day_us * day_us + h * hour_us)
      else Inl (Exn ''ValueError'' ''hour must be in 0..23'' None))"

definition date_text :: "int \<Rightarrow> string" where
  "date_text n = (let (y, m, d) = ymd n in pad 4 y @ ''-'' @ pad 2 m @ ''-'' @ pad 2 d)"

definition time_text :: "int \<Rightarrow> string" where
  "time_text s = pad 2 (s div 3600) @ '':'' @ pad 2 (s div 60 mod 60) @ '':'' @ pad 2 (s mod 60)"

definition frac_text :: "int \<Rightarrow> string" where
  "frac_text us = (if us = 0 then [] else ''.'' @ pad 6 us)"

definition isoformat :: "instant \<Rightarrow> string" where
  "isoformat t =
     (let n = t div day_us; s = t mod day_us div sec_us; us = t mod sec_us
      in date_text n @ ''T'' @ time_text s @ frac_text us @ ''+00:00'')"

lemma year_of_less: "0 \<le> n \<Longrightarrow> n < days_before_year 10000 \<Longrightarrow> year_of n < 10000"
  using year_of_bounds [of n] days_before_year_mono [of 10000 "year_of n"] by linarith

lemma date_text_mono:
  assumes "0 \<le> n" "n < k" "k < days_before_year 10000"
  shows "date_text n < date_text k"
proof -
  obtain y m d y' m' d' where e: "ymd n = (y, m, d)" "ymd k = (y', m', d')" by (metis prod_cases3)
  have r: "1 \<le> y \<and> 1 \<le> m \<and> m \<le> 12 \<and> 1 \<le> d \<and> d \<le> 31" "1 \<le> y' \<and> 1 \<le> m' \<and> m' \<le> 12 \<and> 1 \<le> d' \<and> d' \<le> 31"
    using ymd_range [OF assms(1) e(1)] ymd_range [OF _ e(2)] assms by simp_all
  have "y < 10000" "y' < 10000"
    using e assms year_of_less [of n] year_of_less [of k] by (simp_all add: ymd_def Let_def)
  with r ymd_mono [OF assms(1,2) e] show ?thesis
    by (auto simp: date_text_def e lex_append_less pad_less pad_inject)
qed

lemma length_date_text [simp]: "length (date_text n) = 10"
  by (simp add: date_text_def split: prod.splits)

lemma length_time_text [simp]: "length (time_text s) = 8"
  by (simp add: time_text_def)

lemma less_sixties:
  fixes a b a' b' :: int
  assumes "m = 60 * a + b" "n = 60 * a' + b'" "0 \<le> b" "b < 60" "0 \<le> b'" "b' < 60"
  shows "m < n \<longleftrightarrow> a < a' \<or> (a = a' \<and> b < b')"
  using assms by linarith

lemma sixties_sum:
  fixes h :: int
  shows "s = 60 * m + x \<Longrightarrow> m = 60 * h + y \<Longrightarrow> h * 3600 + y * 60 + x = s"
  by simp

lemma time_fields:
  fixes s r :: int
  assumes "0 \<le> s" "s < r" "r < 86400"
  shows "s div 3600 < r div 3600 \<or>
     s div 3600 = r div 3600 \<and> (s div 60 mod 60 < r div 60 mod 60 \<or>
       s div 60 mod 60 = r div 60 mod 60 \<and> s mod 60 < r mod 60)"
proof -
  have h: "x div 3600 = x div 60 div 60" for x :: int by (simp flip: zdiv_zmult2_eq)
  have split: "x < x' \<Longrightarrow> x div 60 < x' div 60 \<or> x div 60 = x' div 60 \<and> x mod 60 < x' mod 60" for x x' :: int
    using less_sixties [of x "x div 60" "x mod 60" x' "x' div 60" "x' mod 60"] by simp
  from split [OF assms(2)] split [of "s div 60" "r div 60"] show ?thesis unfolding h by metis
qed

lemma time_text_mono: "0 \<le> s \<Longrightarrow> s < r \<Longrightarrow> r < 86400 \<Longrightarrow> time_text s < time_text r"
proof -
  assume a: "0 \<le> s" "s < r" "r < 86400"
  have b: "0 \<le> x div 3600 \<and> x div 3600 < 100 \<and> 0 \<le> x div 60 mod 60 \<and> x div 60 mod 60 < 100
      \<and> 0 \<le> x mod 60 \<and> x mod 60 < 100" if "0 \<le> x" "x < 86400" for x :: int
    using that pos_mod_bound [of 60 "x div 60"] pos_mod_bound [of 60 x] by (auto simp del: pos_mod_bound)
  from time_fields [OF a] b [of s] b [of r] a show ?thesis
    by (auto simp: time_text_def lex_append_less pad_less pad_inject)
qed

lemma frac_text_mono: "0 \<le> u \<Longrightarrow> u < v \<Longrightarrow> v < 1000000 \<Longrightarrow> frac_text u @ ''+00:00'' < frac_text v @ ''+00:00''"
  by (auto simp: frac_text_def lex_append_less pad_less less_char_def)

lemma instant_fields:
  assumes "in_range t"
  shows "0 \<le> t div day_us \<and> t div day_us < days_before_year 10000 \<and>
     0 \<le> t mod day_us div sec_us \<and> t mod day_us div sec_us < 86400 \<and> 0 \<le> t mod sec_us \<and> t mod sec_us < 1000000"
proof -
  have "0 \<le> t mod day_us" "t mod day_us < day_us" by (simp_all add: day_us_def)
  then have "0 \<le> t mod day_us div sec_us" "t mod day_us div sec_us < 86400" by (simp_all add: us_defs)
  moreover have "t div day_us * day_us < days_before_year 10000 * day_us"
    using assms div_mult_mod_eq [of t day_us] \<open>0 \<le> t mod day_us\<close> unfolding in_range_def by linarith
  then have "0 \<le> t div day_us" "t div day_us < days_before_year 10000"
    using assms by (simp_all add: in_range_def day_us_def pos_imp_zdiv_nonneg_iff)
  moreover have "0 \<le> t mod sec_us" "t mod sec_us < 1000000" by (simp_all add: sec_us_def)
  ultimately show ?thesis by blast
qed

lemma instant_decomp: "t = t div day_us * day_us + t mod day_us div sec_us * sec_us + t mod sec_us"
proof -
  have "t mod day_us mod sec_us = t mod sec_us" by (simp add: us_defs mod_mod_cancel)
  then show ?thesis
    using div_mult_mod_eq [of t day_us] div_mult_mod_eq [of "t mod day_us" sec_us] by linarith
qed

lemma lex_fields:
  fixes t u a b c a' b' c' :: int
  assumes "t = a * day_us + b * sec_us + c" "u = a' * day_us + b' * sec_us + c'"
    and "0 \<le> b" "b < 86400" "0 \<le> c" "c < 1000000" "0 \<le> b'" "b' < 86400" "0 \<le> c'" "c' < 1000000" "t < u"
  shows "a < a' \<or> a = a' \<and> (b < b' \<or> b = b' \<and> c < c')"
  using assms unfolding us_defs by linarith

lemma isoformat_mono:
  assumes "in_range t" "in_range u" "t < u"
  shows "isoformat t < isoformat u"
proof -
  note ft = instant_fields [OF assms(1)] and fu = instant_fields [OF assms(2)]
  have "t div day_us < u div day_us \<or> t div day_us = u div day_us \<and>
     (t mod day_us div sec_us < u mod day_us div sec_us \<or>
      t mod day_us div sec_us = u mod day_us div sec_us \<and> t mod sec_us < u mod sec_us)"
    by (rule lex_fields [OF instant_decomp instant_decomp]) (use ft fu assms in auto)
  then show ?thesis
    using date_text_mono [of "t div day_us" "u div day_us"] frac_text_mono [of "t mod sec_us" "u mod sec_us"]
      time_text_mono [of "t mod day_us div sec_us" "u mod day_us div sec_us"] ft fu
    by (auto simp: isoformat_def Let_def lex_append_less)
qed

text \<open>String comparison of stored timestamps is comparison of instants.\<close>

lemma isoformat_less: "in_range t \<Longrightarrow> in_range u \<Longrightarrow> isoformat t < isoformat u \<longleftrightarrow> t < u"
  using isoformat_mono [of t u] isoformat_mono [of u t] by (metis less_asym linorder_less_linear)

lemma isoformat_le: "in_range t \<Longrightarrow> in_range u \<Longrightarrow> isoformat t \<le> isoformat u \<longleftrightarrow> t \<le> u"
  using isoformat_less [of u t] by (simp add: not_less [symmetric])

lemma isoformat_inject: "in_range t \<Longrightarrow> in_range u \<Longrightarrow> isoformat t = isoformat u \<longleftrightarrow> t = u"
  by (metis isoformat_less less_irrefl linorder_less_linear)

section \<open>Reading a timestamp back\<close>

text \<open>\<open>datetime.fromisoformat\<close> on the texts \<open>isoformat\<close> writes, with and without a fraction of six digits.
  Python accepts further formats, which never reach the calls modelled here.\<close>

definition field :: "nat \<Rightarrow> nat \<Rightarrow> string \<Rightarrow> int option" where
  "field a k s = read_digits 0 (take k (drop a s))"

definition read_date :: "string \<Rightarrow> int option" where
  "read_date s =
     (case (field 0 4 s, field 5 2 s, field 8 2 s) of
        (Some y, Some m, Some d) \<Rightarrow>
          if s ! 4 = CHR ''-'' \<and> s ! 7 = CHR ''-'' \<and> 1 \<le> y \<and> 1 \<le> m \<and> m \<le> 12 \<and> 1 \<le> d
             \<and> d \<le> month_lengths y ! nat (m - 1)
          then Some (days_of y m d) else None
      | _ \<Rightarrow> None)"

definition read_time :: "string \<Rightarrow> int option" where
  "read_time s =
     (case (field 0 2 s, field 3 2 s, field 6 2 s) of
        (Some h, Some m, Some sec) \<Rightarrow>
          if s ! 2 = CHR '':'' \<and> s ! 5 = CHR '':'' \<and> h < 24 \<and> m < 60 \<and> sec < 60
          then Some (h * 3600 + m * 60 + sec) else None
      | _ \<Rightarrow> None)"

definition read_fraction :: "string \<Rightarrow> int option" where
  "read_fraction s =
     (if s = [] then Some 0 else if length s = 7 \<and> s ! 0 = CHR ''.'' then field 1 6 s else None)"

definition ValueError :: "string \<Rightarrow> exn" where
  "ValueError m = Exn ''ValueError'' m None"

definition fromisoformat :: "string \<Rightarrow> instant res" where
  "fromisoformat s =
     (let frac = take (length s - 25) (drop 19 s)
      in case (read_date (take 10 s), read_time (take 8 (drop 11 s)), read_fraction frac) of
           (Some n, Some sec, Some us) \<Rightarrow>
             if 25 \<le> length s \<and> s ! 10 = CHR ''T'' \<and> drop (length s - 6) s = ''+00:00''
             then Inr (n * day_us + sec * sec_us + us)
             else Inl (ValueError (''Invalid isoformat string: '' @ s))
         | _ \<Rightarrow> Inl (ValueError (''Invalid isoformat string: '' @ s)))"

lemma month_day_len:
  "0 \<le> d \<Longrightarrow> d < sum_list ls \<Longrightarrow> month_day m ls d = (m', dd) \<Longrightarrow> dd \<le> ls ! nat (m' - m)"
proof (induction ls arbitrary: m d)
  case (Cons l ls)
  show ?case
  proof (cases "d < l")
    case False
    have "month_day (m + 1) ls (d - l) = (m', dd)" using False Cons.prems by simp
    moreover from this have "m + 1 \<le> m'" using month_day_ge [of "d - l" "m + 1" ls] False by simp
    then have "nat (m' - m) = Suc (nat (m' - (m + 1)))" by simp
    ultimately show ?thesis using Cons.IH [of "d - l" "m + 1"] False Cons.prems by simp
  qed (use Cons.prems in auto)
qed simp

lemma ymd_len:
  assumes "0 \<le> d" "ymd d = (y, m, dd)"
  shows "dd \<le> month_lengths y ! nat (m - 1)"
proof -
  have y: "y = year_of d" "month_day 1 (month_lengths y) (d - days_before_year y) = (m, dd)"
    using assms(2) by (auto simp: ymd_def Let_def)
  have "d - days_before_year y < sum_list (month_lengths y)" "0 \<le> d - days_before_year y"
    using year_of_bounds [OF assms(1)] y(1) by (auto simp: sum_month_lengths days_before_year_Suc)
  from month_day_len [OF this(2,1) y(2)] show ?thesis .
qed

lemma nth_append_pad [simp]: "length xs = n \<Longrightarrow> (xs @ c # ys) ! n = c"
  by auto

lemma read_date_text:
  assumes "0 \<le> n" "n < days_before_year 10000"
  shows "read_date (date_text n) = Some n"
proof -
  obtain y m d where e: "ymd n = (y, m, d)" by (metis prod_cases3)
  have "y < 10000" using e assms year_of_less [of n] by (simp add: ymd_def Let_def)
  with ymd_range [OF assms(1) e] ymd_len [OF assms(1) e] days_of_ymd [OF assms(1) e] show ?thesis
    by (simp add: read_date_def date_text_def e field_def read_digits_pad nth_append)
qed

lemma read_time_fields:
  "0 \<le> h \<Longrightarrow> h < 24 \<Longrightarrow> 0 \<le> m \<Longrightarrow> m < 60 \<Longrightarrow> 0 \<le> x \<Longrightarrow> x < 60 \<Longrightarrow>
     read_time (pad 2 h @ '':'' @ pad 2 m @ '':'' @ pad 2 x) = Some (h * 3600 + m * 60 + x)"
  by (simp add: read_time_def field_def read_digits_pad nth_append)

lemma hour_bounds: "0 \<le> (s::int) \<Longrightarrow> s < 86400 \<Longrightarrow> 0 \<le> s div 3600 \<and> s div 3600 < 24"
  by auto

lemma read_time_text:
  assumes "0 \<le> s" "s < 86400"
  shows "read_time (time_text s) = Some s"
proof -
  have e: "s div 60 div 60 = s div 3600" by (simp flip: zdiv_zmult2_eq)
  have "s div 60 div 60 * 3600 + s div 60 mod 60 * 60 + s mod 60 = s"
    by (rule sixties_sum [of s "s div 60"]) simp_all
  with e have "s div 3600 * 3600 + s div 60 mod 60 * 60 + s mod 60 = s" by (simp only:)
  moreover have "read_time (time_text s) = Some (s div 3600 * 3600 + s div 60 mod 60 * 60 + s mod 60)"
    unfolding time_text_def using hour_bounds [OF assms] by (intro read_time_fields) simp_all
  ultimately show ?thesis by (simp only:)
qed

lemma read_fraction_text: "0 \<le> us \<Longrightarrow> us < 1000000 \<Longrightarrow> read_fraction (frac_text us) = Some us"
  by (simp add: read_fraction_def frac_text_def field_def read_digits_pad)

lemma length_frac_text: "length (frac_text us) \<le> 7"
  by (simp add: frac_text_def)

lemma fromisoformat_isoformat:
  assumes "in_range t"
  shows "fromisoformat (isoformat t) = Inr t"
proof -
  note f = instant_fields [OF assms]
  let ?d = "date_text (t div day_us)" and ?t = "time_text (t mod day_us div sec_us)" and ?f = "frac_text (t mod sec_us)"
  have s: "isoformat t = ?d @ ''T'' @ ?t @ ?f @ ''+00:00''" by (simp add: isoformat_def Let_def)
  have "take 10 (isoformat t) = ?d" "take 8 (drop 11 (isoformat t)) = ?t"
    "take (length (isoformat t) - 25) (drop 19 (isoformat t)) = ?f" "isoformat t ! 10 = CHR ''T''"
    "25 \<le> length (isoformat t)"
    unfolding s by (simp_all add: nth_append)
  moreover have "drop (length (isoformat t) - 6) (isoformat t) = ''+00:00''"
    using drop_append [of "length (?d @ ''T'' @ ?t @ ?f)" "?d @ ''T'' @ ?t @ ?f" "''+00:00''"] unfolding s by simp
  ultimately show ?thesis
    using f instant_decomp [of t]
    by (simp add: fromisoformat_def read_date_text read_time_text read_fraction_text)
qed

end
