(* ===== verification/Suricata_Config.thy ===== *)
theory Suricata_Config
  imports Ip_Address Errors Datetime
begin

text \<open>
  Reading \<open>suricata.yaml\<close>: \<open>src/infra/suricata_config\<close>. The file system, the YAML parser and the hash are outside
  the program; the record \<open>config_env\<close> holds what the code asks of them. YAML documents are \<^typ>\<open>json\<close> values.
  Includes are followed to a fixed depth, so loading always returns; address groups may refer to each other with
  \<open>$NAME\<close> and are expanded in a bounded number of passes.
\<close>

section \<open>The environment\<close>

datatype read_result = Text string | OsError string | DecodeError string

record config_env =
  env_exists :: "string \<Rightarrow> bool"
  env_is_file :: "string \<Rightarrow> bool"
  env_read_text :: "string \<Rightarrow> read_result"
  env_read_bytes :: "string \<Rightarrow> read_result"
  env_safe_load :: "string \<Rightarrow> json res"
  env_resolve :: "string \<Rightarrow> string \<Rightarrow> string"
  env_parent :: "string \<Rightarrow> string"
  env_sha256 :: "string \<Rightarrow> string"
  env_line_count :: "string \<Rightarrow> int option"
  env_mtime :: "string \<Rightarrow> rat"

section \<open>Data\<close>

record rule_file_summary =
  rf_path :: string
  rf_exists :: bool
  rf_line_count :: "int option"
  rf_mtime :: "rat option"

record suricata_config =
  home_net :: "ipnet list"
  external_net :: "ipnet list"
  server_groups :: "(string \<times> ipnet list) list"
  port_groups :: "(string \<times> string) list"
  rule_file_paths :: "string list"
  rule_file_summaries :: "(string \<times> rule_file_summary) list"
  config_file_paths_read :: "string list"
  read_at :: instant
  raw_yaml_hash :: string

definition membership_for_ip :: "suricata_config \<Rightarrow> json \<Rightarrow> string list" where
  "membership_for_ip cfg ip =
     (case ip_address ip of
        None \<Rightarrow> []
      | Some addr \<Rightarrow>
          (if list_ex (in_net addr) (home_net cfg) then [''HOME_NET''] else [''EXTERNAL_NET''])
          @ map fst (filter (\<lambda>g. list_ex (in_net addr) (snd g)) (server_groups cfg)))"

definition to_prompt_context :: "suricata_config \<Rightarrow> string" where
  "to_prompt_context cfg =
     join [CHR 0x0A]
       ([''## Suricata Network Configuration'',
         ''HOME_NET: '' @ (let t = join '', '' (map net_text (home_net cfg)) in if t = [] then ''(not set)'' else t),
         ''EXTERNAL_NET: '' @ (let t = join '', '' (map net_text (external_net cfg))
            in if t = [] then ''any (not $HOME_NET)'' else t)]
        @ (if server_groups cfg \<noteq> []
           then ([CHR 0x0A] @ ''Server groups:'')
                # map (\<lambda>(name, nets). ''  '' @ name @ '': ''
                        @ (if nets \<noteq> [] then join '', '' (map net_text nets) else ''any''))
                    (sort_key fst (server_groups cfg))
           else [])
        @ [[CHR 0x0A] @ ''Config read at: '' @ isoformat (read_at cfg)])"

section \<open>Loading with includes\<close>

definition MAX_INCLUDE_DEPTH :: nat where
  "MAX_INCLUDE_DEPTH = 5"

definition MAX_VAR_EXPANSION_PASSES :: nat where
  "MAX_VAR_EXPANSION_PASSES = 10"

definition ParseError :: "string \<Rightarrow> exn" where
  "ParseError m = Exn ''ParseError'' m None"

text \<open>\<open>_deep_merge\<close>: the override wins, dictionaries are merged recursively.\<close>

function deep_merge :: "jdict \<Rightarrow> jdict \<Rightarrow> jdict" where
  "deep_merge base [] = base"
| "deep_merge base ((key, val) # override) =
     deep_merge
       (case (map_of base key, val) of
          (Some (JObj b), JObj v) \<Rightarrow> dict_set key (JObj (deep_merge b v)) base
        | _ \<Rightarrow> dict_set key val base)
       override"
  by pat_completeness auto
termination
  by (relation "measure (\<lambda>(b, ov). size (JObj ov))") auto

definition include_list :: "json \<Rightarrow> json list res" where
  "include_list v = (case v of JStr s \<Rightarrow> Inr [JStr s] | _ \<Rightarrow> jiter v)"

definition read_yaml :: "config_env \<Rightarrow> string \<Rightarrow> jdict res" where
  "read_yaml env path =
     (case env_read_text env path of
        OsError m \<Rightarrow> Inl (ParseError (''cannot read '' @ path @ '': '' @ m))
      | DecodeError m \<Rightarrow> Inl (Exn ''UnicodeDecodeError'' m None)
      | Text raw \<Rightarrow>
          (case env_safe_load env raw of
             Inl e \<Rightarrow> Inl (ParseError (''YAML parse error in '' @ path @ '': '' @ exn_msg e))
           | Inr v \<Rightarrow>
               (case jor v (JObj []) of
                  JObj d \<Rightarrow> Inr d
                | _ \<Rightarrow> Inl (ParseError (path @ '' does not contain a YAML mapping at root'')))))"

function load_yaml_with_includes :: "config_env \<Rightarrow> string \<Rightarrow> nat \<Rightarrow> (jdict \<times> string list) res"
  and load_includes :: "config_env \<Rightarrow> string \<Rightarrow> nat \<Rightarrow> json list \<Rightarrow> jdict \<times> string list \<Rightarrow> (jdict \<times> string list) res"
where
  "load_yaml_with_includes env path depth =
     (if depth > MAX_INCLUDE_DEPTH
      then Inl (ParseError (''include: depth limit ('' @ show_nat MAX_INCLUDE_DEPTH @ '') exceeded at '' @ path))
      else case read_yaml env path of
             Inl e \<Rightarrow> Inl e
           | Inr data \<Rightarrow>
               (let includes = dget data ''include'' JNull; data = dict_del ''include'' data
                in if truthy includes
                   then (case include_list includes of
                           Inl e \<Rightarrow> Inl e
                         | Inr incs \<Rightarrow> load_includes env (env_parent env path) (depth + 1) incs (data, [path]))
                   else Inr (data, [path])))"
| "load_includes env dir depth [] acc = Inr acc"
| "load_includes env dir depth (inc # incs) (data, paths) =
     (case inc of
        JStr p \<Rightarrow>
          (case load_yaml_with_includes env (env_resolve env dir p) depth of
             Inl e \<Rightarrow> Inl e
           | Inr (inc_data, inc_paths) \<Rightarrow>
               load_includes env dir depth incs (deep_merge data inc_data, paths @ inc_paths))
      | _ \<Rightarrow> Inl (TypeError ''unsupported operand type(s) for /: PosixPath''))"
  by pat_completeness auto
termination
  by (relation "measures [\<lambda>x. case x of Inl (_, _, d) \<Rightarrow> 6 - d | Inr (_, _, d, _, _) \<Rightarrow> 6 - d,
                          \<lambda>x. case x of Inl _ \<Rightarrow> 0 | Inr (_, _, _, incs, _) \<Rightarrow> Suc (length incs)]")
     (auto simp: MAX_INCLUDE_DEPTH_def)

section \<open>Address groups\<close>

definition is_var_char :: "char \<Rightarrow> bool" where
  "is_var_char c \<longleftrightarrow> ascii_digit c \<or> c = CHR ''_'' \<or> (65 \<le> (of_char c :: nat) \<and> (of_char c :: nat) \<le> 90)"

definition unbracket :: "string \<Rightarrow> string" where
  "unbracket s = (if startswith s ''['' \<and> endswith s '']'' then butlast (tl s) else s)"

definition entries_of :: "string \<Rightarrow> string list" where
  "entries_of s = filter (\<lambda>e. e \<noteq> []) (map strip (split_on CHR '','' s))"

text \<open>The replacement of one match; \<open>None\<close> for an unknown variable, whose text stays.\<close>

definition replacer :: "bool \<Rightarrow> string \<Rightarrow> (string \<times> string) list \<Rightarrow> string option" where
  "replacer negate var vars =
     (case map_of vars var of
        None \<Rightarrow> None
      | Some v \<Rightarrow>
          (let replacement = unbracket (strip v)
           in Some (if negate then join '', '' (map (\<lambda>e. ''!'' @ e) (entries_of replacement)) else replacement)))"

text \<open>\<open>re.sub(r"(!?)\$([A-Z0-9_]+)", replacer, value)\<close>: leftmost matches, each as long as possible.\<close>

function expand_vars_in_string :: "string \<Rightarrow> (string \<times> string) list \<Rightarrow> string" where
  "expand_vars_in_string [] vars = []"
| "expand_vars_in_string (c # s) vars =
     (let neg = (c = CHR ''!'' \<and> startswith s ''$'');
          rest = (if neg then tl s else s);
          var = takeWhile is_var_char rest
      in if (neg \<or> c = CHR ''$'') \<and> var \<noteq> []
         then (case replacer neg var vars of
                 Some r \<Rightarrow> r
               | None \<Rightarrow> (if neg then ''!$'' else ''$'') @ var)
              @ expand_vars_in_string (drop (length var) rest) vars
         else c # expand_vars_in_string s vars)"
  by pat_completeness auto
termination
  by (relation "measure (length \<circ> fst)") auto

text \<open>One pass over the groups; later groups see the values earlier ones just received.\<close>

fun resolve_pass :: "string list \<Rightarrow> (string \<times> string) list \<Rightarrow> bool \<Rightarrow> (string \<times> string) list \<times> bool" where
  "resolve_pass [] resolved changed = (resolved, changed)"
| "resolve_pass (name # names) resolved changed =
     (case map_of resolved name of
        None \<Rightarrow> resolve_pass names resolved changed
      | Some val \<Rightarrow>
          (let new_value = expand_vars_in_string val resolved
           in if new_value \<noteq> val then resolve_pass names (dict_set name new_value resolved) True
              else resolve_pass names resolved changed))"

fun resolve_passes :: "nat \<Rightarrow> (string \<times> string) list \<Rightarrow> (string \<times> string) list" where
  "resolve_passes 0 resolved = resolved"
| "resolve_passes (Suc n) resolved =
     (case resolve_pass (map fst resolved) resolved False of
        (resolved', True) \<Rightarrow> resolve_passes n resolved'
      | (resolved', False) \<Rightarrow> resolved')"

definition resolve_variable_references :: "(string \<times> string) list \<Rightarrow> (string \<times> string) list" where
  "resolve_variable_references raw = resolve_passes MAX_VAR_EXPANSION_PASSES raw"

definition parse_address_value :: "string \<Rightarrow> ipnet list" where
  "parse_address_value v =
     (let v = strip v
      in if lower v = ''any'' then []
         else List.map_filter
                (\<lambda>entry. if startswith entry ''!'' \<or> startswith entry ''$'' then None else ip_network entry)
                (entries_of (unbracket v)))"

definition dict_items :: "json \<Rightarrow> jdict res" where
  "dict_items v = (case v of JObj d \<Rightarrow> Inr d | _ \<Rightarrow> Inl (AttributeError v ''items''))"

definition extract_address_groups :: "jdict \<Rightarrow> ((string \<times> ipnet list) list \<times> (string \<times> string) list) res" where
  "extract_address_groups data =
     (let vars_block = jor (dget data ''vars'' (JObj [])) (JObj [])
      in rbind (jget vars_block ''address-groups'' (JObj [])) (\<lambda>ra.
         rbind (jget vars_block ''port-groups'' (JObj [])) (\<lambda>rp.
         rbind (dict_items (jor ra (JObj []))) (\<lambda>raw_addr.
           let resolved = resolve_variable_references (map (\<lambda>(k, v). (k, py_str v)) raw_addr);
               cidrs = map (\<lambda>(name, v). (name, parse_address_value v)) resolved
           in rbind (dict_items (jor rp (JObj []))) (\<lambda>raw_port.
                Inr (cidrs, map (\<lambda>(k, v). (k, py_str v)) raw_port))))))"

definition extract_rule_file_paths :: "jdict \<Rightarrow> string list res" where
  "extract_rule_file_paths data =
     (let rule_files = jor (dget data ''rule-files'' (JArr [])) (JArr [])
      in rbind (include_list rule_files) (\<lambda>rs. Inr (map py_str (filter truthy rs))))"

section \<open>Reading the configuration\<close>

definition SERVER_GROUP_NAMES :: "string list" where
  "SERVER_GROUP_NAMES =
     [''HTTP_SERVERS'', ''SMTP_SERVERS'', ''SQL_SERVERS'', ''DNS_SERVERS'', ''TELNET_SERVERS'', ''AIM_SERVERS'',
      ''DC_SERVERS'', ''DNP3_SERVER'', ''DNP3_CLIENT'', ''MODBUS_CLIENT'', ''MODBUS_SERVER'', ''ENIP_CLIENT'',
      ''ENIP_SERVER'']"

definition DEFAULT_CONFIG_PATH :: string where
  "DEFAULT_CONFIG_PATH = ''/host/suricata/config/suricata.yaml''"

datatype config_error = AppErr app_error | OtherExn exn

definition config_missing :: "string \<Rightarrow> string \<Rightarrow> exn option \<Rightarrow> config_error" where
  "config_missing m detail cause =
     AppErr \<lparr>err_class = SuricataConfigMissing, err_message = m, err_detail = Some detail, err_cause = cause\<rparr>"

definition config_invalid :: "string \<Rightarrow> string \<Rightarrow> exn option \<Rightarrow> config_error" where
  "config_invalid m detail cause =
     AppErr \<lparr>err_class = SuricataConfigInvalid, err_message = m, err_detail = Some detail, err_cause = cause\<rparr>"

definition validate_home_net :: "(string \<times> ipnet list) list \<Rightarrow> string \<Rightarrow> config_error + unit" where
  "validate_home_net cidrs path =
     (case map_of cidrs ''HOME_NET'' of
        None \<Rightarrow> Inl (config_invalid ''HOME_NET is not defined in vars.address-groups'' path None)
      | Some [] \<Rightarrow>
          Inl (config_invalid
            (''HOME_NET resolved to an empty network list ''
             @ ''(value is '' @ [CHR 0x27] @ ''any'' @ [CHR 0x27] @ '', all negations, or unparseable CIDRs)'') path None)
      | Some _ \<Rightarrow> Inr ())"

definition summarise_rule_file :: "config_env \<Rightarrow> string \<Rightarrow> string \<Rightarrow> rule_file_summary" where
  "summarise_rule_file env dir rp =
     (let p = env_resolve env dir rp
      in if env_exists env p \<and> env_is_file env p
         then \<lparr>rf_path = p, rf_exists = True, rf_line_count = env_line_count env p, rf_mtime = Some (env_mtime env p)\<rparr>
         else \<lparr>rf_path = p, rf_exists = False, rf_line_count = None, rf_mtime = None\<rparr>)"

definition summarise_rule_files :: "config_env \<Rightarrow> string list \<Rightarrow> string \<Rightarrow> (string \<times> rule_file_summary) list" where
  "summarise_rule_files env paths dir =
     fold (\<lambda>rp summaries. dict_set rp (summarise_rule_file env dir rp) summaries) paths []"

definition config_path_of :: "string option \<Rightarrow> string option \<Rightarrow> string" where
  "config_path_of config_path env_var =
     (case config_path of
        Some p \<Rightarrow> if p \<noteq> [] then p else (case env_var of Some e \<Rightarrow> e | None \<Rightarrow> DEFAULT_CONFIG_PATH)
      | None \<Rightarrow> (case env_var of Some e \<Rightarrow> e | None \<Rightarrow> DEFAULT_CONFIG_PATH))"

definition group_split :: "(string \<times> ipnet list) list \<Rightarrow> (string \<times> ipnet list) list" where
  "group_split cidrs =
     fold (\<lambda>(name, nets) groups.
        if name \<notin> set ([''HOME_NET'', ''EXTERNAL_NET''] @ SERVER_GROUP_NAMES) then dict_set name nets groups else groups)
       cidrs (filter (\<lambda>(name, nets). name \<in> set SERVER_GROUP_NAMES) cidrs)"

definition read_config ::
  "config_env \<Rightarrow> string option \<Rightarrow> string option \<Rightarrow> instant \<Rightarrow> config_error + suricata_config" where
  "read_config env config_path env_var now =
     (let path = config_path_of config_path env_var
      in if \<not> env_exists env path then Inl (config_missing ''suricata.yaml not found at configured path'' path None)
         else if \<not> env_is_file env path then Inl (config_missing ''configured path is not a file'' path None)
         else case env_read_bytes env path of
           OsError m \<Rightarrow>
             Inl (config_missing ''cannot read suricata.yaml'' (path @ '': '' @ m) (Some (Exn ''OSError'' m None)))
         | DecodeError m \<Rightarrow> Inl (OtherExn (Exn ''UnicodeDecodeError'' m None))
         | Text raw \<Rightarrow>
             (case load_yaml_with_includes env path 0 of
                Inl e \<Rightarrow>
                  Inl (if qualname e = ''ParseError'' then config_invalid (exn_msg e) path (Some e) else OtherExn e)
              | Inr (data, paths_read) \<Rightarrow>
                  (case extract_address_groups data of
                     Inl e \<Rightarrow>
                       Inl (config_invalid (''failed to extract address groups: '' @ exn_msg e) path (Some e))
                   | Inr (cidrs, ports) \<Rightarrow>
                       rbind (validate_home_net cidrs path) (\<lambda>_.
                         case extract_rule_file_paths data of
                           Inl e \<Rightarrow> Inl (OtherExn e)
                         | Inr rule_paths \<Rightarrow>
                             Inr \<lparr>home_net = (case map_of cidrs ''HOME_NET'' of Some n \<Rightarrow> n | None \<Rightarrow> []),
                                  external_net = (case map_of cidrs ''EXTERNAL_NET'' of Some n \<Rightarrow> n | None \<Rightarrow> []),
                                  server_groups = group_split cidrs,
                                  port_groups = ports,
                                  rule_file_paths = rule_paths,
                                  rule_file_summaries = summarise_rule_files env rule_paths (env_parent env path),
                                  config_file_paths_read = paths_read,
                                  read_at = now,
                                  raw_yaml_hash = env_sha256 env raw\<rparr>))))"

section \<open>Lemmas\<close>

lemma deep_merge_notin: "k \<notin> fst ` set ov \<Longrightarrow> map_of (deep_merge b ov) k = map_of b k"
proof (induction b ov rule: deep_merge.induct)
  case (2 b key val ov)
  then show ?case by (auto split: option.splits json.splits)
qed simp

lemma group_split_fst:
  assumes "n \<in> fst ` set (group_split cidrs)"
  shows "n \<noteq> ''HOME_NET'' \<and> n \<noteq> ''EXTERNAL_NET''"
proof -
  let ?f = "\<lambda>(name, nets) groups.
     if name \<notin> set ([''HOME_NET'', ''EXTERNAL_NET''] @ SERVER_GROUP_NAMES) then dict_set name nets groups else groups"
  have "fst ` set (fold ?f cs g) \<subseteq> fst ` set g \<union> {n. n \<noteq> ''HOME_NET'' \<and> n \<noteq> ''EXTERNAL_NET''}"
    for cs :: "(string \<times> ipnet list) list" and g
  proof (induction cs arbitrary: g)
    case (Cons p cs)
    obtain name nets where p: "p = (name, nets)" by fastforce
    have "fst ` set (dict_set name nets g) = insert name (fst ` set g)"
      using dict_set_keys [of name nets g] by simp
    then show ?case using Cons [of "dict_set name nets g"] Cons [of g] by (auto simp: p)
  qed simp
  from this [of cidrs "filter (\<lambda>(name, nets). name \<in> set SERVER_GROUP_NAMES) cidrs"] assms
  show ?thesis by (auto simp: group_split_def SERVER_GROUP_NAMES_def)
qed

lemma read_config_Inr:
  assumes "read_config env p v now = Inr cfg"
  obtains cidrs nets where "map_of cidrs ''HOME_NET'' = Some nets" "nets \<noteq> []" "home_net cfg = nets"
    "server_groups cfg = group_split cidrs"
  using assms
  by (auto simp: read_config_def Let_def validate_home_net_def
      split: if_splits read_result.splits sum.splits option.splits list.splits prod.splits)

section \<open>Properties\<close>

text \<open>C24: a configuration that is read has a usable HOME_NET, and it classifies every address: whatever the file
  system and the YAML documents are, if \<open>read_config\<close> returns a configuration then HOME_NET holds at least one
  network, and each value that is an IP address is a member of exactly one of HOME_NET and EXTERNAL_NET, of HOME_NET
  exactly when one of its networks contains it.\<close>

theorem read_config_classifies:
  assumes "read_config env p v now = Inr cfg" "ip_address ip = Some a"
  shows "home_net cfg \<noteq> [] \<and>
    (''HOME_NET'' \<in> set (membership_for_ip cfg ip) \<longleftrightarrow> (\<exists>n\<in>set (home_net cfg). in_net a n)) \<and>
    (''EXTERNAL_NET'' \<in> set (membership_for_ip cfg ip) \<longleftrightarrow> ''HOME_NET'' \<notin> set (membership_for_ip cfg ip))"
proof -
  obtain cidrs nets where c: "nets \<noteq> []" "home_net cfg = nets" "server_groups cfg = group_split cidrs"
    using read_config_Inr [OF assms(1)] by metis
  have "n \<noteq> ''HOME_NET'' \<and> n \<noteq> ''EXTERNAL_NET''"
    if "n \<in> set (map fst (filter (\<lambda>g. list_ex (in_net a) (snd g)) (server_groups cfg)))" for n
    using that group_split_fst [of n cidrs] c(3) by auto
  then have "''HOME_NET'' \<notin> set (map fst (filter (\<lambda>g. list_ex (in_net a) (snd g)) (server_groups cfg)))"
    "''EXTERNAL_NET'' \<notin> set (map fst (filter (\<lambda>g. list_ex (in_net a) (snd g)) (server_groups cfg)))"
    by blast+
  with c assms(2) show ?thesis
    by (simp add: membership_for_ip_def list_ex_iff del: set_map set_filter)
qed

text \<open>A host with one small configuration file.\<close>

definition sample_env :: "json \<Rightarrow> config_env" where
  "sample_env doc =
     \<lparr>env_exists = (\<lambda>_. True), env_is_file = (\<lambda>_. True), env_read_text = Text, env_read_bytes = Text,
      env_safe_load = (\<lambda>_. Inr doc), env_resolve = (\<lambda>d p. p), env_parent = (\<lambda>p. p), env_sha256 = (\<lambda>_. ''00''),
      env_line_count = (\<lambda>_. None), env_mtime = (\<lambda>_. 0)\<rparr>"

definition sample_doc :: json where
  "sample_doc = JObj [(''vars'', JObj [(''address-groups'', JObj [(''HOME_NET'', JStr ''10.0.0.0/8'')])])]"

theorem read_config_classifies_witness:
  "\<exists>cfg. read_config (sample_env sample_doc) (Some ''suricata.yaml'') None 0 = Inr cfg \<and>
     ''EXTERNAL_NET'' \<in> set (membership_for_ip cfg (JInt 0x08080808))"
proof -
  have "case read_config (sample_env sample_doc) (Some ''suricata.yaml'') None 0 of
      Inr cfg \<Rightarrow> home_net cfg = [net4 0x0A000000 8] | Inl _ \<Rightarrow> False"
    by code_simp
  then obtain cfg where c: "read_config (sample_env sample_doc) (Some ''suricata.yaml'') None 0 = Inr cfg"
    "home_net cfg = [net4 0x0A000000 8]" by (auto split: sum.splits)
  have "ip_address (JInt 0x08080808) = Some (V4 0x08080808)" by simp
  from read_config_classifies [OF c(1) this] c show ?thesis by (auto simp: net4_def)
qed

text \<open>Merging an included file: for every key, the included file wins, except that two dictionaries are merged
  key by key with the same rule; keys the included file does not have are kept.\<close>

theorem deep_merge_lookup:
  assumes "distinct (map fst ov)"
  shows "map_of (deep_merge b ov) k =
    (case map_of ov k of
       None \<Rightarrow> map_of b k
     | Some val \<Rightarrow>
         (case (map_of b k, val) of
            (Some (JObj b'), JObj v) \<Rightarrow> Some (JObj (deep_merge b' v))
          | _ \<Rightarrow> Some val))"
  using assms
proof (induction ov arbitrary: b)
  case (Cons p ov)
  obtain key val where p: "p = (key, val)" by fastforce
  show ?case
  proof (cases "k = key")
    case True
    with Cons.prems p have "k \<notin> fst ` set ov" by simp
    then show ?thesis by (auto simp: p True deep_merge_notin split: option.splits json.splits)
  next
    case False
    define b' where "b' = (case (map_of b key, val) of
        (Some (JObj b'), JObj v) \<Rightarrow> dict_set key (JObj (deep_merge b' v)) b
      | _ \<Rightarrow> dict_set key val b)"
    have "deep_merge b (p # ov) = deep_merge b' ov" by (simp add: p b'_def)
    moreover have "map_of b' k = map_of b k"
      using False by (auto simp: b'_def split: option.splits json.splits)
    ultimately show ?thesis
      using Cons.IH [of b'] Cons.prems False by (cases "map_of ov k") (simp_all add: p)
  qed
qed simp

theorem deep_merge_lookup_witness:
  "map_of (deep_merge [(''a'', JInt 1), (''v'', JObj [(''x'', JInt 1), (''y'', JInt 2)])]
      [(''v'', JObj [(''y'', JInt 3)])]) ''v'' = Some (JObj [(''x'', JInt 1), (''y'', JInt 3)])"
  using deep_merge_lookup [of "[(''v'', JObj [(''y'', JInt 3)])]"
      "[(''a'', JInt 1), (''v'', JObj [(''x'', JInt 1), (''y'', JInt 2)])]" "''v''"]
  by simp

lemma show_depth_limit: "show_nat MAX_INCLUDE_DEPTH = ''5''"
  by code_simp

lemma load_self_include:
  assumes "read_yaml env p = Inr d" "map_of d ''include'' = Some (JStr q)" "q \<noteq> []" "env_resolve env (env_parent env p) q = p"
  shows "n + depth = 6 \<Longrightarrow> load_yaml_with_includes env p depth =
    Inl (ParseError (''include: depth limit (5) exceeded at '' @ p))"
proof (induction n arbitrary: depth)
  case 0
  then show ?case by (subst load_yaml_with_includes.simps) (simp add: show_depth_limit, simp add: MAX_INCLUDE_DEPTH_def)
next
  case (Suc n)
  then have "depth \<le> 5" and ih: "load_yaml_with_includes env p (depth + 1) =
      Inl (ParseError (''include: depth limit (5) exceeded at '' @ p))"
    using Suc.IH [of "depth + 1"] by simp_all
  then show ?case
    by (subst load_yaml_with_includes.simps)
       (simp add: MAX_INCLUDE_DEPTH_def assms include_list_def Let_def)
qed

text \<open>An include cycle is an error and not a loop: a file that includes itself makes \<open>read_config\<close> fail with
  \<open>SuricataConfigInvalid\<close>, naming the depth limit.\<close>

theorem include_cycle_rejected:
  assumes "env_exists env p" "env_is_file env p" "env_read_bytes env p = Text raw" "p \<noteq> []"
    and "read_yaml env p = Inr d" "map_of d ''include'' = Some (JStr q)" "q \<noteq> []"
    and "env_resolve env (env_parent env p) q = p"
  shows "\<exists>e. read_config env (Some p) v now = Inl (AppErr e) \<and> err_class e = SuricataConfigInvalid \<and>
    err_message e = ''include: depth limit (5) exceeded at '' @ p"
  using assms load_self_include [OF assms(5-8), of 6 0]
  by (simp add: read_config_def config_path_of_def ParseError_def config_invalid_def)

theorem include_cycle_rejected_witness:
  "\<exists>e. read_config (sample_env (JObj [(''include'', JStr ''a.yaml'')])) (Some ''a.yaml'') None 0 = Inl (AppErr e) \<and>
     err_class e = SuricataConfigInvalid \<and> err_message e = ''include: depth limit (5) exceeded at '' @ ''a.yaml''"
  by (rule include_cycle_rejected [of _ _ "''a.yaml''" "[(''include'', JStr ''a.yaml'')]" "''a.yaml''"])
     (simp_all add: sample_env_def read_yaml_def jor_def)

text \<open>A negated bracket list is not read as a negation: the entries between the first and the last become
  positive members of the group, so the value below, which excludes three private networks, yields one of them.
  (\<open>_parse_address_value\<close> says negations are ignored.)\<close>

theorem negated_list_keeps_middle:
  "parse_address_value ''![10.0.0.0/8, 192.168.0.0/16, 172.16.0.0/12]'' = [net4 0xC0A80000 16]"
  by code_simp

end
