(* ===== verification/Role_Assignment.thy ===== *)
theory Role_Assignment
  imports Suricata_Config
begin

text \<open>
  The deterministic role assigner of \<open>src/domain/role_assignment\<close>: which endpoint of an alert is the attacker and
  which the victim. Addresses are the \<^typ>\<open>json\<close> values of the EVE record; the absent attacker or victim of an
  ambiguous alert is \<^const>\<open>JNull\<close>.
\<close>

section \<open>Categories\<close>

definition CATEGORY_RULES :: "(string \<times> string \<times> string) list" where
  "CATEGORY_RULES =
     [(''command and control'', ''outbound_cnc'', ''medium''),
      (''trojan'', ''outbound_cnc'', ''medium''),
      (''malware'', ''outbound_cnc'', ''medium''),
      (''web application attack'', ''inbound_attack'', ''medium''),
      (''attempted administrator privilege'', ''inbound_attack'', ''medium''),
      (''attempted user privilege'', ''inbound_attack'', ''medium''),
      (''successful administrator privilege'', ''inbound_attack'', ''medium''),
      (''successful user privilege'', ''inbound_attack'', ''medium''),
      (''exploit kit'', ''inbound_attack'', ''medium''),
      (''shellcode detect'', ''inbound_attack'', ''medium''),
      (''denial of service'', ''inbound_attack'', ''medium''),
      (''network trojan'', ''inbound_attack'', ''medium''),
      (''attack response'', ''attack_response'', ''medium''),
      (''network scan'', ''scan'', ''medium''),
      (''policy violation'', ''unknown'', ''low''),
      (''potentially bad traffic'', ''unknown'', ''low''),
      (''misc activity'', ''unknown'', ''low''),
      (''not suspicious'', ''unknown'', ''low''),
      (''unknown traffic'', ''unknown'', ''low''),
      (''decode of an rpc'', ''unknown'', ''low''),
      (''inappropriate content'', ''unknown'', ''low'')]"

fun match_rules :: "(string \<times> string \<times> string) list \<Rightarrow> string \<Rightarrow> string \<times> string" where
  "match_rules [] lowered = (''unknown'', ''low'')"
| "match_rules ((sub, pattern, confidence) # rules) lowered =
     (if contains sub lowered then (pattern, confidence) else match_rules rules lowered)"

definition detect_pattern :: "string \<Rightarrow> string \<times> string" where
  "detect_pattern category = match_rules CATEGORY_RULES (lower category)"

section \<open>The assignment\<close>

record role_assignment =
  initiator_ip :: json
  responder_ip :: json
  attacker_ip :: json
  victim_ip :: json
  confidence :: string
  reasoning :: string
  signals_used :: "string list"

definition CLIENT_TARGET_VALUES :: "string list" where
  "CLIENT_TARGET_VALUES = [''client_endpoint'', ''client'', ''endpoint'']"

definition SERVER_TARGET_VALUES :: "string list" where
  "SERVER_TARGET_VALUES =
     [''server'', ''web_server'', ''sql_server'', ''dns_server'', ''smtp_server'', ''ftp_server'', ''imap_server'',
      ''pop3_server'', ''http_server'']"

definition quoted :: "string \<Rightarrow> string" where
  "quoted s = [CHR 0x27] @ s @ [CHR 0x27]"

definition ambiguous :: "json \<Rightarrow> json \<Rightarrow> string \<Rightarrow> string list \<Rightarrow> role_assignment" where
  "ambiguous src dest category signals =
     \<lparr>initiator_ip = src, responder_ip = dest, attacker_ip = JNull, victim_ip = JNull, confidence = ''ambiguous'',
      reasoning = ''Category '' @ quoted category @ '' with current network context provides ''
        @ ''insufficient role-assignment signal. The LLM should reason from flow context and enrichment.'',
      signals_used = signals\<rparr>"

fun classify_attack_target :: "json list \<Rightarrow> string option res" where
  "classify_attack_target [] = Inr None"
| "classify_attack_target (val # vals) =
     rbind (jstr ''lower'' val) (\<lambda>s.
       if lower s \<in> set CLIENT_TARGET_VALUES then Inr (Some ''client_is_victim'')
       else if lower s \<in> set SERVER_TARGET_VALUES then Inr (Some ''server_is_victim'')
       else classify_attack_target vals)"

definition apply_outbound_cnc ::
  "json \<Rightarrow> json \<Rightarrow> bool \<Rightarrow> bool \<Rightarrow> string \<Rightarrow> string \<Rightarrow> string list \<Rightarrow> role_assignment" where
  "apply_outbound_cnc src dest src_internal dest_internal category base_confidence signals =
     (if src_internal \<and> \<not> dest_internal
      then \<lparr>initiator_ip = src, responder_ip = dest, attacker_ip = dest, victim_ip = src, confidence = base_confidence,
            reasoning = ''Category '' @ quoted category @ '' (CnC/trojan) with internal'' @ arrow @ ''external direction: ''
              @ py_str src @ '' (internal host) is the compromised victim calling out to ''
              @ py_str dest @ '' (external CnC infrastructure).'',
            signals_used = signals\<rparr>
      else if \<not> src_internal \<and> dest_internal
      then \<lparr>initiator_ip = src, responder_ip = dest, attacker_ip = src, victim_ip = dest, confidence = ''low'',
            reasoning = ''Category '' @ quoted category @ '' (CnC/trojan) with external'' @ arrow @ ''internal direction: ''
              @ ''unusual; treating '' @ py_str src @ '' (external) as attacker, ''
              @ py_str dest @ '' (internal) as victim at low confidence.'',
            signals_used = signals\<rparr>
      else ambiguous src dest category signals)"

definition apply_inbound_attack ::
  "json \<Rightarrow> json \<Rightarrow> bool \<Rightarrow> bool \<Rightarrow> string \<Rightarrow> string \<Rightarrow> string list \<Rightarrow> role_assignment" where
  "apply_inbound_attack src dest src_internal dest_internal category base_confidence signals =
     (if \<not> src_internal \<and> dest_internal
      then \<lparr>initiator_ip = src, responder_ip = dest, attacker_ip = src, victim_ip = dest, confidence = base_confidence,
            reasoning = ''Category '' @ quoted category @ '' (inbound attack) with external'' @ arrow @ ''internal direction: ''
              @ py_str src @ '' (external) is the attacker; '' @ py_str dest @ '' (internal) is the victim.'',
            signals_used = signals\<rparr>
      else if src_internal \<and> \<not> dest_internal
      then \<lparr>initiator_ip = src, responder_ip = dest, attacker_ip = src, victim_ip = dest, confidence = ''low'',
            reasoning = ''Category '' @ quoted category @ '' (inbound attack) but internal'' @ arrow @ ''external direction: ''
              @ ''treating '' @ py_str src @ '' (internal) as attacker, '' @ py_str dest @ '' as victim at low confidence.'',
            signals_used = signals\<rparr>
      else ambiguous src dest category signals)"

definition apply_attack_response ::
  "json \<Rightarrow> json \<Rightarrow> bool \<Rightarrow> bool \<Rightarrow> string \<Rightarrow> string \<Rightarrow> string list \<Rightarrow> role_assignment" where
  "apply_attack_response src dest src_internal dest_internal category base_confidence signals =
     (if \<not> src_internal \<and> dest_internal
      then \<lparr>initiator_ip = src, responder_ip = dest, attacker_ip = src, victim_ip = dest, confidence = base_confidence,
            reasoning = ''Category '' @ quoted category @ '' (attack response): '' @ py_str src @ '' (external) is ''
              @ ''the CnC server responding to the compromised '' @ py_str dest @ '' (internal).'',
            signals_used = signals\<rparr>
      else ambiguous src dest category signals)"

text \<open>What \<open>assign_roles\<close> reads from the alert before it decides.\<close>

record role_inputs =
  ri_src :: json
  ri_dest :: json
  ri_category :: json
  ri_target :: json
  ri_attack_target :: "json list"
  ri_src_internal :: bool
  ri_dest_internal :: bool

definition attack_target_list :: "json \<Rightarrow> json list res" where
  "attack_target_list v = (case v of JStr s \<Rightarrow> Inr [JStr s] | _ \<Rightarrow> jiter v)"

definition role_inputs_of :: "json \<Rightarrow> suricata_config \<Rightarrow> role_inputs res" where
  "role_inputs_of alert_raw cfg =
     rbind (jget alert_raw ''src_ip'' (JStr [])) (\<lambda>src.
     rbind (jget alert_raw ''dest_ip'' (JStr [])) (\<lambda>dest.
     rbind (jget alert_raw ''alert'' JNull) (\<lambda>al. let alert = jor al (JObj []) in
     rbind (jget alert ''category'' (JStr [])) (\<lambda>category.
     rbind (jget alert ''target'' JNull) (\<lambda>target.
     rbind (jget alert ''metadata'' JNull) (\<lambda>md.
       let metadata = (if is_list (jor md (JObj [])) then JObj [] else jor md (JObj []))
       in rbind (jget metadata ''attack_target'' (JArr [])) (\<lambda>rat.
          rbind (attack_target_list rat) (\<lambda>targets.
            Inr \<lparr>ri_src = src, ri_dest = dest, ri_category = category, ri_target = target, ri_attack_target = targets,
                 ri_src_internal = (truthy src \<and> ''HOME_NET'' \<in> set (membership_for_ip cfg src)),
                 ri_dest_internal = (truthy dest \<and> ''HOME_NET'' \<in> set (membership_for_ip cfg dest))\<rparr>))))))))"

definition target_assignment :: "json \<Rightarrow> json \<Rightarrow> string \<Rightarrow> role_assignment" where
  "target_assignment src dest target =
     \<lparr>initiator_ip = src, responder_ip = dest,
      attacker_ip = (if target = ''src_ip'' then dest else src),
      victim_ip = (if target = ''src_ip'' then src else dest),
      confidence = ''high'',
      reasoning = ''Rule defines target:'' @ target @ '' '' @ emdash @ '' that IP is the explicit ''
        @ ''attack target declared by the rule author.'',
      signals_used = [''target_field'']\<rparr>"

definition client_victim :: "json \<Rightarrow> json \<Rightarrow> json \<Rightarrow> json \<Rightarrow> string list \<Rightarrow> role_assignment" where
  "client_victim src dest attacker victim signals =
     \<lparr>initiator_ip = src, responder_ip = dest, attacker_ip = attacker, victim_ip = victim, confidence = ''medium'',
      reasoning = ''Rule metadata identifies the client endpoint as the target; ''
        @ py_str victim @ '' (internal client) is victim, '' @ py_str attacker @ '' (external server) is attacker.'',
      signals_used = signals\<rparr>"

definition server_victim :: "json \<Rightarrow> json \<Rightarrow> string list \<Rightarrow> role_assignment" where
  "server_victim src dest signals =
     \<lparr>initiator_ip = src, responder_ip = dest, attacker_ip = src, victim_ip = dest, confidence = ''medium'',
      reasoning = ''Rule metadata identifies a server as the target; ''
        @ ''treating '' @ py_str dest @ '' (responder/server) as victim.'',
      signals_used = signals\<rparr>"

definition scan_assignment :: "json \<Rightarrow> json \<Rightarrow> string \<Rightarrow> string \<Rightarrow> string list \<Rightarrow> role_assignment" where
  "scan_assignment src dest category base_confidence signals =
     \<lparr>initiator_ip = src, responder_ip = dest, attacker_ip = src, victim_ip = dest, confidence = base_confidence,
      reasoning = ''Category '' @ quoted category @ '' (network scan): '' @ py_str src @ '' is the ''
        @ ''scanner/attacker; '' @ py_str dest @ '' is being scanned.'',
      signals_used = signals\<rparr>"

text \<open>Signals 3 and 4: the pattern of the category applied to the direction.\<close>

definition by_pattern ::
  "string \<Rightarrow> json \<Rightarrow> json \<Rightarrow> bool \<Rightarrow> bool \<Rightarrow> string \<Rightarrow> string \<Rightarrow> string list \<Rightarrow> role_assignment" where
  "by_pattern pattern src dest src_internal dest_internal category base_confidence signals =
     (if pattern = ''outbound_cnc''
        then apply_outbound_cnc src dest src_internal dest_internal category base_confidence signals
      else if pattern = ''inbound_attack''
        then apply_inbound_attack src dest src_internal dest_internal category base_confidence signals
      else if pattern = ''attack_response''
        then apply_attack_response src dest src_internal dest_internal category base_confidence signals
      else if pattern = ''scan'' then scan_assignment src dest category base_confidence signals
      else ambiguous src dest category signals)"

definition decide_roles :: "role_inputs \<Rightarrow> role_assignment res" where
  "decide_roles i =
     (let src = ri_src i; dest = ri_dest i; src_internal = ri_src_internal i; dest_internal = ri_dest_internal i
      in if ri_target i = JStr ''src_ip'' then Inr (target_assignment src dest ''src_ip'')
         else if ri_target i = JStr ''dest_ip'' then Inr (target_assignment src dest ''dest_ip'')
         else rbind (jstr ''lower'' (ri_category i)) (\<lambda>category.
              let (pattern, base_confidence) = detect_pattern category;
                  signals = (if pattern \<noteq> ''unknown'' then [''rule_category''] else [])
                    @ (if src_internal \<or> dest_internal then [''home_net_membership''] else [])
                    @ (if ri_attack_target i \<noteq> [] then [''attack_target_metadata''] else [])
              in rbind (classify_attack_target (ri_attack_target i)) (\<lambda>hint.
                   Inr (if hint = Some ''client_is_victim'' \<and> dest_internal \<and> \<not> src_internal
                          then client_victim src dest src dest signals
                        else if hint = Some ''client_is_victim'' \<and> src_internal \<and> \<not> dest_internal
                          then client_victim src dest dest src signals
                        else if hint = Some ''server_is_victim'' \<and> (src_internal \<or> dest_internal)
                          then server_victim src dest signals
                        else by_pattern pattern src dest src_internal dest_internal category base_confidence signals))))"

definition assign_roles :: "json \<Rightarrow> suricata_config \<Rightarrow> role_assignment res" where
  "assign_roles alert_raw cfg = rbind (role_inputs_of alert_raw cfg) decide_roles"

section \<open>Lemmas\<close>

text \<open>The shape of every assignment for two endpoints.\<close>

definition roles_ok :: "json \<Rightarrow> json \<Rightarrow> role_assignment \<Rightarrow> bool" where
  "roles_ok src dest r \<longleftrightarrow>
     initiator_ip r = src \<and> responder_ip r = dest \<and>
     (confidence r = ''ambiguous'' \<and> attacker_ip r = JNull \<and> victim_ip r = JNull \<or>
      confidence r \<in> {''high'', ''medium'', ''low''} \<and>
      (attacker_ip r = src \<and> victim_ip r = dest \<or> attacker_ip r = dest \<and> victim_ip r = src))"

lemma match_rules_confidence:
  "snd (match_rules rs s) \<in> insert ''low'' ((snd \<circ> snd) ` set rs)"
  by (induction rs s rule: match_rules.induct) auto

lemma detect_pattern_confidence: "snd (detect_pattern c) \<in> {''medium'', ''low''}"
  using match_rules_confidence [of CATEGORY_RULES "lower c"] by (auto simp: detect_pattern_def CATEGORY_RULES_def)

lemma roles_ok_by_pattern:
  "conf \<in> {''medium'', ''low''} \<Longrightarrow> roles_ok src dest (by_pattern p src dest si di c conf sig)"
  by (auto simp: roles_ok_def by_pattern_def apply_outbound_cnc_def apply_inbound_attack_def
      apply_attack_response_def scan_assignment_def ambiguous_def)

lemma by_pattern_not_high:
  "conf \<in> {''medium'', ''low''} \<Longrightarrow> confidence (by_pattern p src dest si di c conf sig) \<noteq> ''high''"
  by (auto simp: by_pattern_def apply_outbound_cnc_def apply_inbound_attack_def
      apply_attack_response_def scan_assignment_def ambiguous_def)

lemma roles_ok_assignments [simp]:
  "roles_ok src dest (target_assignment src dest t)"
  "roles_ok src dest (client_victim src dest src dest sig)"
  "roles_ok src dest (client_victim src dest dest src sig)"
  "roles_ok src dest (server_victim src dest sig)"
  by (simp_all add: roles_ok_def target_assignment_def client_victim_def server_victim_def)

lemma decide_roles_cases:
  assumes "decide_roles i = Inr r"
  obtains (target) t where "ri_target i = JStr t" "t = ''src_ip'' \<or> t = ''dest_ip''"
      "r = target_assignment (ri_src i) (ri_dest i) t"
  | (client1) sig where "r = client_victim (ri_src i) (ri_dest i) (ri_src i) (ri_dest i) sig"
  | (client2) sig where "r = client_victim (ri_src i) (ri_dest i) (ri_dest i) (ri_src i) sig"
  | (server) sig where "r = server_victim (ri_src i) (ri_dest i) sig"
  | (pattern) c sig where "r = by_pattern (fst (detect_pattern c)) (ri_src i) (ri_dest i) (ri_src_internal i)
       (ri_dest_internal i) c (snd (detect_pattern c)) sig"
proof (cases "ri_target i = JStr ''src_ip'' \<or> ri_target i = JStr ''dest_ip''")
  case True
  with assms target [of "''src_ip''"] target [of "''dest_ip''"] show thesis
    by (cases "ri_target i = JStr ''src_ip''") (simp_all add: decide_roles_def Let_def)
next
  case False
  then obtain c h where c: "ri_category i = JStr c" "classify_attack_target (ri_attack_target i) = Inr h"
    using assms by (cases "ri_category i") (auto simp: decide_roles_def Let_def case_prod_beta)
  let ?sig = "(if fst (detect_pattern c) \<noteq> ''unknown'' then [''rule_category''] else [])
    @ (if ri_src_internal i \<or> ri_dest_internal i then [''home_net_membership''] else [])
    @ (if ri_attack_target i \<noteq> [] then [''attack_target_metadata''] else [])"
  have "r = (if h = Some ''client_is_victim'' \<and> ri_dest_internal i \<and> \<not> ri_src_internal i
               then client_victim (ri_src i) (ri_dest i) (ri_src i) (ri_dest i) ?sig
             else if h = Some ''client_is_victim'' \<and> ri_src_internal i \<and> \<not> ri_dest_internal i
               then client_victim (ri_src i) (ri_dest i) (ri_dest i) (ri_src i) ?sig
             else if h = Some ''server_is_victim'' \<and> (ri_src_internal i \<or> ri_dest_internal i)
               then server_victim (ri_src i) (ri_dest i) ?sig
             else by_pattern (fst (detect_pattern c)) (ri_src i) (ri_dest i) (ri_src_internal i)
               (ri_dest_internal i) c (snd (detect_pattern c)) ?sig)"
    using assms False unfolding decide_roles_def Let_def case_prod_beta c by simp
  then show thesis using client1 client2 server pattern by metis
qed

lemma roles_ok_decide:
  assumes "decide_roles i = Inr r"
  shows "roles_ok (ri_src i) (ri_dest i) r"
  using assms
proof (cases rule: decide_roles_cases)
  case (pattern c sig)
  then show ?thesis by (simp add: roles_ok_by_pattern [OF detect_pattern_confidence])
qed simp_all

lemma classify_total: "\<forall>v\<in>set vs. \<exists>s. v = JStr s \<Longrightarrow> \<exists>h. classify_attack_target vs = Inr h"
proof (induction vs)
  case (Cons v vs)
  then obtain s h where "v = JStr s" "classify_attack_target vs = Inr h" by auto
  then show ?case
    by (cases "lower s \<in> set CLIENT_TARGET_VALUES"; cases "lower s \<in> set SERVER_TARGET_VALUES") simp_all
qed simp

lemma decide_roles_total:
  assumes "ri_category i = JStr c" "\<forall>v\<in>set (ri_attack_target i). \<exists>s. v = JStr s"
  shows "\<exists>r. decide_roles i = Inr r"
  using classify_total [OF assms(2)] assms(1) by (auto simp: decide_roles_def Let_def case_prod_beta)

text \<open>A rule is never used when an earlier rule has a substring of its substring.\<close>

lemma match_rules_shadowed:
  assumes "(sub', r') \<in> set before" "contains sub' sub"
  shows "match_rules (before @ (sub, p, c) # after) s = match_rules (before @ after) s"
  using assms
proof (induction before)
  case (Cons b bs)
  obtain u q d where b: "b = (u, q, d)" by (cases b) auto
  show ?case
  proof (cases "contains u s")
    case False
    then show ?thesis
    proof (cases "u = sub' \<and> (q, d) = r'")
      case True
      with \<open>\<not> contains u s\<close> assms(2) have "\<not> contains sub s" using contains_mono by blast
      have skip: "match_rules (bs @ (sub, p, c) # after) s = match_rules (bs @ after) s"
        using \<open>\<not> contains sub s\<close> by (induction bs) auto
      with False b show ?thesis by simp
    next
      case False
      with Cons.prems b have "(sub', r') \<in> set bs" by auto
      with Cons.IH Cons.prems(2) \<open>\<not> contains u s\<close> b show ?thesis by simp
    qed
  qed (simp add: b)
qed simp

section \<open>Properties\<close>

text \<open>C23: an assignment never invents a role: whenever \<open>assign_roles\<close> returns, initiator and responder are the
  packet's source and destination, and attacker and victim are these two endpoints in one order or the other, or
  both absent, the latter exactly when the confidence is ambiguous.\<close>

theorem assign_roles_endpoints:
  assumes "assign_roles (JObj alert) cfg = Inr r"
  shows "roles_ok (dget alert ''src_ip'' (JStr [])) (dget alert ''dest_ip'' (JStr [])) r"
proof -
  obtain i where i: "role_inputs_of (JObj alert) cfg = Inr i" "decide_roles i = Inr r"
    using assms by (auto simp: assign_roles_def)
  then have "ri_src i = dget alert ''src_ip'' (JStr [])" "ri_dest i = dget alert ''dest_ip'' (JStr [])"
    by (auto simp: role_inputs_of_def Let_def)
  with roles_ok_decide [OF i(2)] show ?thesis by simp
qed

definition sample_config :: suricata_config where
  "sample_config =
     \<lparr>home_net = [net4 0x0A000000 8], external_net = [], server_groups = [], port_groups = [], rule_file_paths = [],
      rule_file_summaries = [], config_file_paths_read = [], read_at = 0, raw_yaml_hash = []\<rparr>"

definition sample_alert :: "string \<Rightarrow> jdict" where
  "sample_alert category =
     [(''src_ip'', JStr ''10.0.0.5''), (''dest_ip'', JStr ''8.8.8.8''), (''alert'', JObj [(''category'', JStr category)])]"

lemma sample_internal:
  "''HOME_NET'' \<in> set (membership_for_ip sample_config (JStr ''10.0.0.5''))"
  "''HOME_NET'' \<notin> set (membership_for_ip sample_config (JStr ''8.8.8.8''))"
  by code_simp+

theorem assign_roles_endpoints_witness:
  "\<exists>r. assign_roles (JObj (sample_alert ''Attempted Recon'')) sample_config = Inr r \<and>
     roles_ok (JStr ''10.0.0.5'') (JStr ''8.8.8.8'') r"
proof -
  have "case assign_roles (JObj (sample_alert ''Attempted Recon'')) sample_config of Inr r \<Rightarrow> True | _ \<Rightarrow> False"
    by code_simp
  then obtain r where r: "assign_roles (JObj (sample_alert ''Attempted Recon'')) sample_config = Inr r"
    by (auto split: sum.splits)
  from assign_roles_endpoints [OF r] r show ?thesis by (simp add: sample_alert_def)
qed

text \<open>The rule author's declaration decides: when the alert names \<open>target\<close> as the source or the destination
  address, that endpoint is the victim with high confidence, whatever the category, the metadata and the network say;
  and no assignment has high confidence for another reason.\<close>

theorem target_field_decides:
  assumes "role_inputs_of alert cfg = Inr i"
  shows "assign_roles alert cfg =
      (if ri_target i = JStr ''src_ip'' then Inr (target_assignment (ri_src i) (ri_dest i) ''src_ip'')
       else if ri_target i = JStr ''dest_ip'' then Inr (target_assignment (ri_src i) (ri_dest i) ''dest_ip'')
       else assign_roles alert cfg) \<and>
    (\<forall>r. assign_roles alert cfg = Inr r \<and> confidence r = ''high'' \<longrightarrow>
       ri_target i = JStr ''src_ip'' \<and> victim_ip r = ri_src i \<or>
       ri_target i = JStr ''dest_ip'' \<and> victim_ip r = ri_dest i)"
proof -
  have d: "assign_roles alert cfg = decide_roles i" using assms by (simp add: assign_roles_def)
  have "ri_target i = JStr ''src_ip'' \<and> victim_ip r = ri_src i \<or> ri_target i = JStr ''dest_ip'' \<and> victim_ip r = ri_dest i"
    if "decide_roles i = Inr r" "confidence r = ''high''" for r
    using that(1)
  proof (cases rule: decide_roles_cases)
    case (pattern c sig)
    then show ?thesis using that(2) by_pattern_not_high [OF detect_pattern_confidence] by metis
  qed (use that(2) in \<open>auto simp: target_assignment_def client_victim_def server_victim_def\<close>)
  then show ?thesis unfolding d by (auto simp: decide_roles_def Let_def)
qed

theorem target_field_decides_witness:
  "\<exists>r. assign_roles (JObj [(''src_ip'', JStr ''10.0.0.5''), (''dest_ip'', JStr ''8.8.8.8''),
       (''alert'', JObj [(''target'', JStr ''dest_ip'')])]) sample_config = Inr r \<and> victim_ip r = JStr ''8.8.8.8''"
proof -
  let ?a = "JObj [(''src_ip'', JStr ''10.0.0.5''), (''dest_ip'', JStr ''8.8.8.8''),
       (''alert'', JObj [(''target'', JStr ''dest_ip'')])]"
  obtain i where i: "role_inputs_of ?a sample_config = Inr i" "ri_target i = JStr ''dest_ip''"
      "ri_dest i = JStr ''8.8.8.8''"
    by (simp add: role_inputs_of_def Let_def dget_def jor_def attack_target_list_def)
  from target_field_decides [OF i(1)] i show ?thesis by (simp add: target_assignment_def)
qed

text \<open>Command-and-control traffic blames the outside: an alert whose category speaks of command and control, with
  no target declaration and no attack-target metadata, from a HOME_NET source to a destination outside, makes the
  internal source the victim and the external destination the attacker, with medium confidence.\<close>

theorem outbound_cnc_blames_external:
  assumes "role_inputs_of alert cfg = Inr i" "ri_category i = JStr c" "contains ''command and control'' (lower c)"
    and "ri_target i = JNull" "ri_attack_target i = []" "ri_src_internal i" "\<not> ri_dest_internal i"
  shows "\<exists>r. assign_roles alert cfg = Inr r \<and> victim_ip r = ri_src i \<and> attacker_ip r = ri_dest i \<and>
    confidence r = ''medium''"
proof -
  have "detect_pattern c = (''outbound_cnc'', ''medium'')"
    using assms(3) by (simp add: detect_pattern_def CATEGORY_RULES_def)
  with assms show ?thesis
    by (simp add: assign_roles_def decide_roles_def by_pattern_def apply_outbound_cnc_def Let_def)
qed

theorem outbound_cnc_blames_external_witness:
  "\<exists>r. assign_roles (JObj (sample_alert ''Malware Command and Control Activity Detected'')) sample_config = Inr r \<and>
     victim_ip r = JStr ''10.0.0.5'' \<and> attacker_ip r = JStr ''8.8.8.8'' \<and> confidence r = ''medium''"
proof -
  let ?c = "''Malware Command and Control Activity Detected''"
  have i: "role_inputs_of (JObj (sample_alert ?c)) sample_config =
      Inr \<lparr>ri_src = JStr ''10.0.0.5'', ri_dest = JStr ''8.8.8.8'', ri_category = JStr ?c, ri_target = JNull,
           ri_attack_target = [], ri_src_internal = True, ri_dest_internal = False\<rparr>"
    by (simp add: role_inputs_of_def sample_alert_def Let_def dget_def jor_def attack_target_list_def sample_internal)
  have "contains ''command and control'' (lower ?c)" by code_simp
  from outbound_cnc_blames_external [OF i _ this] show ?thesis by simp
qed

text \<open>One of the category rules is dead: the entry for \<open>network trojan\<close> (an inbound attack) can be left out of
  the table without changing any assignment, because the more generic entry \<open>trojan\<close> comes first. (The table's
  documentation asks for specific entries before generic ones.)\<close>

theorem network_trojan_rule_dead:
  "detect_pattern category = match_rules (filter (\<lambda>r. fst r \<noteq> ''network trojan'') CATEGORY_RULES) (lower category)"
proof -
  define before after where "before = takeWhile (\<lambda>r. fst r \<noteq> ''network trojan'') CATEGORY_RULES"
    and "after = tl (dropWhile (\<lambda>r. fst r \<noteq> ''network trojan'') CATEGORY_RULES)"
  have rules: "CATEGORY_RULES = before @ (''network trojan'', ''inbound_attack'', ''medium'') # after"
    and rest: "filter (\<lambda>r. fst r \<noteq> ''network trojan'') CATEGORY_RULES = before @ after"
    and mem: "(''trojan'', ''outbound_cnc'', ''medium'') \<in> set before"
    by (simp_all add: before_def after_def CATEGORY_RULES_def)
  have "contains ''trojan'' ''network trojan''" by code_simp
  note match_rules_shadowed [OF mem this, of "''inbound_attack''" "''medium''" after "lower category"]
  then show ?thesis unfolding detect_pattern_def rest by (subst rules)
qed

end
