(* ===== verification/Json_Text.thy ===== *)
theory Json_Text
  imports Json
begin

text \<open>
  The text form of JSON: \<open>json.dumps\<close> with its default separators and \<open>json.loads\<close> as a
  recursive-descent reader. The reader takes fuel, one unit per nested call; \<open>loads\<close> supplies
  one more than the length of the text, and \<open>loads_dumps\<close> shows this is enough for every document
  the writer produces. A number with a fraction or an exponent is kept as its literal text, and the
  writer copies bytes outside ASCII instead of escaping them.
\<close>

section \<open>Writing\<close>

definition dq :: char where "dq = CHR 0x22"
definition bsl :: char where "bsl = CHR 0x5C"

definition esc_char :: "char \<Rightarrow> string" where
  "esc_char c =
     (let n = (of_char c :: nat)
      in if c = dq \<or> c = bsl then [bsl, c]
         else if n = 10 then [bsl, CHR ''n'']
         else if n = 13 then [bsl, CHR ''r'']
         else if n = 9 then [bsl, CHR ''t'']
         else if n = 8 then [bsl, CHR ''b'']
         else if n = 12 then [bsl, CHR ''f'']
         else if n < 32 then [bsl, CHR ''u'', CHR ''0'', CHR ''0'', hex_digit (n div 16), hex_digit (n mod 16)]
         else [c])"

definition dumps_str :: "string \<Rightarrow> string" where
  "dumps_str s = [dq] @ concat (map esc_char s) @ [dq]"

fun dumps :: "json \<Rightarrow> string" and dumps_list :: "json list \<Rightarrow> string"
  and dumps_dict :: "(string \<times> json) list \<Rightarrow> string" where
  "dumps JNull = ''null''"
| "dumps (JBool b) = (if b then ''true'' else ''false'')"
| "dumps (JInt i) = show_int i"
| "dumps (JFloat s) = s"
| "dumps (JStr s) = dumps_str s"
| "dumps (JArr xs) = ''['' @ (case xs of [] \<Rightarrow> [] | x # ys \<Rightarrow> dumps x @ dumps_list ys) @ '']''"
| "dumps (JObj d) =
     ''{'' @ (case d of [] \<Rightarrow> [] | (k, v) # e \<Rightarrow> dumps_str k @ '': '' @ dumps v @ dumps_dict e) @ ''}''"
| "dumps_list [] = []"
| "dumps_list (x # xs) = '', '' @ dumps x @ dumps_list xs"
| "dumps_dict [] = []"
| "dumps_dict ((k, v) # d) = '', '' @ dumps_str k @ '': '' @ dumps v @ dumps_dict d"

section \<open>Reading\<close>

definition is_ws :: "char \<Rightarrow> bool" where
  "is_ws c \<longleftrightarrow> (of_char c :: nat) \<in> {9, 10, 13, 32}"

definition skip_ws :: "string \<Rightarrow> string" where
  "skip_ws s = dropWhile is_ws s"

definition is_digit :: "char \<Rightarrow> bool" where
  "is_digit c \<longleftrightarrow> 48 \<le> (of_char c :: nat) \<and> (of_char c :: nat) \<le> 57"

definition read_nat :: "string \<Rightarrow> nat" where
  "read_nat s = foldl (\<lambda>n c. 10 * n + (of_char c - 48)) 0 s"

definition hex_val :: "char \<Rightarrow> nat option" where
  "hex_val c =
     (let n = (of_char c :: nat)
      in if 48 \<le> n \<and> n \<le> 57 then Some (n - 48)
         else if 97 \<le> n \<and> n \<le> 102 then Some (n - 87)
         else if 65 \<le> n \<and> n \<le> 70 then Some (n - 55)
         else None)"

definition hex4 :: "char \<Rightarrow> char \<Rightarrow> char \<Rightarrow> char \<Rightarrow> nat option" where
  "hex4 a b c d =
     (case (hex_val a, hex_val b, hex_val c, hex_val d) of
        (Some i, Some j, Some k, Some l) \<Rightarrow> Some (((i * 16 + j) * 16 + k) * 16 + l)
      | _ \<Rightarrow> None)"

text \<open>UTF-8 encoding of a code point.\<close>

definition utf8 :: "nat \<Rightarrow> string" where
  "utf8 n =
     (if n < 128 then [char_of n]
      else if n < 2048 then [char_of (192 + n div 64), char_of (128 + n mod 64)]
      else if n < 65536 then
        [char_of (224 + n div 4096), char_of (128 + (n div 64) mod 64), char_of (128 + n mod 64)]
      else [char_of (240 + n div 262144), char_of (128 + (n div 4096) mod 64),
            char_of (128 + (n div 64) mod 64), char_of (128 + n mod 64)])"

definition simple_escape :: "char \<Rightarrow> char option" where
  "simple_escape c =
     (if c = dq \<or> c = bsl \<or> c = CHR ''/'' then Some c
      else if c = CHR ''n'' then Some (CHR 0x0A)
      else if c = CHR ''r'' then Some (CHR 0x0D)
      else if c = CHR ''t'' then Some (CHR 0x09)
      else if c = CHR ''b'' then Some (CHR 0x08)
      else if c = CHR ''f'' then Some (CHR 0x0C)
      else None)"

definition cons_str :: "string \<Rightarrow> (string \<times> string) option \<Rightarrow> (string \<times> string) option" where
  "cons_str u r = map_option (\<lambda>(t, rest). (u @ t, rest)) r"

text \<open>A \<open>\u\<close> escape: its text and what follows. A high surrogate followed by an escaped low one is
  one code point.\<close>

fun unicode_escape :: "string \<Rightarrow> (string \<times> string) option" where
  "unicode_escape (a # b # c # d # s) =
     (case hex4 a b c d of
        None \<Rightarrow> None
      | Some n \<Rightarrow>
          (case s of
             e # f # a' # b' # c' # d' # s' \<Rightarrow>
               (case hex4 a' b' c' d' of
                  Some m \<Rightarrow>
                    (if 55296 \<le> n \<and> n < 56320 \<and> e = bsl \<and> f = CHR ''u'' \<and> 56320 \<le> m \<and> m < 57344
                     then Some (utf8 (65536 + (n - 55296) * 1024 + (m - 56320)), s')
                     else Some (utf8 n, s))
                | None \<Rightarrow> Some (utf8 n, s))
           | _ \<Rightarrow> Some (utf8 n, s)))"
| "unicode_escape _ = None"

lemma unicode_escape_length: "unicode_escape s = Some (u, r) \<Longrightarrow> length r < length s"
  by (induction s rule: unicode_escape.induct) (auto split: option.splits list.splits if_splits)

text \<open>The body of a string literal, after its opening quote.\<close>

function read_str :: "string \<Rightarrow> (string \<times> string) option" where
  "read_str [] = None"
| "read_str (c # s) =
     (if c = dq then Some ([], s)
      else if c = bsl then
        (case s of
           [] \<Rightarrow> None
         | e # s' \<Rightarrow>
             (if e = CHR ''u'' then
                (case unicode_escape s' of
                   None \<Rightarrow> None
                 | Some (u, r) \<Rightarrow> cons_str u (read_str r))
              else (case simple_escape e of
                      None \<Rightarrow> None
                    | Some x \<Rightarrow> cons_str [x] (read_str s'))))
      else if (of_char c :: nat) < 32 then None
      else cons_str [c] (read_str s))"
  by pat_completeness auto
termination
  by (relation "measure length") (auto dest: unicode_escape_length)

text \<open>A number literal: integer part, optional fraction, optional exponent.\<close>

definition read_frac :: "string \<Rightarrow> string" where
  "read_frac s =
     (case s of
        c # t \<Rightarrow> if c = CHR ''.'' \<and> takeWhile is_digit t \<noteq> [] then c # takeWhile is_digit t else []
      | [] \<Rightarrow> [])"

definition read_exp :: "string \<Rightarrow> string" where
  "read_exp s =
     (case s of
        c # t \<Rightarrow>
          (if c = CHR ''e'' \<or> c = CHR ''E'' then
             (case t of
                d # u \<Rightarrow>
                  (if (d = CHR ''+'' \<or> d = CHR ''-'') \<and> takeWhile is_digit u \<noteq> []
                   then c # d # takeWhile is_digit u
                   else if takeWhile is_digit t \<noteq> [] then c # takeWhile is_digit t else [])
              | [] \<Rightarrow> [])
           else [])
      | [] \<Rightarrow> [])"

definition read_num :: "string \<Rightarrow> (json \<times> string) option" where
  "read_num s =
     (let neg = (s \<noteq> [] \<and> hd s = CHR ''-'');
          s1 = (if neg then tl s else s);
          ds = takeWhile is_digit s1;
          ip = (if ds \<noteq> [] \<and> hd ds = CHR ''0'' then take 1 ds else ds)
      in if ip = [] then None
         else let s2 = drop (length ip) s1;
                  fr = read_frac s2;
                  ex = read_exp (drop (length fr) s2);
                  rest = drop (length ex) (drop (length fr) s2)
              in if fr = [] \<and> ex = []
                 then Some (JInt (if neg then - int (read_nat ip) else int (read_nat ip)), rest)
                 else Some (JFloat ((if neg then ''-'' else []) @ ip @ fr @ ex), rest))"

fun read_val :: "nat \<Rightarrow> string \<Rightarrow> (json \<times> string) option"
  and read_items :: "nat \<Rightarrow> json list \<Rightarrow> string \<Rightarrow> (json \<times> string) option"
  and read_pairs :: "nat \<Rightarrow> jdict \<Rightarrow> string \<Rightarrow> (json \<times> string) option" where
  "read_val 0 s = None"
| "read_val (Suc n) s =
     (if startswith s ''null'' then Some (JNull, drop 4 s)
      else if startswith s ''true'' then Some (JBool True, drop 4 s)
      else if startswith s ''false'' then Some (JBool False, drop 5 s)
      else if startswith s ''NaN'' then Some (JFloat ''nan'', drop 3 s)
      else if startswith s ''Infinity'' then Some (JFloat ''inf'', drop 8 s)
      else if startswith s ''-Infinity'' then Some (JFloat ''-inf'', drop 9 s)
      else (case s of
              [] \<Rightarrow> None
            | c # t \<Rightarrow>
                (if c = dq then map_option (\<lambda>(u, r). (JStr u, r)) (read_str t)
                 else if c = CHR ''['' then
                   (case skip_ws t of
                      [] \<Rightarrow> None
                    | d # u \<Rightarrow> if d = CHR '']'' then Some (JArr [], u) else read_items n [] (skip_ws t))
                 else if c = CHR ''{'' then
                   (case skip_ws t of
                      [] \<Rightarrow> None
                    | d # u \<Rightarrow> if d = CHR ''}'' then Some (JObj [], u) else read_pairs n [] (skip_ws t))
                 else read_num s)))"
| "read_items 0 acc s = None"
| "read_items (Suc n) acc s =
     (case read_val n s of
        None \<Rightarrow> None
      | Some (v, r) \<Rightarrow>
          (case skip_ws r of
             [] \<Rightarrow> None
           | d # u \<Rightarrow>
               (if d = CHR '']'' then Some (JArr (acc @ [v]), u)
                else if d = CHR '','' then read_items n (acc @ [v]) (skip_ws u)
                else None)))"
| "read_pairs 0 acc s = None"
| "read_pairs (Suc n) acc s =
     (case s of
        [] \<Rightarrow> None
      | q # t \<Rightarrow>
          (if q \<noteq> dq then None
           else (case read_str t of
                   None \<Rightarrow> None
                 | Some (k, r) \<Rightarrow>
                     (case skip_ws r of
                        [] \<Rightarrow> None
                      | d # u \<Rightarrow>
                          (if d \<noteq> CHR '':'' then None
                           else (case read_val n (skip_ws u) of
                                   None \<Rightarrow> None
                                 | Some (v, r') \<Rightarrow>
                                     (case skip_ws r' of
                                        [] \<Rightarrow> None
                                      | e # w \<Rightarrow>
                                          (if e = CHR ''}'' then Some (JObj (dict_set k v acc), w)
                                           else if e = CHR '','' then read_pairs n (dict_set k v acc) (skip_ws w)
                                           else None)))))))) "

definition loads :: "string \<Rightarrow> json option" where
  "loads s =
     (case read_val (Suc (length s)) (skip_ws s) of
        Some (v, r) \<Rightarrow> if skip_ws r = [] then Some v else None
      | None \<Rightarrow> None)"

section \<open>The round trip\<close>

lemma cons_str_Some [simp]: "cons_str u (Some (t, r)) = Some (u @ t, r)"
  by (simp add: cons_str_def)

lemma hex_val_digit: "n < 16 \<Longrightarrow> hex_val (hex_digit n) = Some n"
  by (auto simp: hex_val_def hex_digit_def of_char_of)

lemma hex4_control:
  assumes "n < 32"
  shows "hex4 (CHR ''0'') (CHR ''0'') (hex_digit (n div 16)) (hex_digit (n mod 16)) = Some n"
proof -
  have "hex_val (CHR ''0'') = Some 0" by (simp add: hex_val_def)
  with assms show ?thesis by (simp add: hex4_def hex_val_digit)
qed

lemma unicode_escape_control:
  "n < 32 \<Longrightarrow> unicode_escape (CHR ''0'' # CHR ''0'' # hex_digit (n div 16) # hex_digit (n mod 16) # s)
     = Some ([char_of n], s)"
  by (auto simp: hex4_control utf8_def split: list.splits option.splits)

lemma dq_code: "(of_char dq :: nat) = 34" and bsl_code: "(of_char bsl :: nat) = 92"
  by (simp_all add: dq_def bsl_def)

lemma char_code_eq: "c = d \<longleftrightarrow> (of_char c :: nat) = of_char d"
  by simp

lemma read_str_esc: "read_str (esc_char c @ s) = cons_str [c] (read_str s)"
proof -
  let ?n = "of_char c :: nat"
  have c: "c = char_of ?n" by simp
  consider "c = dq" | "c = bsl" | "c = CHR 0x0A" | "c = CHR 0x0D" | "c = CHR 0x09" | "c = CHR 0x08" | "c = CHR 0x0C"
    | "c \<noteq> dq" "c \<noteq> bsl" "?n < 32" "?n \<notin> {10, 13, 9, 8, 12}"
    | "c \<noteq> dq" "c \<noteq> bsl" "32 \<le> ?n"
    by (cases "?n < 32"; cases "?n \<in> {10, 13, 9, 8, 12}") (auto simp: char_code_eq simp del: of_char_eq_iff)
  then show ?thesis
  proof cases
    case 8
    then have "read_str (esc_char c @ s) = cons_str [char_of ?n] (read_str s)"
      by (simp add: esc_char_def Let_def unicode_escape_control bsl_def dq_def del: unicode_escape.simps)
    then show ?thesis by simp
  next
    case 9
    then have "?n \<noteq> 10 \<and> ?n \<noteq> 13 \<and> ?n \<noteq> 9 \<and> ?n \<noteq> 8 \<and> ?n \<noteq> 12 \<and> \<not> ?n < 32" by auto
    with 9 show ?thesis by (simp add: esc_char_def del: of_char_eq_iff)
  qed (simp_all add: esc_char_def simple_escape_def bsl_def dq_def)
qed

lemma read_str_dumps: "read_str (concat (map esc_char s) @ dq # r) = Some (s, r)"
  by (induction s) (simp_all add: read_str_esc)

lemma is_digit_digit: "n < 10 \<Longrightarrow> is_digit (digit n)"
  by (simp add: is_digit_def of_char_digit)

lemma show_nat_digits: "\<forall>c\<in>set (show_nat n). is_digit c"
proof (induction n rule: show_nat.induct)
  case (1 n)
  then show ?case by (subst show_nat.simps) (auto simp: is_digit_digit)
qed

lemma read_nat_snoc: "read_nat (s @ [c]) = 10 * read_nat s + (of_char c - 48)"
  by (simp add: read_nat_def)

lemma read_nat_show: "read_nat (show_nat n) = n"
proof (induction n rule: show_nat.induct)
  case (1 n)
  show ?case
  proof (cases "n < 10")
    case True
    then show ?thesis
      by (subst show_nat.simps) (simp add: read_nat_def of_char_digit)
  next
    case False
    with 1 show ?thesis
      by (subst show_nat.simps) (simp add: read_nat_snoc of_char_digit)
  qed
qed

lemma digit_0: "digit 0 = CHR ''0''"
  by code_simp

lemma show_nat_hd_zero: "hd (show_nat n) = CHR ''0'' \<Longrightarrow> n = 0"
proof (induction n rule: show_nat.induct)
  case (1 n)
  show ?case
  proof (cases "n < 10")
    case True
    with 1 have "digit n = digit 0" by (simp add: show_nat.simps [of n] digit_0)
    with True show ?thesis by (simp add: digit_inject)
  next
    case False
    with 1 show ?thesis by (simp add: show_nat.simps [of n])
  qed
qed

text \<open>What may follow a value inside a document the writer produced.\<close>

definition val_end :: "string \<Rightarrow> bool" where
  "val_end r \<longleftrightarrow> r = [] \<or> hd r \<in> {CHR '','', CHR '']'', CHR ''}''}"

lemma val_end_not_num:
  assumes "val_end r"
  shows "read_frac r = []" "read_exp r = []" "takeWhile is_digit r = []"
  using assms
  by (cases r; auto simp: val_end_def read_frac_def read_exp_def is_digit_def)+

lemma takeWhile_all_append: "\<forall>c\<in>set s. P c \<Longrightarrow> takeWhile P (s @ r) = s @ takeWhile P r"
  by simp

lemma read_num_nat:
  assumes "val_end r"
  shows "read_num (show_nat n @ r) = Some (JInt (int n), r)"
    and "read_num (CHR ''-'' # show_nat n @ r) = Some (JInt (- int n), r)"
proof -
  let ?s = "show_nat n"
  have tw: "takeWhile is_digit (?s @ r) = ?s"
    using show_nat_digits val_end_not_num(3) [OF assms] by simp
  have zero: "take (Suc 0) ?s = ?s" if "hd ?s = CHR ''0''"
    using show_nat_hd_zero [OF that] by (simp add: show_nat.simps [of 0])
  have nd: "hd (?s @ r) \<noteq> CHR ''-''"
    using show_nat_digits [of n] by (cases ?s) (auto simp: is_digit_def)
  show "read_num (?s @ r) = Some (JInt (int n), r)"
    using tw zero nd val_end_not_num [OF assms]
    by (auto simp: read_num_def Let_def read_nat_show)
  show "read_num (CHR ''-'' # ?s @ r) = Some (JInt (- int n), r)"
    using tw zero val_end_not_num [OF assms]
    by (auto simp: read_num_def Let_def read_nat_show)
qed

text \<open>Documents the writer and the reader agree on: distinct keys, and every float the literal of a
  number with a fraction or an exponent.\<close>

definition float_text :: "string \<Rightarrow> bool" where
  "float_text t \<longleftrightarrow> t \<noteq> [] \<and> (is_digit (hd t) \<or> (hd t = CHR ''-'' \<and> tl t \<noteq> [] \<and> is_digit (hd (tl t)))) \<and>
     (\<forall>r. val_end r \<longrightarrow> read_num (t @ r) = Some (JFloat t, r))"

fun jwf :: "json \<Rightarrow> bool" where
  "jwf (JFloat t) = float_text t"
| "jwf (JArr xs) = (\<forall>x\<in>set xs. jwf x)"
| "jwf (JObj d) = (distinct (map fst d) \<and> (\<forall>p\<in>set d. jwf (snd p)))"
| "jwf _ = True"

definition num_start :: "string \<Rightarrow> bool" where
  "num_start t \<longleftrightarrow> t \<noteq> [] \<and> (is_digit (hd t) \<or> (hd t = CHR ''-'' \<and> tl t \<noteq> [] \<and> is_digit (hd (tl t))))"

lemma startswith_Cons: "startswith (c # s) (d # p) \<longleftrightarrow> c = d \<and> startswith s p"
  by (auto simp: startswith_def)

lemma read_val_num:
  assumes "num_start t"
  shows "read_val (Suc n) (t @ r) = read_num (t @ r)"
proof -
  from assms obtain c u where cu: "t = c # u" by (auto simp: num_start_def neq_Nil_conv)
  from assms have c: "is_digit c \<or> (c = CHR ''-'' \<and> (\<exists>d w. u = d # w \<and> is_digit d))"
    by (auto simp: num_start_def cu neq_Nil_conv)
  then have ne: "c \<noteq> CHR ''n''" "c \<noteq> CHR ''t''" "c \<noteq> CHR ''f''" "c \<noteq> CHR ''N''" "c \<noteq> CHR ''I''"
      "c \<noteq> CHR 0x22" "c \<noteq> CHR ''[''" "c \<noteq> CHR ''{''"
    by (auto simp: is_digit_def)
  have "\<not> startswith (t @ r) ''-Infinity''"
  proof (cases "c = CHR ''-''")
    case True
    with c obtain d w where "u = d # w" "is_digit d" by (auto simp: is_digit_def)
    then show ?thesis by (auto simp: cu startswith_Cons is_digit_def)
  qed (simp add: cu startswith_Cons)
  with ne show ?thesis by (auto simp: cu startswith_Cons dq_def)
qed

lemma num_start_show_int: "num_start (show_int i)"
proof -
  have "is_digit (hd (show_nat n))" for n
    using show_nat_digits [of n] by (cases "show_nat n") auto
  then show ?thesis by (auto simp: num_start_def show_int_def)
qed

lemma read_num_show_int: "val_end r \<Longrightarrow> read_num (show_int i @ r) = Some (JInt i, r)"
  using read_num_nat [of r "nat i"] read_num_nat [of r "nat (- i)"] by (auto simp: show_int_def)

lemma num_start_no_ws: "num_start t \<Longrightarrow> skip_ws (t @ r) = t @ r"
  by (cases t) (auto simp: num_start_def skip_ws_def is_ws_def is_digit_def)

lemma skip_ws_dumps: "jwf v \<Longrightarrow> skip_ws (dumps v @ r) = dumps v @ r"
proof (cases v)
  case (JInt i)
  then show ?thesis by (simp add: num_start_no_ws num_start_show_int)
next
  case (JFloat t)
  moreover assume "jwf v"
  ultimately have "num_start t" by (auto simp: float_text_def num_start_def)
  with JFloat show ?thesis by (simp add: num_start_no_ws)
qed (auto simp: skip_ws_def is_ws_def dumps_str_def dq_def)

lemma skip_ws_str: "skip_ws (dumps_str k @ r) = dumps_str k @ r"
  by (simp add: skip_ws_def is_ws_def dumps_str_def dq_def)

definition reads_back :: "json \<Rightarrow> bool" where
  "reads_back v \<longleftrightarrow>
     (\<forall>n r. val_end r \<longrightarrow> length (dumps v) < n \<longrightarrow> read_val n (dumps v @ r) = Some (v, r))"

lemma dumps_ne: "jwf v \<Longrightarrow> dumps v \<noteq> []"
  by (cases v) (auto simp: show_int_def dumps_str_def float_text_def)

lemma skip_ws_sep: "skip_ws (CHR '','' # r) = CHR '','' # r" "skip_ws (CHR '']'' # r) = CHR '']'' # r"
    "skip_ws (CHR ''}'' # r) = CHR ''}'' # r" "skip_ws (CHR '':'' # r) = CHR '':'' # r"
    "skip_ws (CHR '' '' # r) = skip_ws r"
  by (simp_all add: skip_ws_def is_ws_def)

lemma val_end_list: "val_end (dumps_list xs @ CHR '']'' # r)"
  by (cases xs) (simp_all add: val_end_def)

lemma val_end_dict: "val_end (dumps_dict d @ CHR ''}'' # r)"
  by (cases d) (auto simp: val_end_def)

lemma read_items_dumps:
  assumes "\<forall>v\<in>set (x # ys). reads_back v \<and> jwf v"
    and "length (dumps x @ dumps_list ys) + 1 < n"
  shows "read_items n acc (dumps x @ dumps_list ys @ CHR '']'' # r) = Some (JArr (acc @ x # ys), r)"
  using assms
proof (induction ys arbitrary: x acc n)
  case Nil
  then obtain m where m: "n = Suc m" by (cases n) auto
  have "read_val m (dumps x @ CHR '']'' # r) = Some (x, CHR '']'' # r)"
    using Nil by (simp add: reads_back_def val_end_def m)
  then show ?case by (simp add: m skip_ws_sep)
next
  case (Cons y zs)
  then obtain m where m: "n = Suc m" by (cases n) auto
  let ?t = "dumps y @ dumps_list zs @ CHR '']'' # r"
  have "read_val m (dumps x @ dumps_list (y # zs) @ CHR '']'' # r) = Some (x, dumps_list (y # zs) @ CHR '']'' # r)"
    using Cons.prems val_end_list [of "y # zs" r] by (auto simp: reads_back_def m simp del: dumps_list.simps)
  moreover have "skip_ws ?t = ?t"
    using Cons.prems(1) by (simp add: skip_ws_dumps)
  moreover have "read_items m (acc @ [x]) ?t = Some (JArr ((acc @ [x]) @ y # zs), r)"
    using Cons.prems by (intro Cons.IH) (auto simp: m)
  ultimately show ?case by (simp add: m skip_ws_sep)
qed

lemma dict_set_new: "k \<notin> fst ` set d \<Longrightarrow> dict_set k v d = d @ [(k, v)]"
  by (induction d) auto

lemma read_pairs_dumps:
  assumes "\<forall>v\<in>set (snd p # map snd e). reads_back v \<and> jwf v"
    and "distinct (map fst (acc @ p # e))"
    and "length (dumps_str (fst p) @ dumps (snd p) @ dumps_dict e) + 1 < n"
  shows "read_pairs n acc (dumps_str (fst p) @ '': '' @ dumps (snd p) @ dumps_dict e @ CHR ''}'' # r)
           = Some (JObj (acc @ p # e), r)"
  using assms
proof (induction e arbitrary: p acc n)
  case Nil
  obtain k v where p: "p = (k, v)" by (cases p)
  from Nil obtain m where m: "n = Suc m" by (cases n) auto
  have v: "read_val m (dumps v @ CHR ''}'' # r) = Some (v, CHR ''}'' # r)"
    using Nil by (simp add: p m reads_back_def val_end_def)
  have "k \<notin> fst ` set acc" using Nil.prems(2) by (auto simp: p)
  with v Nil show ?case
    by (simp add: p m dumps_str_def read_str_dumps skip_ws_sep skip_ws_dumps dict_set_new)
next
  case (Cons q e)
  obtain k v where p: "p = (k, v)" by (cases p)
  obtain k' v' where q: "q = (k', v')" by (cases q)
  from Cons.prems obtain m where m: "n = Suc m" by (cases n) auto
  let ?t = "dumps_str k' @ '': '' @ dumps v' @ dumps_dict e @ CHR ''}'' # r"
  have "read_val m (dumps v @ dumps_dict (q # e) @ CHR ''}'' # r) = Some (v, dumps_dict (q # e) @ CHR ''}'' # r)"
    using Cons.prems val_end_dict [of "q # e" r] by (auto simp: p m reads_back_def simp del: dumps_dict.simps)
  moreover have "skip_ws ?t = ?t" by (simp add: skip_ws_str)
  moreover have "k \<notin> fst ` set acc" using Cons.prems(2) by (auto simp: p)
  moreover have "read_pairs m (acc @ [(k, v)]) (dumps_str (fst q) @ '': '' @ dumps (snd q) @ dumps_dict e @ CHR ''}'' # r)
      = Some (JObj ((acc @ [(k, v)]) @ q # e), r)"
    using Cons.prems by (intro Cons.IH) (auto simp: p q m)
  moreover have "skip_ws (dumps v @ s) = dumps v @ s" for s
    using Cons.prems(1) by (simp add: p skip_ws_dumps)
  ultimately show ?case
    by (simp add: p q m dumps_str_def read_str_dumps skip_ws_sep dict_set_new)
qed

lemma reads_backI:
  "(\<And>m r. val_end r \<Longrightarrow> length (dumps v) \<le> m \<Longrightarrow> read_val (Suc m) (dumps v @ r) = Some (v, r)) \<Longrightarrow> reads_back v"
  unfolding reads_back_def by (metis Suc_le_mono Suc_le_eq gr_zeroI not_less_zero old.nat.exhaust)

lemma hd_dumps_not_close: "jwf v \<Longrightarrow> hd (dumps v) \<noteq> CHR '']''"
proof (cases v)
  case (JInt i)
  have "is_digit (hd (show_nat n))" for n
    using show_nat_digits [of n] by (cases "show_nat n") auto
  moreover have "\<not> is_digit (CHR '']'')" by (simp add: is_digit_def)
  ultimately have "hd (show_nat n) \<noteq> CHR '']''" for n by metis
  with JInt show ?thesis by (simp add: show_int_def)
qed (auto simp: dumps_str_def dq_def float_text_def is_digit_def)

lemma reads_back_arr:
  assumes all: "\<forall>v\<in>set xs. reads_back v \<and> jwf v"
  shows "reads_back (JArr xs)"
proof (cases xs)
  case Nil
  then show ?thesis by (intro reads_backI) (simp add: startswith_Cons dq_def skip_ws_sep)
next
  case (Cons x ys)
  show ?thesis
  proof (rule reads_backI)
    fix m r assume m: "length (dumps (JArr xs)) \<le> m"
    let ?t = "dumps x @ dumps_list ys @ CHR '']'' # r"
    have "skip_ws ?t = ?t" "dumps x \<noteq> []" "hd (dumps x) \<noteq> CHR '']''"
      using all Cons by (simp_all add: skip_ws_dumps dumps_ne hd_dumps_not_close)
    then show "read_val (Suc m) (dumps (JArr xs) @ r) = Some (JArr xs, r)"
      using read_items_dumps [OF all [unfolded Cons], of m "[]" r] m
      by (cases "dumps x") (auto simp: Cons startswith_Cons dq_def)
  qed
qed

lemma reads_back_obj:
  assumes all: "\<forall>q\<in>set d. reads_back (snd q) \<and> jwf (snd q)" and wf: "jwf (JObj d)"
  shows "reads_back (JObj d)"
proof (cases d)
  case Nil
  then show ?thesis by (intro reads_backI) (simp add: startswith_Cons dq_def skip_ws_sep)
next
  case (Cons p e)
  obtain k v where p: "p = (k, v)" by (cases p)
  have vals: "\<forall>w\<in>set (snd p # map snd e). reads_back w \<and> jwf w" using all by (auto simp: Cons)
  show ?thesis
  proof (rule reads_backI)
    fix m r assume m: "length (dumps (JObj d)) \<le> m"
    have "read_pairs m [] (dumps_str k @ '': '' @ dumps v @ dumps_dict e @ CHR ''}'' # r) = Some (JObj d, r)"
      using read_pairs_dumps [OF vals, of "[]" m r] m wf by (simp add: Cons p)
    then show "read_val (Suc m) (dumps (JObj d) @ r) = Some (JObj d, r)"
      using skip_ws_str [of k "'': '' @ dumps v @ dumps_dict e @ CHR ''}'' # r"]
      by (simp add: Cons p startswith_Cons dq_def dumps_str_def)
  qed
qed

lemma jwf_reads_back: "jwf v \<Longrightarrow> reads_back v"
proof (induction v)
  case (JInt i)
  show ?case
    by (rule reads_backI) (simp add: read_val_num num_start_show_int read_num_show_int del: read_val.simps)
next
  case (JFloat t)
  then have "num_start t" "\<And>r. val_end r \<Longrightarrow> read_num (t @ r) = Some (JFloat t, r)"
    by (auto simp: float_text_def num_start_def)
  then show ?case
    by (intro reads_backI) (simp add: read_val_num del: read_val.simps)
next
  case (JStr s)
  show ?case
    by (rule reads_backI) (simp add: dumps_str_def startswith_Cons dq_def read_str_dumps [unfolded dq_def])
next
  case (JArr xs)
  then show ?case by (intro reads_back_arr) auto
next
  case (JObj d)
  have "reads_back (snd q) \<and> jwf (snd q)" if "q \<in> set d" for q
    using JObj.IH [of q "snd q"] JObj.prems that by (cases q) auto
  with JObj.prems show ?case by (intro reads_back_obj) auto
qed (auto intro!: reads_backI simp: startswith_Cons startswith_def)

text \<open>Reading back what was written: \<open>json.loads(json.dumps(v)) == v\<close> for every document with distinct
  keys whose floats are number literals. Every JSON column of the stores is written and read this way.\<close>

lemma loads_dumps:
  assumes "jwf v"
  shows "loads (dumps v) = Some v"
proof -
  have "read_val (Suc (length (dumps v))) (dumps v @ []) = Some (v, [])"
    using jwf_reads_back [OF assms] by (simp add: reads_back_def val_end_def del: read_val.simps)
  then show ?thesis
    using skip_ws_dumps [OF assms, of "[]"] by (simp add: loads_def skip_ws_def del: read_val.simps)
qed

section \<open>A written document is one line\<close>

definition printable :: "char \<Rightarrow> bool" where
  "printable c \<longleftrightarrow> 32 \<le> (of_char c :: nat)"

lemma digit_printable: "is_digit c \<Longrightarrow> printable c"
  by (simp add: is_digit_def printable_def)

lemma printable_consts [simp]:
  "printable CHR ''-''" "printable CHR ''+''" "printable CHR ''.''" "printable CHR ''e''" "printable CHR ''E''"
  by (simp_all add: printable_def)

lemma takeWhile_digits_printable [simp]: "list_all printable (takeWhile is_digit s)"
  by (auto simp: list_all_iff dest: set_takeWhileD intro: digit_printable)

lemma take_printable [simp]: "list_all printable s \<Longrightarrow> list_all printable (take n s)"
  by (auto simp: list_all_iff dest: in_set_takeD)

lemma hex_digit_printable: "n < 16 \<Longrightarrow> printable (hex_digit n)"
  by (simp add: hex_digit_def printable_def of_char_of)

lemma esc_char_printable: "d \<in> set (esc_char c) \<Longrightarrow> printable d"
  using hex_digit_printable [of "of_char c div 16"] hex_digit_printable [of "of_char c mod 16"]
  by (auto simp: esc_char_def Let_def bsl_def dq_def printable_def split: if_splits)

lemma read_frac_printable [simp]: "list_all printable (read_frac s)"
  by (cases s) (simp_all add: read_frac_def)

lemma read_exp_printable [simp]: "list_all printable (read_exp s)"
proof (cases s)
  case (Cons c t)
  then show ?thesis by (cases t) (auto simp: read_exp_def digit_printable)
qed (simp add: read_exp_def)

lemma float_text_printable:
  assumes "float_text t"
  shows "\<forall>c\<in>set t. printable c"
proof -
  have "read_num (t @ []) = Some (JFloat t, [])" using assms unfolding float_text_def val_end_def by blast
  then obtain sg ip u w where "t = sg @ ip @ read_frac u @ read_exp w" "sg = ''-'' \<or> sg = []"
      "\<exists>n v. ip = take n (takeWhile is_digit v)"
    unfolding read_num_def Let_def
    by (auto split: if_splits) (metis append_Cons append_Nil take_all_iff order_refl)+
  then have "list_all printable t" by auto
  then show ?thesis by (simp add: list_all_iff)
qed

lemma dumps_str_printable: "\<forall>c\<in>set (dumps_str s). printable c"
  by (auto simp: dumps_str_def dq_def intro: esc_char_printable) (simp_all add: printable_def)

lemma show_int_printable: "\<forall>c\<in>set (show_int i). printable c"
  using show_nat_digits digit_printable by (auto simp: show_int_def)

lemma dumps_printable:
  "jwf v \<Longrightarrow> \<forall>c\<in>set (dumps v). printable c"
  "(\<forall>x\<in>set xs. jwf x) \<Longrightarrow> \<forall>c\<in>set (dumps_list xs). printable c"
  "(\<forall>p\<in>set d. jwf (snd p)) \<Longrightarrow> \<forall>c\<in>set (dumps_dict d). printable c"
proof (induction v and xs and d rule: dumps_dumps_list_dumps_dict.induct)
  case 5
  then show ?case using dumps_str_printable by simp
next
  case (6 xs)
  then show ?case by (cases xs) (auto simp: printable_def)
next
  case (7 d)
  then show ?case using dumps_str_printable by (cases d) (auto simp: printable_def)
next
  case (9 x xs)
  then show ?case by (auto simp: printable_def)
next
  case (11 k v d)
  then show ?case using dumps_str_printable by (auto simp: printable_def)
qed (use show_int_printable float_text_printable in \<open>auto simp: printable_def\<close>)

end
