(* ===== verification/Database.thy ===== *)
theory Database
  imports Json_Text Datetime
begin

text \<open>
  The database schema of \<open>src/infra/db/models.py\<close> and the SQL the stores use. A table is the list of its
  rows in insertion order; the primary keys and the columns that may not be null are checked on insert, as
  SQLite does. A nullable column that takes its value from an EVE record is a \<^typ>\<open>json\<close> scalar, with
  \<^const>\<open>JNull\<close> for NULL. Text columns convert what they are given (\<open>text_aff\<close>), as a column of TEXT affinity
  does. A write is one transaction: it yields the new database, or an exception and no change. A row whose
  identifier is generated by \<open>uuid4\<close> receives it as an argument.
\<close>

section \<open>Rows\<close>

record alert_row =
  a_alert_id :: string
  a_sensor_id :: int
  a_eve_alert_uuid :: json
  a_signature_id :: json
  a_signature_msg :: json
  a_signature_severity :: json
  a_flow_id :: json
  a_src_ip :: json
  a_src_port :: json
  a_dst_ip :: json
  a_dst_port :: json
  a_proto :: json
  a_app_proto :: json
  a_event_timestamp :: json
  a_ingest_timestamp :: string
  a_raw_eve :: string
  a_home_net_match :: json
  a_initiator_role :: json
  a_target_role :: json
  a_attacker_role :: json
  a_victim_role :: json
  a_role_assignment_confidence :: json
  a_role_assignment_reasoning :: json
  a_role_assignment_signals :: json
  a_status :: string
  a_auto_analyzed :: bool
  a_verdict_id :: "string option"
  a_disposition_id :: "string option"

record eve_row =
  e_event_id :: string
  e_sensor_id :: int
  e_event_type :: json
  e_flow_id :: json
  e_event_timestamp :: json
  e_ingest_timestamp :: string
  e_raw_eve :: string

record config_fact_row =
  f_fact_id :: string
  f_fact_type :: string
  f_fact_key :: string
  f_fact_value :: string
  f_read_at :: string
  f_is_current :: bool

record verdict_row =
  v_verdict_id :: string
  v_alert_id :: string
  v_verdict_category :: string
  v_confidence_score :: rat
  v_reasoning :: string
  v_contributing_facts :: string
  v_evidence_chain :: string
  v_model_version :: string
  v_prompt_version :: string
  v_llm_inputs :: string
  v_llm_raw_output :: string
  v_latency_ms :: int
  v_is_current :: bool
  v_created_at :: string

record disposition_row =
  d_disposition_id :: json
  d_alert_id :: json
  d_verdict_id :: json
  d_analyst_user_id :: json
  d_disposition_action :: json
  d_override_category :: json
  d_override_reason_freetext :: json
  d_schema_version :: json
  d_created_at :: json

record user_row =
  u_user_id :: string
  u_username :: string
  u_password_hash :: "string option"
  u_role :: string
  u_created_at :: string
  u_last_login_at :: "string option"
  u_is_active :: bool

record system_config_row =
  k_config_key :: string
  k_config_value :: string
  k_updated_at :: string

record db =
  alerts :: "alert_row list"
  eve_events :: "eve_row list"
  suricata_config_facts :: "config_fact_row list"
  verdicts :: "verdict_row list"
  dispositions :: "disposition_row list"
  users :: "user_row list"
  system_config :: "system_config_row list"

definition empty_db :: db where
  "empty_db = \<lparr>alerts = [], eve_events = [], suricata_config_facts = [], verdicts = [], dispositions = [],
     users = [], system_config = []\<rparr>"

section \<open>Values\<close>

definition IntegrityError :: "string \<Rightarrow> exn" where
  "IntegrityError m = Exn ''IntegrityError'' m None"

definition InterfaceError :: exn where
  "InterfaceError = Exn ''InterfaceError'' ''Error binding parameter: type is not supported'' None"

text \<open>What the SQLite driver can bind: no list or dictionary, and integers of 64 bits.\<close>

fun bindable :: "json \<Rightarrow> bool" where
  "bindable (JArr _) = False"
| "bindable (JObj _) = False"
| "bindable (JInt i) = (- (2 ^ 63) \<le> i \<and> i < 2 ^ 63)"
| "bindable _ = True"

fun text_aff :: "json \<Rightarrow> json" where
  "text_aff (JInt i) = JStr (show_int i)"
| "text_aff (JBool b) = JStr (if b then ''1'' else ''0'')"
| "text_aff (JFloat s) = JStr s"
| "text_aff v = v"

text \<open>Comparison of a nullable text column with a string: NULL satisfies none.\<close>

fun col_cmp :: "(string \<Rightarrow> bool) \<Rightarrow> json \<Rightarrow> bool" where
  "col_cmp p (JStr s) = p s"
| "col_cmp p _ = False"

text \<open>\<open>ORDER BY\<close> a nullable text column, ascending: NULL comes first.\<close>

fun order_key :: "json \<Rightarrow> string list" where
  "order_key (JStr s) = [s]"
| "order_key _ = []"

text \<open>\<open>LIKE\<close>: \<open>%\<close> is any text, \<open>_\<close> any one character, and ASCII letters match in either case.\<close>

function like :: "string \<Rightarrow> string \<Rightarrow> bool" where
  "like [] s = (s = [])"
| "like (p # ps) [] = (p = CHR ''%'' \<and> like ps [])"
| "like (p # ps) (c # s) =
     (if p = CHR ''%'' then like ps (c # s) \<or> like (p # ps) s
      else if p = CHR ''_'' then like ps s
      else lower_char c = lower_char p \<and> like ps s)"
  by pat_completeness auto
termination
  by (relation "measures [\<lambda>(p, s). length p + length s]") auto

section \<open>Updating the rows that satisfy a condition\<close>

definition update_where :: "('r \<Rightarrow> bool) \<Rightarrow> ('r \<Rightarrow> 'r) \<Rightarrow> 'r list \<Rightarrow> 'r list" where
  "update_where p f rs = map (\<lambda>r. if p r then f r else r) rs"

lemma length_update_where [simp]: "length (update_where p f rs) = length rs"
  by (simp add: update_where_def)

lemma set_update_where: "set (update_where p f rs) = (\<lambda>r. if p r then f r else r) ` set rs"
  by (simp add: update_where_def)

lemma map_update_where: "(\<And>r. k (f r) = k r) \<Longrightarrow> map k (update_where p f rs) = map k rs"
  by (simp add: update_where_def)

lemma filter_update_where:
  "(\<And>r. q (f r) = q r) \<Longrightarrow> length (filter q (update_where p f rs)) = length (filter q rs)"
  by (induction rs) (auto simp: update_where_def)

end
