(* ===== verification/Event_Store.thy ===== *)
theory Event_Store
  imports Database
begin

text \<open>
  The event store of \<open>src/infra/db/event_store.py\<close>: the EVE events and alerts, the queue of alerts, the daily
  count behind the analysis cap, and the search for a verdict to inherit. Each operation takes the clock reading
  it makes (\<open>now\<close>) and the identifiers \<open>uuid4\<close> gives it.
\<close>

section \<open>Operations\<close>

definition eve_row_of :: "string \<Rightarrow> instant \<Rightarrow> json \<Rightarrow> eve_row res" where
  "eve_row_of uid now event =
     rbind (jget event ''event_type'' (JStr ''unknown'')) (\<lambda>etype.
     rbind (jget event ''flow_id'' JNull) (\<lambda>flow.
     rbind (jget event ''timestamp'' JNull) (\<lambda>ts.
       Inr \<lparr>e_event_id = uid, e_sensor_id = 1, e_event_type = text_aff etype, e_flow_id = flow,
            e_event_timestamp = text_aff ts, e_ingest_timestamp = isoformat now, e_raw_eve = dumps event\<rparr>)))"

definition eve_row_ok :: "eve_row \<Rightarrow> exn option" where
  "eve_row_ok r =
     (if \<not> (bindable (e_event_type r) \<and> bindable (e_flow_id r) \<and> bindable (e_event_timestamp r)) then Some InterfaceError
      else if e_event_type r = JNull then Some (IntegrityError ''NOT NULL constraint failed: eve_events.event_type'')
      else None)"

text \<open>One \<open>INSERT\<close> of several rows: all or nothing.\<close>

fun insert_eve_rows :: "eve_row list \<Rightarrow> eve_row list \<Rightarrow> eve_row list res" where
  "insert_eve_rows t [] = Inr t"
| "insert_eve_rows t (r # rs) =
     (case eve_row_ok r of
        Some e \<Rightarrow> Inl e
      | None \<Rightarrow>
          (if e_event_id r \<in> set (map e_event_id t)
           then Inl (IntegrityError ''UNIQUE constraint failed: eve_events.event_id'')
           else insert_eve_rows (t @ [r]) rs))"

definition insert_eve_event :: "string \<Rightarrow> instant \<Rightarrow> json \<Rightarrow> db \<Rightarrow> db res" where
  "insert_eve_event uid now event d =
     rbind (eve_row_of uid now event) (\<lambda>r.
     rbind (insert_eve_rows (eve_events d) [r]) (\<lambda>t. Inr (d\<lparr>eve_events := t\<rparr>)))"

definition insert_eve_events_batch :: "(nat \<Rightarrow> string) \<Rightarrow> instant \<Rightarrow> json list \<Rightarrow> db \<Rightarrow> db res" where
  "insert_eve_events_batch uid now events d =
     (if events = [] then Inr d
      else rbind (rmap (\<lambda>(i, e). eve_row_of (uid i) now e) (enumerate 0 events)) (\<lambda>rows.
           rbind (insert_eve_rows (eve_events d) rows) (\<lambda>t. Inr (d\<lparr>eve_events := t\<rparr>))))"

definition alert_row_of :: "string \<Rightarrow> instant \<Rightarrow> json \<Rightarrow> string \<Rightarrow> alert_row res" where
  "alert_row_of uid now alert status =
     rbind (jget alert ''alert'' (JObj [])) (\<lambda>fields.
     rbind (jget fields ''signature_id'' JNull) (\<lambda>sid.
     rbind (jget fields ''signature'' JNull) (\<lambda>msg.
     rbind (jget fields ''severity'' JNull) (\<lambda>sev.
     rbind (jget alert ''flow_id'' JNull) (\<lambda>flow.
     rbind (jget alert ''src_ip'' JNull) (\<lambda>sip.
     rbind (jget alert ''src_port'' JNull) (\<lambda>sport.
     rbind (jget alert ''dest_ip'' JNull) (\<lambda>dip.
     rbind (jget alert ''dest_port'' JNull) (\<lambda>dport.
     rbind (jget alert ''proto'' JNull) (\<lambda>proto.
     rbind (jget alert ''app_proto'' JNull) (\<lambda>app.
     rbind (jget alert ''timestamp'' JNull) (\<lambda>ts.
       Inr \<lparr>a_alert_id = uid, a_sensor_id = 1, a_eve_alert_uuid = JNull, a_signature_id = sid,
            a_signature_msg = text_aff msg, a_signature_severity = sev, a_flow_id = flow,
            a_src_ip = text_aff sip, a_src_port = sport, a_dst_ip = text_aff dip, a_dst_port = dport,
            a_proto = text_aff proto, a_app_proto = text_aff app, a_event_timestamp = text_aff ts,
            a_ingest_timestamp = isoformat now, a_raw_eve = dumps alert, a_home_net_match = JNull,
            a_initiator_role = JNull, a_target_role = JNull, a_attacker_role = JNull, a_victim_role = JNull,
            a_role_assignment_confidence = JNull, a_role_assignment_reasoning = JNull,
            a_role_assignment_signals = JNull, a_status = status, a_auto_analyzed = False,
            a_verdict_id = None, a_disposition_id = None\<rparr>))))))))))))"

definition alert_row_ok :: "alert_row \<Rightarrow> exn option" where
  "alert_row_ok r =
     (if list_all bindable [a_signature_id r, a_signature_msg r, a_signature_severity r, a_flow_id r, a_src_ip r,
           a_src_port r, a_dst_ip r, a_dst_port r, a_proto r, a_app_proto r, a_event_timestamp r]
      then None else Some InterfaceError)"

definition insert_alert :: "string \<Rightarrow> instant \<Rightarrow> json \<Rightarrow> string \<Rightarrow> db \<Rightarrow> (string \<times> db) res" where
  "insert_alert uid now alert status d =
     rbind (alert_row_of uid now alert status) (\<lambda>r.
       case alert_row_ok r of
         Some e \<Rightarrow> Inl e
       | None \<Rightarrow>
           (if uid \<in> set (map a_alert_id (alerts d))
            then Inl (IntegrityError ''UNIQUE constraint failed: alerts.alert_id'')
            else Inr (uid, d\<lparr>alerts := alerts d @ [r]\<rparr>)))"

text \<open>\<open>result.scalars().first()\<close>.\<close>

fun first_row :: "'r list \<Rightarrow> 'r option" where
  "first_row [] = None"
| "first_row (r # _) = Some r"

definition get_alert :: "string \<Rightarrow> db \<Rightarrow> alert_row option" where
  "get_alert alert_id d = first_row (filter (\<lambda>r. a_alert_id r = alert_id) (alerts d))"

definition opt_ge :: "instant option \<Rightarrow> string \<Rightarrow> bool" where
  "opt_ge since s = (case since of None \<Rightarrow> True | Some t \<Rightarrow> s \<ge> isoformat t)"

definition opt_le :: "instant option \<Rightarrow> string \<Rightarrow> bool" where
  "opt_le until s = (case until of None \<Rightarrow> True | Some t \<Rightarrow> s \<le> isoformat t)"

definition get_correlated_events :: "json \<Rightarrow> instant option \<Rightarrow> instant option \<Rightarrow> db \<Rightarrow> eve_row list" where
  "get_correlated_events flow_id since until d =
     sort_key (\<lambda>r. order_key (e_event_timestamp r))
       (filter (\<lambda>r. flow_id \<noteq> JNull \<and> e_flow_id r = flow_id
          \<and> (since = None \<or> col_cmp (opt_ge since) (e_event_timestamp r))
          \<and> (until = None \<or> col_cmp (opt_le until) (e_event_timestamp r))) (eve_events d))"

definition query_alerts ::
  "instant option \<Rightarrow> instant option \<Rightarrow> string option \<Rightarrow> int option \<Rightarrow> nat \<Rightarrow> nat \<Rightarrow> db \<Rightarrow> alert_row list" where
  "query_alerts since until status sensor limit offset d =
     take limit (drop offset (sort_key a_ingest_timestamp
       (filter (\<lambda>r. opt_ge since (a_ingest_timestamp r) \<and> opt_le until (a_ingest_timestamp r)
          \<and> (case status of None \<Rightarrow> True | Some s \<Rightarrow> a_status r = s)
          \<and> (case sensor of None \<Rightarrow> True | Some i \<Rightarrow> a_sensor_id r = i)) (alerts d))))"

text \<open>The rows the daily count takes, for a reset time.\<close>

definition counted :: "int \<Rightarrow> string \<Rightarrow> alert_row \<Rightarrow> bool" where
  "counted sensor reset r \<longleftrightarrow> a_sensor_id r = sensor \<and> a_status r \<noteq> ''deferred'' \<and> a_ingest_timestamp r \<ge> reset"

definition count_analyzed_today :: "int \<Rightarrow> int \<Rightarrow> instant \<Rightarrow> db \<Rightarrow> nat res" where
  "count_analyzed_today reset_hour sensor now d =
     rbind (at_hour now reset_hour) (\<lambda>reset_time.
       Inr (length (filter (counted sensor (isoformat reset_time)) (alerts d))))"

definition update_alert_status :: "string \<Rightarrow> string \<Rightarrow> db \<Rightarrow> db" where
  "update_alert_status alert_id status d =
     d\<lparr>alerts := update_where (\<lambda>r. a_alert_id r = alert_id) (\<lambda>r. r\<lparr>a_status := status\<rparr>) (alerts d)\<rparr>"

text \<open>The produced verdict to inherit from: the newest alert of the group that arrived within the window before
  the candidate and carries a verdict the pattern does not mark as inherited. Among equal arrival times, which SQL
  leaves open, the last inserted.\<close>

definition inherited_pattern :: string where
  "inherited_pattern = ''%'' @ [CHR 0x22] @ ''inherited_from'' @ [CHR 0x22] @ ''%''"

definition group_source ::
  "json \<Rightarrow> json \<Rightarrow> json \<Rightarrow> string \<Rightarrow> string \<Rightarrow> verdict_row list \<Rightarrow> alert_row \<Rightarrow> bool" where
  "group_source sid sip dip since candidate vs r \<longleftrightarrow>
     a_signature_id r = sid \<and> a_src_ip r = sip \<and> a_dst_ip r = dip \<and> a_status r = ''analyzed''
     \<and> since \<le> a_ingest_timestamp r \<and> a_ingest_timestamp r \<le> candidate
     \<and> (\<exists>v\<in>set vs. a_verdict_id r = Some (v_verdict_id v) \<and> \<not> like inherited_pattern (v_llm_inputs v))"

definition find_recent_verdict_for_group ::
  "json \<Rightarrow> json \<Rightarrow> json \<Rightarrow> string \<Rightarrow> int \<Rightarrow> db \<Rightarrow> string option res" where
  "find_recent_verdict_for_group sid sip dip candidate window_hours d =
     (if sid = JNull \<or> sip = JNull \<or> dip = JNull then Inr None
      else rbind (fromisoformat candidate) (\<lambda>t.
           rbind (dt_sub t (window_hours * hour_us)) (\<lambda>since.
             Inr (Option.bind
               (first_row (rev (sort_key a_ingest_timestamp
                  (filter (group_source sid sip dip (isoformat since) candidate (verdicts d)) (alerts d)))))
               a_verdict_id))))"

definition count_alerts_by_status :: "instant option \<Rightarrow> db \<Rightarrow> (string \<times> nat) list" where
  "count_alerts_by_status since d =
     (let rows = filter (\<lambda>r. opt_ge since (a_ingest_timestamp r)) (alerts d)
      in map (\<lambda>s. (s, length (filter (\<lambda>r. a_status r = s) rows))) (sort (remdups (map a_status rows))))"

definition delete_expired_eve_events :: "int \<Rightarrow> instant \<Rightarrow> db \<Rightarrow> (nat \<times> db) res" where
  "delete_expired_eve_events retention_days now d =
     rbind (dt_sub now (retention_days * day_us)) (\<lambda>cutoff.
       let old = (\<lambda>r. col_cmp (\<lambda>s. s < isoformat cutoff) (e_event_timestamp r))
       in Inr (length (filter old (eve_events d)), d\<lparr>eve_events := filter (\<lambda>r. \<not> old r) (eve_events d)\<rparr>))"

end
