(* ===== verification/Operational_Store.thy ===== *)
theory Operational_Store
  imports Event_Store Role_Assignment
begin

text \<open>
  The operational store (\<open>src/infra/db/operational_store.py\<close>: settings, users, verdicts and the links from alerts) and
  the disposition store (\<open>src/infra/db/disposition_store.py\<close>: the append-only record of analysts' decisions).
\<close>

section \<open>System configuration\<close>

definition get_config :: "string \<Rightarrow> db \<Rightarrow> string option" where
  "get_config key d = map_option k_config_value (first_row (filter (\<lambda>r. k_config_key r = key) (system_config d)))"

definition set_config :: "string \<Rightarrow> string \<Rightarrow> instant \<Rightarrow> db \<Rightarrow> db" where
  "set_config key val now d =
     (case first_row (filter (\<lambda>r. k_config_key r = key) (system_config d)) of
        None \<Rightarrow>
          d\<lparr>system_config := system_config d @ [\<lparr>k_config_key = key, k_config_value = val, k_updated_at = isoformat now\<rparr>]\<rparr>
      | Some _ \<Rightarrow>
          d\<lparr>system_config := update_where (\<lambda>r. k_config_key r = key)
              (\<lambda>r. r\<lparr>k_config_value := val, k_updated_at := isoformat now\<rparr>) (system_config d)\<rparr>)"

section \<open>Users\<close>

definition get_user_by_username :: "string \<Rightarrow> db \<Rightarrow> user_row option" where
  "get_user_by_username username d = first_row (filter (\<lambda>u. u_username u = username) (users d))"

definition ensure_admin_user :: "string \<Rightarrow> instant \<Rightarrow> db \<Rightarrow> db res" where
  "ensure_admin_user user_id now d =
     (case first_row (filter (\<lambda>u. u_username u = ''admin'') (users d)) of
        Some _ \<Rightarrow> Inr d
      | None \<Rightarrow>
          (if user_id \<in> set (map u_user_id (users d))
           then Inl (IntegrityError ''UNIQUE constraint failed: users.user_id'')
           else Inr (d\<lparr>users := users d @
             [\<lparr>u_user_id = user_id, u_username = ''admin'', u_password_hash = None, u_role = ''admin'',
               u_created_at = isoformat now, u_last_login_at = None, u_is_active = True\<rparr>]\<rparr>)))"

definition update_last_login :: "string \<Rightarrow> instant \<Rightarrow> db \<Rightarrow> db" where
  "update_last_login user_id now d =
     d\<lparr>users := update_where (\<lambda>u. u_user_id u = user_id) (\<lambda>u. u\<lparr>u_last_login_at := Some (isoformat now)\<rparr>) (users d)\<rparr>"

section \<open>Verdicts\<close>

text \<open>The identifier and the creation time are filled in when the caller leaves them out.\<close>

definition record_verdict ::
  "string \<Rightarrow> instant \<Rightarrow> string option \<Rightarrow> string option \<Rightarrow> verdict_row \<Rightarrow> db \<Rightarrow> db res" where
  "record_verdict uid now verdict_id created_at v d =
     (let v = v\<lparr>v_verdict_id := (case verdict_id of Some i \<Rightarrow> i | None \<Rightarrow> uid),
               v_created_at := (case created_at of Some c \<Rightarrow> c | None \<Rightarrow> isoformat now)\<rparr>
      in if v_verdict_id v \<in> set (map v_verdict_id (verdicts d))
         then Inl (IntegrityError ''UNIQUE constraint failed: verdicts.verdict_id'')
         else Inr (d\<lparr>verdicts := verdicts d @ [v]\<rparr>))"

definition mark_previous_verdicts_superseded :: "string \<Rightarrow> db \<Rightarrow> db" where
  "mark_previous_verdicts_superseded alert_id d =
     d\<lparr>verdicts := update_where (\<lambda>v. v_alert_id v = alert_id \<and> v_is_current v) (\<lambda>v. v\<lparr>v_is_current := False\<rparr>)
        (verdicts d)\<rparr>"

definition get_verdict :: "string \<Rightarrow> db \<Rightarrow> verdict_row option" where
  "get_verdict verdict_id d = first_row (filter (\<lambda>v. v_verdict_id v = verdict_id) (verdicts d))"

definition get_current_verdict_for_alert :: "string \<Rightarrow> db \<Rightarrow> verdict_row option" where
  "get_current_verdict_for_alert alert_id d =
     first_row (filter (\<lambda>v. v_alert_id v = alert_id \<and> v_is_current v) (verdicts d))"

section \<open>Links from alerts\<close>

definition link_verdict_to_alert :: "string \<Rightarrow> string \<Rightarrow> db \<Rightarrow> db" where
  "link_verdict_to_alert alert_id verdict_id d =
     d\<lparr>alerts := update_where (\<lambda>r. a_alert_id r = alert_id)
        (\<lambda>r. r\<lparr>a_verdict_id := Some verdict_id, a_status := ''analyzed'', a_auto_analyzed := True\<rparr>) (alerts d)\<rparr>"

definition link_disposition_to_alert :: "string \<Rightarrow> string \<Rightarrow> db \<Rightarrow> db" where
  "link_disposition_to_alert alert_id disposition_id d =
     d\<lparr>alerts := update_where (\<lambda>r. a_alert_id r = alert_id)
        (\<lambda>r. r\<lparr>a_disposition_id := Some disposition_id\<rparr>) (alerts d)\<rparr>"

text \<open>\<open>update_alert_role_assignment\<close> of the event store.\<close>

definition update_alert_role_assignment :: "string \<Rightarrow> role_assignment \<Rightarrow> db \<Rightarrow> db res" where
  "update_alert_role_assignment alert_id role d =
     (if list_all bindable [initiator_ip role, responder_ip role, attacker_ip role, victim_ip role]
      then Inr (d\<lparr>alerts := update_where (\<lambda>r. a_alert_id r = alert_id)
        (\<lambda>r. r\<lparr>a_initiator_role := text_aff (initiator_ip role),
               a_target_role := text_aff (responder_ip role),
               a_attacker_role := text_aff (attacker_ip role),
               a_victim_role := text_aff (victim_ip role),
               a_role_assignment_confidence := JStr (confidence role),
               a_role_assignment_reasoning := JStr (reasoning role),
               a_role_assignment_signals := JStr (dumps (JArr (map JStr (signals_used role))))\<rparr>) (alerts d)\<rparr>)
      else Inl InterfaceError)"

section \<open>Dispositions\<close>

definition disposition_row_of :: "string \<Rightarrow> instant \<Rightarrow> json \<Rightarrow> disposition_row res" where
  "disposition_row_of uid now disp =
     rbind (jget disp ''disposition_id'' JNull) (\<lambda>did.
     rbind (jindex disp ''alert_id'') (\<lambda>aid.
     rbind (jget disp ''verdict_id'' JNull) (\<lambda>vid.
     rbind (jindex disp ''analyst_user_id'') (\<lambda>user.
     rbind (jindex disp ''disposition_action'') (\<lambda>action.
     rbind (jget disp ''override_category'' JNull) (\<lambda>cat.
     rbind (jget disp ''override_reason_freetext'' JNull) (\<lambda>reason.
     rbind (jget disp ''schema_version'' (JInt 1)) (\<lambda>ver.
     rbind (jget disp ''created_at'' JNull) (\<lambda>created.
       Inr \<lparr>d_disposition_id = jor did (JStr uid), d_alert_id = aid, d_verdict_id = vid, d_analyst_user_id = user,
            d_disposition_action = action, d_override_category = cat, d_override_reason_freetext = reason,
            d_schema_version = ver, d_created_at = jor created (JStr (isoformat now))\<rparr>)))))))))"

definition disposition_row_ok :: "disposition_row list \<Rightarrow> disposition_row \<Rightarrow> exn option" where
  "disposition_row_ok t r =
     (if \<not> list_all bindable [d_disposition_id r, d_alert_id r, d_verdict_id r, d_analyst_user_id r,
           d_disposition_action r, d_override_category r, d_override_reason_freetext r, d_schema_version r, d_created_at r]
      then Some InterfaceError
      else if JNull \<in> set [d_alert_id r, d_analyst_user_id r, d_disposition_action r, d_schema_version r]
      then Some (IntegrityError ''NOT NULL constraint failed: dispositions'')
      else if d_disposition_id r \<in> set (map d_disposition_id t)
      then Some (IntegrityError ''UNIQUE constraint failed: dispositions.disposition_id'')
      else None)"

definition record_disposition :: "string \<Rightarrow> instant \<Rightarrow> json \<Rightarrow> db \<Rightarrow> (json \<times> db) res" where
  "record_disposition uid now disp d =
     rbind (disposition_row_of uid now disp) (\<lambda>r.
       case disposition_row_ok (dispositions d) r of
         Some e \<Rightarrow> Inl e
       | None \<Rightarrow> Inr (d_disposition_id r, d\<lparr>dispositions := dispositions d @ [r]\<rparr>))"

definition get_disposition :: "json \<Rightarrow> db \<Rightarrow> disposition_row option" where
  "get_disposition did d = first_row (filter (\<lambda>r. d_disposition_id r = did) (dispositions d))"

text \<open>Newest first; among equal creation times, which SQL leaves open, the last inserted first.\<close>

definition get_dispositions_for_alert :: "json \<Rightarrow> db \<Rightarrow> disposition_row list" where
  "get_dispositions_for_alert alert_id d =
     rev (sort_key (\<lambda>r. order_key (d_created_at r)) (filter (\<lambda>r. d_alert_id r = alert_id) (dispositions d)))"

definition get_latest_disposition :: "json \<Rightarrow> db \<Rightarrow> disposition_row option" where
  "get_latest_disposition alert_id d = first_row (get_dispositions_for_alert alert_id d)"

end
