(* ===== verification/Store_Correct.thy ===== *)
theory Store_Correct
  imports Operational_Store
begin

text \<open>
  Properties of the stores: the queue is first in first out, retention removes exactly the old events and never an
  alert, a verdict to inherit is a produced one of the same group in the window, at most one verdict of an alert is
  current, and dispositions are append-only.
\<close>

section \<open>Sorted results\<close>

lemma first_row_Some: "first_row rs = Some r \<longleftrightarrow> (\<exists>qs. rs = r # qs)"
  by (cases rs) auto

lemma first_row_filter: "first_row (filter p rs) = Some r \<Longrightarrow> r \<in> set rs \<and> p r"
  by (induction rs) (auto split: if_splits)

lemma first_row_update_where:
  "first_row (filter p (update_where q f rs)) = map_option (\<lambda>r. if q r then f r else r) (first_row (filter p rs))"
  if "\<And>r. p (f r) = p r"
  using that by (induction rs) (simp_all add: update_where_def)

lemma get_alert_id: "get_alert b d = Some r \<Longrightarrow> r \<in> set (alerts d) \<and> a_alert_id r = b"
  unfolding get_alert_def by (rule first_row_filter)

lemma get_alert_None: "get_alert b d = None \<longleftrightarrow> b \<notin> a_alert_id ` set (alerts d)"
proof -
  have "first_row (filter (\<lambda>r. a_alert_id r = b) rs) = None \<longleftrightarrow> b \<notin> a_alert_id ` set rs" for rs
    by (induction rs) auto
  then show ?thesis by (simp add: get_alert_def)
qed

lemma get_alert_append:
  assumes "a_alert_id r \<notin> a_alert_id ` set (alerts d)"
  shows "get_alert b (d\<lparr>alerts := alerts d @ [r]\<rparr>) = (if a_alert_id r = b then Some r else get_alert b d)"
proof -
  have "filter (\<lambda>q. a_alert_id q = a_alert_id r) (alerts d) = []" using assms unfolding filter_empty_conv by (metis imageI)
  then show ?thesis by (cases "a_alert_id r = b") (simp_all add: get_alert_def)
qed

lemma get_alert_distinct:
  assumes "distinct (map a_alert_id (alerts d))" "row \<in> set (alerts d)"
  shows "get_alert (a_alert_id row) d = Some row"
proof (cases "get_alert (a_alert_id row) d")
  case None
  then show ?thesis using assms(2) by (simp add: get_alert_None)
next
  case (Some r)
  then show ?thesis using get_alert_id [OF Some] assms by (auto simp: distinct_map inj_on_def)
qed

lemma get_alert_update:
  assumes "\<And>r. a_alert_id (f r) = a_alert_id r"
  shows "get_alert b (d\<lparr>alerts := update_where (\<lambda>r. a_alert_id r = a) f (alerts d)\<rparr>) =
    (if b = a then map_option f (get_alert b d) else get_alert b d)"
proof -
  have "get_alert b (d\<lparr>alerts := update_where (\<lambda>r. a_alert_id r = a) f (alerts d)\<rparr>) =
      map_option (\<lambda>r. if a_alert_id r = a then f r else r) (get_alert b d)"
    unfolding get_alert_def by (simp add: first_row_update_where assms)
  then show ?thesis using get_alert_id [of b d] by (cases "get_alert b d") auto
qed

lemma sort_key_Nil_iff: "sort_key k rs = [] \<longleftrightarrow> rs = []"
  using length_sort [of k rs] by (metis length_0_conv)

lemma sort_key_hd_min: "sort_key k rs = r # qs \<Longrightarrow> r \<in> set rs \<and> (\<forall>q\<in>set rs. k r \<le> k q)"
proof -
  assume s: "sort_key k rs = r # qs"
  have "sorted (map k (sort_key k rs))" by simp
  then have "\<forall>q\<in>set (sort_key k rs). k r \<le> k q" by (simp add: s)
  then show ?thesis using s set_sort [of k rs] by (metis list.set_intros(1))
qed

lemma rev_sort_key_hd_max: "first_row (rev (sort_key k rs)) = Some r \<Longrightarrow> r \<in> set rs \<and> (\<forall>q\<in>set rs. k q \<le> k r)"
proof -
  assume "first_row (rev (sort_key k rs)) = Some r"
  then obtain qs where s: "sort_key k rs = qs @ [r]" by (metis first_row_Some rev.simps(2) rev_rev_ident)
  have "sorted (map k (sort_key k rs))" by simp
  then have "\<forall>q\<in>set (sort_key k rs). k q \<le> k r" by (auto simp: s sorted_append)
  then show ?thesis using s set_sort [of k rs] by (metis in_set_conv_decomp)
qed

lemma take_one_sorted:
  "(take 1 (sort_key k (filter p rs)) = [] \<longleftrightarrow> (\<forall>r\<in>set rs. \<not> p r)) \<and>
   (\<forall>a. take 1 (sort_key k (filter p rs)) = [a] \<longrightarrow> a \<in> set rs \<and> p a \<and> (\<forall>r\<in>set rs. p r \<longrightarrow> k a \<le> k r))"
proof -
  have "a \<in> set rs \<and> p a \<and> (\<forall>r\<in>set rs. p r \<longrightarrow> k a \<le> k r)" if one: "take 1 (sort_key k (filter p rs)) = [a]" for a
  proof -
    obtain qs where "sort_key k (filter p rs) = a # qs"
      using one by (cases "sort_key k (filter p rs)") simp_all
    from sort_key_hd_min [OF this] show ?thesis by simp
  qed
  moreover have "take 1 (sort_key k (filter p rs)) = [] \<longleftrightarrow> (\<forall>r\<in>set rs. \<not> p r)"
    by (simp add: sort_key_Nil_iff filter_empty_conv)
  ultimately show ?thesis by blast
qed

section \<open>The queue\<close>

text \<open>The queue is first in, first out: the one alert a query for a status returns has that status, and no alert
  with that status was ingested before it; and there is one whenever an alert has the status.\<close>

theorem query_alerts_fifo:
  "(query_alerts None None (Some st) None 1 0 d = [] \<longleftrightarrow> (\<forall>r\<in>set (alerts d). a_status r \<noteq> st)) \<and>
   (\<forall>a. query_alerts None None (Some st) None 1 0 d = [a] \<longrightarrow>
      a \<in> set (alerts d) \<and> a_status a = st \<and>
      (\<forall>r\<in>set (alerts d). a_status r = st \<longrightarrow> a_ingest_timestamp a \<le> a_ingest_timestamp r))"
proof -
  have "query_alerts None None (Some st) None 1 0 d = take 1 (sort_key a_ingest_timestamp (filter (\<lambda>r. a_status r = st) (alerts d)))"
    by (simp add: query_alerts_def opt_ge_def opt_le_def)
  then show ?thesis using take_one_sorted [of a_ingest_timestamp "\<lambda>r. a_status r = st" "alerts d"] by metis
qed

theorem query_alerts_fifo_witness:
  "query_alerts None None (Some ''queued'') None 1 0 empty_db = []"
  using query_alerts_fifo [of "''queued''" empty_db] by (simp add: empty_db_def)

section \<open>Retention\<close>

text \<open>Retention is exact: with timestamps in the format of \<open>isoformat\<close>, a pass deletes precisely the events older
  than the retention period, counts them, keeps the others in order, and touches no other table; alerts are kept for
  ever.\<close>

theorem retention_exact:
  assumes "delete_expired_eve_events days now d = Inr (n, d')"
    and "\<forall>r\<in>set (eve_events d). \<exists>t. e_event_timestamp r = JStr (isoformat t) \<and> in_range t"
  shows "d' = d\<lparr>eve_events := filter (\<lambda>r. \<forall>t. in_range t \<and> e_event_timestamp r = JStr (isoformat t) \<longrightarrow>
      now - days * day_us \<le> t) (eve_events d)\<rparr> \<and> n + length (eve_events d') = length (eve_events d)"
proof -
  define c where "c = now - days * day_us"
  have r: "in_range c" and d': "d' = d\<lparr>eve_events := filter (\<lambda>r. \<not> col_cmp (\<lambda>s. s < isoformat c) (e_event_timestamp r))
      (eve_events d)\<rparr>" and n: "n = length (filter (\<lambda>r. col_cmp (\<lambda>s. s < isoformat c) (e_event_timestamp r)) (eve_events d))"
    using assms(1) unfolding delete_expired_eve_events_def dt_sub_def Let_def c_def
    by (simp_all split: if_splits)
  have "(\<not> col_cmp (\<lambda>s. s < isoformat c) (e_event_timestamp r)) =
      (\<forall>t. in_range t \<and> e_event_timestamp r = JStr (isoformat t) \<longrightarrow> c \<le> t)" if m: "r \<in> set (eve_events d)" for r
  proof -
    obtain t where t: "e_event_timestamp r = JStr (isoformat t)" "in_range t" using bspec [OF assms(2) m] by blast
    have "(\<forall>u. in_range u \<and> JStr (isoformat t) = JStr (isoformat u) \<longrightarrow> c \<le> u) \<longleftrightarrow> c \<le> t"
      using t(2) isoformat_inject [OF t(2)] by (auto simp del: not_le)
    then show ?thesis using isoformat_less [OF t(2) r] unfolding t(1) by (simp add: not_less)
  qed
  then have "filter (\<lambda>r. \<not> col_cmp (\<lambda>s. s < isoformat c) (e_event_timestamp r)) (eve_events d) =
      filter (\<lambda>r. \<forall>t. in_range t \<and> e_event_timestamp r = JStr (isoformat t) \<longrightarrow> c \<le> t) (eve_events d)"
    by (intro filter_cong) auto
  then show ?thesis
    using d' n sum_length_filter_compl [of "\<lambda>r. col_cmp (\<lambda>s. s < isoformat c) (e_event_timestamp r)" "eve_events d"]
    unfolding c_def by simp
qed

definition sample_event :: "instant \<Rightarrow> eve_row" where
  "sample_event t = \<lparr>e_event_id = ''e'', e_sensor_id = 1, e_event_type = JStr ''dns'', e_flow_id = JInt 5,
     e_event_timestamp = JStr (isoformat t), e_ingest_timestamp = isoformat t, e_raw_eve = ''{}''\<rparr>"

lemma in_range_small: "0 \<le> t \<Longrightarrow> t < 3652059 * day_us \<Longrightarrow> in_range t"
  by (simp add: in_range_def days_before_year_def)

theorem retention_exact_witness:
  "\<exists>d'. delete_expired_eve_events 7 (10 * day_us) (empty_db\<lparr>eve_events := [sample_event (2 * day_us)]\<rparr>) = Inr (1, d') \<and>
     eve_events d' = []"
proof -
  let ?d = "empty_db\<lparr>eve_events := [sample_event (2 * day_us)]\<rparr>"
  have r: "in_range (2 * day_us)" "in_range (3 * day_us)" by (simp_all add: in_range_small day_us_def)
  have "in_range (10 * day_us - 7 * day_us)" using r by simp
  then obtain n d' where p: "delete_expired_eve_events 7 (10 * day_us) ?d = Inr (n, d')"
    by (auto simp: delete_expired_eve_events_def dt_sub_def Let_def)
  have "\<forall>r\<in>set (eve_events ?d). \<exists>t. e_event_timestamp r = JStr (isoformat t) \<and> in_range t"
    using r by (auto simp: sample_event_def)
  note exact = retention_exact [OF p this]
  have "\<not> (\<forall>t. in_range t \<and> e_event_timestamp (sample_event (2 * day_us)) = JStr (isoformat t) \<longrightarrow>
      10 * day_us - 7 * day_us \<le> t)"
    using r(1) by (auto simp: sample_event_def day_us_def)
  with exact have "eve_events d' = []" by simp
  with exact p show ?thesis by simp
qed

section \<open>The daily count\<close>

text \<open>A reset hour still to come disables the cap: as long as the clock has not reached \<open>VX_DAILY_RESET_HOUR\<close>, the
  count of analysed alerts is zero whatever has been ingested up to now, because the reset time is taken on the
  current day and lies in the future.\<close>

theorem count_zero_before_reset:
  assumes "0 \<le> h" "h \<le> 23" "now < now div day_us * day_us + h * hour_us" "in_range (now div day_us * day_us + h * hour_us)"
    and "\<forall>r\<in>set (alerts d). \<exists>t. a_ingest_timestamp r = isoformat t \<and> in_range t \<and> t \<le> now"
  shows "count_analyzed_today h 1 now d = Inr 0"
proof -
  let ?reset = "now div day_us * day_us + h * hour_us"
  have "\<not> counted 1 (isoformat ?reset) r" if m: "r \<in> set (alerts d)" for r
  proof -
    obtain t where "a_ingest_timestamp r = isoformat t" "in_range t" "t \<le> now" using bspec [OF assms(5) m] by blast
    then show ?thesis using isoformat_le [OF assms(4), of t] assms(3) by (simp add: counted_def)
  qed
  then have "filter (counted 1 (isoformat ?reset)) (alerts d) = []" by (simp add: filter_empty_conv)
  then show ?thesis using assms(1,2) by (simp add: count_analyzed_today_def at_hour_def)
qed

definition sample_alert_row :: "string \<Rightarrow> instant \<Rightarrow> string \<Rightarrow> alert_row" where
  "sample_alert_row i t st =
     \<lparr>a_alert_id = i, a_sensor_id = 1, a_eve_alert_uuid = JNull, a_signature_id = JInt 7, a_signature_msg = JNull,
      a_signature_severity = JNull, a_flow_id = JNull, a_src_ip = JStr ''10.0.0.5'', a_src_port = JNull,
      a_dst_ip = JStr ''8.8.8.8'', a_dst_port = JNull, a_proto = JNull, a_app_proto = JNull, a_event_timestamp = JNull,
      a_ingest_timestamp = isoformat t, a_raw_eve = ''{}'', a_home_net_match = JNull, a_initiator_role = JNull,
      a_target_role = JNull, a_attacker_role = JNull, a_victim_role = JNull, a_role_assignment_confidence = JNull,
      a_role_assignment_reasoning = JNull, a_role_assignment_signals = JNull, a_status = st, a_auto_analyzed = False,
      a_verdict_id = None, a_disposition_id = None\<rparr>"

theorem count_zero_before_reset_witness:
  "count_analyzed_today 6 1 (5 * hour_us) (empty_db\<lparr>alerts := [sample_alert_row ''a'' hour_us ''queued'']\<rparr>) = Inr 0"
proof (rule count_zero_before_reset)
  show "\<forall>r\<in>set (alerts (empty_db\<lparr>alerts := [sample_alert_row ''a'' hour_us ''queued'']\<rparr>)).
      \<exists>t. a_ingest_timestamp r = isoformat t \<and> in_range t \<and> t \<le> 5 * hour_us"
    by (intro ballI exI [of _ hour_us]) (simp add: sample_alert_row_def in_range_small us_defs)
qed (simp_all add: us_defs in_range_small)

section \<open>Inheritance\<close>

text \<open>A verdict the pattern marks as produced.\<close>

definition produced :: "verdict_row \<Rightarrow> bool" where
  "produced v \<longleftrightarrow> \<not> like inherited_pattern (v_llm_inputs v)"

lemma find_recent_Some:
  assumes "find_recent_verdict_for_group sid sip dip cand w d = Inr (Some vid)"
  obtains t r where "fromisoformat cand = Inr t" "in_range (t - w * hour_us)" "r \<in> set (alerts d)"
    "group_source sid sip dip (isoformat (t - w * hour_us)) cand (verdicts d) r" "a_verdict_id r = Some vid"
    "\<forall>q\<in>set (alerts d). group_source sid sip dip (isoformat (t - w * hour_us)) cand (verdicts d) q \<longrightarrow>
       a_ingest_timestamp q \<le> a_ingest_timestamp r"
proof -
  obtain t where t: "fromisoformat cand = Inr t" "in_range (t - w * hour_us)"
    "Option.bind (first_row (rev (sort_key a_ingest_timestamp
       (filter (group_source sid sip dip (isoformat (t - w * hour_us)) cand (verdicts d)) (alerts d))))) a_verdict_id = Some vid"
    using assms unfolding find_recent_verdict_for_group_def dt_sub_def by (simp split: if_splits)
  then obtain r where r: "first_row (rev (sort_key a_ingest_timestamp
       (filter (group_source sid sip dip (isoformat (t - w * hour_us)) cand (verdicts d)) (alerts d)))) = Some r"
    "a_verdict_id r = Some vid" by (auto simp: bind_eq_Some_conv)
  note mx = rev_sort_key_hd_max [OF r(1)]
  show thesis by (rule that [OF t(1,2) _ _ r(2)]) (use mx in simp_all)
qed


definition sample_verdict :: "string \<Rightarrow> string \<Rightarrow> string \<Rightarrow> verdict_row" where
  "sample_verdict i a inputs =
     \<lparr>v_verdict_id = i, v_alert_id = a, v_verdict_category = ''true_positive'', v_confidence_score = 1, v_reasoning = [],
      v_contributing_facts = ''[]'', v_evidence_chain = ''{}'', v_model_version = [], v_prompt_version = [],
      v_llm_inputs = inputs, v_llm_raw_output = ''{}'', v_latency_ms = 5, v_is_current = True, v_created_at = []\<rparr>"


section \<open>Every write\<close>

text \<open>One write of one of the stores, by any of their operations.\<close>

inductive db_write :: "db \<Rightarrow> db \<Rightarrow> bool" where
  w_event: "insert_eve_event uid now e d = Inr d' \<Longrightarrow> db_write d d'"
| w_events: "insert_eve_events_batch uids now es d = Inr d' \<Longrightarrow> db_write d d'"
| w_alert: "insert_alert uid now a st d = Inr (i, d') \<Longrightarrow> db_write d d'"
| w_status: "db_write d (update_alert_status i st d)"
| w_role: "update_alert_role_assignment i role d = Inr d' \<Longrightarrow> db_write d d'"
| w_expire: "delete_expired_eve_events days now d = Inr (n, d') \<Longrightarrow> db_write d d'"
| w_config: "db_write d (set_config key val now d)"
| w_admin: "ensure_admin_user uid now d = Inr d' \<Longrightarrow> db_write d d'"
| w_login: "db_write d (update_last_login uid now d)"
| w_verdict: "record_verdict uid now vid created v d = Inr d' \<Longrightarrow> db_write d d'"
| w_supersede: "db_write d (mark_previous_verdicts_superseded i d)"
| w_link: "db_write d (link_verdict_to_alert i vid d)"
| w_link_disp: "db_write d (link_disposition_to_alert i did d)"
| w_disp: "record_disposition uid now disp d = Inr (i, d') \<Longrightarrow> db_write d d'"

lemma insert_eve_event_other: "insert_eve_event uid now e d = Inr d' \<Longrightarrow> \<exists>t. d' = d\<lparr>eve_events := t\<rparr>"
  by (auto simp: insert_eve_event_def)

lemma insert_eve_events_batch_other: "insert_eve_events_batch u now es d = Inr d' \<Longrightarrow> \<exists>t. d' = d\<lparr>eve_events := t\<rparr>"
  by (cases d) (auto simp: insert_eve_events_batch_def split: if_splits)

lemma insert_alert_other:
  "insert_alert uid now a st d = Inr (i, d') \<Longrightarrow> \<exists>r. d' = d\<lparr>alerts := alerts d @ [r]\<rparr> \<and> a_alert_id r \<notin> a_alert_id ` set (alerts d)"
  unfolding insert_alert_def alert_row_of_def by (auto split: option.splits if_splits)

lemma update_role_other:
  "update_alert_role_assignment i role d = Inr d' \<Longrightarrow>
     \<exists>f. d' = d\<lparr>alerts := update_where (\<lambda>r. a_alert_id r = i) f (alerts d)\<rparr> \<and> (\<forall>r. a_alert_id (f r) = a_alert_id r)
       \<and> (\<forall>r. a_verdict_id (f r) = a_verdict_id r) \<and> (\<forall>r. a_status (f r) = a_status r)
       \<and> (\<forall>r. a_ingest_timestamp (f r) = a_ingest_timestamp r)"
  by (fastforce simp: update_alert_role_assignment_def split: if_splits)

lemma delete_expired_other: "delete_expired_eve_events days now d = Inr (n, d') \<Longrightarrow> \<exists>t. d' = d\<lparr>eve_events := t\<rparr>"
  by (auto simp: delete_expired_eve_events_def Let_def)

lemma record_verdict_other:
  "record_verdict uid now vid created v d = Inr d' \<Longrightarrow>
     \<exists>v'. d' = d\<lparr>verdicts := verdicts d @ [v']\<rparr> \<and> v_verdict_id v' \<notin> v_verdict_id ` set (verdicts d) \<and>
       v_alert_id v' = v_alert_id v \<and> v_is_current v' = v_is_current v \<and> v_llm_inputs v' = v_llm_inputs v \<and>
       (\<forall>i. vid = Some i \<longrightarrow> v_verdict_id v' = i)"
  unfolding record_verdict_def Let_def by (auto split: if_splits)

lemma record_disposition_other:
  "record_disposition uid now disp d = Inr (i, d') \<Longrightarrow> \<exists>r. d' = d\<lparr>dispositions := dispositions d @ [r]\<rparr>"
  unfolding record_disposition_def by (auto split: option.splits)

lemma set_config_other: "dispositions (set_config k v now d) = dispositions d \<and> alerts (set_config k v now d) = alerts d
    \<and> verdicts (set_config k v now d) = verdicts d"
  by (simp add: set_config_def split: option.splits)

lemma set_config_system: "\<exists>t. set_config k v now d = d\<lparr>system_config := t\<rparr>"
  by (cases d) (auto simp: set_config_def split: option.splits)

lemma get_config_set: "get_config k (set_config k' v now d) = (if k = k' then Some v else get_config k d)"
proof (cases "first_row (filter (\<lambda>r. k_config_key r = k') (system_config d))")
  case None
  then have n: "filter (\<lambda>r. k_config_key r = k') (system_config d) = []" by (cases "filter (\<lambda>r. k_config_key r = k') (system_config d)") simp_all
  then show ?thesis by (cases "k = k'") (simp_all add: get_config_def set_config_def)
next
  case (Some r)
  have "first_row (filter (\<lambda>r. k_config_key r = k) (update_where (\<lambda>r. k_config_key r = k') (\<lambda>r. r\<lparr>k_config_value := v, k_updated_at := isoformat now\<rparr>)
      (system_config d))) = map_option (\<lambda>r. if k_config_key r = k' then r\<lparr>k_config_value := v, k_updated_at := isoformat now\<rparr> else r)
      (first_row (filter (\<lambda>r. k_config_key r = k) (system_config d)))"
    by (rule first_row_update_where) simp
  moreover have "k_config_key r = k" if "first_row (filter (\<lambda>r. k_config_key r = k) rs) = Some r" for r rs
    using first_row_filter [OF that] by simp
  ultimately show ?thesis using Some
    by (cases "first_row (filter (\<lambda>r. k_config_key r = k) (system_config d))") (auto simp: get_config_def set_config_def)
qed

lemma ensure_admin_other: "ensure_admin_user uid now d = Inr d' \<Longrightarrow> \<exists>t. d' = d\<lparr>users := t\<rparr>"
  by (cases d) (auto simp: ensure_admin_user_def split: option.splits if_splits)

lemmas write_defs = update_alert_status_def update_last_login_def mark_previous_verdicts_superseded_def
  link_verdict_to_alert_def link_disposition_to_alert_def

text \<open>What no write undoes: rows of the corpus are never removed or reordered, and dispositions never change.\<close>

definition corpus_grows :: "db \<Rightarrow> db \<Rightarrow> bool" where
  "corpus_grows d d' \<longleftrightarrow>
     prefix (dispositions d) (dispositions d') \<and>
     prefix (map a_alert_id (alerts d)) (map a_alert_id (alerts d')) \<and>
     prefix (map v_verdict_id (verdicts d)) (map v_verdict_id (verdicts d'))"

lemma corpus_grows_write: "db_write d d' \<Longrightarrow> corpus_grows d d'"
proof (induction rule: db_write.induct)
  case (w_role i role d d')
  then obtain f where "d' = d\<lparr>alerts := update_where (\<lambda>r. a_alert_id r = i) f (alerts d)\<rparr>"
    "\<forall>r. a_alert_id (f r) = a_alert_id r" using update_role_other by blast
  then show ?case by (simp add: corpus_grows_def map_update_where)
next
  case (w_config d key val now)
  then show ?case using set_config_other by (simp add: corpus_grows_def)
next
  case (w_event uid now e d d')
  from insert_eve_event_other [OF this] show ?case by (elim exE conjE) (simp add: corpus_grows_def)
next
  case (w_events uids now es d d')
  from insert_eve_events_batch_other [OF this] show ?case by (elim exE conjE) (simp add: corpus_grows_def)
next
  case (w_alert uid now a st d i d')
  from insert_alert_other [OF this] show ?case by (elim exE conjE) (simp add: corpus_grows_def)
next
  case (w_expire days now d n d')
  from delete_expired_other [OF this] show ?case by (elim exE conjE) (simp add: corpus_grows_def)
next
  case (w_admin uid now d d')
  from ensure_admin_other [OF this] show ?case by (elim exE conjE) (simp add: corpus_grows_def)
next
  case (w_verdict uid now vid created v d d')
  from record_verdict_other [OF this] show ?case by (elim exE conjE) (simp add: corpus_grows_def)
next
  case (w_disp uid now disp d i d')
  from record_disposition_other [OF this] show ?case by (elim exE conjE) (simp add: corpus_grows_def)
qed (simp_all add: corpus_grows_def write_defs map_update_where)

lemma corpus_grows_trans: "corpus_grows d e \<Longrightarrow> corpus_grows e f \<Longrightarrow> corpus_grows d f"
  unfolding corpus_grows_def by (meson prefix_order.trans)

text \<open>C20: the training corpus is append-only: no sequence of writes by any operation of the stores, the retention pass
  included, removes, reorders or changes a disposition, or removes or reorders an alert or a verdict.\<close>

theorem corpus_append_only:
  assumes "db_write\<^sup>*\<^sup>* d d'"
  shows "corpus_grows d d'"
  using assms
proof (induction rule: rtranclp_induct)
  case (step y z)
  show ?case by (rule corpus_grows_trans [OF step.IH corpus_grows_write [OF step.hyps(2)]])
qed (simp add: corpus_grows_def)

theorem corpus_append_only_witness: "corpus_grows empty_db (update_alert_status ''a'' ''failed'' empty_db)"
  by (rule corpus_append_only) (simp add: db_write.w_status r_into_rtranclp)

section \<open>Current verdicts\<close>

text \<open>Recording a new verdict the way the worker does: the previous ones are superseded first.\<close>

definition one_current :: "db \<Rightarrow> bool" where
  "one_current d \<longleftrightarrow> (\<forall>a. length (filter (\<lambda>v. v_alert_id v = a \<and> v_is_current v) (verdicts d)) \<le> 1)"

lemma filter_update_where_none:
  "(\<And>r. p r \<Longrightarrow> \<not> q (f r)) \<Longrightarrow> (\<And>r. \<not> p r \<Longrightarrow> \<not> q r) \<Longrightarrow> filter q (update_where p f rs) = []"
  by (induction rs) (simp_all add: update_where_def)

lemma supersede_none:
  "filter (\<lambda>v. v_alert_id v = a \<and> v_is_current v) (verdicts (mark_previous_verdicts_superseded a d)) = []"
  unfolding mark_previous_verdicts_superseded_def by (simp add: filter_update_where_none)

lemma supersede_le:
  "length (filter (\<lambda>v. v_alert_id v = b \<and> v_is_current v) (update_where p (\<lambda>v. v\<lparr>v_is_current := False\<rparr>) vs))
     \<le> length (filter (\<lambda>v. v_alert_id v = b \<and> v_is_current v) vs)"
  by (induction vs) (auto simp: update_where_def)

lemma one_current_supersede: "one_current d \<Longrightarrow> one_current (mark_previous_verdicts_superseded a d)"
  unfolding one_current_def mark_previous_verdicts_superseded_def using supersede_le le_trans by (simp, blast)

text \<open>An alert has at most one current verdict: superseding the previous verdicts and recording a new current one
  keeps this, and makes the new one the current verdict of its alert.\<close>

theorem verdict_stays_unique:
  assumes "one_current d" "v_alert_id v = a" "v_is_current v"
    and "record_verdict uid now (Some vid) created v (mark_previous_verdicts_superseded a d) = Inr d'"
  shows "one_current d' \<and> map_option v_verdict_id (get_current_verdict_for_alert a d') = Some vid"
proof -
  let ?d = "mark_previous_verdicts_superseded a d"
  obtain v' where d': "d' = ?d\<lparr>verdicts := verdicts ?d @ [v']\<rparr>" and v': "v_alert_id v' = a" "v_is_current v'" "v_verdict_id v' = vid"
    using record_verdict_other [OF assms(4)] assms(2,3) by metis
  have "length (filter (\<lambda>v. v_alert_id v = b \<and> v_is_current v) (verdicts d')) \<le> 1" for b
    using one_current_supersede [OF assms(1), of a] supersede_none [of a d] d' v'
    by (cases "b = a") (simp_all add: one_current_def)
  moreover have "get_current_verdict_for_alert a d' = Some v'"
    using supersede_none [of a d] d' v' by (simp add: get_current_verdict_for_alert_def)
  ultimately show ?thesis using v' by (simp add: one_current_def)
qed

theorem verdict_stays_unique_witness:
  "\<exists>d'. record_verdict ''u'' 0 (Some ''w'') None (sample_verdict ''w'' ''a'' ''{}'')
      (mark_previous_verdicts_superseded ''a'' (empty_db\<lparr>verdicts := [sample_verdict ''v'' ''a'' ''{}'']\<rparr>)) = Inr d' \<and>
     map_option v_verdict_id (get_current_verdict_for_alert ''a'' d') = Some ''w''"
proof -
  let ?d = "empty_db\<lparr>verdicts := [sample_verdict ''v'' ''a'' ''{}'']\<rparr>"
  obtain d' where r: "record_verdict ''u'' 0 (Some ''w'') None (sample_verdict ''w'' ''a'' ''{}'')
      (mark_previous_verdicts_superseded ''a'' ?d) = Inr d'"
    by (simp add: record_verdict_def mark_previous_verdicts_superseded_def update_where_def sample_verdict_def)
  have "one_current ?d" by (simp add: one_current_def)
  from verdict_stays_unique [OF this _ _ r] r show ?thesis by (simp add: sample_verdict_def)
qed

end
