(* ===== verification/Ingestion_Status.thy ===== *)
theory Ingestion_Status
  imports Datetime Json
begin

text \<open>
  The health of the log tailer, \<open>src/ingestion/status.py\<close>: a counter of consecutive failed reads, a colour, and the
  retry interval derived from the counter.
\<close>

definition RED_THRESHOLD :: int where
  "RED_THRESHOLD = 5"

record ingestion_status =
  poll_interval_s :: rat
  st_state :: string
  consecutive_failures :: int
  last_error :: "string option"
  last_success_at :: "instant option"
  state_changed_at :: "instant option"
  blocked_reason :: "string option"

definition new_status :: "int \<Rightarrow> ingestion_status" where
  "new_status poll_interval_ms =
     \<lparr>poll_interval_s = of_int poll_interval_ms / 1000, st_state = ''green'', consecutive_failures = 0,
      last_error = None, last_success_at = None, state_changed_at = None, blocked_reason = None\<rparr>"

definition record_success :: "instant \<Rightarrow> ingestion_status \<Rightarrow> bool \<times> ingestion_status" where
  "record_success now st =
     (let transitioned = (st_state st = ''red'');
          st = st\<lparr>consecutive_failures := 0, last_success_at := Some now, last_error := None\<rparr>;
          st = (if transitioned then st\<lparr>st_state := ''green'', state_changed_at := last_success_at st\<rparr> else st)
      in (transitioned, st))"

definition record_failure :: "instant \<Rightarrow> exn \<Rightarrow> ingestion_status \<Rightarrow> bool \<times> ingestion_status" where
  "record_failure now e st =
     (let st = st\<lparr>consecutive_failures := consecutive_failures st + 1, last_error := Some (exn_msg e)\<rparr>
      in if consecutive_failures st \<ge> RED_THRESHOLD \<and> st_state st \<noteq> ''red''
         then (True, st\<lparr>st_state := ''red'', state_changed_at := Some now\<rparr>)
         else (False, st))"

definition record_blocked :: "instant \<Rightarrow> string \<Rightarrow> ingestion_status \<Rightarrow> ingestion_status" where
  "record_blocked now reason st = st\<lparr>st_state := ''red'', blocked_reason := Some reason, state_changed_at := Some now\<rparr>"

definition retry_interval_s :: "ingestion_status \<Rightarrow> rat" where
  "retry_interval_s st =
     (let n = consecutive_failures st
      in if n < RED_THRESHOLD then poll_interval_s st
         else if n \<le> 7 then 60 else if n \<le> 10 then 300 else 600)"

fun opt_iso :: "instant option \<Rightarrow> json" where
  "opt_iso None = JNull"
| "opt_iso (Some t) = JStr (isoformat t)"

definition status_to_dict :: "ingestion_status \<Rightarrow> jdict" where
  "status_to_dict st =
     [(''state'', JStr (st_state st)),
      (''consecutive_failures'', JInt (consecutive_failures st)),
      (''last_error'', jopt (last_error st)),
      (''last_success_at'', opt_iso (last_success_at st)),
      (''state_changed_at'', opt_iso (state_changed_at st)),
      (''blocked_reason'', jopt (blocked_reason st))]"

section \<open>Runs\<close>

datatype read_outcome = ReadOk instant | ReadFailed instant exn

fun status_step :: "ingestion_status \<Rightarrow> read_outcome \<Rightarrow> ingestion_status" where
  "status_step st (ReadOk now) = snd (record_success now st)"
| "status_step st (ReadFailed now e) = snd (record_failure now e st)"

fun failed :: "read_outcome \<Rightarrow> bool" where
  "failed (ReadOk _) = False"
| "failed (ReadFailed _ _) = True"

text \<open>The number of failures since the last successful read.\<close>

definition trailing_failures :: "read_outcome list \<Rightarrow> int" where
  "trailing_failures os = int (length (takeWhile failed (rev os)))"

definition status_ok :: "ingestion_status \<Rightarrow> bool" where
  "status_ok st \<longleftrightarrow>
     0 \<le> consecutive_failures st \<and>
     st_state st = (if consecutive_failures st \<ge> RED_THRESHOLD then ''red'' else ''green'') \<and>
     (last_error st = None \<longleftrightarrow> consecutive_failures st = 0)"

lemma status_ok_new [vx_inv]: "status_ok (new_status ms)"
  by (simp add: status_ok_def new_status_def RED_THRESHOLD_def)

lemma status_ok_step: "status_ok st \<Longrightarrow> status_ok (status_step st out)"
  by (cases out) (auto simp: status_ok_def record_success_def record_failure_def RED_THRESHOLD_def Let_def)

interpretation status: invariant_machine status_step status_ok
  by unfold_locales (rule status_ok_step)

lemma status_step_failures:
  "consecutive_failures (status_step st out) = (if failed out then consecutive_failures st + 1 else 0)"
  by (cases out) (auto simp: record_success_def record_failure_def Let_def)

lemma status_step_poll [simp]: "poll_interval_s (status_step st out) = poll_interval_s st"
  by (cases out) (auto simp: record_success_def record_failure_def Let_def)

lemma run_failures:
  "consecutive_failures (foldl status_step (new_status ms) os) = trailing_failures os"
proof (induction os rule: rev_induct)
  case Nil
  then show ?case by (simp add: trailing_failures_def new_status_def)
next
  case (snoc x xs)
  then show ?case by (simp add: status_step_failures trailing_failures_def)
qed

section \<open>Properties\<close>

text \<open>After any sequence of reads the status is red exactly when the last five or more reads all failed, and an
  error is reported exactly when the last read failed.\<close>

theorem status_red_iff:
  "(st_state (foldl status_step (new_status ms) os) = ''red'' \<longleftrightarrow> trailing_failures os \<ge> 5) \<and>
   (last_error (foldl status_step (new_status ms) os) = None \<longleftrightarrow> trailing_failures os = 0)"
  using status.inv_run [OF status_ok_new, of ms os] by (auto simp: status_ok_def run_failures RED_THRESHOLD_def)

text \<open>The retry schedule: the interval depends only on the failures since the last success, it is the poll
  interval below the threshold, never shrinks while failures continue (for poll intervals up to a minute), and is at
  most ten minutes.\<close>

theorem retry_schedule:
  assumes "ms \<le> 60000" "trailing_failures os \<le> trailing_failures os'"
  shows "retry_interval_s (foldl status_step (new_status ms) os) \<le> retry_interval_s (foldl status_step (new_status ms) os')
    \<and> retry_interval_s (foldl status_step (new_status ms) os') \<le> 600"
proof -
  have poll: "poll_interval_s (foldl status_step st ys) = poll_interval_s st" for st ys
    by (induction ys arbitrary: st) auto
  have "poll_interval_s (new_status ms) \<le> 60" using assms(1) by (simp add: new_status_def)
  then show ?thesis using assms(2) by (auto simp: retry_interval_s_def Let_def run_failures poll RED_THRESHOLD_def)
qed

theorem retry_schedule_witness:
  "retry_interval_s (foldl status_step (new_status 500) [ReadOk 0])
     \<le> retry_interval_s (foldl status_step (new_status 500) [ReadFailed 0 (Exn ''OSError'' [] None)])"
  using retry_schedule [of 500 "[ReadOk 0]" "[ReadFailed 0 (Exn ''OSError'' [] None)]"]
  by (simp add: trailing_failures_def)

end
