(* ===== verification/Ingestion.thy ===== *)
theory Ingestion
  imports Event_Store Ingestion_Status
begin

text \<open>
  The ingestion pipeline of \<open>src/ingestion\<close>: the event model, the tailer that polls the EVE log, the broadcaster,
  the batching indexer and the alert dispatcher. The log file and its metadata are what the environment shows at each
  poll; a database fault that hits an insert (a locked or full database) is an argument of the step that meets it. The
  four tasks run interleaved: \<open>pipe_step\<close> is one step of one of them.
\<close>

section \<open>Events\<close>

datatype event_type =
    ALERT | ANOMALY | DROP | ENGINE | FILEINFO | FLOW | NETFLOW | PKTHDR | STATS
  | HTTP | HTTP2 | MQTT | IMAP | POP3 | SMTP | RDP | RFB | SSH | IKE | KRB5 | QUIC | TLS
  | DHCP | DNS | NTP | SNMP | TFTP | FTP | FTP_DATA | NFS | SMB | PGSQL | DNP3 | ENIP | MODBUS
  | BITTORRENT_DHT | SIP | ARP | ETHER | FRAME | UNKNOWN

definition event_type_values :: "(string \<times> event_type) list" where
  "event_type_values =
     [(''alert'', ALERT), (''anomaly'', ANOMALY), (''drop'', DROP), (''engine'', ENGINE), (''fileinfo'', FILEINFO),
      (''flow'', FLOW), (''netflow'', NETFLOW), (''pkthdr'', PKTHDR), (''stats'', STATS), (''http'', HTTP),
      (''http2'', HTTP2), (''mqtt'', MQTT), (''imap'', IMAP), (''pop3'', POP3), (''smtp'', SMTP), (''rdp'', RDP),
      (''rfb'', RFB), (''ssh'', SSH), (''ike'', IKE), (''krb5'', KRB5), (''quic'', QUIC), (''tls'', TLS),
      (''dhcp'', DHCP), (''dns'', DNS), (''ntp'', NTP), (''snmp'', SNMP), (''tftp'', TFTP), (''ftp'', FTP),
      (''ftp_data'', FTP_DATA), (''nfs'', NFS), (''smb'', SMB), (''pgsql'', PGSQL), (''dnp3'', DNP3), (''enip'', ENIP),
      (''modbus'', MODBUS), (''bittorrent_dht'', BITTORRENT_DHT), (''sip'', SIP), (''arp'', ARP), (''ether'', ETHER),
      (''frame'', FRAME), (''unknown'', UNKNOWN)]"

text \<open>\<open>EventType.from_str\<close>: any value that is no member, of whatever type, is \<open>UNKNOWN\<close>.\<close>

fun event_type_from_str :: "json \<Rightarrow> event_type" where
  "event_type_from_str (JStr s) = (case map_of event_type_values s of Some t \<Rightarrow> t | None \<Rightarrow> UNKNOWN)"
| "event_type_from_str _ = UNKNOWN"

record eve_event =
  ev_event_type :: event_type
  ev_flow_id :: json
  ev_timestamp :: json
  ev_raw :: json

definition eve_from_dict :: "json \<Rightarrow> eve_event res" where
  "eve_from_dict data =
     rbind (jget data ''event_type'' (JStr [])) (\<lambda>t.
     rbind (jget data ''flow_id'' JNull) (\<lambda>f.
     rbind (jget data ''timestamp'' (JStr [])) (\<lambda>ts.
       Inr \<lparr>ev_event_type = event_type_from_str t, ev_flow_id = f, ev_timestamp = ts, ev_raw = data\<rparr>)))"

definition is_alert :: "eve_event \<Rightarrow> bool" where
  "is_alert ev \<longleftrightarrow> ev_event_type ev = ALERT"

section \<open>The tailer\<close>

datatype stat_result = StatMissing | StatError string | Stat (st_ino: int) (st_size: nat)

text \<open>What opening and reading the file from the start would give: a failure to open, the whole contents, or the text
  read before an I/O error.\<close>

datatype file_read = OpenError string | Contents string | ReadError string string

record tailer =
  t_position :: nat
  t_inode :: int
  t_status :: ingestion_status

text \<open>Text mode translates every line ending to a newline.\<close>

fun universal_newlines :: "string \<Rightarrow> string" where
  "universal_newlines [] = []"
| "universal_newlines (c # s) =
     (if c = CHR 0x0D
      then (case s of d # s' \<Rightarrow> if d = CHR 0x0A then CHR 0x0A # universal_newlines s'
                                else CHR 0x0A # universal_newlines s
                    | [] \<Rightarrow> [CHR 0x0A])
      else c # universal_newlines s)"

definition file_lines :: "string \<Rightarrow> string list" where
  "file_lines s = split_on CHR 0x0A (universal_newlines s)"

text \<open>The loop over the lines: blank lines and lines that are no JSON are skipped, the others enqueued. An exception of
  \<open>from_dict\<close> ends the loop.\<close>

fun enqueue_lines :: "string list \<Rightarrow> eve_event list \<Rightarrow> exn option \<times> eve_event list" where
  "enqueue_lines [] queue = (None, queue)"
| "enqueue_lines (line # lines) queue =
     (if line = [] then enqueue_lines lines queue
      else case loads line of
             None \<Rightarrow> enqueue_lines lines queue
           | Some data \<Rightarrow>
               (case eve_from_dict data of
                  Inl e \<Rightarrow> (Some e, queue)
                | Inr ev \<Rightarrow> enqueue_lines lines (queue @ [ev])))"

definition t_on_failure :: "instant \<Rightarrow> exn \<Rightarrow> tailer \<Rightarrow> tailer" where
  "t_on_failure now e t = t\<lparr>t_status := snd (record_failure now e (t_status t))\<rparr>"

definition t_on_success :: "instant \<Rightarrow> tailer \<Rightarrow> tailer" where
  "t_on_success now t = t\<lparr>t_status := snd (record_success now (t_status t))\<rparr>"

text \<open>The exception that escapes, if any, with the tailer and the queue it leaves.\<close>

definition read_new_lines ::
  "instant \<Rightarrow> file_read \<Rightarrow> tailer \<Rightarrow> eve_event list \<Rightarrow> exn option \<times> tailer \<times> eve_event list" where
  "read_new_lines now file t queue =
     (case file of
        OpenError m \<Rightarrow> (None, t_on_failure now (Exn ''OSError'' m None) t, queue)
      | ReadError before m \<Rightarrow>
          (case enqueue_lines (file_lines (drop (t_position t) before)) queue of
             (Some e, queue') \<Rightarrow> (Some e, t, queue')
           | (None, queue') \<Rightarrow> (None, t_on_failure now (Exn ''OSError'' m None) t, queue'))
      | Contents s \<Rightarrow>
          (case enqueue_lines (file_lines (drop (t_position t) s)) queue of
             (Some e, queue') \<Rightarrow> (Some e, t, queue')
           | (None, queue') \<Rightarrow>
               (None, t_on_success now (t\<lparr>t_position := max (t_position t) (length s)\<rparr>), queue')))"

definition tail_poll ::
  "instant \<Rightarrow> stat_result \<Rightarrow> file_read \<Rightarrow> tailer \<Rightarrow> eve_event list \<Rightarrow> exn option \<times> tailer \<times> eve_event list" where
  "tail_poll now stat file t queue =
     (case stat of
        StatMissing \<Rightarrow> (None, t, queue)
      | StatError m \<Rightarrow> (None, t_on_failure now (Exn ''OSError'' m None) t, queue)
      | Stat ino sz \<Rightarrow>
          (let inode_changed = (ino \<noteq> 0 \<and> ino \<noteq> t_inode t);
               size_regressed = (sz < t_position t);
               t = (if inode_changed \<or> size_regressed then t\<lparr>t_position := 0, t_inode := ino\<rparr> else t)
           in read_new_lines now file t queue))"

definition tail_start :: "string \<Rightarrow> stat_result \<Rightarrow> ingestion_status \<Rightarrow> tailer res" where
  "tail_start path stat status =
     (case stat of
        Stat ino sz \<Rightarrow> Inr \<lparr>t_position = sz, t_inode = ino, t_status = status\<rparr>
      | _ \<Rightarrow> Inl (Exn ''FileNotFoundError'' (''EVE log not found: '' @ path) None))"

text \<open>Successive polls, each with its reading of the clock, the file's metadata and its contents.\<close>

fun tail_polls ::
  "(instant \<times> stat_result \<times> file_read) list \<Rightarrow> tailer \<Rightarrow> eve_event list \<Rightarrow> exn option \<times> tailer \<times> eve_event list" where
  "tail_polls [] t queue = (None, t, queue)"
| "tail_polls ((now, stat, file) # ps) t queue =
     (case tail_poll now stat file t queue of
        (Some e, t', queue') \<Rightarrow> (Some e, t', queue')
      | (None, t', queue') \<Rightarrow> tail_polls ps t' queue')"

section \<open>The indexer\<close>

definition indexer_flush ::
  "exn option \<Rightarrow> (nat \<Rightarrow> string) \<Rightarrow> instant \<Rightarrow> json list \<Rightarrow> db \<Rightarrow> bool \<times> db" where
  "indexer_flush fault uid now batch d =
     (case fault of
        Some e \<Rightarrow> (False, d)
      | None \<Rightarrow> (case insert_eve_events_batch uid now batch d of Inl e \<Rightarrow> (False, d) | Inr d' \<Rightarrow> (True, d')))"

definition try_flush ::
  "exn option \<Rightarrow> (nat \<Rightarrow> string) \<Rightarrow> instant \<Rightarrow> json list \<times> db \<Rightarrow> json list \<times> db" where
  "try_flush fault uid now bd =
     (case indexer_flush fault uid now (fst bd) (snd bd) of
        (True, d') \<Rightarrow> ([], d')
      | (False, d') \<Rightarrow> (fst bd, d'))"

text \<open>The body of the loop in \<open>run\<close>: an event from the queue, or a timeout.\<close>

definition indexer_event ::
  "nat \<Rightarrow> exn option \<Rightarrow> (nat \<Rightarrow> string) \<Rightarrow> instant \<Rightarrow> eve_event \<Rightarrow> json list \<times> db \<Rightarrow> json list \<times> db" where
  "indexer_event batch_size fault uid now ev bd =
     (let batch = fst bd @ [ev_raw ev]
      in if length batch \<ge> batch_size then try_flush fault uid now (batch, snd bd) else (batch, snd bd))"

definition indexer_timeout ::
  "exn option \<Rightarrow> (nat \<Rightarrow> string) \<Rightarrow> instant \<Rightarrow> json list \<times> db \<Rightarrow> json list \<times> db" where
  "indexer_timeout fault uid now bd = (if fst bd \<noteq> [] then try_flush fault uid now bd else bd)"

section \<open>The dispatcher\<close>

text \<open>\<open>_handle\<close> after the context delay, under the cap lock. The count and the insert are the event store's; an
  exception of the count escapes and ends the task, one of the insert is logged.\<close>

definition dispatcher_handle ::
  "(instant \<Rightarrow> 's \<Rightarrow> nat res) \<Rightarrow> (string \<Rightarrow> instant \<Rightarrow> json \<Rightarrow> string \<Rightarrow> 's \<Rightarrow> (string \<times> 's) res) \<Rightarrow> int \<Rightarrow>
   string \<Rightarrow> instant \<Rightarrow> instant \<Rightarrow> eve_event \<Rightarrow> 's \<Rightarrow> string option res \<times> 's" where
  "dispatcher_handle cnt ins daily_cap uid now1 now2 ev s =
     (case cnt now1 s of
        Inl e \<Rightarrow> (Inl e, s)
      | Inr n \<Rightarrow>
          (let status = (if int n < daily_cap then ''queued'' else ''deferred'')
           in case ins uid now2 (ev_raw ev) status s of
                Inl e \<Rightarrow> (Inr None, s)
              | Inr (alert_id, s') \<Rightarrow> (Inr (Some alert_id), s')))"

text \<open>\<open>run\<close> starts a task for an alert and passes other events over.\<close>

fun dispatcher_receive :: "eve_event \<Rightarrow> eve_event list \<Rightarrow> eve_event list" where
  "dispatcher_receive ev tasks = (if is_alert ev then tasks @ [ev] else tasks)"

section \<open>The pipeline\<close>

record pipeline =
  tailer_queue :: "eve_event list"
  indexer_queue :: "eve_event list"
  dispatcher_queue :: "eve_event list"
  index_batch :: "json list"
  pending :: "eve_event list"
  pipe_db :: db

definition broadcast_one :: "eve_event \<Rightarrow> pipeline \<Rightarrow> pipeline" where
  "broadcast_one ev p =
     (let p = p\<lparr>indexer_queue := indexer_queue p @ [ev]\<rparr>
      in if is_alert ev then p\<lparr>dispatcher_queue := dispatcher_queue p @ [ev]\<rparr> else p)"

inductive pipe_step :: "nat \<Rightarrow> int \<Rightarrow> int \<Rightarrow> pipeline \<Rightarrow> eve_event list \<Rightarrow> pipeline \<Rightarrow> bool"
  for batch_size :: nat and reset_hour daily_cap :: int where
  tail: "pipe_step batch_size reset_hour daily_cap p evs (p\<lparr>tailer_queue := tailer_queue p @ evs\<rparr>)"
| broadcast: "tailer_queue p = ev # q \<Longrightarrow>
    pipe_step batch_size reset_hour daily_cap p [] (broadcast_one ev (p\<lparr>tailer_queue := q\<rparr>))"
| index: "indexer_queue p = ev # q \<Longrightarrow> indexer_event batch_size fault uid now ev (index_batch p, pipe_db p) = (b, d) \<Longrightarrow>
    pipe_step batch_size reset_hour daily_cap p [] (p\<lparr>indexer_queue := q, index_batch := b, pipe_db := d\<rparr>)"
| timeout: "indexer_timeout fault uid now (index_batch p, pipe_db p) = (b, d) \<Longrightarrow>
    pipe_step batch_size reset_hour daily_cap p [] (p\<lparr>index_batch := b, pipe_db := d\<rparr>)"
| dispatch: "dispatcher_queue p = ev # q \<Longrightarrow>
    pipe_step batch_size reset_hour daily_cap p []
      (p\<lparr>dispatcher_queue := q, pending := dispatcher_receive ev (pending p)\<rparr>)"
| handle: "pending p = as @ ev # bs \<Longrightarrow>
    dispatcher_handle (count_analyzed_today reset_hour 1) insert_alert daily_cap uid now1 now2 ev (pipe_db p) = (r, d) \<Longrightarrow>
    pipe_step batch_size reset_hour daily_cap p [] (p\<lparr>pending := as @ bs, pipe_db := d\<rparr>)"

inductive_cases pipe_stepE: "pipe_step b h c p evs p'"

end
