(* ===== verification/Pipeline_Correct.thy ===== *)
theory Pipeline_Correct
  imports Ingestion
begin

text \<open>
  The correctness of ingestion: complete log lines are delivered once and in order, the indexer neither loses nor
  reorders events whatever faults its inserts meet, and the dispatcher keeps the daily cap. The dispatcher relies on
  the event store only through the locale \<open>capped_store\<close>, which the SQLite event store interprets.
\<close>

section \<open>Lines\<close>

definition newline :: char where
  "newline = CHR 0x0A"

lemma universal_id: "CHR 0x0D \<notin> set s \<Longrightarrow> universal_newlines s = s"
  by (induction s rule: universal_newlines.induct) auto

lemma dumps_line: "jwf v \<Longrightarrow> CHR 0x0A \<notin> set (dumps v) \<and> CHR 0x0D \<notin> set (dumps v)"
  using dumps_printable(1) [of v] by (auto simp: printable_def)

text \<open>The log as Suricata writes it: one JSON object per line.\<close>

definition log_text :: "jdict list \<Rightarrow> string" where
  "log_text ds = concat (map (\<lambda>d. dumps (JObj d) @ [newline]) ds)"

lemma log_text_append: "log_text (xs @ ys) = log_text xs @ log_text ys"
  by (simp add: log_text_def)

lemma log_text_no_cr: "list_all (\<lambda>d. jwf (JObj d)) ds \<Longrightarrow> CHR 0x0D \<notin> set (log_text ds)"
  using dumps_line by (induction ds) (auto simp: log_text_def newline_def simp del: dumps.simps)

lemma file_lines_log:
  "list_all (\<lambda>d. jwf (JObj d)) ds \<Longrightarrow> file_lines (log_text ds) = map (dumps \<circ> JObj) ds @ [[]]"
proof (induction ds)
  case Nil
  then show ?case by (simp add: file_lines_def log_text_def)
next
  case (Cons d ds)
  have "split_on CHR 0x0A (dumps (JObj d) @ CHR 0x0A # log_text ds) = dumps (JObj d) # split_on CHR 0x0A (log_text ds)"
    using Cons.prems dumps_line [of "JObj d"] by (intro split_on_append) (simp_all del: dumps.simps)
  moreover have "log_text (d # ds) = dumps (JObj d) @ CHR 0x0A # log_text ds"
    by (simp add: log_text_def newline_def del: dumps.simps)
  ultimately show ?case
    using Cons log_text_no_cr [of "d # ds"] log_text_no_cr [of ds]
    by (simp add: file_lines_def universal_id del: dumps.simps)
qed

text \<open>The event of a dictionary.\<close>

definition event_of :: "jdict \<Rightarrow> eve_event" where
  "event_of d =
     \<lparr>ev_event_type = event_type_from_str (dget d ''event_type'' (JStr [])), ev_flow_id = dget d ''flow_id'' JNull,
      ev_timestamp = dget d ''timestamp'' (JStr []), ev_raw = JObj d\<rparr>"

lemma eve_from_dict_obj [simp]: "eve_from_dict (JObj d) = Inr (event_of d)"
  by (simp add: eve_from_dict_def event_of_def)

lemma enqueue_log:
  "list_all (\<lambda>d. jwf (JObj d)) ds \<Longrightarrow>
     enqueue_lines (map (dumps \<circ> JObj) ds @ [[]]) q = (None, q @ map event_of ds)"
proof (induction ds arbitrary: q)
  case (Cons d ds)
  then have "loads (dumps (JObj d)) = Some (JObj d)" "dumps (JObj d) \<noteq> []"
    using loads_dumps [of "JObj d"] dumps_ne [of "JObj d"] by simp_all
  with Cons show ?case by (simp del: dumps.simps)
qed simp

section \<open>The tailer\<close>

text \<open>A poll of a file that grew by whole lines.\<close>

lemma tail_poll_appended:
  assumes "list_all (\<lambda>d. jwf (JObj d)) ds" "t_position t = length old" "ino = 0 \<or> ino = t_inode t" "length old \<le> sz"
  shows "tail_poll now (Stat ino sz) (Contents (old @ log_text ds)) t q =
    (None, t_on_success now (t\<lparr>t_position := length (old @ log_text ds)\<rparr>), q @ map event_of ds)"
  using assms by (auto simp: tail_poll_def read_new_lines_def Let_def file_lines_log enqueue_log max_def)

lemma t_on_success_fields [simp]:
  "t_position (t_on_success now t) = t_position t" "t_inode (t_on_success now t) = t_inode t"
  by (simp_all add: t_on_success_def)

text \<open>The polls of a file that grows by a batch of lines before each.\<close>

fun growing :: "int \<Rightarrow> string \<Rightarrow> (instant \<times> jdict list) list \<Rightarrow> (instant \<times> stat_result \<times> file_read) list" where
  "growing ino old [] = []"
| "growing ino old ((now, ds) # bs) =
     (let new = old @ log_text ds in (now, Stat ino (length new), Contents new) # growing ino new bs)"

lemma growing_delivers:
  assumes "list_all (\<lambda>d. jwf (JObj d)) (concat (map snd bs))" "t_position t = length old" "ino = 0 \<or> ino = t_inode t"
  shows "\<exists>t'. tail_polls (growing ino old bs) t q = (None, t', q @ map event_of (concat (map snd bs)))"
  using assms
proof (induction bs arbitrary: old t q)
  case (Cons b bs)
  obtain now ds where b: "b = (now, ds)" by fastforce
  let ?t = "t_on_success now (t\<lparr>t_position := length (old @ log_text ds)\<rparr>)"
  have "tail_poll now (Stat ino (length (old @ log_text ds))) (Contents (old @ log_text ds)) t q =
      (None, ?t, q @ map event_of ds)"
    using Cons.prems by (intro tail_poll_appended) (auto simp: b)
  then have "tail_polls (growing ino old (b # bs)) t q =
      tail_polls (growing ino (old @ log_text ds) bs) ?t (q @ map event_of ds)"
    by (simp add: b Let_def)
  moreover have "\<exists>t'. tail_polls (growing ino (old @ log_text ds) bs) ?t (q @ map event_of ds) =
      (None, t', (q @ map event_of ds) @ map event_of (concat (map snd bs)))"
    using Cons.prems by (intro Cons.IH) (auto simp: b)
  ultimately show ?case by (simp add: b)
qed simp



text \<open>Rotation: when the file is replaced by a new one (another inode, or a shorter file), the next poll delivers
  all records of the new file from its start.\<close>

theorem tailer_rotation:
  assumes "list_all (\<lambda>d. jwf (JObj d)) ds" "(ino \<noteq> 0 \<and> ino \<noteq> t_inode t) \<or> sz < t_position t"
  shows "\<exists>t'. tail_poll now (Stat ino sz) (Contents (log_text ds)) t q = (None, t', q @ map event_of ds) \<and>
     t_position t' = length (log_text ds)"
  using assms by (auto simp: tail_poll_def read_new_lines_def Let_def file_lines_log enqueue_log max_def)

theorem tailer_rotation_witness:
  "\<exists>t'. tail_poll 0 (Stat 8 9) (Contents (log_text [[(''a'', JInt 1)]]))
      \<lparr>t_position = 1000, t_inode = 7, t_status = new_status 500\<rparr> [] = (None, t', [] @ map event_of [[(''a'', JInt 1)]]) \<and>
     t_position t' = length (log_text [[(''a'', JInt 1)]])"
  by (rule tailer_rotation) simp_all

text \<open>An event whose line is only partly written when the tailer polls is dropped: the tailer consumes the
  incomplete line, and the rest of it is no JSON at the next poll. Here a complete record, seen in two halves, leaves
  the queue empty.\<close>

theorem tailer_drops_partial_line:
  "snd (snd (tail_polls
     [(0, Stat 7 4, Contents (take 4 (log_text [[(''a'', JInt 1)]]))),
      (1, Stat 7 9, Contents (log_text [[(''a'', JInt 1)]]))]
     \<lparr>t_position = 0, t_inode = 7, t_status = new_status 500\<rparr> [])) = []"
  by code_simp

text \<open>A line that is JSON but no object ends the tailer: the exception of \<open>EveEvent.from_dict\<close> is not an
  \<open>OSError\<close> and escapes the poll, and with it the whole pipeline.\<close>

theorem tailer_stopped_by_scalar_line:
  assumes "loads line = Some v" "\<not> is_dict v" "line \<noteq> []" "CHR 0x0A \<notin> set line" "CHR 0x0D \<notin> set line"
    and "t_position t = length old" "ino = 0 \<or> ino = t_inode t" "length old \<le> sz"
  shows "fst (tail_poll now (Stat ino sz) (Contents (old @ line @ [newline])) t q) = Some (AttributeError v ''get'')"
proof -
  have "file_lines (line @ [newline]) = [line, []]"
    using assms by (simp add: file_lines_def universal_id newline_def split_on_append)
  moreover have "eve_from_dict v = Inl (AttributeError v ''get'')"
    using assms(2) by (cases v) (simp_all add: eve_from_dict_def)
  ultimately show ?thesis
    using assms by (auto simp: tail_poll_def read_new_lines_def Let_def)
qed

theorem tailer_stopped_by_scalar_line_witness:
  "fst (tail_poll 0 (Stat 0 2) (Contents ([] @ ''5'' @ [newline]))
     \<lparr>t_position = 0, t_inode = 0, t_status = new_status 500\<rparr> []) = Some (AttributeError (JInt 5) ''get'')"
proof (rule tailer_stopped_by_scalar_line)
  show "loads ''5'' = Some (JInt 5)" by code_simp
qed simp_all

section \<open>The indexer\<close>

text \<open>What an insert that succeeds adds: one row per event, in order, holding its text.\<close>

lemma insert_eve_rows_Inr: "insert_eve_rows t rs = Inr t' \<Longrightarrow> t' = t @ rs"
  by (induction t rs rule: insert_eve_rows.induct) (auto split: option.splits if_splits)

lemma eve_row_of_raw: "eve_row_of uid now ev = Inr r \<Longrightarrow> e_raw_eve r = dumps ev"
  by (auto simp: eve_row_of_def)

lemma rmap_rows_raw:
  "rmap (\<lambda>(i, e). eve_row_of (uid i) now e) (enumerate n evs) = Inr rows \<Longrightarrow> map e_raw_eve rows = map dumps evs"
  by (induction evs arbitrary: n rows) (auto dest: eve_row_of_raw)

lemma insert_batch_raw:
  assumes "insert_eve_events_batch uid now evs d = Inr d'"
  shows "map e_raw_eve (eve_events d') = map e_raw_eve (eve_events d) @ map dumps evs \<and> alerts d' = alerts d"
  using assms rmap_rows_raw insert_eve_rows_Inr
  by (fastforce simp: insert_eve_events_batch_def split: if_splits)

text \<open>What is stored followed by what is still held in memory.\<close>

definition indexed_texts :: "json list \<times> db \<Rightarrow> string list" where
  "indexed_texts bd = map e_raw_eve (eve_events (snd bd)) @ map dumps (fst bd)"

lemma try_flush_texts: "indexed_texts (try_flush fault uid now bd) = indexed_texts bd"
  using insert_batch_raw
  by (fastforce simp: try_flush_def indexer_flush_def indexed_texts_def split: option.splits sum.splits)

lemma indexer_event_texts:
  "indexed_texts (indexer_event n fault uid now ev bd) = indexed_texts bd @ [dumps (ev_raw ev)]"
  by (simp add: indexer_event_def Let_def try_flush_texts) (simp add: indexed_texts_def)

lemma indexer_timeout_texts: "indexed_texts (indexer_timeout fault uid now bd) = indexed_texts bd"
  by (simp add: indexer_timeout_def try_flush_texts)

text \<open>Everything a pipeline holds between the log and the event table.\<close>

definition in_flight :: "pipeline \<Rightarrow> string list" where
  "in_flight p = indexed_texts (index_batch p, pipe_db p)
     @ map (dumps \<circ> ev_raw) (indexer_queue p) @ map (dumps \<circ> ev_raw) (tailer_queue p)"

lemma insert_alert_events: "insert_alert uid now a st d = Inr (i, d') \<Longrightarrow> eve_events d' = eve_events d"
  by (auto simp: insert_alert_def split: option.splits if_splits)

lemma dispatcher_handle_events:
  "dispatcher_handle cnt insert_alert cap uid now1 now2 ev d = (r, d') \<Longrightarrow> eve_events d' = eve_events d"
  using insert_alert_events
  by (fastforce simp: dispatcher_handle_def Let_def split: sum.splits prod.splits)

lemma pipe_step_in_flight:
  assumes "pipe_step b h c p evs p'"
  shows "in_flight p' = in_flight p @ map (dumps \<circ> ev_raw) evs"
  using assms
proof (induction rule: pipe_step.induct)
  case (broadcast p ev q)
  then show ?case by (simp add: in_flight_def broadcast_one_def Let_def)
next
  case (index p ev q fault uid now bt d)
  then show ?case
    using indexer_event_texts [of b fault uid now ev "(index_batch p, pipe_db p)"]
    by (simp add: in_flight_def)
next
  case (timeout fault uid now p bt d)
  then show ?case
    using indexer_timeout_texts [of fault uid now "(index_batch p, pipe_db p)"] by (simp add: in_flight_def)
next
  case (handle p as ev bs uid now1 now2 r d)
  then show ?case using dispatcher_handle_events by (fastforce simp: in_flight_def indexed_texts_def)
qed (simp_all add: in_flight_def)

text \<open>Runs of the pipeline, with the events the tailer emitted.\<close>

inductive pipe_run :: "nat \<Rightarrow> int \<Rightarrow> int \<Rightarrow> pipeline \<Rightarrow> eve_event list \<Rightarrow> pipeline \<Rightarrow> bool"
  for b :: nat and h c :: int where
  pipe_nil: "pipe_run b h c p [] p"
| pipe_cons: "pipe_step b h c p evs p' \<Longrightarrow> pipe_run b h c p' evs' p'' \<Longrightarrow> pipe_run b h c p (evs @ evs') p''"

lemma pipe_run_in_flight: "pipe_run b h c p evs p' \<Longrightarrow> in_flight p' = in_flight p @ map (dumps \<circ> ev_raw) evs"
  by (induction rule: pipe_run.induct) (simp_all add: pipe_step_in_flight)

definition empty_pipeline :: pipeline where
  "empty_pipeline = \<lparr>tailer_queue = [], indexer_queue = [], dispatcher_queue = [], index_batch = [], pending = [],
     pipe_db = empty_db\<rparr>"

text \<open>C12: the indexer loses, repeats and reorders nothing: in every run of the pipeline, whatever the interleaving of
  its tasks and whatever faults the inserts meet, the texts in the event table, followed by the batch in memory, the
  indexer's queue and the tailer's queue, are exactly the events emitted so far, in order.\<close>

theorem pipeline_no_loss:
  assumes "pipe_run b h c empty_pipeline evs p"
  shows "map e_raw_eve (eve_events (pipe_db p)) @ map dumps (index_batch p)
     @ map (dumps \<circ> ev_raw) (indexer_queue p) @ map (dumps \<circ> ev_raw) (tailer_queue p) = map (dumps \<circ> ev_raw) evs"
  using pipe_run_in_flight [OF assms]
  by (simp add: in_flight_def indexed_texts_def empty_pipeline_def empty_db_def)

lemma pipe_run_single: "pipe_step b h c p evs p' \<Longrightarrow> pipe_run b h c p evs p'"
  using pipe_run.pipe_cons [OF _ pipe_run.pipe_nil, of b h c p evs p'] by simp

theorem pipeline_no_loss_witness:
  "map (dumps \<circ> ev_raw) (tailer_queue (empty_pipeline\<lparr>tailer_queue := [event_of []]\<rparr>)) = map (dumps \<circ> ev_raw) [event_of []]"
proof -
  have "pipe_step 100 0 300 empty_pipeline [event_of []]
      (empty_pipeline\<lparr>tailer_queue := tailer_queue empty_pipeline @ [event_of []]\<rparr>)"
    by (rule pipe_step.tail)
  then have "pipe_run 100 0 300 empty_pipeline [event_of []] (empty_pipeline\<lparr>tailer_queue := [event_of []]\<rparr>)"
    by (intro pipe_run_single) (simp add: empty_pipeline_def)
  from pipeline_no_loss [OF this] show ?thesis by (simp add: empty_pipeline_def empty_db_def)
qed

text \<open>An event the table cannot hold: one row of a batch violates a constraint.\<close>

lemma insert_eve_rows_bad: "r \<in> set rs \<Longrightarrow> eve_row_ok r \<noteq> None \<Longrightarrow> \<exists>e. insert_eve_rows t rs = Inl e"
  by (induction t rs rule: insert_eve_rows.induct) (auto split: option.splits)

lemma rmap_in: "rmap f xs = Inr ys \<Longrightarrow> x \<in> set xs \<Longrightarrow> \<exists>y\<in>set ys. f x = Inr y"
  by (induction xs arbitrary: ys) auto

lemma batch_with_bad_event:
  assumes "ev \<in> set batch" "\<And>uid now. \<exists>r. eve_row_of uid now ev = Inr r \<and> eve_row_ok r \<noteq> None"
  shows "\<exists>e. insert_eve_events_batch uid now batch d = Inl e"
proof (cases "rmap (\<lambda>(i, e). eve_row_of (uid i) now e) (enumerate 0 batch)")
  case (Inl e)
  with assms(1) show ?thesis by (auto simp: insert_eve_events_batch_def)
next
  case (Inr rows)
  obtain i where "(i, ev) \<in> set (enumerate 0 batch)"
    using assms(1) by (metis add_0 in_set_conv_nth length_enumerate nth_enumerate_eq)
  then obtain r where "r \<in> set rows" "eve_row_of (uid i) now ev = Inr r" using rmap_in [OF Inr] by force
  then have "\<exists>e. insert_eve_rows (eve_events d) rows = Inl e"
    using assms(2) [of "uid i" now] insert_eve_rows_bad by fastforce
  with assms(1) Inr show ?thesis by (auto simp: insert_eve_events_batch_def)
qed

text \<open>One bad event stops indexing for good: once the batch holds an event whose \<open>event_type\<close> is null, every
  later flush fails, so whatever events and timeouts follow, the table never changes again and the batch only grows.\<close>

theorem indexer_poisoned:
  assumes "JObj d0 \<in> set batch" "map_of d0 ''event_type'' = Some JNull"
    "bindable (dget d0 ''flow_id'' JNull)" "bindable (text_aff (dget d0 ''timestamp'' JNull))"
  shows "indexer_event n fault uid now ev (batch, d) = (batch @ [ev_raw ev], d) \<and>
    indexer_timeout fault uid now (batch, d) = (batch, d)"
proof -
  have "\<exists>r. eve_row_of u t (JObj d0) = Inr r \<and> eve_row_ok r \<noteq> None" for u t
    using assms by (simp add: eve_row_of_def eve_row_ok_def)
  note bad = batch_with_bad_event [OF _ this]
  have "try_flush fault uid now (b, d) = (b, d)" if m: "JObj d0 \<in> set b" for b
  proof -
    obtain e where "insert_eve_events_batch uid now b d = Inl e" using bad [OF m] by blast
    then show ?thesis by (cases fault) (simp_all add: try_flush_def indexer_flush_def)
  qed
  with assms(1) show ?thesis by (auto simp: indexer_event_def indexer_timeout_def Let_def)
qed

theorem indexer_poisoned_witness:
  "indexer_timeout None (\<lambda>i. show_nat i) 0 ([JObj [(''event_type'', JNull)]], empty_db)
     = ([JObj [(''event_type'', JNull)]], empty_db)"
  using indexer_poisoned [of "[(''event_type'', JNull)]" "[JObj [(''event_type'', JNull)]]" 0 None "\<lambda>i. show_nat i" 0 _ empty_db]
  by simp

section \<open>The dispatcher\<close>

locale capped_store =
  fixes cnt :: "instant \<Rightarrow> 's \<Rightarrow> nat res"
    and ins :: "string \<Rightarrow> instant \<Rightarrow> json \<Rightarrow> string \<Rightarrow> 's \<Rightarrow> (string \<times> 's) res"
    and same_day :: "instant \<Rightarrow> instant \<Rightarrow> bool"
  assumes ins_any: "ins uid now a st s = Inr (i, s') \<Longrightarrow> cnt t s = Inr n \<Longrightarrow> \<exists>n'. cnt t s' = Inr n' \<and> n' \<le> n + 1"
    and ins_deferred: "ins uid now a ''deferred'' s = Inr (i, s') \<Longrightarrow> cnt t s' = cnt t s"
    and cnt_day: "same_day t t' \<Longrightarrow> cnt t s = cnt t' s"
begin

lemma handle_keeps_cap:
  assumes "cnt t s = Inr n" "int n \<le> cap" "same_day now1 t" "0 \<le> cap"
    and "dispatcher_handle cnt ins cap uid now1 now2 ev s = (r, s')"
  shows "\<exists>n'. cnt t s' = Inr n' \<and> int n' \<le> cap"
proof -
  have c: "cnt now1 s = Inr n" using cnt_day [OF assms(3)] assms(1) by simp
  define st where "st = (if int n < cap then ''queued'' else ''deferred'')"
  have h: "(r, s') = (case ins uid now2 (ev_raw ev) st s of
      Inl e \<Rightarrow> (Inr None, s) | Inr (i, s2) \<Rightarrow> (Inr (Some i), s2))"
    using assms(5) unfolding dispatcher_handle_def c Let_def st_def by simp
  show ?thesis
  proof (cases "ins uid now2 (ev_raw ev) st s")
    case (Inl e)
    with h have "s' = s" by simp
    with assms(1,2) show ?thesis by blast
  next
    case (Inr p)
    obtain i s2 where p: "p = (i, s2)" by fastforce
    with h Inr have "s' = s2" by simp
    show ?thesis
    proof (cases "int n < cap")
      case True
      with ins_any [OF Inr [unfolded p] assms(1)] \<open>s' = s2\<close> show ?thesis by auto
    next
      case False
      then have "st = ''deferred''" by (simp add: st_def)
      with Inr p ins_deferred [of uid now2 "ev_raw ev" s i s2 t] \<open>s' = s2\<close> assms(1,2) show ?thesis by simp
    qed
  qed
qed

lemma handles_keep_cap:
  assumes "cnt t s = Inr n" "int n \<le> cap" "0 \<le> cap" "\<forall>(uid, now1, now2, ev)\<in>set hs. same_day now1 t"
  shows "\<exists>n'. cnt t (foldl (\<lambda>s (uid, now1, now2, ev). snd (dispatcher_handle cnt ins cap uid now1 now2 ev s)) s hs) = Inr n'
     \<and> int n' \<le> cap"
  using assms
proof (induction hs arbitrary: s n)
  case (Cons x hs)
  obtain uid now1 now2 ev where x: "x = (uid, now1, now2, ev)" by (metis prod_cases4)
  obtain n' where "cnt t (snd (dispatcher_handle cnt ins cap uid now1 now2 ev s)) = Inr n'" "int n' \<le> cap"
    using handle_keeps_cap [OF Cons.prems(1,2) _ Cons.prems(3) surjective_pairing, of now1 uid now2 ev] Cons.prems(4)
    by (auto simp: x)
  with Cons.IH [of _ n'] Cons.prems(3,4) show ?case by (simp add: x)
qed simp

end

definition utc_day :: "instant \<Rightarrow> instant \<Rightarrow> bool" where
  "utc_day t t' \<longleftrightarrow> t div day_us = t' div day_us"

lemma insert_alert_rows:
  "insert_alert uid now a st d = Inr (i, d') \<Longrightarrow> \<exists>r. alerts d' = alerts d @ [r] \<and> a_status r = st"
  by (auto simp: insert_alert_def alert_row_of_def split: option.splits if_splits)

interpretation sqlite_cap: capped_store "count_analyzed_today h 1" insert_alert utc_day for h
proof
  fix uid now a st s i s' t n
  assume "insert_alert uid now a st s = Inr (i, s')" "count_analyzed_today h 1 t s = Inr n"
  then show "\<exists>n'. count_analyzed_today h 1 t s' = Inr n' \<and> n' \<le> n + 1"
    using insert_alert_rows by (fastforce simp: count_analyzed_today_def)
next
  fix uid now a s i s' t
  assume "insert_alert uid now a ''deferred'' s = Inr (i, s')"
  then show "count_analyzed_today h 1 t s' = count_analyzed_today h 1 t s"
    using insert_alert_rows by (fastforce simp: count_analyzed_today_def counted_def)
next
  fix t t' s assume "utc_day t t'"
  then show "count_analyzed_today h 1 t s = count_analyzed_today h 1 t' s"
    by (simp add: count_analyzed_today_def at_hour_def utc_day_def)
qed

text \<open>The daily cap holds under concurrency: if fewer than \<open>daily_cap\<close> alerts count for the day, then whatever
  alerts the dispatcher handles during that day, in whatever order their delays end, at most \<open>daily_cap\<close> alerts ever
  count; the others are stored as deferred.\<close>

theorem dispatcher_daily_cap:
  assumes "count_analyzed_today h 1 t d = Inr n" "int n \<le> cap" "0 \<le> cap"
    and "\<forall>(uid, now1, now2, ev)\<in>set hs. utc_day now1 t"
  shows "\<exists>n'. count_analyzed_today h 1 t
      (foldl (\<lambda>s (uid, now1, now2, ev).
         snd (dispatcher_handle (count_analyzed_today h 1) insert_alert cap uid now1 now2 ev s)) d hs) = Inr n'
    \<and> int n' \<le> cap"
  using sqlite_cap.handles_keep_cap [OF assms] .

theorem dispatcher_daily_cap_witness:
  "\<exists>n'. count_analyzed_today 0 1 5
      (foldl (\<lambda>s (uid, now1, now2, ev).
         snd (dispatcher_handle (count_analyzed_today 0 1) insert_alert 1 uid now1 now2 ev s)) empty_db
        [(''a'', 5, 5, event_of []), (''b'', 6, 6, event_of [])]) = Inr n' \<and> int n' \<le> 1"
  by (rule dispatcher_daily_cap [where n = 0])
     (simp_all add: count_analyzed_today_def at_hour_def empty_db_def utc_day_def day_us_def)

end
