(* ===== verification/Coroutine.thy ===== *)
theory Coroutine
  imports Main
begin

text \<open>
  Coroutines of one event loop: a coroutine runs alone up to its next \<open>await\<close>, so it is a sequence of atomic sections on the
  shared state, each of which may have to wait for a condition (a lock that is free). \<open>asyncio.gather\<close> interleaves the sections of
  several coroutines in an order the event loop chooses: the order is an argument, the schedule, and what is proved holds for all of them.
\<close>

section \<open>Sections and schedules\<close>

datatype ('s, 'a) coro = Done 'a | Step "'s \<Rightarrow> bool" "'s \<Rightarrow> ('s, 'a) coro \<times> 's"

primrec cbind :: "('s, 'a) coro \<Rightarrow> ('a \<Rightarrow> ('s, 'b) coro) \<Rightarrow> ('s, 'b) coro" where
  "cbind (Done a) k = k a"
| "cbind (Step g f) k = Step g (map_prod (\<lambda>c. cbind c k) id \<circ> f)"

definition atomic :: "('s \<Rightarrow> 'a \<times> 's) \<Rightarrow> ('s, 'a) coro" where
  "atomic f = Step (\<lambda>_. True) (\<lambda>s. (Done (fst (f s)), snd (f s)))"

text \<open>A coroutine awaited on its own: it runs to its end, or waits for ever.\<close>

primrec run :: "('s, 'a) coro \<Rightarrow> 's \<Rightarrow> ('a \<times> 's) option" where
  "run (Done a) = (\<lambda>s. Some (a, s))"
| "run (Step g f) = (\<lambda>s. if g s then (case (map_prod run id \<circ> f) s of (r, s') \<Rightarrow> r s') else None)"

text \<open>The event loop gives a turn to a coroutine: it executes its next section, if it has one that need not wait.\<close>

definition turn :: "nat \<Rightarrow> ('s, 'a) coro list \<times> 's \<Rightarrow> ('s, 'a) coro list \<times> 's" where
  "turn i = (\<lambda>(cs, s).
     if i < length cs
     then (case cs ! i of
             Done _ \<Rightarrow> (cs, s)
           | Step g f \<Rightarrow> (if g s then (cs[i := fst (f s)], snd (f s)) else (cs, s)))
     else (cs, s))"

definition schedule :: "nat list \<Rightarrow> ('s, 'a) coro list \<times> 's \<Rightarrow> ('s, 'a) coro list \<times> 's" where
  "schedule is x = fold turn is x"

text \<open>What \<open>gather\<close> returns, once all are done: the results in the order of the coroutines.\<close>

fun results :: "('s, 'a) coro list \<Rightarrow> 'a list option" where
  "results [] = Some []"
| "results (Done a # cs) = map_option (Cons a) (results cs)"
| "results (Step g f # cs) = None"

lemma coro_induct [case_names Done Step]:
  assumes "\<And>a. P (Done a)" "\<And>g f. (\<And>s. P (fst (f s))) \<Longrightarrow> P (Step g f)"
  shows "P c"
proof (induction c)
  case (Step g f)
  have "P (fst (f s))" for s by (rule Step [of "f s"]) (rule rangeI, rule fsts.intros)
  then show ?case by (rule assms(2))
qed (rule assms(1))

lemma run_step [simp]: "run (Step g f) s = (if g s then run (fst (f s)) (snd (f s)) else None)"
  by (simp add: case_prod_beta)

declare run.simps(2) [simp del]

lemma run_atomic [simp]: "run (atomic f) s = Some (f s)"
  by (simp add: atomic_def)

lemma run_cbind [simp]: "run (cbind c k) s = (case run c s of None \<Rightarrow> None | Some (a, s') \<Rightarrow> run (k a) s')"
  by (induction c arbitrary: s rule: coro_induct) simp_all

lemma length_turn [simp]: "length (fst (turn i x)) = length (fst x)"
  by (auto simp: turn_def split: prod.splits coro.splits)

lemma schedule_simps [simp]: "schedule [] x = x" "schedule (i # is) x = schedule is (turn i x)" "schedule (is @ js) x = schedule js (schedule is x)"
  by (simp_all add: schedule_def)

lemma length_schedule [simp]: "length (fst (schedule is x)) = length (fst x)"
  by (induction "is" arbitrary: x) simp_all

definition moves :: "nat \<Rightarrow> ('s, 'a) coro list \<times> 's \<Rightarrow> bool" where
  "moves i = (\<lambda>(cs, s). i < length cs \<and> (case cs ! i of Done _ \<Rightarrow> False | Step g f \<Rightarrow> g s))"

lemma move_cases:
  obtains "\<not> moves i (cs, s)" "turn i (cs, s) = (cs, s)"
  | g f where "moves i (cs, s)" "i < length cs" "cs ! i = Step g f" "g s" "turn i (cs, s) = (cs[i := fst (f s)], snd (f s))"
proof (cases "i < length cs")
  case True
  show thesis
  proof (cases "cs ! i")
    case (Step g f)
    then show thesis using True that by (cases "g s") (auto simp: turn_def moves_def)
  qed (use True that(1) in \<open>simp add: turn_def moves_def\<close>)
qed (use that(1) in \<open>simp add: turn_def moves_def\<close>)

lemma results_Some: "results cs = Some as \<longleftrightarrow> cs = map Done as"
  by (induction cs arbitrary: as rule: results.induct) (auto simp: map_eq_Cons_conv Cons_eq_map_conv)

lemma results_Done [simp]: "results (map Done as) = Some as"
  by (simp add: results_Some)

lemma results_None: "results cs = None \<longleftrightarrow> (\<exists>c\<in>set cs. \<nexists>a. c = Done a)"
  by (induction cs rule: results.induct) auto

text \<open>Awaited one after the other, which is one of the schedules.\<close>

fun run_all :: "('s, 'a) coro list \<Rightarrow> 's \<Rightarrow> ('a list \<times> 's) option" where
  "run_all [] s = Some ([], s)"
| "run_all (c # cs) s =
     (case run c s of None \<Rightarrow> None | Some (a, s') \<Rightarrow> map_option (\<lambda>(as, s''). (a # as, s'')) (run_all cs s'))"

lemma run_all_append: "run_all (cs @ ds) s =
    (case run_all cs s of None \<Rightarrow> None | Some (as, s') \<Rightarrow> map_option (\<lambda>(bs, s''). (as @ bs, s'')) (run_all ds s'))"
proof (induction cs arbitrary: s)
  case Nil
  show ?case by (cases "run_all ds s") simp_all
next
  case (Cons c cs)
  show ?case
  proof (cases "run c s")
    case (Some x)
    then show ?thesis using Cons.IH [of "snd x"]
      by (cases x; cases "run_all cs (snd x)"; cases "run_all ds (snd (the (run_all cs (snd x))))") auto
  qed simp
qed

lemma run_schedule:
  "run c s = Some (a, s') \<Longrightarrow> i < length cs \<Longrightarrow> cs ! i = c \<Longrightarrow> \<exists>k. schedule (replicate k i) (cs, s) = (cs[i := Done a], s')"
proof (induction c arbitrary: s cs rule: coro_induct)
  case (Done b)
  then have "cs[i := Done a] = cs" by (auto simp: list_update_same_conv)
  then show ?case using Done by (intro exI [of _ 0]) simp
next
  case (Step g f)
  have g: "g s" "run (fst (f s)) (snd (f s)) = Some (a, s')" using Step.prems(1) by (auto split: if_splits)
  have t: "turn i (cs, s) = (cs[i := fst (f s)], snd (f s))" using Step.prems(2,3) g(1) by (simp add: turn_def)
  obtain k where "schedule (replicate k i) (cs[i := fst (f s)], snd (f s)) = (cs[i := Done a], s')"
    using Step.IH [OF g(2), of "cs[i := fst (f s)]"] Step.prems(2) by auto
  then show ?case using t by (intro exI [of _ "Suc k"]) simp
qed

lemma run_all_schedule: "run_all cs s = Some (as, s') \<Longrightarrow> \<exists>is. schedule is (map Done bs @ cs, s) = (map Done bs @ map Done as, s')"
proof (induction cs arbitrary: bs s as)
  case Nil
  then show ?case by (intro exI [of _ "[]"]) simp
next
  case (Cons c cs)
  obtain a s1 as' where r: "run c s = Some (a, s1)" "run_all cs s1 = Some (as', s')" "as = a # as'"
    using Cons.prems by (auto split: option.splits)
  obtain k where k: "schedule (replicate k (length bs)) (map Done bs @ c # cs, s) = (map Done bs @ Done a # cs, s1)"
    using run_schedule [OF r(1), of "length bs" "map Done bs @ c # cs"] by (auto simp: nth_append list_update_append)
  obtain js where "schedule js (map Done (bs @ [a]) @ cs, s1) = (map Done (bs @ [a]) @ map Done as', s')"
    using Cons.IH [OF r(2)] by blast
  then show ?case using k r(3) by (intro exI [of _ "replicate k (length bs) @ js"]) simp
qed

section \<open>What a coroutine may do\<close>

text \<open>Every section of the coroutine, whatever the others have done to the state before it, is a move \<open>G\<close> with a number of units, and
  whatever way it takes it uses at most \<open>n\<close> units; its result satisfies \<open>Q\<close>.\<close>

inductive spends :: "(nat \<Rightarrow> 's \<Rightarrow> 's \<Rightarrow> bool) \<Rightarrow> ('a \<Rightarrow> bool) \<Rightarrow> nat \<Rightarrow> ('s, 'a) coro \<Rightarrow> bool" for G Q where
  spends_done: "Q a \<Longrightarrow> spends G Q n (Done a)"
| spends_step: "(\<And>s. g s \<Longrightarrow> \<exists>k m. k + m \<le> n \<and> G k s (snd (f s)) \<and> spends G Q m (fst (f s))) \<Longrightarrow> spends G Q n (Step g f)"

inductive_simps spends_simps: "spends G Q n (Done a)" "spends G Q n (Step g f)"

lemma spends_mono: "spends G Q n c \<Longrightarrow> n \<le> n' \<Longrightarrow> spends G Q n' c"
proof (induction rule: spends.induct)
  case (spends_step g n f)
  show ?case
  proof (rule spends.spends_step)
    fix s assume "g s"
    then obtain k m where "k + m \<le> n" "G k s (snd (f s))" "spends G Q m (fst (f s))" using spends_step.IH by blast
    then show "\<exists>k m. k + m \<le> n' \<and> G k s (snd (f s)) \<and> spends G Q m (fst (f s))" using spends_step.prems by (meson le_trans)
  qed
qed (simp add: spends_simps)

lemma spends_cbind:
  "spends G P n c \<Longrightarrow> (\<And>a. P a \<Longrightarrow> spends G Q m (k a)) \<Longrightarrow> spends G Q (n + m) (cbind c k)"
proof (induction rule: spends.induct)
  case (spends_step g n f)
  have "\<exists>i j. i + j \<le> n + m \<and> G i s (snd (f s)) \<and> spends G Q j (cbind (fst (f s)) k)" if gs: "g s" for s
  proof -
    obtain i j where "i + j \<le> n" "G i s (snd (f s))" "spends G Q (j + m) (cbind (fst (f s)) k)"
      using spends_step.IH [OF gs] spends_step.prems by blast
    then show ?thesis by (intro exI [of _ i] exI [of _ "j + m"]) simp
  qed
  then show ?case by (simp add: spends_simps)
qed (auto intro: spends_mono [OF _ le_add2])

lemma spends_atomic: "(\<And>s. G n s (snd (f s)) \<and> Q (fst (f s))) \<Longrightarrow> spends G Q n (atomic f)"
  unfolding atomic_def by (rule spends_step, rule exI [of _ n], rule exI [of _ 0]) (simp add: spends_done)

lemma spends_bind:
  "spends G P n c \<Longrightarrow> n \<le> N \<Longrightarrow> (\<And>a. P a \<Longrightarrow> spends G Q (N - n) (k a)) \<Longrightarrow> spends G Q N (cbind c k)"
  using spends_cbind [of G P n c Q "N - n" k] by simp

text \<open>Several coroutines, each with its units and the name of its postcondition.\<close>

definition fits :: "(nat \<Rightarrow> 's \<Rightarrow> 's \<Rightarrow> bool) \<Rightarrow> ('q \<Rightarrow> 'a \<Rightarrow> bool) \<Rightarrow> (nat \<times> 'q) list \<Rightarrow> ('s, 'a) coro list \<Rightarrow> bool" where
  "fits G Q xs cs \<longleftrightarrow> list_all2 (\<lambda>x c. spends G (Q (snd x)) (fst x) c) xs cs"

abbreviation units :: "(nat \<times> 'q) list \<Rightarrow> nat" where
  "units xs \<equiv> sum_list (map fst xs)"

lemma fits_results: "fits G Q xs (map Done as) \<Longrightarrow> list_all2 Q (map snd xs) as"
  by (simp add: fits_def list.rel_map spends_simps)

lemma fits_turn:
  assumes "fits G Q xs cs"
  shows "\<not> moves i (cs, s) \<and> turn i (cs, s) = (cs, s) \<or>
    moves i (cs, s) \<and> (\<exists>k xs'. fits G Q xs' (fst (turn i (cs, s))) \<and> map snd xs' = map snd xs \<and> G k s (snd (turn i (cs, s))) \<and>
      k + units xs' \<le> units xs)"
proof (rule move_cases [of i cs s])
  fix g f assume t: "i < length cs" "cs ! i = Step g f" "g s" and m: "moves i (cs, s)" and u: "turn i (cs, s) = (cs[i := fst (f s)], snd (f s))"
  have i: "i < length xs" using assms t(1) by (simp add: fits_def list_all2_lengthD)
  then have "spends G (Q (snd (xs ! i))) (fst (xs ! i)) (Step g f)" using assms t(2) list_all2_nthD [of _ xs cs i] by (fastforce simp: fits_def)
  then obtain k m where k: "k + m \<le> fst (xs ! i)" "G k s (snd (f s))" "spends G (Q (snd (xs ! i))) m (fst (f s))"
    using t(3) by (auto simp: spends_simps)
  let ?xs = "xs[i := (m, snd (xs ! i))]"
  have "fst (xs ! i) \<le> units xs" using elem_le_sum_list [of i "map fst xs"] i by simp
  then have "k + units ?xs \<le> units xs" using k(1) i by (simp add: map_update sum_list_update)
  moreover have "fits G Q ?xs (cs[i := fst (f s)])"
    using assms k(3) unfolding fits_def by (intro list_all2_update_cong) simp_all
  moreover have "map snd ?xs = map snd xs" using i by (simp add: map_update list_update_same_conv)
  ultimately show ?thesis using k(2) m u by (intro disjI2 conjI exI [of _ k] exI [of _ ?xs]) simp_all
qed simp

text \<open>Moves whose units add up.\<close>

locale additive_moves =
  fixes G :: "nat \<Rightarrow> 's \<Rightarrow> 's \<Rightarrow> bool"
  assumes none: "G 0 s s" and more: "G k s t \<Longrightarrow> G m t u \<Longrightarrow> G (k + m) s u" and weaker: "G k s t \<Longrightarrow> k \<le> m \<Longrightarrow> G m s t"
begin

lemma fits_schedule:
  assumes "fits G Q xs cs"
  shows "\<exists>xs'. fits G Q xs' (fst (schedule is (cs, s))) \<and> map snd xs' = map snd xs \<and>
    G (units xs - units xs') s (snd (schedule is (cs, s))) \<and> units xs' \<le> units xs"
  using assms
proof (induction "is" arbitrary: xs cs s)
  case Nil
  then show ?case using none by force
next
  case (Cons i "is")
  obtain cs1 s1 where t: "turn i (cs, s) = (cs1, s1)" by fastforce
  consider "cs1 = cs" "s1 = s"
    | k xs1 where "fits G Q xs1 cs1" "map snd xs1 = map snd xs" "G k s s1" "k + units xs1 \<le> units xs"
    using fits_turn [OF Cons.prems, of i s] t by auto
  then show ?case
  proof cases
    case 1
    then show ?thesis using Cons t by simp
  next
    case 2
    obtain xs' where n: "fits G Q xs' (fst (schedule is (cs1, s1)))" "map snd xs' = map snd xs1" "units xs' \<le> units xs1"
        "G (units xs1 - units xs') s1 (snd (schedule is (cs1, s1)))"
      using Cons.IH [OF 2(1)] by blast
    have "G (units xs - units xs') s (snd (schedule is (cs1, s1)))"
      by (rule weaker [OF more [OF 2(3) n(4)]]) (use 2(4) n(3) in simp)
    then show ?thesis using n 2(2,4) t by (intro exI [of _ xs']) simp
  qed
qed

text \<open>Under every schedule the coroutines together use no more units than each of them may, and their results are as promised.\<close>

lemma schedule_bound:
  assumes "fits G Q xs cs" "schedule is (cs, s) = (cs', s')"
  shows "G (units xs) s s' \<and> (\<forall>as. results cs' = Some as \<longrightarrow> list_all2 Q (map snd xs) as)"
proof -
  obtain xs' where n: "fits G Q xs' cs'" "map snd xs' = map snd xs" "G (units xs - units xs') s s'"
    using fits_schedule [OF assms(1), of "is" s] assms(2) by auto
  then show ?thesis using weaker [OF n(3), of "units xs"] fits_results [of G Q xs'] by (auto simp: results_Some)
qed

end

section \<open>An invariant of all sections\<close>

inductive maintains :: "('s \<Rightarrow> bool) \<Rightarrow> ('a \<Rightarrow> bool) \<Rightarrow> ('s, 'a) coro \<Rightarrow> bool" for I Q where
  maintains_done: "Q a \<Longrightarrow> maintains I Q (Done a)"
| maintains_step: "(\<And>s. I s \<Longrightarrow> g s \<Longrightarrow> I (snd (f s)) \<and> maintains I Q (fst (f s))) \<Longrightarrow> maintains I Q (Step g f)"

inductive_simps maintains_simps: "maintains I Q (Done a)" "maintains I Q (Step g f)"

lemma maintains_atomic: "(\<And>s. I s \<Longrightarrow> I (snd (f s)) \<and> Q (fst (f s))) \<Longrightarrow> maintains I Q (atomic f)"
  unfolding atomic_def by (simp add: maintains_simps)

lemma maintains_bind:
  "(\<And>s. I s \<Longrightarrow> I (snd (f s)) \<and> maintains I Q (k (fst (f s)))) \<Longrightarrow> maintains I Q (cbind (atomic f) k)"
  unfolding atomic_def by (simp add: maintains_simps)

lemma maintains_turn:
  assumes "list_all2 (\<lambda>q c. maintains I (Q q) c) qs cs" "I s"
  shows "list_all2 (\<lambda>q c. maintains I (Q q) c) qs (fst (turn i (cs, s))) \<and> I (snd (turn i (cs, s)))"
proof (rule move_cases [of i cs s])
  fix g f assume t: "i < length cs" "cs ! i = Step g f" "g s" and u: "turn i (cs, s) = (cs[i := fst (f s)], snd (f s))"
  have i: "i < length qs" using assms(1) t(1) by (simp add: list_all2_lengthD)
  then have "maintains I (Q (qs ! i)) (Step g f)" using list_all2_nthD [OF assms(1) i] t(2) by simp
  then have "I (snd (f s))" "maintains I (Q (qs ! i)) (fst (f s))" using t(3) assms(2) by (simp_all add: maintains_simps)
  moreover from this have "list_all2 (\<lambda>q c. maintains I (Q q) c) (qs[i := qs ! i]) (cs[i := fst (f s)])"
    using assms(1) by (intro list_all2_update_cong) simp_all
  ultimately show ?thesis using u by simp
qed (use assms in simp)

lemma maintains_schedule:
  assumes "list_all2 (\<lambda>q c. maintains I (Q q) c) qs cs" "I s"
  shows "list_all2 (\<lambda>q c. maintains I (Q q) c) qs (fst (schedule is (cs, s))) \<and> I (snd (schedule is (cs, s)))"
  using assms
proof (induction "is" arbitrary: cs s)
  case (Cons i "is")
  show ?case using Cons.IH [of "fst (turn i (cs, s))" "snd (turn i (cs, s))"] maintains_turn [OF Cons.prems, of i] by simp
qed simp

section \<open>Termination under fair schedules\<close>

text \<open>Units that count sections: every section uses at least one.\<close>

definition sections :: "nat \<Rightarrow> 's \<Rightarrow> 's \<Rightarrow> bool" where
  "sections k s s' \<longleftrightarrow> 0 < k"

lemma fits_progress:
  assumes "fits sections Q xs cs"
  shows "\<exists>xs'. fits sections Q xs' (fst (schedule is (cs, s))) \<and> units xs' \<le> units xs \<and>
    ((\<forall>i\<in>set is. \<not> moves i (cs, s)) \<or> units xs' < units xs)"
  using assms
proof (induction "is" arbitrary: xs cs s)
  case (Cons i "is")
  obtain cs1 s1 where t: "turn i (cs, s) = (cs1, s1)" by fastforce
  show ?case
  proof (cases "moves i (cs, s)")
    case False
    then have "cs1 = cs" "s1 = s" using fits_turn [OF Cons.prems, of i s] t by auto
    then show ?thesis using Cons.IH [OF Cons.prems, of s] t False by auto
  next
    case True
    then obtain k xs1 where n: "fits sections Q xs1 cs1" "sections k s s1" "k + units xs1 \<le> units xs"
      using fits_turn [OF Cons.prems, of i s] t by auto
    then have "units xs1 < units xs" by (simp add: sections_def)
    then show ?thesis using Cons.IH [OF n(1), of s1] t by fastforce
  qed
qed auto

text \<open>A round gives every coroutine a turn. If some coroutine can always move, as many rounds as there are sections are enough.\<close>

lemma rounds_finish:
  assumes "\<And>i x. J x \<Longrightarrow> J (turn i x)" "\<And>cs s. J (cs, s) \<Longrightarrow> results cs = None \<Longrightarrow> \<exists>i. moves i (cs, s)"
  shows "fits sections Q xs cs \<Longrightarrow> J (cs, s) \<Longrightarrow> \<forall>r\<in>set rs. {..<length cs} \<subseteq> set r \<Longrightarrow> units xs \<le> length rs \<Longrightarrow>
    results (fst (schedule (concat rs) (cs, s))) \<noteq> None"
proof (induction rs arbitrary: xs cs s)
  case Nil
  have "results cs \<noteq> None"
  proof
    assume "results cs = None"
    then obtain i where "moves i (cs, s)" using assms(2) Nil.prems(2) by blast
    then obtain xs' :: "(nat \<times> 'c) list" where "units xs' < units xs" using fits_progress [OF Nil.prems(1), of "[i]" s] by fastforce
    then show False using Nil.prems(4) by (metis list.size(3) less_le_trans not_less_zero)
  qed
  then show ?case by simp
next
  case (Cons r rs)
  obtain cs1 s1 where t: "schedule r (cs, s) = (cs1, s1)" by fastforce
  then have l: "length cs1 = length cs" by (metis fst_conv length_schedule)
  have J: "J (schedule is x)" if "J x" for "is" x using that by (induction "is" arbitrary: x) (simp_all add: assms(1))
  obtain xs1 where n: "fits sections Q xs1 cs1" "units xs1 \<le> units xs"
      "(\<forall>i\<in>set r. \<not> moves i (cs, s)) \<or> units xs1 < units xs"
    using fits_progress [OF Cons.prems(1), of r s] t by auto
  show ?case
  proof (cases "\<exists>i. moves i (cs, s)")
    case True
    then obtain i where "moves i (cs, s)" "i < length cs" by (auto simp: moves_def)
    then have "units xs1 \<le> length rs" using n(3) Cons.prems(3,4) by force
    then show ?thesis using Cons.IH [OF n(1), of s1] J [OF Cons.prems(2), of r] Cons.prems(3) t l by simp
  next
    case False
    then have f: "results cs \<noteq> None" using assms(2) Cons.prems(2) by blast
    then have "\<not> moves i (cs, s)" for i using False by blast
    then have "turn i (cs, s) = (cs, s)" for i using move_cases [of i cs s] by blast
    then have "schedule is (cs, s) = (cs, s)" for "is" by (induction "is") auto
    then show ?thesis using f by simp
  qed
qed

end
