(* ===== verification/Locks.thy ===== *)
theory Locks
  imports Coroutine
begin

text \<open>
  An \<open>asyncio.Lock\<close> around a part of the state. Two rules for coroutines that take it: an invariant of what the lock guards, with
  mutual exclusion and the absence of deadlock, in the presence of coroutines that do not take it; and serializability,
  for coroutines that touch the state only while they hold it.
\<close>

section \<open>An invariant guarded by a lock\<close>

text \<open>\<open>lk_rest\<close> holds whenever the lock is free, \<open>lk_safe\<close> always; \<open>lk_quiet\<close> is what a coroutine may do that does not hold the lock.\<close>

record 's lock_view =
  lk_held :: "'s \<Rightarrow> bool"
  lk_rest :: "'s \<Rightarrow> bool"
  lk_safe :: "'s \<Rightarrow> bool"
  lk_quiet :: "'s \<Rightarrow> 's \<Rightarrow> bool"

definition stable :: "'s lock_view \<Rightarrow> ('s \<Rightarrow> bool) \<Rightarrow> bool" where
  "stable L p \<longleftrightarrow> (\<forall>s s'. p s \<longrightarrow> lk_quiet L s s' \<longrightarrow> p s') \<and> (\<forall>s. p s \<longrightarrow> lk_safe L s)"

text \<open>A coroutine without the lock waits for nothing but the lock. The holder knows an assertion, which the others leave alone;
  it never waits, and leaves with the invariant restored.\<close>

inductive guards :: "'s lock_view \<Rightarrow> ('s \<Rightarrow> bool) option \<Rightarrow> ('s, 'a) coro \<Rightarrow> bool" for L where
  guards_done: "guards L None (Done a)"
| guards_out: "(\<And>s. \<not> lk_held L s \<Longrightarrow> g s) \<Longrightarrow>
    (\<And>s. g s \<Longrightarrow> lk_quiet L s (snd (f s)) \<and> guards L None (fst (f s)) \<or>
       \<not> lk_held L s \<and> lk_held L (snd (f s)) \<and> (lk_rest L s \<longrightarrow> (\<exists>p. p (snd (f s)) \<and> guards L (Some p) (fst (f s))))) \<Longrightarrow>
    guards L None (Step g f)"
| guards_in: "stable L p \<Longrightarrow> (\<And>s. g s) \<Longrightarrow>
    (\<And>s. lk_held L s \<Longrightarrow> p s \<Longrightarrow> lk_held L (snd (f s)) \<and> (\<exists>q. q (snd (f s)) \<and> guards L (Some q) (fst (f s))) \<or>
       \<not> lk_held L (snd (f s)) \<and> lk_rest L (snd (f s)) \<and> guards L None (fst (f s))) \<Longrightarrow>
    guards L (Some p) (Step g f)"

inductive_simps guards_simps: "guards L ph (Done a)" "guards L None (Step g f)" "guards L (Some p) (Step g f)"

lemma guards_cbind: "guards L ph c \<Longrightarrow> (\<And>a. guards L None (k a)) \<Longrightarrow> guards L ph (cbind c k)"
proof (induction rule: guards.induct)
  case (guards_out g f)
  have "lk_quiet L s (snd (f s)) \<and> guards L None (cbind (fst (f s)) k) \<or>
      \<not> lk_held L s \<and> lk_held L (snd (f s)) \<and> (lk_rest L s \<longrightarrow> (\<exists>p. p (snd (f s)) \<and> guards L (Some p) (cbind (fst (f s)) k)))"
    if "g s" for s
    using guards_out.IH [OF that] guards_out.prems by blast
  then show ?case using guards_out.hyps by (simp add: guards_simps)
next
  case (guards_in p g f)
  have "lk_held L (snd (f s)) \<and> (\<exists>q. q (snd (f s)) \<and> guards L (Some q) (cbind (fst (f s)) k)) \<or>
      \<not> lk_held L (snd (f s)) \<and> lk_rest L (snd (f s)) \<and> guards L None (cbind (fst (f s)) k)"
    if "lk_held L s" "p s" for s
    using guards_in.IH [OF that] guards_in.prems by blast
  then show ?case using guards_in.hyps unfolding cbind.simps by (intro guards.guards_in) simp_all
qed simp

lemma guards_atomic: "(\<And>s. lk_quiet L s (snd (f s))) \<Longrightarrow> guards L None (atomic f)"
  unfolding atomic_def by (rule guards.guards_out) (simp_all add: guards_done)

text \<open>The holder does something and keeps the lock, or leaves.\<close>

lemma guards_hold:
  assumes "stable L p" "\<And>s. lk_held L s \<Longrightarrow> p s \<Longrightarrow> lk_held L (snd (f s)) \<and> (\<exists>q. q (snd (f s)) \<and> guards L (Some q) (k (fst (f s))))"
  shows "guards L (Some p) (cbind (atomic f) k)"
  using assms unfolding atomic_def by (auto simp: o_def intro!: guards.guards_in)

lemma guards_leave:
  assumes "stable L p" "\<And>s. p s \<Longrightarrow> \<not> lk_held L (snd (f s)) \<and> lk_rest L (snd (f s))"
  shows "guards L (Some p) (atomic f)"
  using assms unfolding atomic_def by (auto intro!: guards.guards_in guards_done)

lemma guards_take:
  assumes "\<And>s. lk_rest L s \<Longrightarrow> p (t s)" "\<And>s. lk_held L (t s)" "guards L (Some p) c"
  shows "guards L None (Step (\<lambda>s. \<not> lk_held L s) (\<lambda>s. (c, t s)))"
proof (rule guards_out)
  show "lk_quiet L s (snd (c, t s)) \<and> guards L None (fst (c, t s)) \<or>
      \<not> lk_held L s \<and> lk_held L (snd (c, t s)) \<and> (lk_rest L s \<longrightarrow> (\<exists>p. p (snd (c, t s)) \<and> guards L (Some p) (fst (c, t s))))"
    if "\<not> lk_held L s" for s
    unfolding fst_conv snd_conv using that assms by (intro disjI2 conjI impI exI [of _ p]) simp_all
qed simp

text \<open>A coroutine that never takes the lock and never waits.\<close>

inductive keeps_to :: "('s \<Rightarrow> 's \<Rightarrow> bool) \<Rightarrow> ('s, 'a) coro \<Rightarrow> bool" for E where
  keeps_done: "keeps_to E (Done a)"
| keeps_step: "(\<And>s. g s) \<Longrightarrow> (\<And>s. E s (snd (f s)) \<and> keeps_to E (fst (f s))) \<Longrightarrow> keeps_to E (Step g f)"

lemma keeps_to_guards: "keeps_to (lk_quiet L) c \<Longrightarrow> guards L None c"
  by (induction rule: keeps_to.induct) (auto intro: guards.intros)

text \<open>At most one coroutine holds the lock.\<close>

definition lock_phases :: "'s lock_view \<Rightarrow> (nat \<Rightarrow> ('s \<Rightarrow> bool) option) \<Rightarrow> ('s, 'a) coro list \<Rightarrow> 's \<Rightarrow> bool" where
  "lock_phases L ph cs s \<longleftrightarrow>
     (\<forall>i<length cs. guards L (ph i) (cs ! i)) \<and>
     (\<forall>i<length cs. \<forall>j<length cs. ph i \<noteq> None \<longrightarrow> ph j \<noteq> None \<longrightarrow> i = j) \<and>
     (lk_held L s \<longleftrightarrow> (\<exists>i<length cs. ph i \<noteq> None)) \<and> (\<forall>i<length cs. \<forall>p. ph i = Some p \<longrightarrow> p s) \<and> (\<not> lk_held L s \<longrightarrow> lk_rest L s)"

definition lock_inv :: "'s lock_view \<Rightarrow> ('s, 'a) coro list \<times> 's \<Rightarrow> bool" where
  "lock_inv L = (\<lambda>(cs, s). \<exists>ph. lock_phases L ph cs s)"

lemma lock_phasesD:
  assumes "lock_phases L ph cs s"
  shows "i < length cs \<Longrightarrow> guards L (ph i) (cs ! i)"
    and "i < length cs \<Longrightarrow> j < length cs \<Longrightarrow> ph i \<noteq> None \<Longrightarrow> ph j \<noteq> None \<Longrightarrow> i = j"
    and "lk_held L s \<Longrightarrow> \<exists>i<length cs. ph i \<noteq> None" and "i < length cs \<Longrightarrow> ph i \<noteq> None \<Longrightarrow> lk_held L s"
    and "i < length cs \<Longrightarrow> ph i = Some p \<Longrightarrow> p s" and "\<not> lk_held L s \<Longrightarrow> lk_rest L s"
  using assms unfolding lock_phases_def by (elim conjE, blast)+

lemma lock_phasesI:
  assumes "\<And>i. i < length cs \<Longrightarrow> guards L (ph i) (cs ! i)"
    and "\<And>i j. i < length cs \<Longrightarrow> j < length cs \<Longrightarrow> ph i \<noteq> None \<Longrightarrow> ph j \<noteq> None \<Longrightarrow> i = j"
    and "lk_held L s \<Longrightarrow> \<exists>i<length cs. ph i \<noteq> None" and "\<And>i. i < length cs \<Longrightarrow> ph i \<noteq> None \<Longrightarrow> lk_held L s"
    and "\<And>i p. i < length cs \<Longrightarrow> ph i = Some p \<Longrightarrow> p s" and "\<not> lk_held L s \<Longrightarrow> lk_rest L s"
  shows "lock_phases L ph cs s"
  using assms unfolding lock_phases_def by blast

lemma guards_stable: "guards L (Some p) c \<Longrightarrow> stable L p"
  by (erule guards.cases) simp_all

locale lock =
  fixes L :: "'s lock_view"
  assumes quiet_held: "lk_quiet L s s' \<Longrightarrow> lk_held L s' = lk_held L s"
    and quiet_rest: "lk_quiet L s s' \<Longrightarrow> lk_rest L s \<Longrightarrow> lk_rest L s'"
    and rest_safe: "lk_rest L s \<Longrightarrow> lk_safe L s"
begin

lemma lock_phases_move:
  assumes h: "lock_phases L ph cs s" and i: "i < length cs" and "guards L q (fst x)" "lk_held L (snd x) \<longleftrightarrow> q \<noteq> None"
    and others: "\<And>j. j < length cs \<Longrightarrow> j \<noteq> i \<Longrightarrow> ph j = None" and "\<And>p. q = Some p \<Longrightarrow> p (snd x)" "q = None \<Longrightarrow> lk_rest L (snd x)"
  shows "lock_phases L (ph(i := q)) (cs[i := fst x]) (snd x)"
proof (rule lock_phasesI)
  have o: "(ph(i := q)) j \<noteq> None \<Longrightarrow> j = i" if "j < length cs" for j
    using others [OF that] by (cases "j = i") auto
  show "guards L ((ph(i := q)) j) (cs[i := fst x] ! j)" if "j < length (cs[i := fst x])" for j
    using lock_phasesD(1) [OF h, of j] assms(3) that by (cases "j = i") simp_all
  show "j = k" if "j < length (cs[i := fst x])" "k < length (cs[i := fst x])" "(ph(i := q)) j \<noteq> None" "(ph(i := q)) k \<noteq> None" for j k
    using o [OF _ that(3)] o [OF _ that(4)] that(1,2) unfolding length_list_update by blast
  show "\<exists>j<length (cs[i := fst x]). (ph(i := q)) j \<noteq> None" if "lk_held L (snd x)"
    by (rule exI [of _ i]) (use that assms(4) i in simp)
  show "lk_held L (snd x)" if "j < length (cs[i := fst x])" "(ph(i := q)) j \<noteq> None" for j
  proof -
    have "j = i" using o [OF _ that(2)] that(1) by simp
    then show ?thesis using that(2) assms(4) by simp
  qed
  show "p (snd x)" if "j < length (cs[i := fst x])" "(ph(i := q)) j = Some p" for j p
  proof -
    have "j = i" using o [of j] that by (simp del: fun_upd_apply)
    then show ?thesis using that(2) assms(6) by simp
  qed
  show "\<not> lk_held L (snd x) \<Longrightarrow> lk_rest L (snd x)" using assms(4,7) by blast
qed

lemma lock_phases_quiet:
  assumes h: "lock_phases L ph cs s" and "lk_quiet L s s'" "guards L None c" "ph i = None"
  shows "lock_phases L ph (cs[i := c]) s'"
proof (rule lock_phasesI)
  have held: "lk_held L s' = lk_held L s" by (rule quiet_held [OF assms(2)])
  show "guards L (ph j) (cs[i := c] ! j)" if "j < length (cs[i := c])" for j
    using lock_phasesD(1) [OF h, of j] assms(3,4) that by (cases "j = i") simp_all
  show "j = k" if "j < length (cs[i := c])" "k < length (cs[i := c])" "ph j \<noteq> None" "ph k \<noteq> None" for j k
    using lock_phasesD(2) [OF h, of j k] that by simp
  show "\<exists>j<length (cs[i := c]). ph j \<noteq> None" if "lk_held L s'" using lock_phasesD(3) [OF h] that held by simp
  show "lk_held L s'" if "j < length (cs[i := c])" "ph j \<noteq> None" for j using lock_phasesD(4) [OF h] that held by simp
  show "p s'" if "j < length (cs[i := c])" "ph j = Some p" for j p
  proof -
    have "stable L p" "p s" using guards_stable lock_phasesD(1) [OF h, of j] lock_phasesD(5) [OF h, of j p] that by auto
    then show ?thesis using assms(2) by (auto simp: stable_def)
  qed
  show "\<not> lk_held L s' \<Longrightarrow> lk_rest L s'" using quiet_rest [OF assms(2)] lock_phasesD(6) [OF h] held by simp
qed

lemma lock_inv_move:
  assumes "lock_inv L (cs, s)" "i < length cs" "cs ! i = Step g f" "g s"
  shows "lock_inv L (cs[i := fst (f s)], snd (f s))"
proof -
  obtain ph where h: "lock_phases L ph cs s" using assms(1) by (auto simp: lock_inv_def)
  have c: "guards L (ph i) (Step g f)" using lock_phasesD(1) [OF h assms(2)] assms(3) by simp
  have "\<exists>ph. lock_phases L ph (cs[i := fst (f s)]) (snd (f s))"
  proof (cases "ph i")
    case None
    then consider "lk_quiet L s (snd (f s))" "guards L None (fst (f s))"
      | p where "\<not> lk_held L s" "lk_held L (snd (f s))" "p (snd (f s))" "guards L (Some p) (fst (f s))"
      using c assms(4) lock_phasesD(6) [OF h] by (auto simp: guards_simps)
    then show ?thesis
    proof cases
      case 1
      then show ?thesis using lock_phases_quiet [OF h _ _ None] by blast
    next
      case 2
      then have "\<And>j. j < length cs \<Longrightarrow> ph j = None" using lock_phasesD(4) [OF h] by blast
      then show ?thesis using lock_phases_move [OF h assms(2), of "Some p" "f s"] 2 by auto
    qed
  next
    case (Some p)
    have o: "\<And>j. j < length cs \<Longrightarrow> j \<noteq> i \<Longrightarrow> ph j = None" using lock_phasesD(2) [OF h _ assms(2)] Some by blast
    have "lk_held L s" "p s" using lock_phasesD(4,5) [OF h assms(2)] Some by auto
    then consider q where "lk_held L (snd (f s))" "q (snd (f s))" "guards L (Some q) (fst (f s))"
      | "\<not> lk_held L (snd (f s))" "lk_rest L (snd (f s))" "guards L None (fst (f s))"
      using c Some by (auto simp: guards_simps)
    then show ?thesis
    proof cases
      case 1
      then show ?thesis using lock_phases_move [OF h assms(2), of "Some q" "f s"] o by auto
    next
      case 2
      then show ?thesis using lock_phases_move [OF h assms(2), of None "f s"] o by auto
    qed
  qed
  then show ?thesis by (simp add: lock_inv_def)
qed

lemma lock_inv_turn: "lock_inv L x \<Longrightarrow> lock_inv L (turn i x)"
  by (cases x, rule move_cases [of i "fst x" "snd x"]) (auto intro: lock_inv_move)

lemma lock_inv_schedule: "lock_inv L x \<Longrightarrow> lock_inv L (schedule is x)"
  by (induction "is" arbitrary: x) (simp_all add: lock_inv_turn)

lemma lock_inv_start: "\<forall>c\<in>set cs. guards L None c \<Longrightarrow> \<not> lk_held L s \<Longrightarrow> lk_rest L s \<Longrightarrow> lock_inv L (cs, s)"
  by (auto simp: lock_inv_def lock_phases_def intro!: exI [of _ "\<lambda>_. None"])

lemma lock_inv_safe:
  assumes "lock_inv L (cs, s)"
  shows "lk_safe L s"
proof -
  obtain ph where h: "lock_phases L ph cs s" using assms by (auto simp: lock_inv_def)
  show ?thesis
  proof (cases "lk_held L s")
    case True
    then obtain i p where "i < length cs" "ph i = Some p" using lock_phasesD(3) [OF h] by blast
    then have "stable L p" "p s" using guards_stable [of L p "cs ! i"] lock_phasesD(1) [OF h, of i] lock_phasesD(5) [OF h, of i p] by simp_all
    then show ?thesis by (simp add: stable_def)
  qed (use lock_phasesD(6) [OF h] rest_safe in blast)
qed

lemma lock_inv_done: "lock_inv L (map Done as, s) \<Longrightarrow> \<not> lk_held L s \<and> lk_rest L s"
  by (auto simp: lock_inv_def lock_phases_def guards_simps)

text \<open>No deadlock: unless all are done, some coroutine can move.\<close>

lemma lock_inv_moves:
  assumes "lock_inv L (cs, s)" "results cs = None"
  shows "\<exists>i. moves i (cs, s)"
proof -
  obtain ph where p: "lock_phases L ph cs s" using assms(1) by (auto simp: lock_inv_def)
  note h = lock_phasesD(1,3) [OF p]
  have m: "moves i (cs, s)" if "i < length cs" "cs ! i = Step g f" "ph i \<noteq> None \<or> \<not> lk_held L s" for i g f
  proof -
    have "guards L (ph i) (Step g f)" using h(1) [OF that(1)] that(2) by simp
    then have "g s" using that(3) by (cases "ph i") (simp_all add: guards_simps)
    then show ?thesis using that by (simp add: moves_def)
  qed
  show ?thesis
  proof (cases "lk_held L s")
    case True
    then obtain i where i: "i < length cs" "ph i \<noteq> None" using h(2) by blast
    have "\<exists>g f. cs ! i = Step g f" using h(1) [OF i(1)] i(2) by (cases "cs ! i") (auto simp: guards_simps)
    then show ?thesis using m i by blast
  next
    case False
    obtain c where c: "c \<in> set cs" "\<nexists>a. c = Done a" using assms(2) unfolding results_None by blast
    then obtain i where i: "i < length cs" "cs ! i = c" by (auto simp: in_set_conv_nth)
    have "\<exists>g f. c = Step g f" using c(2) by (cases c) simp_all
    then show ?thesis using m i False by blast
  qed
qed

text \<open>Coroutines of at most \<open>n\<close> sections each end within \<open>n\<close> rounds of turns for each.\<close>

lemma lock_rounds_finish:
  assumes "\<forall>c\<in>set cs. guards L None c" "\<forall>c\<in>set cs. spends sections (\<lambda>_. True) n c" "\<not> lk_held L s" "lk_rest L s"
    and "\<forall>r\<in>set rounds. {..<length cs} \<subseteq> set r" "n * length cs \<le> length rounds"
    and "schedule (concat rounds) (cs, s) = (cs', s')"
  shows "\<exists>as. cs' = map Done as \<and> \<not> lk_held L s' \<and> lk_rest L s'"
proof -
  let ?xs = "replicate (length cs) (n, ())"
  have J: "lock_inv L (cs, s)" by (rule lock_inv_start [OF assms(1,3,4)])
  have f: "fits sections (\<lambda>_ _. True) ?xs cs" using assms(2) unfolding fits_def by (auto simp: list_all2_conv_all_nth)
  have "results (fst (schedule (concat rounds) (cs, s))) \<noteq> None"
    by (rule rounds_finish [where J = "lock_inv L", OF lock_inv_turn lock_inv_moves f J assms(5)])
      (use assms(6) in \<open>simp_all add: map_replicate sum_list_replicate ac_simps\<close>)
  then obtain as where "cs' = map Done as" using assms(7) by (auto simp: results_Some)
  then show ?thesis using lock_inv_done lock_inv_schedule [OF J, of "concat rounds"] assms(7) by auto
qed

end

section \<open>Serializability\<close>

text \<open>A coroutine that touches the state only while it holds the lock, which it takes once: before and after, its sections leave the
  state as it is and do not depend on it.\<close>

datatype lock_phase = Before | Inside | After

inductive one_section :: "('s \<Rightarrow> bool) \<Rightarrow> lock_phase \<Rightarrow> ('s, 'a) coro \<Rightarrow> bool" for held where
  before_waits: "(\<And>s. g s) \<Longrightarrow> (\<And>s. f s = (c, s)) \<Longrightarrow> one_section held Before c \<Longrightarrow> one_section held Before (Step g f)"
| before_takes: "(\<And>s. g s \<longleftrightarrow> \<not> held s) \<Longrightarrow> (\<And>s. \<not> held s \<Longrightarrow> held (snd (f s)) \<and> one_section held Inside (fst (f s))) \<Longrightarrow>
    one_section held Before (Step g f)"
| inside: "(\<And>s. g s) \<Longrightarrow>
    (\<And>s. held s \<Longrightarrow> one_section held (if held (snd (f s)) then Inside else After) (fst (f s))) \<Longrightarrow> one_section held Inside (Step g f)"
| after_waits: "(\<And>s. g s) \<Longrightarrow> (\<And>s. f s = (c, s)) \<Longrightarrow> one_section held After c \<Longrightarrow> one_section held After (Step g f)"
| after_done: "one_section held After (Done a)"

inductive_cases one_sectionE: "one_section held Before c" "one_section held Inside c" "one_section held After c"

lemma after_run: "one_section held After c \<Longrightarrow> \<exists>a. \<forall>u. run c u = Some (a, u)"
  by (induction After c rule: one_section.induct) simp_all

text \<open>Those that have left the lock ran one after the other, in this order; the holder, if any, is on its way from the state \<open>t\<close> they
  left; the others have not begun.\<close>

definition serial_at :: "('s \<Rightarrow> bool) \<Rightarrow> ('s, 'a) coro \<Rightarrow> 's \<Rightarrow> 's \<Rightarrow> lock_phase \<Rightarrow> 'a \<Rightarrow> ('s, 'a) coro \<Rightarrow> bool" where
  "serial_at held c0 t s p a c \<longleftrightarrow> one_section held p c \<and>
     (case p of
        Before \<Rightarrow> \<forall>u. run c u = run c0 u
      | Inside \<Rightarrow> held s \<and> run c s = run c0 t
      | After \<Rightarrow> \<forall>u. run c u = Some (a, u))"

definition serial_phases ::
  "('s \<Rightarrow> bool) \<Rightarrow> ('s, 'a) coro list \<Rightarrow> 's \<Rightarrow> (nat \<Rightarrow> lock_phase) \<Rightarrow> nat list \<Rightarrow> (nat \<Rightarrow> 'a) \<Rightarrow> 's \<Rightarrow> ('s, 'a) coro list \<Rightarrow> 's \<Rightarrow> bool" where
  "serial_phases held cs0 s0 ph order res t cs s \<longleftrightarrow>
     length cs = length cs0 \<and> distinct order \<and> set order = {i. i < length cs0 \<and> ph i = After} \<and>
     run_all (map ((!) cs0) order) s0 = Some (map res order, t) \<and> \<not> held t \<and>
     (\<forall>i<length cs0. serial_at held (cs0 ! i) t s (ph i) (res i) (cs ! i)) \<and>
     (\<forall>i<length cs0. \<forall>j<length cs0. ph i = Inside \<longrightarrow> ph j = Inside \<longrightarrow> i = j) \<and>
     ((\<forall>i<length cs0. ph i \<noteq> Inside) \<longrightarrow> s = t)"

definition serial_inv :: "('s \<Rightarrow> bool) \<Rightarrow> ('s, 'a) coro list \<Rightarrow> 's \<Rightarrow> ('s, 'a) coro list \<times> 's \<Rightarrow> bool" where
  "serial_inv held cs0 s0 = (\<lambda>(cs, s). \<exists>ph order res t. serial_phases held cs0 s0 ph order res t cs s)"

lemma serial_phasesD:
  assumes "serial_phases held cs0 s0 ph order res t cs s"
  shows "length cs = length cs0" "distinct order" "set order = {i. i < length cs0 \<and> ph i = After}"
    "run_all (map ((!) cs0) order) s0 = Some (map res order, t)" "\<not> held t"
    "i < length cs0 \<Longrightarrow> serial_at held (cs0 ! i) t s (ph i) (res i) (cs ! i)"
    "i < length cs0 \<Longrightarrow> j < length cs0 \<Longrightarrow> ph i = Inside \<Longrightarrow> ph j = Inside \<Longrightarrow> i = j"
    "(\<And>i. i < length cs0 \<Longrightarrow> ph i \<noteq> Inside) \<Longrightarrow> s = t"
  using assms unfolding serial_phases_def by simp_all

lemma serial_at_other: "p \<noteq> Inside \<Longrightarrow> serial_at held c0 t s p a c = serial_at held c0 t' s' p a c"
  by (cases p) (simp_all add: serial_at_def)

text \<open>A coroutine that does not hold the lock moves without taking it.\<close>

lemma serial_phases_wait:
  assumes h: "serial_phases held cs0 s0 ph order res t cs s" and i: "i < length cs0"
    and "serial_at held (cs0 ! i) t s (ph i) (res i) c"
  shows "serial_phases held cs0 s0 ph order res t (cs[i := c]) s"
proof -
  have "serial_at held (cs0 ! j) t s (ph j) (res j) (cs[i := c] ! j)" if "j < length cs0" for j
    using serial_phasesD(1,6) [OF h] assms(3) that by (cases "j = i") simp_all
  then show ?thesis using h unfolding serial_phases_def by simp
qed

text \<open>It takes the lock, moves on while it holds it, or leaves it, when no other coroutine holds it.\<close>

lemma serial_phases_hold:
  assumes h: "serial_phases held cs0 s0 ph order res t cs s" and i: "i < length cs0"
    and others: "\<And>j. j < length cs0 \<Longrightarrow> j \<noteq> i \<Longrightarrow> ph j \<noteq> Inside" and "ph i \<noteq> After" "one_section held Inside c" "held s'" "run c s' = run (cs0 ! i) t"
  shows "serial_phases held cs0 s0 (ph(i := Inside)) order res t (cs[i := c]) s'"
proof -
  have "serial_at held (cs0 ! j) t s' ((ph(i := Inside)) j) (res j) (cs[i := c] ! j)" if "j < length cs0" for j
  proof (cases "j = i")
    case True
    then show ?thesis using serial_phasesD(1) [OF h] i assms(5-7) by (simp add: serial_at_def)
  next
    case False
    then show ?thesis
      using serial_phasesD(6) [OF h that] serial_at_other [OF others [OF that False], of held "cs0 ! j" t s "res j" "cs ! j" t s'] by simp
  qed
  moreover have "{j. j < length cs0 \<and> (ph(i := Inside)) j = After} = set order"
    using serial_phasesD(3) [OF h] assms(4) by auto
  ultimately show ?thesis
    using serial_phasesD(1,2,4,5) [OF h] others i unfolding serial_phases_def by simp
qed

lemma serial_phases_leave:
  assumes h: "serial_phases held cs0 s0 ph order res t cs s" and i: "i < length cs0"
    and others: "\<And>j. j < length cs0 \<Longrightarrow> j \<noteq> i \<Longrightarrow> ph j \<noteq> Inside" and "ph i = Inside" "one_section held After c" "\<not> held s'"
    and a: "\<And>u. run c u = Some (a, u)" "run (cs0 ! i) t = Some (a, s')"
  shows "serial_phases held cs0 s0 (ph(i := After)) (order @ [i]) (res(i := a)) s' (cs[i := c]) s'"
proof -
  have "serial_at held (cs0 ! j) s' s' ((ph(i := After)) j) ((res(i := a)) j) (cs[i := c] ! j)" if "j < length cs0" for j
  proof (cases "j = i")
    case True
    then show ?thesis using serial_phasesD(1) [OF h] i assms(5) a(1) by (simp add: serial_at_def)
  next
    case False
    then show ?thesis
      using serial_phasesD(6) [OF h that] serial_at_other [OF others [OF that False], of held "cs0 ! j" t s "res j" "cs ! j" s' s'] by simp
  qed
  moreover have no: "i \<notin> set order" using serial_phasesD(3) [OF h] assms(4) by simp
  moreover have "{j. j < length cs0 \<and> (ph(i := After)) j = After} = set (order @ [i])"
    using serial_phasesD(3) [OF h] i by auto
  moreover have "map (res(i := a)) (order @ [i]) = map res order @ [a]" using no by simp
  moreover have "run_all (map ((!) cs0) (order @ [i])) s0 = Some (map res order @ [a], s')"
    using serial_phasesD(4) [OF h] a(2) by (simp add: run_all_append)
  ultimately show ?thesis
    using serial_phasesD(1,2) [OF h] others assms(6) unfolding serial_phases_def by (auto simp del: map_append)
qed

lemma serial_inv_move:
  assumes "serial_inv held cs0 s0 (cs, s)" "i < length cs" "cs ! i = Step g f" "g s"
  shows "serial_inv held cs0 s0 (cs[i := fst (f s)], snd (f s))"
proof -
  obtain ph order res t where h: "serial_phases held cs0 s0 ph order res t cs s" using assms(1) by (auto simp: serial_inv_def)
  have i: "i < length cs0" using serial_phasesD(1) [OF h] assms(2) by simp
  let ?c = "fst (f s)" and ?s = "snd (f s)"
  have r: "run (Step g f) s = run ?c ?s" using assms(4) by simp
  have at: "serial_at held (cs0 ! i) t s (ph i) (res i) (Step g f)" using serial_phasesD(6) [OF h i] assms(3) by simp
  then have one: "one_section held (ph i) (Step g f)" by (simp add: serial_at_def)
  have wait: ?thesis if "\<And>u. g u" "\<And>u. f u = (c, u)" "one_section held (ph i) c" "ph i \<noteq> Inside" for c
  proof -
    have "serial_at held (cs0 ! i) t s (ph i) (res i) c"
      using at that by (cases "ph i") (simp_all add: serial_at_def)
    from serial_phases_wait [OF h i this] show ?thesis using that(2) by (auto simp: serial_inv_def)
  qed
  show ?thesis
  proof (cases "ph i")
    case Before
    from one [unfolded Before] consider c where "\<And>u. g u" "\<And>u. f u = (c, u)" "one_section held Before c"
      | "\<And>u. g u \<longleftrightarrow> \<not> held u" "\<And>u. \<not> held u \<Longrightarrow> held (snd (f u)) \<and> one_section held Inside (fst (f u))"
      by (auto elim: one_sectionE(1))
    then show ?thesis
    proof cases
      case 1
      show ?thesis by (rule wait [OF 1(1,2)]) (use 1(3) Before in simp_all)
    next
      case 2
      have free: "\<not> held s" using 2(1) assms(4) by simp
      have out: "ph j \<noteq> Inside" if "j < length cs0" for j
        using serial_phasesD(6) [OF h that] free by (auto simp: serial_at_def)
      have "s = t" by (rule serial_phasesD(8) [OF h out])
      then have "run ?c ?s = run (cs0 ! i) t" using at r by (simp add: serial_at_def Before)
      from serial_phases_hold [OF h i out _ _ _ this] show ?thesis using 2(2) [OF free] Before by (auto simp: serial_inv_def)
    qed
  next
    case Inside
    have own: "held s" "run ?c ?s = run (cs0 ! i) t" using at r by (simp_all add: serial_at_def Inside)
    have out: "ph j \<noteq> Inside" if "j < length cs0" "j \<noteq> i" for j using serial_phasesD(7) [OF h that(1) i _ Inside] that by blast
    have inner: "one_section held (if held ?s then Inside else After) ?c"
      using one own(1) unfolding Inside by (elim one_sectionE(2)) (simp del: if_split)
    show ?thesis
    proof (cases "held ?s")
      case True
      then show ?thesis using serial_phases_hold [OF h i out _ _ True own(2)] inner Inside by (auto simp: serial_inv_def)
    next
      case False
      then obtain a where a: "\<And>u. run ?c u = Some (a, u)" using inner after_run [of held ?c] by auto
      then show ?thesis using serial_phases_leave [OF h i out Inside _ False a] inner False own(2) by (auto simp: serial_inv_def)
    qed
  next
    case After
    from one [unfolded After] obtain c where c: "\<And>u. g u" "\<And>u. f u = (c, u)" "one_section held After c"
      by (auto elim: one_sectionE(3))
    show ?thesis by (rule wait [OF c(1,2)]) (use c(3) After in simp_all)
  qed
qed

lemma serial_inv_turn: "serial_inv held cs0 s0 x \<Longrightarrow> serial_inv held cs0 s0 (turn i x)"
  by (cases x, rule move_cases [of i "fst x" "snd x"]) (auto intro: serial_inv_move)

lemma serial_inv_schedule: "serial_inv held cs0 s0 x \<Longrightarrow> serial_inv held cs0 s0 (schedule is x)"
  by (induction "is" arbitrary: x) (simp_all add: serial_inv_turn)

lemma serial_inv_start: "\<forall>c\<in>set cs. one_section held Before c \<Longrightarrow> \<not> held s \<Longrightarrow> serial_inv held cs s (cs, s)"
  unfolding serial_inv_def prod.case serial_phases_def
  by (intro exI [of _ "\<lambda>_. Before"] exI [of _ "[]"] exI [of _ undefined] exI [of _ s]) (simp add: serial_at_def)

text \<open>Whatever the schedule, once all have ended they have the results and the state of running one after the other in some order.\<close>

lemma serializable:
  assumes "\<forall>c\<in>set cs. one_section held Before c" "\<not> held s" "schedule is (cs, s) = (map Done as, s')"
  shows "\<exists>order. distinct order \<and> set order = {..<length cs} \<and> run_all (map ((!) cs) order) s = Some (map ((!) as) order, s')"
proof -
  have "serial_inv held cs s (map Done as, s')"
    using serial_inv_schedule [OF serial_inv_start [OF assms(1,2)], of "is"] assms(3) by simp
  then obtain ph order res t where h: "serial_phases held cs s ph order res t (map Done as) s'" by (auto simp: serial_inv_def)
  have l: "length as = length cs" using serial_phasesD(1) [OF h] by simp
  have ph: "ph i = After \<and> res i = as ! i" if "i < length cs" for i
  proof -
    have "one_section held (ph i) (Done (as ! i))" "serial_at held (cs ! i) t s' (ph i) (res i) (Done (as ! i))"
      using serial_phasesD(6) [OF h that] l that by (simp_all add: serial_at_def)
    then show ?thesis by (cases "ph i") (auto simp: serial_at_def elim: one_sectionE)
  qed
  then have "s' = t" by (intro serial_phasesD(8) [OF h]) simp
  moreover have o: "set order = {..<length cs}" using serial_phasesD(3) [OF h] ph by auto
  moreover have "map res order = map ((!) as) order" using o ph by simp
  ultimately show ?thesis using serial_phasesD(2,4) [OF h] by (intro exI [of _ order]) simp
qed

text \<open>The lock alone, with nothing to guard.\<close>

definition plain_lock :: "('s \<Rightarrow> bool) \<Rightarrow> 's lock_view" where
  "plain_lock held = \<lparr>lk_held = held, lk_rest = (\<lambda>_. True), lk_safe = (\<lambda>_. True), lk_quiet = (\<lambda>s s'. held s' = held s)\<rparr>"

interpretation plain_lock: lock "plain_lock held" for held
  by unfold_locales (simp_all add: plain_lock_def)

lemma plain_lock_simps [simp]:
  "lk_held (plain_lock held) = held" "lk_rest (plain_lock held) s" "lk_quiet (plain_lock held) s s' \<longleftrightarrow> held s' = held s"
  "stable (plain_lock held) (\<lambda>_. True)"
  by (simp_all add: plain_lock_def stable_def)

lemma one_section_guards:
  "one_section held ph c \<Longrightarrow> guards (plain_lock held) (if ph = Inside then Some (\<lambda>_. True) else None) c"
proof (induction rule: one_section.induct)
  case (before_takes g f)
  have "lk_rest (plain_lock held) s \<longrightarrow> (\<exists>p. p (snd (f s)) \<and> guards (plain_lock held) (Some p) (fst (f s)))" if "\<not> held s" for s
    by (rule impI, rule exI [of _ "\<lambda>_. True"]) (use before_takes.IH [OF that] in simp)
  then have "guards (plain_lock held) None (Step g f)" using before_takes by (intro guards_out) simp_all
  then show ?case by simp
next
  case (inside g f)
  have "held (snd (f s)) \<and> (\<exists>q. q (snd (f s)) \<and> guards (plain_lock held) (Some q) (fst (f s))) \<or>
      \<not> held (snd (f s)) \<and> lk_rest (plain_lock held) (snd (f s)) \<and> guards (plain_lock held) None (fst (f s))" if "held s" for s
  proof (cases "held (snd (f s))")
    case True
    then show ?thesis by (intro disjI1 conjI exI [of _ "\<lambda>_. True"]) (use inside.IH [OF that] in simp_all)
  qed (use inside.IH [OF that] in simp)
  then have "guards (plain_lock held) (Some (\<lambda>_. True)) (Step g f)" using inside(1) by (intro guards_in) simp_all
  then show ?case by simp
qed (auto intro: guards_out guards_done)

text \<open>If every coroutine gets its turns, all end, as if they had run one after the other in some order.\<close>

lemma serial_finish:
  assumes "\<forall>c\<in>set cs. one_section held Before c" "\<forall>c\<in>set cs. spends sections (\<lambda>_. True) n c" "\<not> held s"
    and "\<forall>r\<in>set rounds. {..<length cs} \<subseteq> set r" "n * length cs \<le> length rounds" "schedule (concat rounds) (cs, s) = (cs', s')"
  shows "\<exists>as order. cs' = map Done as \<and> \<not> held s' \<and> distinct order \<and> set order = {..<length cs} \<and>
    run_all (map ((!) cs) order) s = Some (map ((!) as) order, s')"
proof -
  have "\<forall>c\<in>set cs. guards (plain_lock held) None c" using assms(1) one_section_guards [of held Before] by auto
  from plain_lock.lock_rounds_finish [OF this assms(2) _ _ assms(4-6)] assms(3)
  obtain as where as: "cs' = map Done as" "\<not> held s'" by (auto simp: plain_lock_def)
  from serializable [OF assms(1,3), of "concat rounds" as s'] assms(6) as show ?thesis by auto
qed

end
