(* ===== verification/Dispatcher_Tasks.thy ===== *)
theory Dispatcher_Tasks
  imports Pipeline_Correct Locks
begin

text \<open>
  The tasks of the alert dispatcher (\<open>src/ingestion/dispatcher.py\<close>) as they are run: \<open>run\<close> starts one task per alert, which sleeps for the
  context delay and then counts and inserts under \<open>_cap_lock\<close>, with an \<open>await\<close> between the two. The tasks, and coroutines of the rest of the
  program between them, are interleaved by any schedule; \<open>Ingestion\<close> has the handling of an alert as one step.
\<close>

record 's dispatching =
  dp_store :: 's
  dp_lock :: bool

definition cap_release :: "string option res \<Rightarrow> ('s dispatching, string option res) coro" where
  "cap_release r = atomic (\<lambda>s. (r, s\<lparr>dp_lock := False\<rparr>))"

text \<open>The critical section. An exception of the count leaves it, one of the insert is logged.\<close>

definition handle_locked ::
  "(instant \<Rightarrow> 's \<Rightarrow> nat res) \<Rightarrow> (string \<Rightarrow> instant \<Rightarrow> json \<Rightarrow> string \<Rightarrow> 's \<Rightarrow> (string \<times> 's) res) \<Rightarrow> int \<Rightarrow>
   string \<times> instant \<times> instant \<times> eve_event \<Rightarrow> ('s dispatching, string option res) coro" where
  "handle_locked cnt ins daily_cap = (\<lambda>(uid, now1, now2, ev).
     cbind (atomic (\<lambda>s. (cnt now1 (dp_store s), s))) (\<lambda>count.
       case count of
         Inl e \<Rightarrow> cap_release (Inl e)
       | Inr n \<Rightarrow>
           (let status = (if int n < daily_cap then ''queued'' else ''deferred'')
            in cbind (atomic (\<lambda>s.
                 case ins uid now2 (ev_raw ev) status (dp_store s) of
                   Inl e \<Rightarrow> (Inr None, s)
                 | Inr (alert_id, st) \<Rightarrow> (Inr (Some alert_id), s\<lparr>dp_store := st\<rparr>))) cap_release)))"

definition handle_coro ::
  "(instant \<Rightarrow> 's \<Rightarrow> nat res) \<Rightarrow> (string \<Rightarrow> instant \<Rightarrow> json \<Rightarrow> string \<Rightarrow> 's \<Rightarrow> (string \<times> 's) res) \<Rightarrow> int \<Rightarrow>
   string \<times> instant \<times> instant \<times> eve_event \<Rightarrow> ('s dispatching, string option res) coro" where
  "handle_coro cnt ins daily_cap x =
     cbind (atomic (\<lambda>s. ((), s))) (\<lambda>_.
       Step (\<lambda>s. \<not> dp_lock s) (\<lambda>s. (handle_locked cnt ins daily_cap x, s\<lparr>dp_lock := True\<rparr>)))"

section \<open>The tasks one after the other\<close>

lemma run_handle_coro:
  "\<not> dp_lock s \<Longrightarrow> run (handle_coro cnt ins cap (uid, now1, now2, ev)) s =
     (case dispatcher_handle cnt ins cap uid now1 now2 ev (dp_store s) of (r, st) \<Rightarrow> Some (r, s\<lparr>dp_store := st\<rparr>))"
  by (auto simp: handle_coro_def handle_locked_def cap_release_def dispatcher_handle_def Let_def split: sum.split)

lemma handle_one_section: "one_section dp_lock Before (handle_coro cnt ins cap x)"
proof -
  have release: "one_section dp_lock Inside (cap_release r)" for r :: "string option res"
    unfolding cap_release_def atomic_def by (rule inside) (auto intro: after_done)
  have bind: "one_section dp_lock Inside (cbind (atomic f) k)"
    if "\<And>s. dp_lock s \<Longrightarrow> dp_lock (snd (f s)) \<and> one_section dp_lock Inside (k (fst (f s)))"
    for f :: "'a dispatching \<Rightarrow> 'b \<times> 'a dispatching" and k :: "'b \<Rightarrow> ('a dispatching, 'c) coro"
    unfolding atomic_def using that by (auto intro!: inside)
  have "one_section dp_lock Inside (handle_locked cnt ins cap x)"
    unfolding handle_locked_def Let_def case_prod_beta
    by (auto intro!: bind release split: sum.split)
  then have "one_section dp_lock Before
      (Step (\<lambda>s. \<not> dp_lock s) (\<lambda>s. (handle_locked cnt ins cap x, s\<lparr>dp_lock := True\<rparr>)))"
    by (intro before_takes) auto
  then show ?thesis
    unfolding handle_coro_def atomic_def cbind.simps by (intro before_waits) auto
qed

lemma handle_sections: "spends sections (\<lambda>_. True) 5 (handle_coro cnt ins cap x)"
proof -
  have act: "spends sections (\<lambda>_. True) n (atomic f)" if "1 \<le> n" for n and f :: "'a dispatching \<Rightarrow> 'b \<times> 'a dispatching"
    by (rule spends_atomic) (use that in \<open>simp add: sections_def\<close>)
  have "spends sections (\<lambda>_. True) 3 (handle_locked cnt ins cap x)"
    unfolding handle_locked_def Let_def case_prod_beta cap_release_def
    by (rule spends_bind [OF act [of 1]]) (auto split: sum.split intro!: act spends_bind [OF act [of 1]])
  then have "spends sections (\<lambda>_. True) 4
      (Step (\<lambda>s. \<not> dp_lock s) (\<lambda>s. (handle_locked cnt ins cap x, s\<lparr>dp_lock := True\<rparr>)))"
    by (intro spends_step exI [of _ 1] exI [of _ 3]) (simp add: sections_def)
  then show ?thesis
    unfolding handle_coro_def by (intro spends_bind [OF act [of 1]]) simp_all
qed

section \<open>The daily cap under any schedule\<close>

definition below_cap :: "(instant \<Rightarrow> 's \<Rightarrow> nat res) \<Rightarrow> instant \<Rightarrow> int \<Rightarrow> 's \<Rightarrow> bool" where
  "below_cap cnt t cap st \<longleftrightarrow> (\<exists>n. cnt t st = Inr n \<and> int n \<le> cap)"

definition not_more :: "(instant \<Rightarrow> 's \<Rightarrow> nat res) \<Rightarrow> 's \<Rightarrow> 's \<Rightarrow> bool" where
  "not_more cnt st st' \<longleftrightarrow> (\<forall>t n. cnt t st = Inr n \<longrightarrow> (\<exists>n'. cnt t st' = Inr n' \<and> n' \<le> n))"

definition cap_lock :: "(instant \<Rightarrow> 's \<Rightarrow> nat res) \<Rightarrow> instant \<Rightarrow> int \<Rightarrow> 's dispatching lock_view" where
  "cap_lock cnt t cap =
     \<lparr>lk_held = dp_lock, lk_rest = (\<lambda>s. below_cap cnt t cap (dp_store s)), lk_safe = (\<lambda>s. below_cap cnt t cap (dp_store s)),
      lk_quiet = (\<lambda>s s'. dp_lock s' = dp_lock s \<and> not_more cnt (dp_store s) (dp_store s'))\<rparr>"

lemma cap_lock_simps [simp]:
  "lk_held (cap_lock cnt t cap) = dp_lock" "lk_rest (cap_lock cnt t cap) s = below_cap cnt t cap (dp_store s)"
  "lk_safe (cap_lock cnt t cap) s = below_cap cnt t cap (dp_store s)"
  "lk_quiet (cap_lock cnt t cap) = (\<lambda>s s'. dp_lock s' = dp_lock s \<and> not_more cnt (dp_store s) (dp_store s'))"
  by (simp_all add: cap_lock_def)

lemma not_more_below: "not_more cnt st st' \<Longrightarrow> below_cap cnt t cap st \<Longrightarrow> below_cap cnt t cap st'"
  unfolding not_more_def below_cap_def by fastforce

lemma below_mono: "below_cap cnt t c st \<Longrightarrow> c \<le> cap \<Longrightarrow> below_cap cnt t cap st"
  by (auto simp: below_cap_def)

lemma not_more_refl [simp]: "not_more cnt st st"
  by (auto simp: not_more_def)

interpretation cap_lock: lock "cap_lock cnt t cap" for cnt t cap
  by unfold_locales (auto intro: not_more_below)

lemma below_stable: "c \<le> cap \<Longrightarrow> stable (cap_lock cnt t cap) (\<lambda>s. below_cap cnt t c (dp_store s))"
  unfolding stable_def by (auto intro: not_more_below below_mono)

context capped_store
begin

lemma insert_below:
  assumes "ins uid now a st s = Inr (i, s')" "below_cap cnt t c s" "c \<le> cap" "st = ''queued'' \<Longrightarrow> c < cap" "st \<in> {''queued'', ''deferred''}"
  shows "below_cap cnt t cap s'"
proof -
  obtain n where n: "cnt t s = Inr n" "int n \<le> c" using assms(2) by (auto simp: below_cap_def)
  show ?thesis
  proof (cases "st = ''queued''")
    case True
    then show ?thesis using ins_any [OF assms(1) n(1)] n(2) assms(4) by (fastforce simp: below_cap_def)
  next
    case False
    then show ?thesis using ins_deferred [of uid now a s i s' t] assms(1,3,5) n by (auto simp: below_cap_def)
  qed
qed

lemma guards_insert:
  assumes "c \<le> cap" "st = ''queued'' \<Longrightarrow> c < cap" "st \<in> {''queued'', ''deferred''}"
  shows "guards (cap_lock cnt t cap) (Some (\<lambda>s. below_cap cnt t c (dp_store s))) (cbind (atomic (\<lambda>s.
     case ins uid now2 a st (dp_store s) of
       Inl e \<Rightarrow> (Inr None, s) | Inr (alert_id, st) \<Rightarrow> (Inr (Some alert_id), s\<lparr>dp_store := st\<rparr>))) cap_release)"
proof (rule guards_hold [OF below_stable [OF assms(1)]])
  let ?ins = "\<lambda>s. case ins uid now2 a st (dp_store s) of
       Inl e \<Rightarrow> (Inr None, s) | Inr (alert_id, st) \<Rightarrow> (Inr (Some alert_id), s\<lparr>dp_store := st\<rparr>)"
  fix s assume s: "lk_held (cap_lock cnt t cap) s" "below_cap cnt t c (dp_store s)"
  have "guards (cap_lock cnt t cap) (Some (\<lambda>s. below_cap cnt t cap (dp_store s))) (cap_release r)" for r
    unfolding cap_release_def by (rule guards_leave [OF below_stable]) simp_all
  moreover have "dp_lock (snd (?ins s)) \<and> below_cap cnt t cap (dp_store (snd (?ins s)))"
    using s insert_below [OF _ s(2) assms] below_mono [OF s(2) assms(1)] by (auto split: sum.split)
  ultimately show "lk_held (cap_lock cnt t cap) (snd (?ins s)) \<and>
      (\<exists>q. q (snd (?ins s)) \<and> guards (cap_lock cnt t cap) (Some q) (cap_release (fst (?ins s))))"
    by auto
qed

lemma guards_counted:
  assumes "same_day now1 t" "below_cap cnt t cap (dp_store s)" and k: "k = (\<lambda>count. case count of
      Inl e \<Rightarrow> cap_release (Inl e)
    | Inr n \<Rightarrow> (let status = (if int n < cap then ''queued'' else ''deferred'')
        in cbind (atomic (\<lambda>s. case ins uid now2 a status (dp_store s) of
             Inl e \<Rightarrow> (Inr None, s) | Inr (alert_id, st) \<Rightarrow> (Inr (Some alert_id), s\<lparr>dp_store := st\<rparr>))) cap_release))"
  shows "\<exists>q. q s \<and> guards (cap_lock cnt t cap) (Some q) (k (cnt now1 (dp_store s)))"
proof -
  obtain n where n: "cnt t (dp_store s) = Inr n" "int n \<le> cap" using assms(2) by (auto simp: below_cap_def)
  have c: "cnt now1 (dp_store s) = Inr n" using cnt_day [OF assms(1)] n(1) by simp
  show ?thesis
  proof (cases "int n < cap")
    case True
    then have "below_cap cnt t (cap - 1) (dp_store s)" using n by (simp add: below_cap_def)
    moreover have "guards (cap_lock cnt t cap) (Some (\<lambda>s. below_cap cnt t (cap - 1) (dp_store s))) (k (Inr n))"
      unfolding k sum.case Let_def if_P [OF True] by (rule guards_insert) simp_all
    ultimately show ?thesis unfolding c by (intro exI conjI)
  next
    case False
    have "guards (cap_lock cnt t cap) (Some (\<lambda>s. below_cap cnt t cap (dp_store s))) (k (Inr n))"
      unfolding k sum.case Let_def if_not_P [OF False] by (rule guards_insert) simp_all
    with assms(2) show ?thesis unfolding c by (intro exI conjI)
  qed
qed

lemma guards_handle:
  assumes "same_day now1 t"
  shows "guards (cap_lock cnt t cap) None (handle_coro cnt ins cap (uid, now1, now2, ev))"
proof -
  let ?L = "cap_lock cnt t cap"
  have "guards ?L (Some (\<lambda>s. below_cap cnt t cap (dp_store s))) (handle_locked cnt ins cap (uid, now1, now2, ev))"
    unfolding handle_locked_def prod.case
    by (rule guards_hold [OF below_stable [OF order_refl]]) (use guards_counted [OF assms _ refl] in simp)
  then have "guards ?L None (Step (\<lambda>s. \<not> dp_lock s) (\<lambda>s. (handle_locked cnt ins cap (uid, now1, now2, ev), s\<lparr>dp_lock := True\<rparr>)))"
    using guards_take [of ?L "\<lambda>s. below_cap cnt t cap (dp_store s)" "\<lambda>s. s\<lparr>dp_lock := True\<rparr>"] by simp
  then show ?thesis unfolding handle_coro_def by (intro guards_cbind guards_atomic) simp_all
qed

lemma tasks_keep_cap:
  assumes "below_cap cnt t cap (dp_store s)" "\<not> dp_lock s" "\<forall>(uid, now1, now2, ev)\<in>set hs. same_day now1 t"
    and "\<forall>c\<in>set others. keeps_to (\<lambda>s s'. dp_lock s' = dp_lock s \<and> not_more cnt (dp_store s) (dp_store s')) c"
  shows "lock_inv (cap_lock cnt t cap) (map (handle_coro cnt ins cap) hs @ others, s)"
proof (rule cap_lock.lock_inv_start)
  have "guards (cap_lock cnt t cap) None c" if "c \<in> set others" for c
    using that assms(4) keeps_to_guards [of "cap_lock cnt t cap" c] by simp
  moreover have "guards (cap_lock cnt t cap) None (handle_coro cnt ins cap x)" if "x \<in> set hs" for x
    using that assms(3) guards_handle by (cases x) auto
  ultimately show "\<forall>c\<in>set (map (handle_coro cnt ins cap) hs @ others). guards (cap_lock cnt t cap) None c" by auto
qed (use assms in simp_all)

end

lemma not_more_alerts: "alerts d' = alerts d \<Longrightarrow> not_more (count_analyzed_today h 1) d d'"
  by (auto simp: not_more_def count_analyzed_today_def)

text \<open>What the other tasks write between two sections of the dispatcher's: the indexer and the cleanup leave the alerts alone, and
  the status of an alert that is not deferred may change to any other.\<close>

lemma others_not_more:
  "not_more (count_analyzed_today h 1) d (snd (try_flush fault uid now (b, d)))"
  "(\<And>r. r \<in> set (alerts d) \<Longrightarrow> a_alert_id r = i \<Longrightarrow> a_status r \<noteq> ''deferred'') \<Longrightarrow>
    not_more (count_analyzed_today h 1) d (update_alert_status i st d)"
proof -
  have "alerts (snd (try_flush fault uid now (b, d))) = alerts d"
    using insert_batch_raw by (auto simp: try_flush_def indexer_flush_def split: option.splits sum.splits)
  then show "not_more (count_analyzed_today h 1) d (snd (try_flush fault uid now (b, d)))" by (rule not_more_alerts)
  assume a: "\<And>r. r \<in> set (alerts d) \<Longrightarrow> a_alert_id r = i \<Longrightarrow> a_status r \<noteq> ''deferred''"
  let ?upd = "update_where (\<lambda>r. a_alert_id r = i) (\<lambda>r. r\<lparr>a_status := st\<rparr>)"
  have "length (filter (counted 1 t) (?upd rs)) \<le> length (filter (counted 1 t) rs)" if "set rs \<subseteq> set (alerts d)" for t rs
    using that
  proof (induction rs)
    case (Cons r rs)
    then show ?case using a [of r] by (auto simp: update_where_def counted_def)
  qed (simp add: update_where_def)
  then show "not_more (count_analyzed_today h 1) d (update_alert_status i st d)"
    unfolding not_more_def count_analyzed_today_def update_alert_status_def by (auto simp del: length_filter_le)
qed

text \<open>C13: the daily cap holds whatever the event loop does: with any number of dispatcher tasks, and any coroutines of the rest of the
  program that do not make more alerts count, interleaved between all their awaits by any schedule, at no moment do
  more than \<open>daily_cap\<close> alerts of the day count, although a task counts and inserts in two transactions.\<close>

theorem cap_under_any_schedule:
  assumes "count_analyzed_today h 1 t d = Inr n" "int n \<le> cap" "\<forall>(uid, now1, now2, ev)\<in>set hs. utc_day now1 t"
    and "\<forall>c\<in>set others. keeps_to (\<lambda>s s'. dp_lock s' = dp_lock s \<and>
      not_more (count_analyzed_today h 1) (dp_store s) (dp_store s')) c"
    and "schedule is (map (handle_coro (count_analyzed_today h 1) insert_alert cap) hs @ others, \<lparr>dp_store = d, dp_lock = False\<rparr>) = (cs, s)"
  shows "\<exists>n'. count_analyzed_today h 1 t (dp_store s) = Inr n' \<and> int n' \<le> cap"
proof -
  have "lock_inv (cap_lock (count_analyzed_today h 1) t cap)
      (map (handle_coro (count_analyzed_today h 1) insert_alert cap) hs @ others, \<lparr>dp_store = d, dp_lock = False\<rparr>)"
    by (rule sqlite_cap.tasks_keep_cap) (use assms in \<open>simp_all add: below_cap_def\<close>)
  from cap_lock.lock_inv_safe [OF cap_lock.lock_inv_schedule [OF this, of "is", unfolded assms(5)]]
  show ?thesis by (simp add: below_cap_def)
qed

text \<open>Two alerts and one free place, with the indexer's flush in between.\<close>

definition two_alerts :: "(string \<times> instant \<times> instant \<times> eve_event) list" where
  "two_alerts =
     (let ev = \<lparr>ev_event_type = ALERT, ev_flow_id = JInt 1, ev_timestamp = JStr [],
        ev_raw = JObj [(''event_type'', JStr ''alert'')]\<rparr>
      in [(''a'', 5, 5, ev), (''b'', 6, 6, ev)])"

definition count_one :: "instant \<Rightarrow> db \<Rightarrow> nat res" where
  "count_one = count_analyzed_today 0 1"

text \<open>The lock is needed: without it both tasks count before either inserts, and both alerts are queued.\<close>

lemma cap_needs_lock:
  "count_one 5 (dp_store (snd (schedule [0, 1, 0, 1] (map (handle_locked count_one insert_alert 1) two_alerts,
     \<lparr>dp_store = empty_db, dp_lock = False\<rparr>)))) = Inr 2"
  by code_simp

theorem cap_under_any_schedule_witness:
  "\<exists>cs s n'. schedule [0, 1, 2, 0, 0, 1, 0] (map (handle_coro (count_analyzed_today 0 1) insert_alert 1) two_alerts @
      [atomic (\<lambda>s. (Inr None, s\<lparr>dp_store := snd (try_flush None (\<lambda>i. show_nat i) 0 ([JObj []], dp_store s))\<rparr>))],
      \<lparr>dp_store = empty_db, dp_lock = False\<rparr>) = (cs, s) \<and> count_analyzed_today 0 1 5 (dp_store s) = Inr n' \<and> n' \<le> 1"
proof -
  let ?flush = "atomic (\<lambda>s. (Inr None, s\<lparr>dp_store := snd (try_flush None (\<lambda>i. show_nat i) 0 ([JObj []], dp_store s))\<rparr>))
    :: (db dispatching, string option res) coro"
  obtain cs s where r: "schedule [0, 1, 2, 0, 0, 1, 0] (map (handle_coro (count_analyzed_today 0 1) insert_alert 1) two_alerts @ [?flush],
      \<lparr>dp_store = empty_db, dp_lock = False\<rparr>) = (cs, s)" by fastforce
  have "keeps_to (\<lambda>s s'. dp_lock s' = dp_lock s \<and> not_more (count_analyzed_today 0 1) (dp_store s) (dp_store s')) ?flush"
    unfolding atomic_def by (intro keeps_step) (simp_all add: others_not_more(1) keeps_done)
  then have "\<exists>n'. count_analyzed_today 0 1 5 (dp_store s) = Inr n' \<and> int n' \<le> 1"
    by (intro cap_under_any_schedule [OF _ _ _ _ r, where n = 0])
       (simp_all add: two_alerts_def Let_def count_analyzed_today_def at_hour_def empty_db_def utc_day_def day_us_def)
  then show ?thesis using r by auto
qed

text \<open>The alerts handled one after the other.\<close>

fun handle_all ::
  "(instant \<Rightarrow> 's \<Rightarrow> nat res) \<Rightarrow> (string \<Rightarrow> instant \<Rightarrow> json \<Rightarrow> string \<Rightarrow> 's \<Rightarrow> (string \<times> 's) res) \<Rightarrow> int \<Rightarrow>
   (string \<times> instant \<times> instant \<times> eve_event) list \<Rightarrow> 's \<Rightarrow> string option res list \<times> 's" where
  "handle_all cnt ins cap [] st = ([], st)"
| "handle_all cnt ins cap ((uid, now1, now2, ev) # hs) st =
     (case dispatcher_handle cnt ins cap uid now1 now2 ev st of (r, st') \<Rightarrow>
        (case handle_all cnt ins cap hs st' of (rs, st'') \<Rightarrow> (r # rs, st'')))"

lemma run_all_handles:
  "\<not> dp_lock s \<Longrightarrow> run_all (map (handle_coro cnt ins cap) hs) s =
     (case handle_all cnt ins cap hs (dp_store s) of (rs, st) \<Rightarrow> Some (rs, s\<lparr>dp_store := st\<rparr>))"
  by (induction hs arbitrary: s) (auto simp: run_handle_coro split: prod.splits)

text \<open>C14: to the database the dispatcher's tasks are one step each: however their sections are interleaved, if the event loop
  gives every task a turn again and again they all end, after five rounds for each at most, and there is an order
  of the alerts such that handling them one after the other gives every task its result and leaves the same database.\<close>

theorem dispatches_serializable:
  assumes "\<forall>r\<in>set rounds. {..<length hs} \<subseteq> set r" "5 * length hs \<le> length rounds"
    and "schedule (concat rounds) (map (handle_coro (count_analyzed_today h 1) insert_alert cap) hs, \<lparr>dp_store = d, dp_lock = False\<rparr>) = (cs, s)"
  shows "\<exists>rs order. cs = map Done rs \<and> \<not> dp_lock s \<and> distinct order \<and> set order = {..<length hs} \<and>
    handle_all (count_analyzed_today h 1) insert_alert cap (map ((!) hs) order) d = (map ((!) rs) order, dp_store s)"
proof -
  let ?c = "handle_coro (count_analyzed_today h 1) insert_alert cap"
  have "\<forall>c\<in>set (map ?c hs). one_section dp_lock Before c" "\<forall>c\<in>set (map ?c hs). spends sections (\<lambda>_. True) 5 c"
    using handle_one_section handle_sections by auto
  from serial_finish [OF this _ _ _ assms(3)] assms(1,2)
  obtain rs order where o: "cs = map Done rs" "\<not> dp_lock s" "distinct order" "set order = {..<length hs}"
      "run_all (map ((!) (map ?c hs)) order) \<lparr>dp_store = d, dp_lock = False\<rparr> = Some (map ((!) rs) order, s)"
    by auto
  have "map ((!) (map ?c hs)) order = map ?c (map ((!) hs) order)" using o(4) by simp
  with o(5) have "run_all (map ?c (map ((!) hs) order)) \<lparr>dp_store = d, dp_lock = False\<rparr> = Some (map ((!) rs) order, s)" by simp
  then have "handle_all (count_analyzed_today h 1) insert_alert cap (map ((!) hs) order) d = (map ((!) rs) order, dp_store s)"
    using run_all_handles [of "\<lparr>dp_store = d, dp_lock = False\<rparr>" "count_analyzed_today h 1" insert_alert cap "map ((!) hs) order"]
    by (auto simp del: map_map split: prod.splits)
  with o show ?thesis by blast
qed

theorem dispatches_serializable_witness:
  "let cs = map (handle_coro (count_analyzed_today 0 1) insert_alert 1) two_alerts
   in \<exists>r r' s. schedule (concat (replicate 10 [1, 0])) (cs, \<lparr>dp_store = empty_db, dp_lock = False\<rparr>) = ([Done r, Done r'], s)"
proof -
  let ?cs = "map (handle_coro (count_analyzed_today 0 1) insert_alert 1) two_alerts"
  obtain cs s where r: "schedule (concat (replicate 10 [1, 0])) (?cs, \<lparr>dp_store = empty_db, dp_lock = False\<rparr>) = (cs, s)" by fastforce
  have l: "length two_alerts = 2" by (simp add: two_alerts_def Let_def)
  obtain rs where rs: "cs = map Done rs"
    using dispatches_serializable [OF _ _ r] unfolding l by (auto simp: lessThan_nat_numeral lessThan_Suc)
  have "length (fst (schedule (concat (replicate 10 [1, 0])) (?cs, \<lparr>dp_store = empty_db, dp_lock = False\<rparr>))) = 2"
    unfolding length_schedule using l by simp
  then have "length rs = 2" unfolding r rs by simp
  then obtain a b where "rs = [a, b]" by (auto simp: numeral_2_eq_2 length_Suc_conv)
  then show ?thesis using r rs by (simp add: Let_def)
qed

end
