(* ===== verification/Cache.thy ===== *)
theory Cache
  imports Json_Text
begin

text \<open>
  The two caches behind the \<open>Cache\<close> protocol of \<open>src/interfaces/cache.py\<close>: the in-memory
  dictionary (\<open>src/infra/cache/memory.py\<close>) and the SQLite table (\<open>src/infra/cache/sqlite.py\<close>),
  whose values are JSON text. The protocol is the locale \<open>ttl_cache\<close>; both implementations
  interpret it. A cached \<open>None\<close> cannot be told from a miss, so the laws speak of other values.
  Times are readings of the clock each implementation uses.
\<close>

section \<open>The in-memory cache\<close>

type_synonym memory_cache = "(string \<times> (json \<times> rat)) list"

text \<open>What Python's \<open>get\<close> returns for a stored value: \<open>None\<close> is the absent result.\<close>

definition as_result :: "json \<Rightarrow> json option" where
  "as_result v = (if v = JNull then None else Some v)"

definition mem_get :: "rat \<Rightarrow> string \<Rightarrow> memory_cache \<Rightarrow> json option \<times> memory_cache" where
  "mem_get now key store =
     (case map_of store key of
        None \<Rightarrow> (None, store)
      | Some (val, expiry) \<Rightarrow>
          (if now > expiry then (None, dict_del key store) else (as_result val, store)))"

definition mem_set :: "rat \<Rightarrow> string \<Rightarrow> json \<Rightarrow> int \<Rightarrow> memory_cache \<Rightarrow> memory_cache" where
  "mem_set now key val ttl store = dict_set key (val, now + of_int ttl) store"

definition mem_delete :: "string \<Rightarrow> memory_cache \<Rightarrow> memory_cache" where
  "mem_delete key store = dict_del key store"

section \<open>The SQLite cache\<close>

record cache_row =
  cache_key :: string
  cache_value :: string
  expires_at :: rat

text \<open>The connection is opened, and the table created, on first use; \<open>None\<close> is no connection. The
  table is the database file's, so it outlives the connection.\<close>

record sqlite_cache =
  conn_open :: bool
  cache_entries :: "cache_row list"

definition get_conn :: "sqlite_cache \<Rightarrow> sqlite_cache" where
  "get_conn c = (if conn_open c then c else c\<lparr>conn_open := True\<rparr>)"

text \<open>Only \<open>set\<close> writes the table, so \<open>json.loads\<close> meets nothing but text \<open>json.dumps\<close> produced; text it
  could not read back would be an exception, which here is an absent result.\<close>

definition sql_get :: "rat \<Rightarrow> string \<Rightarrow> sqlite_cache \<Rightarrow> json option \<times> sqlite_cache" where
  "sql_get now key c =
     (let c = get_conn c
      in case filter (\<lambda>r. cache_key r = key) (cache_entries c) of
           [] \<Rightarrow> (None, c)
         | row # _ \<Rightarrow>
             (if now > expires_at row
              then (None, c\<lparr>cache_entries := filter (\<lambda>r. cache_key r \<noteq> key) (cache_entries c)\<rparr>)
              else (Option.bind (loads (cache_value row)) as_result, c)))"

text \<open>\<open>INSERT ... ON CONFLICT(cache_key) DO UPDATE\<close>.\<close>

fun upsert :: "cache_row \<Rightarrow> cache_row list \<Rightarrow> cache_row list" where
  "upsert row [] = [row]"
| "upsert row (r # rs) = (if cache_key r = cache_key row then row # rs else r # upsert row rs)"

definition sql_set :: "rat \<Rightarrow> string \<Rightarrow> json \<Rightarrow> int \<Rightarrow> sqlite_cache \<Rightarrow> sqlite_cache" where
  "sql_set now key val ttl c =
     (let c = get_conn c
      in c\<lparr>cache_entries :=
             upsert \<lparr>cache_key = key, cache_value = dumps val, expires_at = now + of_int ttl\<rparr> (cache_entries c)\<rparr>)"

definition sql_delete :: "string \<Rightarrow> sqlite_cache \<Rightarrow> sqlite_cache" where
  "sql_delete key c =
     (let c = get_conn c
      in c\<lparr>cache_entries := filter (\<lambda>r. cache_key r \<noteq> key) (cache_entries c)\<rparr>)"

definition clear_expired :: "rat \<Rightarrow> sqlite_cache \<Rightarrow> nat \<times> sqlite_cache" where
  "clear_expired now c =
     (let c = get_conn c
      in (length (filter (\<lambda>r. expires_at r < now) (cache_entries c)),
          c\<lparr>cache_entries := filter (\<lambda>r. \<not> expires_at r < now) (cache_entries c)\<rparr>))"

definition close_cache :: "sqlite_cache \<Rightarrow> sqlite_cache" where
  "close_cache c = (if conn_open c then c\<lparr>conn_open := False\<rparr> else c)"

definition sql_inv :: "sqlite_cache \<Rightarrow> bool" where
  "sql_inv c \<longleftrightarrow> distinct (map cache_key (cache_entries c))"

definition new_sqlite_cache :: sqlite_cache where
  "new_sqlite_cache = \<lparr>conn_open = False, cache_entries = []\<rparr>"

section \<open>The cache protocol\<close>

locale ttl_cache =
  fixes cget :: "rat \<Rightarrow> string \<Rightarrow> 'c \<Rightarrow> json option \<times> 'c"
    and cset :: "rat \<Rightarrow> string \<Rightarrow> json \<Rightarrow> int \<Rightarrow> 'c \<Rightarrow> 'c"
    and cdel :: "string \<Rightarrow> 'c \<Rightarrow> 'c"
    and cinv :: "'c \<Rightarrow> bool"
  assumes get_set: "cinv c \<Longrightarrow> jwf v \<Longrightarrow> v \<noteq> JNull \<Longrightarrow> t \<le> now + of_int ttl \<Longrightarrow>
      fst (cget t k (cset now k v ttl c)) = Some v"
    and get_expired: "cinv c \<Longrightarrow> now + of_int ttl < t \<Longrightarrow> fst (cget t k (cset now k v ttl c)) = None"
    and get_set_other: "cinv c \<Longrightarrow> k \<noteq> k' \<Longrightarrow> fst (cget t k' (cset now k v ttl c)) = fst (cget t k' c)"
    and get_get: "cinv c \<Longrightarrow> t \<le> t' \<Longrightarrow> fst (cget t' k' (snd (cget t k c))) = fst (cget t' k' c)"
    and get_del: "cinv c \<Longrightarrow> fst (cget t k (cdel k c)) = None"
    and get_del_other: "cinv c \<Longrightarrow> k \<noteq> k' \<Longrightarrow> fst (cget t k' (cdel k c)) = fst (cget t k' c)"
    and inv_get: "cinv c \<Longrightarrow> cinv (snd (cget t k c))"
    and inv_set: "cinv c \<Longrightarrow> cinv (cset t k v ttl c)"
    and inv_del: "cinv c \<Longrightarrow> cinv (cdel k c)"
begin

text \<open>Overwriting an entry restarts its life; the value stored last is the one read.\<close>

lemma get_overwrite:
  assumes "cinv c" "jwf w" "w \<noteq> JNull" "t \<le> now' + of_int ttl'"
  shows "fst (cget t k (cset now' k w ttl' (cset now k v ttl c))) = Some w"
  using assms by (simp add: get_set inv_set)

text \<open>A later write under another key, and any number of reads before, do not disturb an entry.\<close>

lemma get_set_frame:
  assumes "cinv c" "jwf v" "v \<noteq> JNull" "t \<le> now + of_int ttl" "k \<noteq> k'"
  shows "fst (cget t k (cset now' k' w ttl' (cset now k v ttl c))) = Some v"
  using assms by (simp add: get_set get_set_other inv_set not_sym)

lemma get_after_reads:
  assumes "cinv c" "jwf v" "v \<noteq> JNull" "t \<le> now + of_int ttl" "t0 \<le> t"
  shows "fst (cget t k (snd (cget t0 k0 (cset now k v ttl c)))) = Some v"
  using assms by (simp add: get_set get_get inv_set)

end

section \<open>Both implementations provide it\<close>

lemma mem_get_fst:
  "fst (mem_get t k s) =
     (case map_of s k of None \<Rightarrow> None | Some (v, e) \<Rightarrow> if e < t then None else as_result v)"
  by (auto simp: mem_get_def split: option.splits prod.splits)

lemma mem_get_snd_map:
  "map_of (snd (mem_get t k s)) =
     (case map_of s k of Some (v, e) \<Rightarrow> if e < t then (map_of s)(k := None) else map_of s | None \<Rightarrow> map_of s)"
  by (auto simp: mem_get_def split: option.splits prod.splits)

interpretation mem: ttl_cache mem_get mem_set mem_delete "\<lambda>_. True"
  by unfold_locales
     (auto simp: mem_get_fst mem_set_def mem_delete_def as_result_def mem_get_snd_map split: option.splits prod.splits)

text \<open>The table read as a map from keys to rows.\<close>

definition rows_of :: "cache_row list \<Rightarrow> string \<Rightarrow> cache_row option" where
  "rows_of rs k = (case filter (\<lambda>r. cache_key r = k) rs of [] \<Rightarrow> None | r # _ \<Rightarrow> Some r)"

lemma rows_of_upsert: "rows_of (upsert row rs) k = (if k = cache_key row then Some row else rows_of rs k)"
  unfolding rows_of_def by (induction rs) auto

lemma rows_of_delete: "rows_of (filter (\<lambda>r. cache_key r \<noteq> k) rs) k' = (if k' = k then None else rows_of rs k')"
  unfolding rows_of_def by (induction rs) auto

lemma upsert_keys: "set (map cache_key (upsert row rs)) = insert (cache_key row) (set (map cache_key rs))"
  by (induction rs) auto

lemma upsert_distinct: "distinct (map cache_key rs) \<Longrightarrow> distinct (map cache_key (upsert row rs))"
proof (induction rs)
  case (Cons r rs)
  then show ?case using upsert_keys [of row rs] by auto
qed simp

lemma get_conn_entries [simp]: "cache_entries (get_conn c) = cache_entries c"
  by (simp add: get_conn_def)

lemma sql_get_fst:
  "fst (sql_get t k c) =
     (case rows_of (cache_entries c) k of
        None \<Rightarrow> None
      | Some r \<Rightarrow> if expires_at r < t then None else Option.bind (loads (cache_value r)) as_result)"
  by (auto simp: sql_get_def rows_of_def Let_def split: list.splits)

lemma sql_get_rows:
  "rows_of (cache_entries (snd (sql_get t k c))) k' =
     (case rows_of (cache_entries c) k of
        Some r \<Rightarrow> if expires_at r < t \<and> k' = k then None else rows_of (cache_entries c) k'
      | None \<Rightarrow> rows_of (cache_entries c) k')"
proof (cases "filter (\<lambda>r. cache_key r = k) (cache_entries c)")
  case Nil
  then show ?thesis by (simp add: sql_get_def rows_of_def Let_def)
next
  case (Cons r rs)
  then have "rows_of (cache_entries c) k = Some r" by (simp add: rows_of_def)
  with Cons show ?thesis by (simp add: sql_get_def Let_def rows_of_delete)
qed

lemma sql_inv_get: "sql_inv c \<Longrightarrow> sql_inv (snd (sql_get t k c))"
  by (auto simp: sql_inv_def sql_get_def Let_def distinct_map_filter split: list.splits)

interpretation sql: ttl_cache sql_get sql_set sql_delete sql_inv
proof
  fix c and t t' :: rat and k k' :: string assume "sql_inv c" "t \<le> t'"
  then show "fst (sql_get t' k' (snd (sql_get t k c))) = fst (sql_get t' k' c)"
    unfolding sql_get_fst sql_get_rows by (auto split: option.splits)
qed (auto simp: sql_get_fst sql_set_def sql_delete_def sql_inv_def Let_def rows_of_upsert rows_of_delete
      loads_dumps as_result_def upsert_distinct distinct_map_filter sql_inv_get [unfolded sql_inv_def])

section \<open>Properties\<close>

text \<open>A command of the cache protocol, run by either implementation; the reads are collected.\<close>

datatype cache_cmd = CGet rat string | CSet rat string json int | CDelete string

fun run_cmds ::
  "(rat \<Rightarrow> string \<Rightarrow> 'c \<Rightarrow> json option \<times> 'c) \<Rightarrow> (rat \<Rightarrow> string \<Rightarrow> json \<Rightarrow> int \<Rightarrow> 'c \<Rightarrow> 'c) \<Rightarrow>
   (string \<Rightarrow> 'c \<Rightarrow> 'c) \<Rightarrow> 'c \<Rightarrow> cache_cmd list \<Rightarrow> json option list" where
  "run_cmds g s d c [] = []"
| "run_cmds g s d c (CGet t k # cs) = (let (v, c') = g t k c in v # run_cmds g s d c' cs)"
| "run_cmds g s d c (CSet t k v ttl # cs) = run_cmds g s d (s t k v ttl c) cs"
| "run_cmds g s d c (CDelete k # cs) = run_cmds g s d (d k c) cs"

fun cmd_ok :: "cache_cmd \<Rightarrow> bool" where
  "cmd_ok (CSet t k v ttl) = jwf v"
| "cmd_ok _ = True"

text \<open>The simulation: every key holds the same value with the same expiry in both.\<close>

fun same_entry :: "(json \<times> rat) option \<Rightarrow> cache_row option \<Rightarrow> bool" where
  "same_entry None r = (r = None)"
| "same_entry (Some (v, e)) None = False"
| "same_entry (Some (v, e)) (Some r) = (expires_at r = e \<and> loads (cache_value r) = Some v)"

definition cache_sim :: "memory_cache \<Rightarrow> sqlite_cache \<Rightarrow> bool" where
  "cache_sim m c \<longleftrightarrow> (\<forall>k. same_entry (map_of m k) (rows_of (cache_entries c) k))"

lemma cache_simD: "cache_sim m c \<Longrightarrow> same_entry (map_of m k) (rows_of (cache_entries c) k)"
  by (simp add: cache_sim_def)

lemma cache_sim_get_fst:
  assumes "cache_sim m c"
  shows "fst (mem_get t k m) = fst (sql_get t k c)"
  using cache_simD [OF assms, of k]
  by (auto simp: mem_get_fst sql_get_fst split: option.splits prod.splits)

lemma cache_sim_get_snd:
  assumes "cache_sim m c"
  shows "cache_sim (snd (mem_get t k m)) (snd (sql_get t k c))"
  unfolding cache_sim_def
proof
  fix k'
  from cache_simD [OF assms, of k] cache_simD [OF assms, of k']
  show "same_entry (map_of (snd (mem_get t k m)) k') (rows_of (cache_entries (snd (sql_get t k c))) k')"
    by (cases "map_of m k"; cases "rows_of (cache_entries c) k"; cases "k' = k")
       (auto simp: mem_get_snd_map sql_get_rows split: option.splits prod.splits)
qed

lemma cache_sim_set: "cache_sim m c \<Longrightarrow> jwf v \<Longrightarrow> cache_sim (mem_set t k v ttl m) (sql_set t k v ttl c)"
  by (simp add: cache_sim_def mem_set_def sql_set_def Let_def rows_of_upsert loads_dumps)

lemma cache_sim_delete: "cache_sim m c \<Longrightarrow> cache_sim (mem_delete k m) (sql_delete k c)"
  by (simp add: cache_sim_def mem_delete_def sql_delete_def Let_def rows_of_delete)

lemma run_cmds_sim:
  "cache_sim m c \<Longrightarrow> list_all cmd_ok cs \<Longrightarrow>
     run_cmds mem_get mem_set mem_delete m cs = run_cmds sql_get sql_set sql_delete c cs"
proof (induction cs arbitrary: m c)
  case (Cons x cs)
  show ?case
  proof (cases x)
    case (CGet t k)
    with Cons show ?thesis
      using Cons.IH [OF cache_sim_get_snd [OF Cons.prems(1), of t k]] cache_sim_get_fst [OF Cons.prems(1), of t k]
      by (simp add: case_prod_beta Let_def)
  qed (use Cons in \<open>auto simp: cache_sim_set cache_sim_delete\<close>)
qed simp

text \<open>C32: the two implementations of the cache protocol are interchangeable: started empty, the in-memory
  dictionary and the SQLite table answer every sequence of reads, writes and deletes alike, for values
  that are JSON documents, whatever the clock readings.\<close>

theorem cache_implementations_agree:
  assumes "list_all cmd_ok cs"
  shows "run_cmds mem_get mem_set mem_delete [] cs = run_cmds sql_get sql_set sql_delete new_sqlite_cache cs"
  by (rule run_cmds_sim [OF _ assms]) (simp add: cache_sim_def new_sqlite_cache_def rows_of_def)

theorem cache_implementations_agree_witness:
  "run_cmds sql_get sql_set sql_delete new_sqlite_cache
     [CSet 0 ''k'' (JInt 7) 60, CGet 60 ''k'', CGet 61 ''k'', CGet 0 ''k''] = [Some (JInt 7), None, None]"
  using cache_implementations_agree [of "[CSet 0 ''k'' (JInt 7) 60, CGet 60 ''k'', CGet 61 ''k'', CGet 0 ''k'']"]
  by (simp add: mem_set_def mem_get_def as_result_def dict_del_def)

lemma rows_of_filter:
  "distinct (map cache_key rs) \<Longrightarrow>
     rows_of (filter P rs) k = (case rows_of rs k of None \<Rightarrow> None | Some r \<Rightarrow> if P r then Some r else None)"
proof (induction rs)
  case (Cons r rs)
  have "filter (\<lambda>x. P x \<and> cache_key x = k) rs = []" if "cache_key r = k"
  proof -
    have "k \<notin> cache_key ` set rs" using Cons.prems that by simp
    then show ?thesis by (auto simp: filter_empty_conv)
  qed
  with Cons show ?case by (auto simp: rows_of_def split: list.splits)
qed (simp add: rows_of_def)

text \<open>The maintenance pass is invisible: deleting the expired rows of the SQLite cache changes no
  answer a later read can give, whichever key it asks for.\<close>

theorem clear_expired_invisible:
  assumes "sql_inv c" and "now \<le> t"
  shows "fst (sql_get t k (snd (clear_expired now c))) = fst (sql_get t k c)"
  using assms
  by (auto simp: sql_get_fst clear_expired_def Let_def sql_inv_def rows_of_filter split: option.splits)

theorem clear_expired_invisible_witness:
  "fst (sql_get 70 ''k'' (snd (clear_expired 65 (sql_set 0 ''k'' (JInt 7) 60 new_sqlite_cache)))) = None"
  using clear_expired_invisible [of "sql_set 0 ''k'' (JInt 7) 60 new_sqlite_cache" 65 70 "''k''"]
    sql.get_expired [of new_sqlite_cache 0 60 70 "''k''" "JInt 7"]
  by (simp add: sql_inv_def sql_set_def new_sqlite_cache_def)

end
