(* ===== verification/Cache_Sections.thy ===== *)
theory Cache_Sections
  imports Cache Coroutine
begin

text \<open>
  The SQLite cache (\<open>src/infra/cache/sqlite.py\<close>) under concurrent use: \<open>get\<close> awaits between reading a row and deleting it when it has
  expired, so other uses of the cache may come between. \<open>Cache\<close> has each operation as one step.
\<close>

definition get_coro :: "rat \<Rightarrow> string \<Rightarrow> (sqlite_cache, json option) coro" where
  "get_coro now key =
     cbind (atomic (\<lambda>c. let c = get_conn c in (filter (\<lambda>r. cache_key r = key) (cache_entries c), c))) (\<lambda>rows.
       case rows of
         [] \<Rightarrow> Done None
       | row # _ \<Rightarrow>
           (if now > expires_at row
            then atomic (\<lambda>c. (None, c\<lparr>cache_entries := filter (\<lambda>r. cache_key r \<noteq> key) (cache_entries c)\<rparr>))
            else Done (Option.bind (loads (cache_value row)) as_result)))"

definition set_coro :: "rat \<Rightarrow> string \<Rightarrow> json \<Rightarrow> int \<Rightarrow> (sqlite_cache, json option) coro" where
  "set_coro now key val ttl = atomic (\<lambda>c. (None, sql_set now key val ttl c))"

definition delete_coro :: "string \<Rightarrow> (sqlite_cache, json option) coro" where
  "delete_coro key = atomic (\<lambda>c. (None, sql_delete key c))"

fun cmd_coro :: "cache_cmd \<Rightarrow> (sqlite_cache, json option) coro" where
  "cmd_coro (CGet now key) = get_coro now key"
| "cmd_coro (CSet now key val ttl) = set_coro now key val ttl"
| "cmd_coro (CDelete key) = delete_coro key"

lemma run_get_coro: "run (get_coro now key) c = Some (sql_get now key c)"
  by (auto simp: get_coro_def sql_get_def Let_def split: list.split)

text \<open>Every row was written by one of the commands.\<close>

definition written :: "cache_cmd set \<Rightarrow> cache_row \<Rightarrow> bool" where
  "written W r \<longleftrightarrow> (\<exists>now val ttl. CSet now (cache_key r) val ttl \<in> W \<and> cache_value r = dumps val \<and> expires_at r = now + of_int ttl)"

definition all_written :: "cache_cmd set \<Rightarrow> sqlite_cache \<Rightarrow> bool" where
  "all_written W c \<longleftrightarrow> sql_inv c \<and> (\<forall>r\<in>set (cache_entries c). written W r)"

text \<open>What a command may answer.\<close>

fun answer_written :: "cache_cmd set \<Rightarrow> cache_cmd \<Rightarrow> json option \<Rightarrow> bool" where
  "answer_written W (CGet now key) a \<longleftrightarrow> (\<forall>v. a = Some v \<longrightarrow> (\<exists>now' ttl. CSet now' key v ttl \<in> W \<and> now \<le> now' + of_int ttl))"
| "answer_written W _ a \<longleftrightarrow> a = None"

lemma set_upsert: "set (upsert r rs) \<subseteq> insert r (set rs)"
  by (induction rs) auto

lemma get_conn_simps [simp]: "cache_entries (get_conn c) = cache_entries c" "all_written W (get_conn c) = all_written W c"
  by (simp_all add: get_conn_def all_written_def sql_inv_def)

lemma all_written_set:
  assumes "all_written W c" "CSet now key val ttl \<in> W"
  shows "all_written W (sql_set now key val ttl c)"
proof -
  let ?r = "\<lparr>cache_key = key, cache_value = dumps val, expires_at = now + of_int ttl\<rparr>"
  have "written W ?r" using assms(2) by (auto simp: written_def)
  then have "\<forall>r\<in>set (upsert ?r (cache_entries c)). written W r"
    using assms(1) set_upsert [of ?r "cache_entries c"] by (auto simp: all_written_def)
  then show ?thesis using assms(1) by (simp add: all_written_def sql_inv_def sql_set_def Let_def upsert_distinct)
qed

lemma all_written_delete: "all_written W c \<Longrightarrow> all_written W (c\<lparr>cache_entries := filter (\<lambda>r. cache_key r \<noteq> key) (cache_entries c)\<rparr>)"
  by (auto simp: all_written_def sql_inv_def distinct_map_filter)

lemma row_answer:
  assumes "\<forall>cmd\<in>W. cmd_ok cmd" "written W row" "cache_key row = key" "\<not> now > expires_at row"
  shows "answer_written W (CGet now key) (Option.bind (loads (cache_value row)) as_result)"
proof -
  obtain now' val ttl where w: "CSet now' key val ttl \<in> W" "cache_value row = dumps val" "expires_at row = now' + of_int ttl"
    using assms(2,3) by (auto simp: written_def)
  have "jwf val" using w(1) assms(1) by force
  then have "loads (cache_value row) = Some val" using w(2) loads_dumps by simp
  then show ?thesis using w assms(4) by (auto simp: as_result_def not_less)
qed

lemma maintains_cmd:
  assumes "\<forall>cmd\<in>W. cmd_ok cmd" "cmd \<in> W"
  shows "maintains (all_written W) (answer_written W cmd) (cmd_coro cmd)"
proof (cases cmd)
  case (CGet now key)
  have "maintains (all_written W) (answer_written W cmd)
      (case filter (\<lambda>r. cache_key r = key) (cache_entries c) of
         [] \<Rightarrow> Done None
       | row # _ \<Rightarrow>
           (if now > expires_at row
            then atomic (\<lambda>c. (None, c\<lparr>cache_entries := filter (\<lambda>r. cache_key r \<noteq> key) (cache_entries c)\<rparr>))
            else Done (Option.bind (loads (cache_value row)) as_result)))" if "all_written W c" for c
  proof (cases "filter (\<lambda>r. cache_key r = key) (cache_entries c)")
    case (Cons row rows)
    then have "row \<in> set (filter (\<lambda>r. cache_key r = key) (cache_entries c))" by simp
    then have "written W row" "cache_key row = key" using that by (auto simp: all_written_def)
    then show ?thesis using row_answer [OF assms(1), of row key now] CGet Cons
      by (auto simp: maintains_simps intro!: maintains_atomic all_written_delete)
  qed (simp add: CGet maintains_simps)
  then show ?thesis unfolding CGet cmd_coro.simps get_coro_def Let_def by (intro maintains_bind) (simp add: CGet)
next
  case (CSet now key val ttl)
  then show ?thesis using assms(2) by (auto simp: set_coro_def intro!: maintains_atomic all_written_set)
next
  case (CDelete key)
  have "all_written W (sql_delete key c)" if "all_written W c" for c
    using all_written_delete [of W "get_conn c" key] that by (simp add: sql_delete_def Let_def)
  then show ?thesis using CDelete by (auto simp: delete_coro_def intro!: maintains_atomic)
qed



text \<open>But an entry may be lost: the second of two reads that both find the row expired deletes what was stored after the first.\<close>

theorem fresh_entry_deleted:
  "cache_entries (snd (schedule [0, 1, 2, 1, 3, 2]
     (map cmd_coro [CSet 0 ''rdap:example.com'' (JInt 1) 60, CGet 100 ''rdap:example.com'', CGet 100 ''rdap:example.com'',
        CSet 100 ''rdap:example.com'' (JInt 2) 60], new_sqlite_cache))) = []"
  by code_simp

end
