(* ===== verification/Circuit_Breaker.thy ===== *)
theory Circuit_Breaker
  imports Prelude
begin

text \<open>
  The asynchronous circuit breaker of \<open>src/infra/circuit_breaker.py\<close>. A call is two critical
  sections around the awaited function: \<open>call_enter\<close> (reset check, rejection while open) and the
  recording of its outcome (\<open>cb_on_success\<close>, \<open>cb_on_failure\<close>). \<open>cb_call\<close> runs the two around one
  function; \<open>cb_step\<close> is the interleaving of any number of concurrent callers, which share the
  breaker but not the function. Times are readings of \<open>time.monotonic()\<close>.
\<close>

section \<open>State and transitions\<close>

datatype cb_state = CLOSED | OPEN | HALF_OPEN

record breaker =
  cb_fail_max :: int
  cb_reset_timeout :: rat
  cb_state :: cb_state
  cb_failures :: int
  cb_opened_at :: rat

definition new_breaker :: "int \<Rightarrow> rat \<Rightarrow> breaker" where
  "new_breaker fail_max reset_timeout =
     \<lparr>cb_fail_max = fail_max, cb_reset_timeout = reset_timeout, cb_state = CLOSED,
      cb_failures = 0, cb_opened_at = 0\<rparr>"

fun state_value :: "cb_state \<Rightarrow> string" where
  "state_value CLOSED = ''closed''"
| "state_value OPEN = ''open''"
| "state_value HALF_OPEN = ''half_open''"

definition check_reset :: "rat \<Rightarrow> breaker \<Rightarrow> breaker" where
  "check_reset now cb =
     (if cb_state cb = OPEN \<and> now - cb_opened_at cb \<ge> cb_reset_timeout cb
      then cb\<lparr>cb_state := HALF_OPEN\<rparr> else cb)"

definition cb_on_success :: "breaker \<Rightarrow> breaker" where
  "cb_on_success cb = cb\<lparr>cb_failures := 0, cb_state := CLOSED\<rparr>"

definition cb_on_failure :: "rat \<Rightarrow> breaker \<Rightarrow> breaker" where
  "cb_on_failure now cb =
     (let cb = cb\<lparr>cb_failures := cb_failures cb + 1\<rparr>
      in if cb_failures cb \<ge> cb_fail_max cb \<or> cb_state cb = HALF_OPEN
         then cb\<lparr>cb_state := OPEN, cb_opened_at := now\<rparr> else cb)"

definition CircuitBreakerOpen :: "breaker \<Rightarrow> exn" where
  "CircuitBreakerOpen cb =
     Exn ''CircuitBreakerOpen'' (''Circuit breaker open (failures='' @ show_int (cb_failures cb) @ '')'') None"

text \<open>The first critical section of \<open>call\<close>: the exception when the circuit is open.\<close>

definition call_enter :: "rat \<Rightarrow> breaker \<Rightarrow> exn option \<times> breaker" where
  "call_enter now cb =
     (let cb = check_reset now cb
      in if cb_state cb = OPEN then (Some (CircuitBreakerOpen cb), cb) else (None, cb))"

text \<open>A whole call by one caller: entered at \<open>t0\<close>, the function done at \<open>t1\<close>. The function acts
  on the rest of the world \<open>s\<close>, which a rejected call leaves alone.\<close>

definition cb_call ::
  "rat \<Rightarrow> rat \<Rightarrow> ('s \<Rightarrow> 'a res \<times> 's) \<Rightarrow> breaker \<Rightarrow> 's \<Rightarrow> 'a res \<times> breaker \<times> 's" where
  "cb_call t0 t1 func cb s =
     (case call_enter t0 cb of
        (Some e, cb') \<Rightarrow> (Inl e, cb', s)
      | (None, cb') \<Rightarrow>
          (case func s of
             (Inr v, s') \<Rightarrow> (Inr v, cb_on_success cb', s')
           | (Inl e, s') \<Rightarrow> (Inl e, cb_on_failure t1 cb', s')))"

text \<open>Concurrent callers: the breaker and the number of calls in flight.\<close>

inductive cb_step :: "breaker \<times> nat \<Rightarrow> breaker \<times> nat \<Rightarrow> bool" where
  enter: "call_enter now cb = (None, cb') \<Longrightarrow> cb_step (cb, n) (cb', Suc n)"
| reject: "call_enter now cb = (Some e, cb') \<Longrightarrow> cb_step (cb, n) (cb', n)"
| success: "cb_step (cb, Suc n) (cb_on_success cb, n)"
| failure: "cb_step (cb, Suc n) (cb_on_failure now cb, n)"

inductive_cases cb_stepE: "cb_step s t"

lemmas cb_defs = check_reset_def cb_on_success_def cb_on_failure_def call_enter_def Let_def

section \<open>The invariant\<close>

text \<open>The circuit is closed exactly while fewer than \<open>fail_max\<close> consecutive failures are
  counted.\<close>

definition breaker_ok :: "breaker \<Rightarrow> bool" where
  "breaker_ok cb \<longleftrightarrow>
     1 \<le> cb_fail_max cb \<and> 0 \<le> cb_failures cb \<and>
     (cb_state cb = CLOSED \<longleftrightarrow> cb_failures cb < cb_fail_max cb)"

lemma breaker_ok_new [vx_inv]: "1 \<le> m \<Longrightarrow> breaker_ok (new_breaker m rt)"
  by (simp add: breaker_ok_def new_breaker_def)

lemma breaker_ok_check_reset [vx_inv]: "breaker_ok cb \<Longrightarrow> breaker_ok (check_reset now cb)"
  by (auto simp: breaker_ok_def check_reset_def)

lemma breaker_ok_success [vx_inv]: "breaker_ok cb \<Longrightarrow> breaker_ok (cb_on_success cb)"
  by (simp add: breaker_ok_def cb_on_success_def)

lemma breaker_ok_failure [vx_inv]: "breaker_ok cb \<Longrightarrow> breaker_ok (cb_on_failure now cb)"
  by (cases "cb_state cb") (auto simp: breaker_ok_def cb_on_failure_def Let_def)

lemma breaker_ok_enter [vx_inv]: "breaker_ok cb \<Longrightarrow> breaker_ok (snd (call_enter now cb))"
  by (simp add: call_enter_def Let_def breaker_ok_check_reset)

lemma breaker_ok_call [vx_inv]:
  "breaker_ok cb \<Longrightarrow> cb_call t0 t1 f cb s = (r, cb', s') \<Longrightarrow> breaker_ok cb'"
  using breaker_ok_enter [of cb t0]
  by (auto simp: cb_call_def breaker_ok_success breaker_ok_failure split: prod.splits option.splits sum.splits)

lemma breaker_ok_step: "cb_step s t \<Longrightarrow> breaker_ok (fst s) \<Longrightarrow> breaker_ok (fst t)"
proof (induction rule: cb_step.induct)
  case (enter now cb cb' n)
  then show ?case using breaker_ok_enter [of cb now] by simp
next
  case (reject now cb e cb' n)
  then show ?case using breaker_ok_enter [of cb now] by simp
qed (simp_all add: breaker_ok_success breaker_ok_failure)

lemma breaker_ok_steps: "cb_step\<^sup>*\<^sup>* s t \<Longrightarrow> breaker_ok (fst s) \<Longrightarrow> breaker_ok (fst t)"
  by (induction rule: rtranclp_induct) (auto intro: breaker_ok_step)

text \<open>The parameters never change.\<close>

lemma cb_params [simp]:
  "cb_fail_max (check_reset now cb) = cb_fail_max cb"
  "cb_reset_timeout (check_reset now cb) = cb_reset_timeout cb"
  "cb_fail_max (cb_on_success cb) = cb_fail_max cb"
  "cb_reset_timeout (cb_on_success cb) = cb_reset_timeout cb"
  "cb_fail_max (cb_on_failure now cb) = cb_fail_max cb"
  "cb_reset_timeout (cb_on_failure now cb) = cb_reset_timeout cb"
  by (simp_all add: cb_defs)

section \<open>Behaviour of a call\<close>

lemma cb_call_open:
  assumes "cb_state cb = OPEN" "t0 - cb_opened_at cb < cb_reset_timeout cb"
  shows "cb_call t0 t1 f cb s = (Inl (CircuitBreakerOpen cb), cb, s)"
  using assms by (simp add: cb_call_def call_enter_def check_reset_def)

lemma cb_call_entered:
  assumes "cb_state cb \<noteq> OPEN \<or> cb_reset_timeout cb \<le> t0 - cb_opened_at cb"
  shows "cb_call t0 t1 f cb s =
           (case f s of
              (Inr v, s') \<Rightarrow> (Inr v, cb_on_success (check_reset t0 cb), s')
            | (Inl e, s') \<Rightarrow> (Inl e, cb_on_failure t1 (check_reset t0 cb), s'))"
proof -
  have "call_enter t0 cb = (None, check_reset t0 cb)"
    using assms by (auto simp: call_enter_def check_reset_def)
  then show ?thesis by (simp add: cb_call_def)
qed

text \<open>A burst of calls to a dependency that always fails: how often it is really called.\<close>

definition failing_call :: "rat \<Rightarrow> breaker \<times> nat \<Rightarrow> breaker \<times> nat" where
  "failing_call t st =
     (let (r, cb, k) = cb_call t t (\<lambda>k. (Inl (Exn ''OSError'' [] None) :: unit res, Suc k)) (fst st) (snd st)
      in (cb, k))"

definition burst_inv :: "int \<Rightarrow> rat \<Rightarrow> rat \<Rightarrow> nat \<Rightarrow> breaker \<times> nat \<Rightarrow> bool" where
  "burst_inv m rt t0 i st \<longleftrightarrow>
     cb_fail_max (fst st) = m \<and> cb_reset_timeout (fst st) = rt \<and>
     int (snd st) = min (int i) m \<and> cb_failures (fst st) = int (snd st) \<and>
     (if int i < m then cb_state (fst st) = CLOSED
      else cb_state (fst st) = OPEN \<and> t0 \<le> cb_opened_at (fst st))"

lemma burst_inv_step:
  assumes "1 \<le> m" "t0 \<le> t" "t < t0 + rt" "burst_inv m rt t0 i st"
  shows "burst_inv m rt t0 (Suc i) (failing_call t st)"
proof (cases "int i < m")
  case True
  with assms show ?thesis
    by (auto simp: burst_inv_def failing_call_def cb_call_entered check_reset_def cb_on_failure_def Let_def)
next
  case False
  with assms have "cb_state (fst st) = OPEN" "t - cb_opened_at (fst st) < cb_reset_timeout (fst st)"
    by (auto simp: burst_inv_def)
  then have "failing_call t st = st" by (simp add: failing_call_def cb_call_open)
  with assms False show ?thesis by (auto simp: burst_inv_def)
qed

lemma burst_inv_run:
  assumes "1 \<le> m"
  shows "\<forall>t\<in>set ts. t0 \<le> t \<and> t < t0 + rt \<Longrightarrow> burst_inv m rt t0 i st \<Longrightarrow>
     burst_inv m rt t0 (i + length ts) (fold failing_call ts st)"
proof (induction ts arbitrary: i st)
  case (Cons t ts)
  then have "burst_inv m rt t0 (Suc i) (failing_call t st)"
    using burst_inv_step [OF assms] by simp
  with Cons show ?case using Cons.IH [of "Suc i" "failing_call t st"] by simp
qed simp

section \<open>Properties\<close>

text \<open>C27: whatever the interleaving of concurrent callers, starting from a fresh breaker the circuit
  is closed exactly while fewer than \<open>fail_max\<close> consecutive failures have been counted.\<close>

theorem cb_reachable_ok:
  assumes "1 \<le> m" and "cb_step\<^sup>*\<^sup>* (new_breaker m rt, 0) (cb, n)"
  shows "(cb_state cb = CLOSED \<longleftrightarrow> cb_failures cb < m) \<and> 0 \<le> cb_failures cb"
proof -
  have params: "cb_fail_max (fst t) = cb_fail_max (fst s)" if "cb_step s t" for s t
    using that by (induction rule: cb_step.induct) (auto simp: call_enter_def Let_def split: if_splits)
  have "cb_step\<^sup>*\<^sup>* s t \<Longrightarrow> cb_fail_max (fst t) = cb_fail_max (fst s)" for s t
    by (induction rule: rtranclp_induct) (simp_all add: params)
  then have "cb_fail_max cb = m"
    using assms(2) by (force simp: new_breaker_def)
  moreover have "breaker_ok cb"
    using breaker_ok_steps [OF assms(2)] assms(1) by (simp add: breaker_ok_new)
  ultimately show ?thesis by (auto simp: breaker_ok_def)
qed

theorem cb_reachable_ok_witness:
  "cb_failures (cb_on_failure 7 (new_breaker 1 60)) = 1 \<and> cb_state (cb_on_failure 7 (new_breaker 1 60)) \<noteq> CLOSED"
proof -
  have "cb_step (new_breaker 1 60, 0) (new_breaker 1 60, Suc 0)"
    by (rule cb_step.enter [of 0]) (simp add: call_enter_def check_reset_def new_breaker_def)
  moreover have "cb_step (new_breaker 1 60, Suc 0) (cb_on_failure 7 (new_breaker 1 60), 0)"
    by (rule cb_step.failure)
  ultimately have "cb_step\<^sup>*\<^sup>* (new_breaker 1 60, 0) (cb_on_failure 7 (new_breaker 1 60), 0)"
    by (meson converse_rtranclp_into_rtranclp rtranclp.rtrancl_refl)
  from cb_reachable_ok [OF _ this] show ?thesis
    by (simp add: cb_on_failure_def new_breaker_def)
qed

text \<open>A failing dependency is called at most \<open>fail_max\<close> times in any window shorter than the reset
  timeout: of a burst of calls, all inside a window of length \<open>reset_timeout\<close>, exactly the first
  \<open>fail_max\<close> reach the function and every later one is rejected without calling it.\<close>

theorem cb_burst_bounded:
  assumes "1 \<le> m" and "\<forall>t\<in>set ts. t0 \<le> t \<and> t < t0 + rt"
  shows "int (snd (fold failing_call ts (new_breaker m rt, 0))) = min (int (length ts)) m
    \<and> cb_state (fst (fold failing_call ts (new_breaker m rt, 0))) = (if int (length ts) < m then CLOSED else OPEN)"
proof -
  have "burst_inv m rt t0 0 (new_breaker m rt, 0)"
    using assms(1) by (simp add: burst_inv_def new_breaker_def)
  from burst_inv_run [OF assms this]
  have "burst_inv m rt t0 (length ts) (fold failing_call ts (new_breaker m rt, 0))" by simp
  then show ?thesis by (auto simp: burst_inv_def)
qed

theorem cb_burst_bounded_witness:
  "int (snd (fold failing_call [0, 1, 2, 3, 4, 5, 6, 30] (new_breaker 5 60, 0))) = 5"
  using cb_burst_bounded [of 5 "[0, 1, 2, 3, 4, 5, 6, 30]" 0 60] by simp

text \<open>Recovery. Once \<open>reset_timeout\<close> has passed since the circuit opened, the next call does reach
  the function; a success closes the circuit and clears the failure count, and a single failure opens it
  again with the cooldown restarted at the time of that failure.\<close>

theorem cb_recovers:
  assumes "cb_state cb = OPEN" and "cb_reset_timeout cb \<le> t0 - cb_opened_at cb"
  shows "cb_call t0 t1 f cb s =
    (case f s of
       (Inr v, s') \<Rightarrow> (Inr v, cb\<lparr>cb_failures := 0, cb_state := CLOSED\<rparr>, s')
     | (Inl e, s') \<Rightarrow>
         (Inl e, cb\<lparr>cb_failures := cb_failures cb + 1, cb_state := OPEN, cb_opened_at := t1\<rparr>, s'))"
  using assms
  by (auto simp: cb_call_entered check_reset_def cb_on_success_def cb_on_failure_def split: prod.splits sum.splits)

theorem cb_recovers_witness:
  "\<exists>cb'. cb_call 61 62 (\<lambda>s. (Inr True, Suc s)) (new_breaker 5 60\<lparr>cb_state := OPEN, cb_opened_at := 1\<rparr>) (0::nat)
      = (Inr True, cb', 1) \<and> cb_state cb' = CLOSED"
  using cb_recovers [of "new_breaker 5 60\<lparr>cb_state := OPEN, cb_opened_at := 1\<rparr>" 61 62 "\<lambda>s. (Inr True, Suc s)" 0]
  by (simp add: new_breaker_def)

text \<open>The half-open circuit admits any number of concurrent probes: from a half-open breaker with no
  call in flight, a state with \<open>n\<close> calls in flight and the circuit still half open is reachable for every
  \<open>n\<close>. (The module's documentation speaks of one probe request.)\<close>

theorem cb_half_open_many_probes:
  assumes "cb_state cb = HALF_OPEN"
  shows "cb_step\<^sup>*\<^sup>* (cb, 0) (cb, n)"
proof (induction n)
  case (Suc n)
  have "call_enter 0 cb = (None, cb)"
    using assms by (simp add: call_enter_def check_reset_def)
  then have "cb_step (cb, n) (cb, Suc n)" by (rule cb_step.enter)
  with Suc show ?case by (rule rtranclp.rtrancl_into_rtrancl)
qed simp

theorem cb_half_open_many_probes_witness:
  "cb_step\<^sup>*\<^sup>* (new_breaker 5 60\<lparr>cb_state := HALF_OPEN\<rparr>, 0) (new_breaker 5 60\<lparr>cb_state := HALF_OPEN\<rparr>, 3)"
  by (rule cb_half_open_many_probes) simp

end
