(* ===== verification/Enrichment.thy ===== *)
theory Enrichment
  imports Cache Circuit_Breaker Ip_Address Datetime
begin

text \<open>
  The enrichment ledger of \<open>src/enrichment/models.py\<close>, the contract its providers share, as the locale
  \<open>threat_intel\<close>, and the GeoIP provider of \<open>src/enrichment/maxmind/client.py\<close>. The HTTP library and the GeoIP
  reader are outside the program: what they answer is an argument.
\<close>

section \<open>Models\<close>

datatype enrichment_status = CONTRIBUTED | FAILING | NOT_CONFIGURED

fun status_value :: "enrichment_status \<Rightarrow> string" where
  "status_value CONTRIBUTED = ''contributed''"
| "status_value FAILING = ''failing''"
| "status_value NOT_CONFIGURED = ''not_configured''"

datatype failure_reason =
  RATE_LIMITED | TIMEOUT | NETWORK_ERROR | AUTH_FAILED | MALFORMED_RESPONSE | CIRCUIT_BREAKER_OPEN | OTHER

fun reason_value :: "failure_reason \<Rightarrow> string" where
  "reason_value RATE_LIMITED = ''RATE_LIMITED''"
| "reason_value TIMEOUT = ''TIMEOUT''"
| "reason_value NETWORK_ERROR = ''NETWORK_ERROR''"
| "reason_value AUTH_FAILED = ''AUTH_FAILED''"
| "reason_value MALFORMED_RESPONSE = ''MALFORMED_RESPONSE''"
| "reason_value CIRCUIT_BREAKER_OPEN = ''CIRCUIT_BREAKER_OPEN''"
| "reason_value OTHER = ''OTHER''"

datatype indicator_type = IP | DOMAIN | HASH | URL

fun type_value :: "indicator_type \<Rightarrow> string" where
  "type_value IP = ''ip''"
| "type_value DOMAIN = ''domain''"
| "type_value HASH = ''hash''"
| "type_value URL = ''url''"

text \<open>The value of an indicator comes from an EVE record and is a string there.\<close>

record indicator =
  ind_type :: indicator_type
  ind_value :: json

definition cache_key_suffix :: "indicator \<Rightarrow> string" where
  "cache_key_suffix i = type_value (ind_type i) @ '':'' @ py_str (ind_value i)"

record enrichment_result =
  r_source :: string
  r_status :: enrichment_status
  r_data :: "jdict option"
  r_summary :: "string option"
  r_failure_reason :: "failure_reason option"
  r_failure_detail :: "string option"
  r_last_success_at :: "instant option"
  r_queried_at :: instant
  r_cached :: bool
  r_cache_age_seconds :: json

definition not_configured :: "instant \<Rightarrow> string \<Rightarrow> enrichment_result" where
  "not_configured now src =
     \<lparr>r_source = src, r_status = NOT_CONFIGURED, r_data = None, r_summary = None, r_failure_reason = None,
      r_failure_detail = None, r_last_success_at = None, r_queried_at = now, r_cached = False,
      r_cache_age_seconds = JNull\<rparr>"

definition failing :: "instant \<Rightarrow> string \<Rightarrow> failure_reason \<Rightarrow> string \<Rightarrow> enrichment_result" where
  "failing now src reason detail =
     \<lparr>r_source = src, r_status = FAILING, r_data = None, r_summary = None, r_failure_reason = Some reason,
      r_failure_detail = Some detail, r_last_success_at = None, r_queried_at = now, r_cached = False,
      r_cache_age_seconds = JNull\<rparr>"

text \<open>The constructor call of a contributed result.\<close>

definition contributed :: "instant \<Rightarrow> string \<Rightarrow> jdict \<Rightarrow> string \<Rightarrow> bool \<Rightarrow> json \<Rightarrow> enrichment_result" where
  "contributed now src data summary cached age =
     \<lparr>r_source = src, r_status = CONTRIBUTED, r_data = Some data, r_summary = Some summary, r_failure_reason = None,
      r_failure_detail = None, r_last_success_at = Some now, r_queried_at = now, r_cached = cached,
      r_cache_age_seconds = age\<rparr>"

section \<open>What a provider promises\<close>

text \<open>The three states: data exactly when contributed, a reason exactly when failing.\<close>

definition result_ok :: "enrichment_result \<Rightarrow> bool" where
  "result_ok r \<longleftrightarrow>
     (r_data r \<noteq> None \<longleftrightarrow> r_status r = CONTRIBUTED) \<and> (r_summary r \<noteq> None \<longleftrightarrow> r_status r = CONTRIBUTED) \<and>
     (r_failure_reason r \<noteq> None \<longleftrightarrow> r_status r = FAILING) \<and> (r_failure_detail r \<noteq> None \<longleftrightarrow> r_status r = FAILING)"

lemma result_ok_constructors [simp]:
  "result_ok (not_configured now src)" "result_ok (failing now src reason detail)"
  "result_ok (contributed now src data summary cached age)"
  by (simp_all add: result_ok_def not_configured_def failing_def contributed_def)

lemma source_constructors [simp]:
  "r_source (not_configured now src) = src" "r_source (failing now src reason detail) = src"
  "r_source (contributed now src data summary cached age) = src"
  by (simp_all add: not_configured_def failing_def contributed_def)

lemma status_constructors [simp]:
  "r_status (not_configured now src) = NOT_CONFIGURED" "r_status (failing now src reason detail) = FAILING"
  "r_status (contributed now src data summary cached age) = CONTRIBUTED"
  by (simp_all add: not_configured_def failing_def contributed_def)

text \<open>The worker's \<open>_lookup\<close>: no client is \<open>NOT_CONFIGURED\<close>, and an exception becomes a \<open>FAILING\<close> result under the
  given source name. (The attribute \<open>_SOURCE\<close> it looks for on the client is a name of the client's module, so the
  source given by the caller is used.)\<close>

definition worker_lookup ::
  "instant \<Rightarrow> (indicator \<Rightarrow> 's \<Rightarrow> enrichment_result res \<times> 's) option \<Rightarrow> indicator \<Rightarrow> string \<Rightarrow> 's \<Rightarrow> enrichment_result \<times> 's" where
  "worker_lookup now client ind src s =
     (case client of
        None \<Rightarrow> (not_configured now (if src \<noteq> [] then src else type_value (ind_type ind)), s)
      | Some lookup \<Rightarrow>
          (case lookup ind s of
             (Inr r, s') \<Rightarrow> (r, s')
           | (Inl e, s') \<Rightarrow> (failing now (if src \<noteq> [] then src else ''unknown'') OTHER (exn_msg e), s')))"

locale threat_intel =
  fixes lookup :: "indicator \<Rightarrow> 's \<Rightarrow> enrichment_result res \<times> 's"
    and src :: string
  assumes lookup_ok: "lookup i s = (Inr r, s') \<Longrightarrow> result_ok r \<and> r_source r = src"
    and src_ne: "src \<noteq> []"
begin

text \<open>Seen through the worker, a provider always answers, in one of the three states and under its own name.\<close>

lemma worker_lookup_ok:
  "result_ok (fst (worker_lookup now (Some lookup) i src s)) \<and> r_source (fst (worker_lookup now (Some lookup) i src s)) = src"
  using lookup_ok [of i s] src_ne
  by (cases "fst (lookup i s)"; cases "lookup i s") (auto simp: worker_lookup_def)

end

lemma worker_lookup_None_ok:
  "result_ok (fst (worker_lookup now None i src s))"
  by (simp add: worker_lookup_def)

section \<open>GeoIP\<close>

text \<open>The country reader answers a code and a name, the ASN reader a number and an organisation, each possibly absent;
  an exception of a reader counts as no answer. The readers are opened once: \<open>geo_open\<close> is what the first lookup finds
  (the library missing, a file missing or unreadable all leave a reader out).\<close>

record geo_readers =
  country_reader :: "(json \<Rightarrow> (json \<times> json) res) option"
  asn_reader :: "(json \<Rightarrow> (json \<times> json) res) option"

record geoip_client =
  init_attempted :: bool
  geo_readers :: geo_readers

definition new_geoip :: geoip_client where
  "new_geoip = \<lparr>init_attempted = False, geo_readers = \<lparr>country_reader = None, asn_reader = None\<rparr>\<rparr>"

definition open_reader :: "bool \<Rightarrow> ('a res) \<Rightarrow> 'a option" where
  "open_reader isfile opened = (if isfile then (case opened of Inr r \<Rightarrow> Some r | Inl _ \<Rightarrow> None) else None)"

record geo_files =
  geoip2_installed :: bool
  country_isfile :: bool
  country_opened :: "(json \<Rightarrow> (json \<times> json) res) res"
  asn_isfile :: bool
  asn_opened :: "(json \<Rightarrow> (json \<times> json) res) res"

definition init_readers :: "geo_files \<Rightarrow> geoip_client \<Rightarrow> geoip_client" where
  "init_readers fs c =
     (if init_attempted c then c
      else if \<not> geoip2_installed fs then c\<lparr>init_attempted := True\<rparr>
      else c\<lparr>init_attempted := True,
             geo_readers := \<lparr>country_reader = open_reader (country_isfile fs) (country_opened fs),
                             asn_reader = open_reader (asn_isfile fs) (asn_opened fs)\<rparr>\<rparr>)"

definition read_pair :: "(json \<Rightarrow> (json \<times> json) res) option \<Rightarrow> json \<Rightarrow> json \<times> json" where
  "read_pair reader ip =
     (case reader of
        None \<Rightarrow> (JNull, JNull)
      | Some f \<Rightarrow> (case f ip of Inr p \<Rightarrow> p | Inl _ \<Rightarrow> (JNull, JNull)))"

definition geoip_lookup ::
  "instant \<Rightarrow> geo_files \<Rightarrow> indicator \<Rightarrow> geoip_client \<Rightarrow> enrichment_result res \<times> geoip_client" where
  "geoip_lookup now fs ind c =
     (if ind_type ind \<noteq> IP then (Inr (not_configured now ''geoip''), c)
      else let c = init_readers fs c; rs = geo_readers c
           in if country_reader rs = None \<and> asn_reader rs = None then (Inr (not_configured now ''geoip''), c)
              else let ip = ind_value ind;
                       (country_code, country_name) = read_pair (country_reader rs) ip;
                       (asn, asn_org) = read_pair (asn_reader rs) ip;
                       data = [(''country_code'', country_code), (''country_name'', country_name),
                               (''asn'', asn), (''asn_org'', asn_org)];
                       parts = (if truthy country_code then [py_str country_code] else [])
                         @ (if truthy asn \<and> truthy asn_org then [''AS'' @ py_str asn @ '' '' @ py_str asn_org]
                            else if truthy asn then [''AS'' @ py_str asn] else [])
                   in if parts = []
                      then (case ip_address ip of
                              Some addr \<Rightarrow>
                                (if is_private addr \<or> is_loopback addr \<or> is_link_local addr \<or> is_reserved addr
                                 then (Inr (contributed now ''geoip'' [(''note'', JStr ''private_ip'')] ''Private IP'' False JNull), c)
                                 else (Inr (not_configured now ''geoip''), c))
                            | None \<Rightarrow> (Inr (not_configured now ''geoip''), c))
                      else (Inr (contributed now ''geoip'' data (join '', '' parts) False JNull), c))"

lemma geoip_lookup_total: "\<exists>r. fst (geoip_lookup now fs i c) = Inr r \<and> result_ok r \<and> r_source r = ''geoip''"
  by (auto simp: geoip_lookup_def Let_def case_prod_beta split: option.splits)

interpretation geoip: threat_intel "geoip_lookup now fs" "''geoip''" for now fs
proof
  fix i s r s' assume "geoip_lookup now fs i s = (Inr r, s')"
  then show "result_ok r \<and> r_source r = ''geoip''" using geoip_lookup_total [of now fs i s] by auto
qed simp

section \<open>HTTP\<close>

text \<open>What a request gives: an exception of the HTTP library (with its class name), or a status with a body that is or
  is not JSON.\<close>

datatype http_result = HttpExn exn | HttpResp int "json res"

definition raise_for_status :: "int \<Rightarrow> unit res" where
  "raise_for_status code =
     (if 200 \<le> code \<and> code < 300 then Inr ()
      else Inl (Exn ''HTTPStatusError'' (''HTTP status '' @ show_int code) (Some code)))"

section \<open>Clock readings as JSON numbers\<close>

text \<open>A reading of \<open>time.time()\<close> to the microsecond, as the decimal literal \<open>json.dumps\<close> writes for it: at least one
  digit after the point and no trailing zeros.\<close>

definition frac_digits :: "nat \<Rightarrow> string" where
  "frac_digits us =
     (let ds = rstrip_char CHR ''0'' (pad 6 (int us)) in if ds = [] then ''0'' else ds)"

definition time_json :: "nat \<Rightarrow> json" where
  "time_json us = JFloat (show_nat (us div 1000000) @ ''.'' @ frac_digits (us mod 1000000))"

text \<open>Reading it back, in microseconds.\<close>

fun time_of_json :: "json \<Rightarrow> int" where
  "time_of_json (JFloat s) =
     (case split_on CHR ''.'' s of
        [w, f] \<Rightarrow> int (read_nat w) * 1000000 + int (read_nat (take 6 (f @ ''00000'')))
      | _ \<Rightarrow> 0)"
| "time_of_json (JInt i) = i * 1000000"
| "time_of_json _ = 0"

text \<open>\<open>int(now - t)\<close>, truncated towards zero.\<close>

definition age_seconds :: "nat \<Rightarrow> json \<Rightarrow> int" where
  "age_seconds now t = (let d = int now - time_of_json t in if d \<ge> 0 then d div 1000000 else - ((- d) div 1000000))"

lemma pad_digits: "\<forall>c\<in>set (pad k n). is_digit c"
proof (induction k arbitrary: n)
  case (Suc k)
  have "is_digit (digit (nat (n mod 10)))"
    using of_char_digit [of "nat (n mod 10)"] by (auto simp: is_digit_def nat_less_iff)
  with Suc show ?case by simp
qed simp

lemma frac_digits_ok: "frac_digits us \<noteq> [] \<and> (\<forall>c\<in>set (frac_digits us). is_digit c)"
proof -
  have "set (rstrip_char CHR ''0'' s) \<subseteq> set s" for s
    using rstrip_where_prefix [of "\<lambda>d. d = CHR ''0''" s] by (auto simp: rstrip_char_def dest: set_mono_prefix)
  note this [of "pad 6 (int us)"]
  moreover have "is_digit CHR ''0''" by (simp add: is_digit_def)
  ultimately show ?thesis using pad_digits [of 6 "int us"] by (auto simp: frac_digits_def Let_def)
qed

lemma float_text_decimal:
  assumes "ds \<noteq> []" "\<forall>c\<in>set ds. is_digit c"
  shows "float_text (show_nat n @ ''.'' @ ds)"
proof -
  let ?s = "show_nat n"
  have num: "read_num ((?s @ ''.'' @ ds) @ r) = Some (JFloat (?s @ ''.'' @ ds), r)" if r: "val_end r" for r
  proof -
    have tw: "takeWhile is_digit (?s @ CHR ''.'' # ds @ r) = ?s"
      using show_nat_digits by (simp add: is_digit_def)
    have zero: "take (Suc 0) ?s = ?s" if "hd ?s = CHR ''0''"
      using show_nat_hd_zero [OF that] by (simp add: show_nat.simps [of 0])
    have nd: "hd (?s @ CHR ''.'' # ds @ r) \<noteq> CHR ''-''"
      using show_nat_digits [of n] by (cases ?s) (auto simp: is_digit_def)
    have fr: "read_frac (CHR ''.'' # ds @ r) = CHR ''.'' # ds"
      using assms val_end_not_num(3) [OF r] by (simp add: read_frac_def)
    show ?thesis
      using tw zero nd fr val_end_not_num(2) [OF r] by (auto simp: read_num_def Let_def)
  qed
  have "is_digit (hd ?s)" using show_nat_digits [of n] by (cases ?s) auto
  then show ?thesis using num by (simp add: float_text_def)
qed

lemma jwf_time [simp]: "jwf (time_json us)"
  using float_text_decimal frac_digits_ok by (simp add: time_json_def)

end
