(* ===== verification/Rdap.thy ===== *)
theory Rdap
  imports Enrichment
begin

text \<open>
  The RDAP client of \<open>src/enrichment/rdap/client.py\<close> and the bootstrap registry of \<open>bootstrap.py\<close>: which registry
  answers for a domain, the query through the circuit breaker, the parsing of the answer and its caching. The HTTP
  library's answers are an argument; the requests made so far are part of the state. Event dates are read in the format
  RFC 9083 prescribes for them, \<open>YYYY-MM-DDThh:mm:ss\<close> with an optional fraction and offset (\<open>fromisoformat\<close> accepts
  further formats, which are an invalid date here).
\<close>

section \<open>Length and membership of values of unknown type\<close>

fun jlen :: "json \<Rightarrow> nat res" where
  "jlen (JArr xs) = Inr (length xs)"
| "jlen (JObj d) = Inr (length d)"
| "jlen (JStr s) = Inr (length s)"
| "jlen v = Inl (TypeError (type_name v @ '' has no len()''))"

fun jat :: "json \<Rightarrow> nat \<Rightarrow> json res" where
  "jat (JArr xs) i = (if i < length xs then Inr (xs ! i) else Inl (Exn ''IndexError'' ''list index out of range'' None))"
| "jat (JStr s) i = (if i < length s then Inr (JStr [s ! i]) else Inl (Exn ''IndexError'' ''string index out of range'' None))"
| "jat (JObj d) i = Inl (Exn ''KeyError'' (show_nat i) None)"
| "jat v i = Inl (TypeError (type_name v @ '' object is not subscriptable''))"

fun jmember :: "string \<Rightarrow> json \<Rightarrow> bool res" where
  "jmember k (JArr xs) = Inr (JStr k \<in> set xs)"
| "jmember k (JObj d) = Inr (k \<in> set (map fst d))"
| "jmember k (JStr s) = Inr (contains k s)"
| "jmember k v = Inl (TypeError (type_name v @ '' is not iterable''))"

section \<open>Event dates\<close>

text \<open>A datetime read from a document: its local clock time and, when it is aware, its offset from UTC in minutes.\<close>

record event_date =
  local_time :: instant
  utc_offset :: "int option"

fun digits_only :: "string \<Rightarrow> bool" where
  "digits_only s = (s \<noteq> [] \<and> (\<forall>c\<in>set s. ascii_digit c))"

definition read_event_fraction :: "string \<Rightarrow> int option" where
  "read_event_fraction s =
     (case s of
        [] \<Rightarrow> Some 0
      | c # ds \<Rightarrow> (if (c = CHR ''.'' \<or> c = CHR '','') \<and> digits_only ds then read_digits 0 (take 6 (ds @ ''00000'')) else None))"

definition read_offset :: "string \<Rightarrow> int option option" where
  "read_offset s =
     (if s = [] then Some None
      else case (field 1 2 s, field 4 2 s) of
        (Some h, Some m) \<Rightarrow>
          (if length s = 6 \<and> s ! 3 = CHR '':'' \<and> h < 24 \<and> m < 60
           then Some (Some ((if s ! 0 = CHR ''-'' then -1 else 1) * (h * 60 + m))) else None)
      | _ \<Rightarrow> None)"

definition read_event_date :: "string \<Rightarrow> event_date res" where
  "read_event_date s =
     (let clock = drop 11 s; tail = drop 8 clock;
          frac = takeWhile (\<lambda>c. c \<noteq> CHR ''+'' \<and> c \<noteq> CHR ''-'') tail
      in if length s < 19 then Inl (ValueError (''Invalid isoformat string: '' @ s))
         else case (read_date (take 10 s), read_time (take 8 clock), read_event_fraction frac, read_offset (drop (length frac) tail)) of
           (Some n, Some sec, Some us, Some off) \<Rightarrow>
             Inr \<lparr>local_time = n * day_us + sec * sec_us + us, utc_offset = off\<rparr>
         | _ \<Rightarrow> Inl (ValueError (''Invalid isoformat string: '' @ s)))"

text \<open>\<open>s.replace("Z", "+00:00")\<close>.\<close>

definition replace_z :: "string \<Rightarrow> string" where
  "replace_z s = concat (map (\<lambda>c. if c = CHR ''Z'' then ''+00:00'' else [c]) s)"

definition offset_text :: "int \<Rightarrow> string" where
  "offset_text off =
     (if off < 0 then ''-'' @ pad 2 ((- off) div 60) @ '':'' @ pad 2 ((- off) mod 60)
      else ''+'' @ pad 2 (off div 60) @ '':'' @ pad 2 (off mod 60))"

definition event_iso :: "event_date \<Rightarrow> string" where
  "event_iso d =
     (let t = local_time d
      in date_text (t div day_us) @ ''T'' @ time_text (t mod day_us div sec_us) @ frac_text (t mod sec_us)
         @ (case utc_offset d of None \<Rightarrow> [] | Some off \<Rightarrow> offset_text off))"

text \<open>\<open>(a - b).days\<close> with one of them the current time, which is aware: mixing in a naive one is a \<open>TypeError\<close>.\<close>

definition as_utc :: "event_date \<Rightarrow> instant res" where
  "as_utc d =
     (case utc_offset d of
        None \<Rightarrow> Inl (TypeError ''can't subtract offset-naive and offset-aware datetimes'')
      | Some off \<Rightarrow> Inr (local_time d - off * 60 * sec_us))"

definition days_between :: "instant \<Rightarrow> instant \<Rightarrow> int" where
  "days_between a b = (a - b) div day_us"

section \<open>Parsing\<close>

definition extract_vcard_name :: "json \<Rightarrow> string option" where
  "extract_vcard_name vcard =
     (case vcard of
        JArr (_ # JArr properties # _) \<Rightarrow>
          (case filter (\<lambda>p. case p of JArr (JStr n # _ # _ # _ # _) \<Rightarrow> n = ''fn'' | _ \<Rightarrow> False) properties of
             JArr (_ # _ # _ # v # _) # _ \<Rightarrow> Some (py_str v)
           | _ \<Rightarrow> None)
      | _ \<Rightarrow> None)"

fun scan_events :: "json list \<Rightarrow> event_date option \<times> event_date option \<Rightarrow> (event_date option \<times> event_date option) res" where
  "scan_events [] acc = Inr acc"
| "scan_events (event # es) acc =
     rbind (jget event ''eventAction'' (JStr [])) (\<lambda>action.
       case rbind (jindex event ''eventDate'') (\<lambda>v. rbind (jstr ''replace'' v) (\<lambda>s. read_event_date (replace_z s))) of
         Inr dt \<Rightarrow>
           scan_events es (if action = JStr ''registration'' then (Some dt, snd acc)
                           else if action = JStr ''expiration'' then (fst acc, Some dt) else acc)
       | Inl e \<Rightarrow> (if qualname e = ''KeyError'' \<or> qualname e = ''ValueError'' then scan_events es acc else Inl e))"

fun scan_entities :: "json list \<Rightarrow> string option \<Rightarrow> string option res" where
  "scan_entities [] registrar = Inr registrar"
| "scan_entities (entity # es) registrar =
     rbind (jget entity ''roles'' (JArr [])) (\<lambda>roles.
     rbind (jmember ''registrar'' roles) (\<lambda>m.
       if m then rbind (jget entity ''vcardArray'' (JArr [])) (\<lambda>vcard. scan_entities es (extract_vcard_name vcard))
       else scan_entities es registrar))"

definition parse_rdap :: "instant \<Rightarrow> json \<Rightarrow> jdict res" where
  "parse_rdap now raw =
     rbind (jget raw ''events'' (JArr [])) (\<lambda>evs. rbind (jiter evs) (\<lambda>events.
     rbind (scan_events events (None, None)) (\<lambda>(registration_date, expiry_date).
     rbind (jget raw ''entities'' (JArr [])) (\<lambda>ents. rbind (jiter ents) (\<lambda>entities.
     rbind (scan_entities entities None) (\<lambda>registrar.
     rbind (case registration_date of None \<Rightarrow> Inr JNull
            | Some d \<Rightarrow> rbind (as_utc d) (\<lambda>t. Inr (JInt (days_between now t)))) (\<lambda>age_days.
     rbind (case expiry_date of None \<Rightarrow> Inr JNull
            | Some d \<Rightarrow> rbind (as_utc d) (\<lambda>t. Inr (JInt (days_between t now)))) (\<lambda>expiry_days.
       Inr [(''registration_date'', jopt (map_option event_iso registration_date)),
            (''expiry_date'', jopt (map_option event_iso expiry_date)),
            (''registrar'', jopt registrar), (''age_days'', age_days), (''expiry_days'', expiry_days)]))))))))"

text \<open>\<open>expiry_days <= 90\<close>: a comparison with an integer, a \<open>TypeError\<close> on other types (floats never occur).\<close>

fun le_int :: "json \<Rightarrow> int \<Rightarrow> bool res" where
  "le_int (JInt i) n = Inr (i \<le> n)"
| "le_int (JBool b) n = Inr ((if b then 1 else 0) \<le> n)"
| "le_int v n = Inl (TypeError ''<= not supported'')"

definition build_result :: "instant \<Rightarrow> jdict \<Rightarrow> bool \<Rightarrow> json \<Rightarrow> enrichment_result res" where
  "build_result now data cached age =
     (if truthy (dget data ''not_found'' JNull)
      then Inr (contributed now ''rdap'' data ''Domain not found in RDAP'' cached age)
      else let age_days = dget data ''age_days'' JNull; expiry_days = dget data ''expiry_days'' JNull;
               registrar = dget data ''registrar'' JNull
           in rbind (if expiry_days = JNull then Inr False else le_int expiry_days 90) (\<lambda>soon.
                let parts = (if age_days \<noteq> JNull then [''registered '' @ py_str age_days @ '' days ago''] else [])
                      @ (if truthy registrar then [''via '' @ py_str registrar] else [])
                      @ (if soon then [''expires in '' @ py_str expiry_days @ '' days''] else [])
                in Inr (contributed now ''rdap'' data
                     (if parts = [] then ''registration data available'' else join '' '' parts) cached age)))"

section \<open>Domain names\<close>

definition COMPOUND :: "string list" where
  "COMPOUND = [''co.uk'', ''co.nz'', ''co.au'', ''co.jp'', ''co.za'', ''co.ke'', ''com.au'', ''com.br'', ''com.mx'',
     ''com.ar'', ''com.tr'', ''com.sg'', ''net.au'', ''net.br'', ''org.uk'', ''org.au'', ''me.uk'']"

definition last_labels :: "nat \<Rightarrow> string list \<Rightarrow> string" where
  "last_labels k parts = join ''.'' (drop (length parts - k) parts)"

definition normalise_domain :: "string \<Rightarrow> string" where
  "normalise_domain dn =
     (let dn = rstrip_char CHR ''.'' (strip (lower dn));
          dn = (if startswith dn ''www.'' then drop 4 dn else dn);
          parts = split_on CHR ''.'' dn
      in if length parts \<le> 2 then dn
         else if last_labels 2 parts \<in> set COMPOUND then last_labels 3 parts
         else last_labels 2 parts)"

definition extract_tld :: "string \<Rightarrow> string option" where
  "extract_tld dn =
     (let parts = split_on CHR ''.'' (rstrip_char CHR ''.'' (lower dn))
      in if length parts < 2 then None else Some (last parts))"

section \<open>The bootstrap registry\<close>

definition FALLBACK_SERVICES :: jdict where
  "FALLBACK_SERVICES =
     [(''com'', JStr ''https://rdap.verisign.com/com/v1/''), (''net'', JStr ''https://rdap.verisign.com/net/v1/''),
      (''org'', JStr ''https://rdap.publicinterestregistry.org/rdap/''), (''info'', JStr ''https://rdap.afilias.net/rdap/info/''),
      (''io'', JStr ''https://rdap.nic.io/''), (''co'', JStr ''https://rdap.nic.co/''),
      (''uk'', JStr ''https://rdap.nominet.uk/uk/''), (''de'', JStr ''https://rdap.denic.de/''),
      (''fr'', JStr ''https://rdap.afnic.fr/''), (''nl'', JStr ''https://rdap.sidn.nl/''), (''eu'', JStr ''https://rdap.eu/''),
      (''biz'', JStr ''https://rdap.nic.biz/''), (''us'', JStr ''https://rdap.nic.us/''), (''mobi'', JStr ''https://rdap.nic.mobi/'')]"

definition IANA_BOOTSTRAP_URL :: string where
  "IANA_BOOTSTRAP_URL = ''https://data.iana.org/rdap/dns.json''"

record 'c rdap_world =
  rdap_cache :: 'c
  rdap_tld_map :: "json option"
  rdap_requests :: "string list"

text \<open>Readings of the wall clock (in seconds) at the four uses of the cache, of the breaker's clock, and of \<open>now(UTC)\<close>
  while parsing and while building the result.\<close>

record rdap_times =
  at_get :: rat
  at_boot_get :: rat
  at_boot_set :: rat
  at_set :: rat
  at_enter :: rat
  at_exit :: rat
  parse_now :: instant
  result_now :: instant

definition week :: int where
  "week = 7 * 24 * 3600"

fun add_tlds :: "json \<Rightarrow> json list \<Rightarrow> jdict \<Rightarrow> jdict res" where
  "add_tlds url [] m = Inr m"
| "add_tlds url (tld # tlds) m = rbind (jstr ''lower'' tld) (\<lambda>t. add_tlds url tlds (dict_set (lower t) url m))"

fun add_services :: "json list \<Rightarrow> jdict \<Rightarrow> jdict res" where
  "add_services [] m = Inr m"
| "add_services (service # ss) m =
     rbind (jlen service) (\<lambda>n.
       if n < 2 then add_services ss m
       else rbind (jat service 0) (\<lambda>tlds. rbind (jat service 1) (\<lambda>urls.
         if \<not> truthy urls then add_services ss m
         else rbind (jat urls 0) (\<lambda>url. rbind (jiter tlds) (\<lambda>ts. rbind (add_tlds url ts m) (add_services ss))))))"

definition parse_bootstrap :: "json \<Rightarrow> jdict res" where
  "parse_bootstrap data =
     rbind (jget data ''services'' (JArr [])) (\<lambda>v. rbind (jiter v) (\<lambda>services. add_services services []))"

definition rdap_download :: "(string \<Rightarrow> http_result) \<Rightarrow> 'c rdap_world \<Rightarrow> jdict res \<times> 'c rdap_world" where
  "rdap_download http w =
     (let w = w\<lparr>rdap_requests := rdap_requests w @ [IANA_BOOTSTRAP_URL]\<rparr>
      in case (case http IANA_BOOTSTRAP_URL of
                 HttpExn e \<Rightarrow> Inl e
               | HttpResp code body \<Rightarrow> rbind (raise_for_status code) (\<lambda>_. body)) of
           Inl e \<Rightarrow> (Inr FALLBACK_SERVICES, w)
         | Inr data \<Rightarrow> (parse_bootstrap data, w))"

definition get_tld_map ::
  "(rat \<Rightarrow> string \<Rightarrow> 'c \<Rightarrow> json option \<times> 'c) \<Rightarrow> (rat \<Rightarrow> string \<Rightarrow> json \<Rightarrow> int \<Rightarrow> 'c \<Rightarrow> 'c) \<Rightarrow> (string \<Rightarrow> http_result) \<Rightarrow>
   rdap_times \<Rightarrow> 'c rdap_world \<Rightarrow> json res \<times> 'c rdap_world" where
  "get_tld_map cget cset http tm w =
     (case rdap_tld_map w of
        Some m \<Rightarrow> (Inr m, w)
      | None \<Rightarrow>
          (case cget (at_boot_get tm) ''rdap:bootstrap'' (rdap_cache w) of
             (Some m, c) \<Rightarrow> (Inr m, w\<lparr>rdap_cache := c, rdap_tld_map := Some m\<rparr>)
           | (None, c) \<Rightarrow>
               (case rdap_download http (w\<lparr>rdap_cache := c\<rparr>) of
                  (Inl e, w') \<Rightarrow> (Inl e, w')
                | (Inr m, w') \<Rightarrow>
                    (Inr (JObj m), w'\<lparr>rdap_cache := cset (at_boot_set tm) ''rdap:bootstrap'' (JObj m) week (rdap_cache w'),
                                     rdap_tld_map := Some (JObj m)\<rparr>))))"

definition get_base_url ::
  "(rat \<Rightarrow> string \<Rightarrow> 'c \<Rightarrow> json option \<times> 'c) \<Rightarrow> (rat \<Rightarrow> string \<Rightarrow> json \<Rightarrow> int \<Rightarrow> 'c \<Rightarrow> 'c) \<Rightarrow> (string \<Rightarrow> http_result) \<Rightarrow>
   rdap_times \<Rightarrow> string \<Rightarrow> 'c rdap_world \<Rightarrow> json res \<times> 'c rdap_world" where
  "get_base_url cget cset http tm dn w =
     (case extract_tld dn of
        None \<Rightarrow> (Inr JNull, w)
      | Some tld \<Rightarrow>
          (if tld = [] then (Inr JNull, w)
           else case get_tld_map cget cset http tm w of
                  (Inl e, w') \<Rightarrow> (Inl e, w')
                | (Inr m, w') \<Rightarrow> (jget m tld JNull, w')))"

section \<open>The client\<close>

definition rdap_key :: "string \<Rightarrow> string" where
  "rdap_key dn = ''rdap:'' @ dn"

record 'c rdap_state =
  rdap_world :: "'c rdap_world"
  rdap_cb :: breaker

definition RDAPTimeout :: "string \<Rightarrow> exn" where
  "RDAPTimeout m = Exn ''_RDAPTimeout'' m None"

definition RDAPNetworkError :: "string \<Rightarrow> exn" where
  "RDAPNetworkError m = Exn ''_RDAPNetworkError'' m None"

definition RDAPNotFound :: "string \<Rightarrow> exn" where
  "RDAPNotFound m = Exn ''_RDAPNotFound'' m None"

definition rdap_url :: "string \<Rightarrow> string \<Rightarrow> string" where
  "rdap_url base dn = rstrip_char CHR ''/'' base @ ''/domain/'' @ dn"

definition rdap_query :: "instant \<Rightarrow> (string \<Rightarrow> http_result) \<Rightarrow> string \<Rightarrow> string \<Rightarrow> jdict res" where
  "rdap_query now http url dn =
     (case http url of
        HttpExn e \<Rightarrow>
          (if contains ''Timeout'' (qualname e) then Inl (RDAPTimeout (''timeout querying '' @ url @ '': '' @ exn_msg e))
           else Inl (RDAPNetworkError (''network error querying '' @ url @ '': '' @ exn_msg e)))
      | HttpResp code body \<Rightarrow>
          (if code = 404 then Inl (RDAPNotFound dn)
           else rbind (raise_for_status code) (\<lambda>_.
             case body of
               Inl e \<Rightarrow> Inl (RDAPNetworkError (''malformed RDAP response: '' @ exn_msg e))
             | Inr raw \<Rightarrow> parse_rdap now raw)))"

definition rdap_fetch ::
  "(rat \<Rightarrow> string \<Rightarrow> 'c \<Rightarrow> json option \<times> 'c) \<Rightarrow> (rat \<Rightarrow> string \<Rightarrow> json \<Rightarrow> int \<Rightarrow> 'c \<Rightarrow> 'c) \<Rightarrow> (string \<Rightarrow> http_result) \<Rightarrow>
   rdap_times \<Rightarrow> string \<Rightarrow> 'c rdap_world \<Rightarrow> jdict res \<times> 'c rdap_world" where
  "rdap_fetch cget cset http tm dn w =
     (case get_base_url cget cset http tm dn w of
        (Inl e, w') \<Rightarrow> (Inl e, w')
      | (Inr base, w') \<Rightarrow>
          (if \<not> truthy base then (Inl (RDAPNetworkError (''No RDAP registry known for domain: '' @ dn)), w')
           else case jstr ''rstrip'' base of
                  Inl e \<Rightarrow> (Inl e, w')
                | Inr b \<Rightarrow>
                    (let url = rdap_url b dn
                     in (rdap_query (parse_now tm) http url dn, w'\<lparr>rdap_requests := rdap_requests w' @ [url]\<rparr>))))"

text \<open>What the lookup answers for the outcome of the call, and what it stores.\<close>

definition rdap_outcome :: "instant \<Rightarrow> jdict res \<Rightarrow> enrichment_result res \<times> jdict option" where
  "rdap_outcome now out =
     (case out of
        Inl e \<Rightarrow>
          (if qualname e = ''_RDAPNotFound''
           then (Inr (contributed now ''rdap'' [(''not_found'', JBool True)] ''Domain not found in RDAP'' False JNull),
                 Some [(''not_found'', JBool True), (''_age_s'', JInt 0)])
           else (Inr (if qualname e = ''CircuitBreakerOpen''
                        then failing now ''rdap'' CIRCUIT_BREAKER_OPEN
                          (''Circuit breaker open '' @ emdash @ '' RDAP registries temporarily unreachable'')
                      else if qualname e = ''_RDAPTimeout'' then failing now ''rdap'' TIMEOUT (exn_msg e)
                      else if qualname e = ''_RDAPNetworkError'' then failing now ''rdap'' NETWORK_ERROR (exn_msg e)
                      else failing now ''rdap'' OTHER (exn_msg e)), None))
      | Inr data \<Rightarrow> (build_result now data False JNull, Some (dict_set ''_age_s'' (JInt 0) data)))"

definition rdap_live ::
  "(rat \<Rightarrow> string \<Rightarrow> 'c \<Rightarrow> json option \<times> 'c) \<Rightarrow> (rat \<Rightarrow> string \<Rightarrow> json \<Rightarrow> int \<Rightarrow> 'c \<Rightarrow> 'c) \<Rightarrow> (string \<Rightarrow> http_result) \<Rightarrow>
   rdap_times \<Rightarrow> string \<Rightarrow> 'c rdap_state \<Rightarrow> enrichment_result res \<times> 'c rdap_state" where
  "rdap_live cget cset http tm dn st =
     (let (out, cb, w) = cb_call (at_enter tm) (at_exit tm) (rdap_fetch cget cset http tm dn) (rdap_cb st) (rdap_world st)
      in case rdap_outcome (result_now tm) out of
           (r, None) \<Rightarrow> (r, \<lparr>rdap_world = w, rdap_cb = cb\<rparr>)
         | (r, Some payload) \<Rightarrow>
             (r, \<lparr>rdap_world = w\<lparr>rdap_cache := cset (at_set tm) (rdap_key dn) (JObj payload) week (rdap_cache w)\<rparr>, rdap_cb = cb\<rparr>))"

definition rdap_lookup ::
  "(rat \<Rightarrow> string \<Rightarrow> 'c \<Rightarrow> json option \<times> 'c) \<Rightarrow> (rat \<Rightarrow> string \<Rightarrow> json \<Rightarrow> int \<Rightarrow> 'c \<Rightarrow> 'c) \<Rightarrow> (string \<Rightarrow> http_result) \<Rightarrow>
   rdap_times \<Rightarrow> indicator \<Rightarrow> 'c rdap_state \<Rightarrow> enrichment_result res \<times> 'c rdap_state" where
  "rdap_lookup cget cset http tm ind st =
     (if ind_type ind \<noteq> DOMAIN then (Inr (not_configured (result_now tm) ''rdap''), st)
      else case jstr ''lower'' (ind_value ind) of
             Inl e \<Rightarrow> (Inl e, st)
           | Inr v \<Rightarrow>
               (let dn = normalise_domain v; w = rdap_world st
                in case cget (at_get tm) (rdap_key dn) (rdap_cache w) of
                     (Some (JObj d), c) \<Rightarrow>
                       (build_result (result_now tm) d True (dget d ''_age_s'' (JInt 0)), st\<lparr>rdap_world := w\<lparr>rdap_cache := c\<rparr>\<rparr>)
                   | (Some other, c) \<Rightarrow> (Inl (AttributeError other ''get''), st\<lparr>rdap_world := w\<lparr>rdap_cache := c\<rparr>\<rparr>)
                   | (None, c) \<Rightarrow> rdap_live cget cset http tm dn (st\<lparr>rdap_world := w\<lparr>rdap_cache := c\<rparr>\<rparr>)))"

section \<open>The provider contract\<close>

lemma build_result_ok: "build_result now d cached age = Inr r \<Longrightarrow> result_ok r \<and> r_source r = ''rdap''"
  by (auto simp: build_result_def Let_def split: if_splits)

lemma rdap_live_ok: "rdap_live cget cset http tm dn st = (Inr r, st') \<Longrightarrow> result_ok r \<and> r_source r = ''rdap''"
  by (auto simp: rdap_live_def rdap_outcome_def Let_def dest: build_result_ok split: prod.splits sum.splits if_splits option.splits)

lemma rdap_lookup_ok: "rdap_lookup cget cset http tm ind st = (Inr r, st') \<Longrightarrow> result_ok r \<and> r_source r = ''rdap''"
  by (auto simp: rdap_lookup_def Let_def dest: build_result_ok rdap_live_ok
      split: if_splits prod.splits sum.splits option.splits json.splits)

interpretation rdap: threat_intel "rdap_lookup cget cset http tm" "''rdap''" for cget cset http tm
  by unfold_locales (auto dest: rdap_lookup_ok)

section \<open>The client never raises\<close>

text \<open>What the client stores under a domain: a dictionary whose \<open>expiry_days\<close> is absent, null or an integer.\<close>

fun rdap_entry_ok :: "json \<Rightarrow> bool" where
  "rdap_entry_ok (JObj d) = (case dget d ''expiry_days'' JNull of JNull \<Rightarrow> True | JInt _ \<Rightarrow> True | _ \<Rightarrow> False)"
| "rdap_entry_ok _ = False"

lemma build_result_total: "rdap_entry_ok (JObj d) \<Longrightarrow> \<exists>r. build_result now d cached age = Inr r"
  by (auto simp: build_result_def Let_def split: json.splits)

lemma parse_rdap_entry:
  assumes "parse_rdap now raw = Inr d"
  shows "rdap_entry_ok (JObj d)" "rdap_entry_ok (JObj (dict_set ''_age_s'' (JInt 0) d))"
    "jwf (JObj (dict_set ''_age_s'' (JInt 0) d))"
proof -
  have jo: "jwf (jopt x)" for x by (cases x) simp_all
  obtain a b r ag ex where d: "d = [(''registration_date'', a), (''expiry_date'', b), (''registrar'', r),
      (''age_days'', ag), (''expiry_days'', ex)]" and j: "jwf a" "jwf b" "jwf r" and ag: "ag = JNull \<or> (\<exists>i. ag = JInt i)"
      and ex: "ex = JNull \<or> (\<exists>i. ex = JInt i)"
    using assms by (auto simp: parse_rdap_def jo split: option.splits)
  show "rdap_entry_ok (JObj d)" "rdap_entry_ok (JObj (dict_set ''_age_s'' (JInt 0) d))"
    using ex by (auto simp: d dget_def)
  show "jwf (JObj (dict_set ''_age_s'' (JInt 0) d))"
    using ag ex j by (auto simp: d)
qed

lemma rdap_query_parsed: "rdap_query now http url dn = Inr d \<Longrightarrow> \<exists>raw. parse_rdap now raw = Inr d"
  by (auto simp: rdap_query_def split: http_result.splits if_splits sum.splits)

lemma rdap_fetch_parsed: "rdap_fetch cget cset http tm dn w = (Inr d, w') \<Longrightarrow> \<exists>raw. parse_rdap (parse_now tm) raw = Inr d"
  by (auto simp: rdap_fetch_def Let_def dest: rdap_query_parsed split: prod.splits sum.splits if_splits)

lemma rdap_key_eq [simp]:
  "rdap_key k = rdap_key k' \<longleftrightarrow> k = k'" "rdap_key k = ''rdap:bootstrap'' \<longleftrightarrow> k = ''bootstrap''"
  "''rdap:bootstrap'' = rdap_key k \<longleftrightarrow> k = ''bootstrap''"
  by (auto simp: rdap_key_def)

definition entries_ok :: "(rat \<Rightarrow> string \<Rightarrow> 'c \<Rightarrow> json option \<times> 'c) \<Rightarrow> rat \<Rightarrow> 'c \<Rightarrow> bool" where
  "entries_ok cget T c \<longleftrightarrow>
     (\<forall>t k j. T \<le> t \<longrightarrow> k \<noteq> ''bootstrap'' \<longrightarrow> fst (cget t (rdap_key k) c) = Some j \<longrightarrow> rdap_entry_ok j)"

definition world_ok :: "(rat \<Rightarrow> string \<Rightarrow> 'c \<Rightarrow> json option \<times> 'c) \<Rightarrow> ('c \<Rightarrow> bool) \<Rightarrow> rat \<Rightarrow> 'c rdap_world \<Rightarrow> bool" where
  "world_ok cget cinv T w \<longleftrightarrow> cinv (rdap_cache w) \<and> entries_ok cget T (rdap_cache w)"

context ttl_cache
begin

lemma entries_ok_later: "entries_ok cget T c \<Longrightarrow> T \<le> T' \<Longrightarrow> entries_ok cget T' c"
  unfolding entries_ok_def by (meson order_trans)

lemma entries_ok_get: "cinv c \<Longrightarrow> entries_ok cget T c \<Longrightarrow> T \<le> t \<Longrightarrow> entries_ok cget t (snd (cget t k c))"
  using entries_ok_later [of T c t] by (auto simp: entries_ok_def get_get)

lemma entries_ok_set_boot: "cinv c \<Longrightarrow> entries_ok cget T c \<Longrightarrow> entries_ok cget T (cset now ''rdap:bootstrap'' v ttl c)"
  by (auto simp: entries_ok_def get_set_other)

lemma entries_ok_set:
  assumes "cinv c" "entries_ok cget T c" "jwf v" "rdap_entry_ok v"
  shows "entries_ok cget T (cset now (rdap_key k) v ttl c)"
  unfolding entries_ok_def
proof (intro allI impI)
  fix t k' j assume t: "T \<le> t" "k' \<noteq> ''bootstrap''" "fst (cget t (rdap_key k') (cset now (rdap_key k) v ttl c)) = Some j"
  have "v \<noteq> JNull" using assms(4) by auto
  with t assms show "rdap_entry_ok j"
    using get_set [of c v t now ttl "rdap_key k"] get_expired [of c now ttl t "rdap_key k" v]
      get_set_other [of c "rdap_key k" "rdap_key k'" t now v ttl]
    by (cases "k' = k"; cases "t \<le> now + of_int ttl") (auto simp: entries_ok_def)
qed

lemma world_ok_tld_map:
  assumes "world_ok cget cinv T w" "T \<le> at_boot_get tm"
  shows "world_ok cget cinv (at_boot_get tm) (snd (get_tld_map cget cset http tm w))"
proof (cases "rdap_tld_map w")
  case None
  obtain hit c where g: "cget (at_boot_get tm) ''rdap:bootstrap'' (rdap_cache w) = (hit, c)" by fastforce
  have c: "cinv c" "entries_ok cget (at_boot_get tm) c"
    using assms inv_get [of "rdap_cache w" "at_boot_get tm" "''rdap:bootstrap''"]
      entries_ok_get [of "rdap_cache w" T "at_boot_get tm" "''rdap:bootstrap''"] by (auto simp: world_ok_def g)
  obtain out w' where d: "rdap_download http (w\<lparr>rdap_cache := c\<rparr>) = (out, w')" by fastforce
  then have "rdap_cache w' = c"
    by (auto simp: rdap_download_def Let_def split: http_result.splits sum.splits)
  with c d g None show ?thesis
    by (cases hit; cases out) (simp_all add: get_tld_map_def world_ok_def inv_set entries_ok_set_boot)
qed (use assms in \<open>auto simp: get_tld_map_def world_ok_def intro: entries_ok_later\<close>)

lemma world_ok_later: "world_ok cget cinv T w \<Longrightarrow> T \<le> T' \<Longrightarrow> world_ok cget cinv T' w"
  by (auto simp: world_ok_def intro: entries_ok_later)

lemma world_ok_base_url:
  assumes "world_ok cget cinv T w" "T \<le> at_boot_get tm"
  shows "world_ok cget cinv (at_boot_get tm) (snd (get_base_url cget cset http tm dn w))"
  using world_ok_tld_map [OF assms, of http] world_ok_later [OF assms]
  by (auto simp: get_base_url_def split: option.splits prod.splits sum.splits)

lemma world_ok_fetch:
  assumes "world_ok cget cinv T w" "T \<le> at_boot_get tm"
  shows "world_ok cget cinv (at_boot_get tm) (snd (rdap_fetch cget cset http tm dn w))"
  using world_ok_base_url [OF assms, of http dn]
  by (auto simp: rdap_fetch_def world_ok_def Let_def split: prod.splits sum.splits)

lemma rdap_live_total:
  assumes "world_ok cget cinv T (rdap_world st)" "T \<le> at_boot_get tm"
  shows "\<exists>r st'. rdap_live cget cset http tm dn st = (Inr r, st') \<and> world_ok cget cinv (at_boot_get tm) (rdap_world st')"
proof -
  obtain out cb w where call: "cb_call (at_enter tm) (at_exit tm) (rdap_fetch cget cset http tm dn) (rdap_cb st) (rdap_world st)
      = (out, cb, w)" by (metis prod_cases3)
  have w: "world_ok cget cinv (at_boot_get tm) w"
    using call world_ok_fetch [OF assms, of http dn] world_ok_later [OF assms]
    by (auto simp: cb_call_def split: prod.splits option.splits sum.splits)
  have store: "world_ok cget cinv (at_boot_get tm) (w\<lparr>rdap_cache := cset (at_set tm) (rdap_key dn) v week (rdap_cache w)\<rparr>)"
    if "jwf v" "rdap_entry_ok v" for v
    using w that by (auto simp: world_ok_def inv_set intro: entries_ok_set)
  show ?thesis
  proof (cases out)
    case (Inl e)
    then show ?thesis using call w store [of "JObj [(''not_found'', JBool True), (''_age_s'', JInt 0)]"]
      by (auto simp: rdap_live_def rdap_outcome_def Let_def dget_def)
  next
    case (Inr d)
    then obtain s' where "rdap_fetch cget cset http tm dn (rdap_world st) = (Inr d, s')"
      using call by (auto simp: cb_call_def split: prod.splits option.splits sum.splits)
    then obtain raw where p: "parse_rdap (parse_now tm) raw = Inr d" using rdap_fetch_parsed by blast
    obtain r where "build_result (result_now tm) d False JNull = Inr r"
      using build_result_total [OF parse_rdap_entry(1) [OF p]] by blast
    then show ?thesis
      using call Inr store [OF parse_rdap_entry(3) [OF p] parse_rdap_entry(2) [OF p]] by (simp add: rdap_live_def rdap_outcome_def Let_def)
  qed
qed

lemma rdap_lookup_total:
  assumes "world_ok cget cinv T (rdap_world st)" "T \<le> at_get tm" "at_get tm \<le> at_boot_get tm"
    and "ind_value ind = JStr v" "normalise_domain v \<noteq> ''bootstrap''"
  shows "\<exists>r st'. rdap_lookup cget cset http tm ind st = (Inr r, st') \<and> world_ok cget cinv (at_boot_get tm) (rdap_world st')"
proof (cases "ind_type ind = DOMAIN")
  case True
  obtain hit c where g: "cget (at_get tm) (rdap_key (normalise_domain v)) (rdap_cache (rdap_world st)) = (hit, c)" by fastforce
  have c: "cinv c" "entries_ok cget (at_get tm) c"
    using assms(1,2) inv_get [of "rdap_cache (rdap_world st)" "at_get tm" "rdap_key (normalise_domain v)"]
      entries_ok_get [of "rdap_cache (rdap_world st)" T "at_get tm" "rdap_key (normalise_domain v)"]
    by (auto simp: world_ok_def g)
  show ?thesis
  proof (cases hit)
    case None
    with rdap_live_total [of "at_get tm" "st\<lparr>rdap_world := (rdap_world st)\<lparr>rdap_cache := c\<rparr>\<rparr>" tm http "normalise_domain v"]
    show ?thesis using c g True assms(3,4) by (simp add: rdap_lookup_def world_ok_def)
  next
    case (Some j)
    then have "rdap_entry_ok j"
      using assms(1,2,5) g unfolding world_ok_def entries_ok_def by (metis fst_conv)
    then obtain d where d: "j = JObj d" "rdap_entry_ok (JObj d)" by (cases j) auto
    then obtain r where "build_result (result_now tm) d True (dget d ''_age_s'' (JInt 0)) = Inr r"
      using build_result_total by blast
    then show ?thesis using Some d g True assms(3,4) entries_ok_later [OF c(2)] c(1)
      by (simp add: rdap_lookup_def world_ok_def)
  qed
qed (use world_ok_later [OF assms(1)] assms(2,3) in \<open>simp add: rdap_lookup_def\<close>)

end


definition sample_rdap :: "sqlite_cache rdap_state" where
  "sample_rdap = \<lparr>rdap_world = \<lparr>rdap_cache = new_sqlite_cache, rdap_tld_map = Some (JObj FALLBACK_SERVICES), rdap_requests = []\<rparr>,
     rdap_cb = new_breaker 5 60\<rparr>"

definition sample_rdap_times :: rdap_times where
  "sample_rdap_times = \<lparr>at_get = 1, at_boot_get = 1, at_boot_set = 1, at_set = 1, at_enter = 1, at_exit = 1,
     parse_now = 0, result_now = 0\<rparr>"


section \<open>Not found counts as a failure of the registry\<close>

text \<open>A domain its registry does not know is an answer (the result is contributed), but the circuit breaker counts it
  as a failure, so that a few unregistered domains in a row stop all RDAP lookups.\<close>

theorem rdap_not_found_trips_breaker:
  assumes "rdap_tld_map (rdap_world st) = Some (JObj m)" "extract_tld dn = Some tld" "tld \<noteq> []"
    and "map_of m tld = Some (JStr base)" "base \<noteq> []" "http (rdap_url base dn) = HttpResp 404 body"
    and "cb_state (rdap_cb st) = CLOSED" "cb_fail_max (rdap_cb st) \<le> cb_failures (rdap_cb st) + 1"
  shows "\<exists>r st'. rdap_live cget cset http tm dn st = (Inr r, st') \<and> r_status r = CONTRIBUTED \<and>
    cb_state (rdap_cb st') = OPEN \<and> cb_opened_at (rdap_cb st') = at_exit tm"
proof -
  have "rdap_fetch cget cset http tm dn (rdap_world st) =
      (Inl (RDAPNotFound dn), (rdap_world st)\<lparr>rdap_requests := rdap_requests (rdap_world st) @ [rdap_url base dn]\<rparr>)"
    using assms(1-6) by (simp add: rdap_fetch_def get_base_url_def get_tld_map_def rdap_query_def Let_def)
  then show ?thesis
    using assms(7,8) by (simp add: rdap_live_def rdap_outcome_def cb_call_entered check_reset_def cb_on_failure_def RDAPNotFound_def Let_def)
qed

theorem rdap_not_found_trips_breaker_witness:
  "\<exists>r st'. rdap_live sql_get sql_set (\<lambda>_. HttpResp 404 (Inr JNull)) sample_rdap_times ''nosuch.com''
      (sample_rdap\<lparr>rdap_cb := (new_breaker 5 60)\<lparr>cb_failures := 4\<rparr>\<rparr>) = (Inr r, st') \<and> r_status r = CONTRIBUTED \<and>
    cb_state (rdap_cb st') = OPEN"
proof -
  have "extract_tld ''nosuch.com'' = Some ''com''" by code_simp
  from rdap_not_found_trips_breaker [where st = "sample_rdap\<lparr>rdap_cb := (new_breaker 5 60)\<lparr>cb_failures := 4\<rparr>\<rparr>"
      and m = FALLBACK_SERVICES and cget = sql_get and cset = sql_set and tm = sample_rdap_times
      and http = "\<lambda>_. HttpResp 404 (Inr JNull)" and body = "Inr JNull", OF _ this]
  show ?thesis by (fastforce simp: sample_rdap_def FALLBACK_SERVICES_def new_breaker_def)
qed

section \<open>The registrable domain\<close>

lemma split_on_join: "fs \<noteq> [] \<Longrightarrow> \<forall>f\<in>set fs. c \<notin> set f \<Longrightarrow> split_on c (join [c] fs) = fs"
proof (induction fs)
  case (Cons f fs)
  then show ?case by (cases fs) (simp_all add: split_on_single split_on_append)
qed simp

lemma startswith_label:
  assumes "CHR ''.'' \<notin> set l"
  shows "startswith (l @ CHR ''.'' # x) ''www.'' \<longleftrightarrow> l = ''www''"
proof
  assume "startswith (l @ CHR ''.'' # x) ''www.''"
  then obtain y where "l @ CHR ''.'' # x = ''www'' @ CHR ''.'' # y" by (auto simp: startswith_prefix prefix_def)
  then have "split_on CHR ''.'' (l @ CHR ''.'' # x) = split_on CHR ''.'' (''www'' @ CHR ''.'' # y)" by simp
  then show "l = ''www''"
    using split_on_append [OF assms, of x] split_on_append [of "CHR ''.''" "''www''" y] by simp
qed (simp add: startswith_def)

text \<open>The name sent to the registry: of a name with more than two labels the last two remain, or the last three under
  a compound suffix; a leading \<open>www\<close> label is dropped first.\<close>

theorem rdap_registrable_domain:
  assumes "\<forall>f\<in>set (l # ls @ [a, b]). CHR ''.'' \<notin> set f" "s = join ''.'' (l # ls @ [a, b])"
    and "rstrip_char CHR ''.'' (strip (lower s)) = s"
  shows "normalise_domain s =
    (if join ''.'' [a, b] \<in> set COMPOUND \<and> (l = ''www'' \<longrightarrow> ls \<noteq> []) then join ''.'' [last (l # ls), a, b]
     else join ''.'' [a, b])"
proof -
  have s: "s = l @ CHR ''.'' # join ''.'' (ls @ [a, b])" by (simp add: assms(2) join_Cons_ne)
  have sw: "startswith s ''www.'' \<longleftrightarrow> l = ''www''" using assms(1) startswith_label [of l] by (simp add: s)
  define ps where "ps = (if l = ''www'' then ls @ [a, b] else l # ls @ [a, b])"
  have d: "(if startswith s ''www.'' then drop 4 s else s) = join ''.'' ps"
    unfolding sw by (simp add: ps_def s join_Cons_ne)
  have sp: "split_on CHR ''.'' (join ''.'' ps) = ps"
    using assms(1) by (intro split_on_join) (auto simp: ps_def)
  have two: "last_labels 2 ps = join ''.'' [a, b]" by (simp add: ps_def last_labels_def)
  have three: "last_labels 3 ps = join ''.'' [last (l # ls), a, b]" if "2 < length ps"
    using that by (cases ls rule: rev_cases) (simp_all add: ps_def last_labels_def split: if_splits)
  have len: "length ps \<le> 2 \<longleftrightarrow> l = ''www'' \<and> ls = []" by (auto simp: ps_def)
  have "normalise_domain s = (if length ps \<le> 2 then join ''.'' ps
      else if last_labels 2 ps \<in> set COMPOUND then last_labels 3 ps else last_labels 2 ps)"
    unfolding normalise_domain_def assms(3) Let_def d sp ..
  then show ?thesis using two three len by (auto simp: ps_def)
qed

theorem rdap_registrable_domain_witness:
  "normalise_domain ''www.a.co.uk'' = ''a.co.uk''"
proof -
  have "rstrip_char CHR ''.'' (strip (lower ''www.a.co.uk'')) = ''www.a.co.uk''" by code_simp
  from rdap_registrable_domain [of "''www''" "[''a'']" "''co''" "''uk''", OF _ _ this]
  show ?thesis by (simp add: COMPOUND_def)
qed

text \<open>A name that is itself \<open>www\<close> under a top-level domain loses its only registrable label: what remains is the top-level
  domain, which has no registry of its own.\<close>

lemma rdap_www_apex: "normalise_domain ''www.com'' = ''com'' \<and> extract_tld (normalise_domain ''www.com'') = None"
  by code_simp

text \<open>The age of a cached answer is stored when the answer is, as zero, and never updated: a cached result always claims
  to be fresh.\<close>

lemma rdap_cached_age_zero:
  assumes "cget (at_get tm) (rdap_key (normalise_domain v)) (rdap_cache (rdap_world st)) =
      (Some (JObj (dict_set ''_age_s'' (JInt 0) d)), c)"
    and "ind_type ind = DOMAIN" "ind_value ind = JStr v" "rdap_lookup cget cset http tm ind st = (Inr r, st')"
  shows "r_cached r \<and> r_cache_age_seconds r = JInt 0"
  using assms by (auto simp: rdap_lookup_def build_result_def contributed_def Let_def split: if_splits)

text \<open>The registry's own cache entry answers for the name \<open>www.bootstrap\<close>.\<close>

lemma rdap_bootstrap_collision: "rdap_key (normalise_domain ''www.bootstrap'') = ''rdap:bootstrap''"
  by code_simp

end
