(* ===== verification/Reverse_Dns.thy ===== *)
theory Reverse_Dns
  imports Cache Circuit_Breaker Suricata_Config
begin

text \<open>
  Identity resolution: the facts of \<open>src/identity/models.py\<close> and the reverse-DNS provider of
  \<open>src/identity/reverse_dns/provider.py\<close>. The resolvers (the operating system's and dnspython) are outside the program:
  what a query for an address gives, within the timeout, is an argument. The queries made so far are part of the state.
\<close>

record identity_facts =
  f_ip :: json
  f_hostname :: json
  f_username :: json
  f_ou_path :: json
  f_group_memberships :: "json list"
  f_source :: string
  f_queried_at :: instant

record dns_env =
  revdns_enabled :: bool
  dns_server :: "string option"
  revdns_ttl :: int
  gethostbyaddr :: "json \<Rightarrow> string res"
  resolve_ptr :: "string \<Rightarrow> json \<Rightarrow> string res"

record 'c revdns_state =
  rd_cache :: 'c
  rd_cb :: breaker
  rd_queries :: "json list"

text \<open>No record is an answer (\<open>None\<close>, here null); every other exception of the resolver goes through.\<close>

definition dnspython_lookup :: "dns_env \<Rightarrow> string \<Rightarrow> json \<Rightarrow> json res" where
  "dnspython_lookup env server ip =
     (case resolve_ptr env server ip of
        Inr answer \<Rightarrow> Inr (JStr (rstrip_char CHR ''.'' answer))
      | Inl e \<Rightarrow> (if qualname e = ''NXDOMAIN'' \<or> qualname e = ''NoAnswer'' then Inr JNull else Inl e))"

definition lookup_internal :: "dns_env \<Rightarrow> json \<Rightarrow> json list \<Rightarrow> json res \<times> json list" where
  "lookup_internal env ip qs =
     (let qs = qs @ [ip]
      in case dns_server env of
           Some (c # server) \<Rightarrow> (dnspython_lookup env (c # server) ip, qs)
         | _ \<Rightarrow>
             (case gethostbyaddr env ip of
                Inr hostname \<Rightarrow> (Inr (JStr hostname), qs)
              | Inl e \<Rightarrow> (if qualname e = ''herror'' then Inr JNull else Inl e, qs)))"

text \<open>Every exception ends in no hostname.\<close>

definition do_lookup :: "dns_env \<Rightarrow> rat \<Rightarrow> rat \<Rightarrow> json \<Rightarrow> 'c revdns_state \<Rightarrow> json \<times> 'c revdns_state" where
  "do_lookup env m0 m1 ip st =
     (let (out, cb, qs) = cb_call m0 m1 (lookup_internal env ip) (rd_cb st) (rd_queries st);
          st = st\<lparr>rd_cb := cb, rd_queries := qs\<rparr>
      in case out of Inr hostname \<Rightarrow> (hostname, st) | Inl e \<Rightarrow> (JNull, st))"

definition revdns_facts :: "instant \<Rightarrow> json \<Rightarrow> json \<Rightarrow> identity_facts" where
  "revdns_facts now ip hostname =
     \<lparr>f_ip = ip, f_hostname = hostname, f_username = JNull, f_ou_path = JNull, f_group_memberships = [],
      f_source = ''reverse_dns'', f_queried_at = now\<rparr>"

definition revdns_key :: "json \<Rightarrow> string" where
  "revdns_key ip = ''revdns:'' @ py_str ip"

definition resolve_ip ::
  "(rat \<Rightarrow> string \<Rightarrow> 'c \<Rightarrow> json option \<times> 'c) \<Rightarrow> (rat \<Rightarrow> string \<Rightarrow> json \<Rightarrow> int \<Rightarrow> 'c \<Rightarrow> 'c) \<Rightarrow> dns_env \<Rightarrow> suricata_config \<Rightarrow>
   rat \<Rightarrow> rat \<Rightarrow> rat \<Rightarrow> rat \<Rightarrow> instant \<Rightarrow> json \<Rightarrow> 'c revdns_state \<Rightarrow> identity_facts option \<times> 'c revdns_state" where
  "resolve_ip cget cset env cfg t0 t1 m0 m1 now ip st =
     (if \<not> revdns_enabled env then (None, st)
      else if ''HOME_NET'' \<notin> set (membership_for_ip cfg ip) then (None, st)
      else let key = revdns_key ip
           in case cget t0 key (rd_cache st) of
                (Some cached, c) \<Rightarrow>
                  (Some (revdns_facts now ip (if cached \<noteq> JStr [] then cached else JNull)), st\<lparr>rd_cache := c\<rparr>)
              | (None, c) \<Rightarrow>
                  (let (hostname, st) = do_lookup env m0 m1 ip (st\<lparr>rd_cache := c\<rparr>)
                   in (Some (revdns_facts now ip hostname),
                       st\<lparr>rd_cache := cset t1 key (jor hostname (JStr [])) (revdns_ttl env) (rd_cache st)\<rparr>)))"

section \<open>Which addresses are resolved\<close>

lemma lookup_internal_queries: "snd (lookup_internal env ip qs) = qs @ [ip]"
  by (auto simp: lookup_internal_def Let_def split: option.splits list.splits sum.splits)

lemma do_lookup_queries: "rd_queries (snd (do_lookup env m0 m1 ip st)) \<in> {rd_queries st, rd_queries st @ [ip]}"
  using lookup_internal_queries [of env ip "rd_queries st"]
  by (auto simp: do_lookup_def Let_def cb_call_def split: prod.splits option.splits sum.splits)

lemma do_lookup_cache [simp]: "rd_cache (snd (do_lookup env m0 m1 ip st)) = rd_cache st"
  by (auto simp: do_lookup_def Let_def split: prod.splits sum.splits)

lemma resolve_ip_queries:
  "rd_queries (snd (resolve_ip cget cset env cfg t0 t1 m0 m1 now ip st)) \<in> {rd_queries st, rd_queries st @ [ip]}"
  "''HOME_NET'' \<notin> set (membership_for_ip cfg ip) \<Longrightarrow> resolve_ip cget cset env cfg t0 t1 m0 m1 now ip st = (None, st)"
proof -
  obtain hit c where g: "cget t0 (revdns_key ip) (rd_cache st) = (hit, c)" by fastforce
  obtain h st' where d: "do_lookup env m0 m1 ip (st\<lparr>rd_cache := c\<rparr>) = (h, st')" by fastforce
  show "rd_queries (snd (resolve_ip cget cset env cfg t0 t1 m0 m1 now ip st)) \<in> {rd_queries st, rd_queries st @ [ip]}"
    using g d do_lookup_queries [of env m0 m1 ip "st\<lparr>rd_cache := c\<rparr>"]
    by (cases hit) (auto simp: resolve_ip_def Let_def)
qed (simp add: resolve_ip_def)

section \<open>Failures are remembered\<close>

text \<open>When the resolver cannot be reached, or the circuit is open, the absence of a hostname is cached like a missing
  record: for the whole lifetime of the entry the address has no hostname and no query is made, although the circuit
  breaker would allow a new attempt after its timeout.\<close>

theorem revdns_failure_cached:
  assumes "sql_inv (rd_cache st)" "revdns_enabled env" "''HOME_NET'' \<in> set (membership_for_ip cfg ip)"
    and "fst (sql_get t0 (revdns_key ip) (rd_cache st)) = None"
    and "fst (do_lookup env m0 m1 ip (st\<lparr>rd_cache := snd (sql_get t0 (revdns_key ip) (rd_cache st))\<rparr>)) = JNull"
    and "resolve_ip sql_get sql_set env cfg t0 t1 m0 m1 now ip st = (r, st')"
    and "t2 \<le> t1 + of_int (revdns_ttl env)"
  shows "fst (resolve_ip sql_get sql_set env' cfg t2 t3 m2 m3 now' ip st') =
      (if revdns_enabled env' then Some (revdns_facts now' ip JNull) else None) \<and>
    rd_queries (snd (resolve_ip sql_get sql_set env' cfg t2 t3 m2 m3 now' ip st')) = rd_queries st'"
proof -
  let ?key = "revdns_key ip"
  obtain c where c: "sql_get t0 ?key (rd_cache st) = (None, c)" using assms(4) by (metis prod.collapse)
  then have inv: "sql_inv c" using sql_inv_get [OF assms(1), of t0 ?key] by simp
  obtain st1 where st1: "do_lookup env m0 m1 ip (st\<lparr>rd_cache := c\<rparr>) = (JNull, st1)"
    using assms(5) c by (metis prod.collapse snd_conv)
  have "rd_cache st1 = c" using arg_cong [OF st1, of "\<lambda>p. rd_cache (snd p)"] by simp
  then have "rd_cache st' = sql_set t1 ?key (JStr []) (revdns_ttl env) c"
    using assms(2,3,6) c st1 by (auto simp: resolve_ip_def Let_def)
  then have "fst (sql_get t2 ?key (rd_cache st')) = Some (JStr [])"
    using sql.get_set [OF inv _ _ assms(7), of "JStr []" ?key] by simp
  then show ?thesis
    using assms(3) by (auto simp: resolve_ip_def Let_def split: prod.splits)
qed

definition sample_dns :: dns_env where
  "sample_dns = \<lparr>revdns_enabled = True, dns_server = None, revdns_ttl = 3600,
     gethostbyaddr = (\<lambda>_. Inl (Exn ''TimeoutError'' [] None)), resolve_ptr = (\<lambda>_ _. Inl (Exn ''Timeout'' [] None))\<rparr>"

definition home_config :: suricata_config where
  "home_config = \<lparr>home_net = [net4 0x0A000000 8], external_net = [], server_groups = [], port_groups = [], rule_file_paths = [],
     rule_file_summaries = [], config_file_paths_read = [], read_at = 0, raw_yaml_hash = []\<rparr>"

lemma home_config_member: "''HOME_NET'' \<in> set (membership_for_ip home_config (JStr ''10.0.0.5''))"
  by code_simp

theorem revdns_failure_cached_witness:
  "\<exists>st'. snd (resolve_ip sql_get sql_set sample_dns home_config 0 0 0 0 0 (JStr ''10.0.0.5'')
       \<lparr>rd_cache = new_sqlite_cache, rd_cb = new_breaker 5 60, rd_queries = []\<rparr>) = st' \<and>
     rd_queries (snd (resolve_ip sql_get sql_set sample_dns home_config 100 100 100 100 0 (JStr ''10.0.0.5'') st'))
       = rd_queries st'"
proof -
  let ?st = "\<lparr>rd_cache = new_sqlite_cache, rd_cb = new_breaker 5 60, rd_queries = []\<rparr>"
  obtain r st' where r: "resolve_ip sql_get sql_set sample_dns home_config 0 0 0 0 0 (JStr ''10.0.0.5'') ?st = (r, st')"
    by fastforce
  have "fst (do_lookup sample_dns 0 0 ip (st0 :: sqlite_cache revdns_state)) = JNull"
    if "rd_cb st0 = new_breaker 5 60" for ip st0
    using that by (simp add: do_lookup_def sample_dns_def cb_call_entered new_breaker_def lookup_internal_def Let_def)
  from revdns_failure_cached [OF _ _ home_config_member _ this r, of 100 sample_dns 100 100 100 0]
  have "rd_queries (snd (resolve_ip sql_get sql_set sample_dns home_config 100 100 100 100 0 (JStr ''10.0.0.5'') st'))
       = rd_queries st'"
    by (simp add: sample_dns_def new_sqlite_cache_def sql_inv_def sql_get_def get_conn_def Let_def)
  with r show ?thesis by simp
qed

end
