(* ===== verification/Indicators.thy ===== *)
theory Indicators
  imports Rdap Reverse_Dns
begin

text \<open>
  Which indicators of an alert are looked up: the module-level helpers of \<open>src/triage/worker.py\<close> from
  \<open>_is_public_ip\<close> to \<open>_extract_indicators\<close>. The documents are untrusted: using a value of the wrong type is the
  exception it is in Python. The theorems say which names and addresses may leave the network.
\<close>

definition MAX_IPS :: nat where
  "MAX_IPS = 2"

definition MAX_DOMAINS :: nat where
  "MAX_DOMAINS = 3"

definition INTERNAL_DOMAIN_SUFFIXES :: "string list" where
  "INTERNAL_DOMAIN_SUFFIXES = [''.local'', ''.lan'', ''.internal'', ''.corp'', ''.home'', ''.home.arpa'', ''.localdomain'']"

definition CGNAT_NET :: ipnet where
  "CGNAT_NET = net4 0x64400000 10"

definition is_v4 :: "ipaddr \<Rightarrow> bool" where
  "is_v4 a = (case a of V4 _ \<Rightarrow> True | V6 _ \<Rightarrow> False)"

definition in_home :: "suricata_config \<Rightarrow> json \<Rightarrow> bool" where
  "in_home cfg ip \<longleftrightarrow> ''HOME_NET'' \<in> set (membership_for_ip cfg ip)"

definition is_public_ip :: "json \<Rightarrow> suricata_config option \<Rightarrow> bool" where
  "is_public_ip ip config =
     (case ip_address ip of
        None \<Rightarrow> False
      | Some addr \<Rightarrow>
          (if is_private addr \<or> is_loopback addr \<or> is_link_local addr \<or> is_reserved addr \<or> is_multicast addr then False
           else if is_v4 addr \<and> in_net addr CGNAT_NET then False
           else (case config of Some cfg \<Rightarrow> \<not> in_home cfg ip | None \<Rightarrow> True)))"

text \<open>The form in which names are compared: \<open>name.lower().rstrip(".")\<close>.\<close>

definition bare_name :: "string \<Rightarrow> string" where
  "bare_name s = rstrip_char CHR ''.'' (lower s)"

definition is_internal_domain_name :: "string \<Rightarrow> bool" where
  "is_internal_domain_name dn =
     (let name = bare_name dn
      in list_ex (\<lambda>suf. name = drop 1 suf \<or> endswith name suf) INTERNAL_DOMAIN_SUFFIXES)"

section \<open>Answers of the flow's DNS events\<close>

type_synonym answers = "(string \<times> string list) list"

definition add_answer :: "string \<Rightarrow> string \<Rightarrow> answers \<Rightarrow> answers" where
  "add_answer name rdata as =
     dict_set name (List.insert rdata (case map_of as name of Some xs \<Rightarrow> xs | None \<Rightarrow> [])) as"

fun add_names :: "json list \<Rightarrow> string \<Rightarrow> answers \<Rightarrow> answers res" where
  "add_names [] rdata as = Inr as"
| "add_names (name # names) rdata as =
     (if truthy name
      then rbind (jstr ''lower'' name) (\<lambda>s. add_names names rdata (add_answer (bare_name s) rdata as))
      else add_names names rdata as)"

definition add_rdata :: "json list \<Rightarrow> json \<Rightarrow> answers \<Rightarrow> answers res" where
  "add_rdata names rdata as =
     (case rdata of
        JStr s \<Rightarrow> (if ip_address rdata = None then Inr as else add_names names s as)
      | _ \<Rightarrow> Inr as)"

fun add_rdatas :: "json list \<Rightarrow> json list \<Rightarrow> answers \<Rightarrow> answers res" where
  "add_rdatas names [] as = Inr as"
| "add_rdatas names (r # rs) as = rbind (add_rdata names r as) (add_rdatas names rs)"

fun add_records :: "json list \<Rightarrow> json list \<Rightarrow> answers \<Rightarrow> answers res" where
  "add_records names [] as = Inr as"
| "add_records names (JObj ans # rs) as =
     rbind (add_rdata (names @ [jor (dget ans ''rrname'' JNull) (JStr [])]) (dget ans ''rdata'' JNull) as)
       (add_records names rs)"
| "add_records names (_ # rs) as = add_records names rs as"

definition query_names :: "jdict \<Rightarrow> json list" where
  "query_names dns =
     [jor (dget dns ''rrname'' JNull) (JStr [])]
     @ (case jor (dget dns ''queries'' JNull) (JArr []) of
          JObj q \<Rightarrow> [jor (dget q ''rrname'' JNull) (JStr [])]
        | JArr qs \<Rightarrow> concat (map (\<lambda>q. case q of JObj d \<Rightarrow> [jor (dget d ''rrname'' JNull) (JStr [])] | _ \<Rightarrow> []) qs)
        | _ \<Rightarrow> [])"

definition add_event :: "json \<Rightarrow> answers \<Rightarrow> answers res" where
  "add_event event as =
     rbind (jget event ''event_type'' JNull) (\<lambda>et.
       if et \<noteq> JStr ''dns'' then Inr as
       else rbind (jget event ''dns'' JNull) (\<lambda>v.
         case jor v (JObj []) of
           JObj dns \<Rightarrow>
             (let names = query_names dns in
              rbind (add_rdata names (dget dns ''rdata'' JNull) as) (\<lambda>as.
              rbind (jiter (jor (dget dns ''answers'' JNull) (JArr []))) (\<lambda>records.
              rbind (add_records names records as) (\<lambda>as.
                case jor (dget dns ''grouped'' JNull) (JObj []) of
                  JObj grouped \<Rightarrow>
                    rbind (jiter (jor (dget grouped ''A'' JNull) (JArr []))) (\<lambda>a.
                    rbind (add_rdatas names a as) (\<lambda>as.
                    rbind (jiter (jor (dget grouped ''AAAA'' JNull) (JArr []))) (\<lambda>aaaa.
                      add_rdatas names aaaa as)))
                | _ \<Rightarrow> Inr as))))
         | w \<Rightarrow> Inl (AttributeError w ''get'')))"

fun dns_answer_ips :: "json list \<Rightarrow> answers \<Rightarrow> answers res" where
  "dns_answer_ips [] as = Inr as"
| "dns_answer_ips (event # events) as = rbind (add_event event as) (dns_answer_ips events)"

definition home_net_names :: "suricata_config \<Rightarrow> answers \<Rightarrow> string list" where
  "home_net_names cfg as = map fst (filter (\<lambda>a. list_ex (\<lambda>ip. in_home cfg (JStr ip)) (snd a)) as)"

section \<open>Extraction\<close>

definition server_ip :: "json \<Rightarrow> json res" where
  "server_ip event =
     rbind (jget event ''direction'' JNull) (\<lambda>d.
       if d = JStr ''to_client'' then jget event ''src_ip'' JNull else jget event ''dest_ip'' JNull)"

text \<open>The IP indicators of the alert itself: \<open>MAX_IPS\<close> is two, so both fields are looked at.\<close>

definition add_ip :: "json list \<Rightarrow> json \<Rightarrow> json list" where
  "add_ip ips ip = (if truthy ip \<and> ip \<notin> set ips then ips @ [ip] else ips)"

definition alert_ips :: "json \<Rightarrow> json list res" where
  "alert_ips raw =
     rbind (jget raw ''src_ip'' JNull) (\<lambda>s.
       let ips = add_ip [] s in
       if MAX_IPS \<le> length ips then Inr ips
       else rbind (jget raw ''dest_ip'' JNull) (\<lambda>d. Inr (add_ip ips d)))"

text \<open>The name an event is about, and the server's address for \<open>http\<close> and \<open>tls\<close>.\<close>

definition dns_name :: "json \<Rightarrow> json res" where
  "dns_name dns =
     rbind (jget dns ''rrname'' JNull) (\<lambda>n.
       let dn = jor n (JStr []) in
       if truthy dn then Inr dn
       else rbind (jget dns ''queries'' JNull) (\<lambda>q.
         case jor q (JArr []) of
           JArr (q0 # _) \<Rightarrow> jget (jor q0 (JObj [])) ''rrname'' (JStr [])
         | JObj d \<Rightarrow> Inr (dget d ''rrname'' (JStr []))
         | _ \<Rightarrow> Inr dn))"

definition event_domain :: "json \<Rightarrow> (json \<times> json) res" where
  "event_domain event =
     rbind (jget event ''event_type'' JNull) (\<lambda>etype.
       if etype = JStr ''dns'' then
         rbind (jget event ''dns'' JNull) (\<lambda>v. rbind (dns_name (jor v (JObj []))) (\<lambda>dn. Inr (dn, JNull)))
       else if etype = JStr ''http'' then
         rbind (jget event ''http'' JNull) (\<lambda>v. rbind (jget (jor v (JObj [])) ''hostname'' JNull) (\<lambda>h.
           rbind (server_ip event) (\<lambda>s. Inr (jor h (JStr []), s))))
       else if etype = JStr ''tls'' then
         rbind (jget event ''tls'' JNull) (\<lambda>v. rbind (jget (jor v (JObj [])) ''sni'' JNull) (\<lambda>h.
           rbind (server_ip event) (\<lambda>s. Inr (jor h (JStr []), s))))
       else Inr (JNull, JNull))"

text \<open>The candidate tests of one event; \<open>None\<close> when the name is no candidate at all.\<close>

definition candidate :: "json \<Rightarrow> string list \<Rightarrow> string option res" where
  "candidate dn domains =
     (if \<not> truthy dn then Inr None
      else rbind (jmember ''.'' dn) (\<lambda>dot.
        if \<not> dot \<or> dn \<in> JStr ` set domains then Inr None
        else rbind (jstr ''endswith'' dn) (\<lambda>s. Inr (if endswith s ''.arpa'' then None else Some s))))"

definition internal_name :: "suricata_config option \<Rightarrow> string list \<Rightarrow> json \<Rightarrow> string \<Rightarrow> bool" where
  "internal_name config hn server s \<longleftrightarrow>
     is_internal_domain_name s \<or> bare_name s \<in> set hn \<or>
     (case config of Some cfg \<Rightarrow> truthy server \<and> in_home cfg server | None \<Rightarrow> False)"

fun scan_domains ::
  "suricata_config option \<Rightarrow> string list \<Rightarrow> json list \<Rightarrow> json list \<Rightarrow> string list \<Rightarrow> (json list \<times> string list) res" where
  "scan_domains config hn [] ips domains = Inr (ips, domains)"
| "scan_domains config hn (event # events) ips domains =
     rbind (event_domain event) (\<lambda>(dn, server).
     rbind (candidate dn domains) (\<lambda>cand.
       case cand of
         None \<Rightarrow>
           (if MAX_DOMAINS \<le> length domains then Inr (ips, domains) else scan_domains config hn events ips domains)
       | Some s \<Rightarrow>
           (if ip_address (JStr s) \<noteq> None then
              let ips = (if JStr s \<notin> set ips \<and> length ips < MAX_IPS then ips @ [JStr s] else ips) in
              if MAX_DOMAINS \<le> length domains then Inr (ips, domains) else scan_domains config hn events ips domains
            else if internal_name config hn server s then scan_domains config hn events ips domains
            else let domains = domains @ [s] in
              if MAX_DOMAINS \<le> length domains then Inr (ips, domains) else scan_domains config hn events ips domains)))"

definition extract_indicators :: "json \<Rightarrow> json list \<Rightarrow> suricata_config option \<Rightarrow> indicator list res" where
  "extract_indicators raw events config =
     rbind (case config of
              Some cfg \<Rightarrow> rbind (dns_answer_ips events []) (\<lambda>as. Inr (home_net_names cfg as))
            | None \<Rightarrow> Inr []) (\<lambda>hn.
     rbind (alert_ips raw) (\<lambda>ips.
     rbind (scan_domains config hn events ips []) (\<lambda>(ips, domains).
       Inr (map (\<lambda>ip. \<lparr>ind_type = IP, ind_value = ip\<rparr>) ips
            @ map (\<lambda>d. \<lparr>ind_type = DOMAIN, ind_value = JStr d\<rparr>) domains))))"

section \<open>What is extracted\<close>

text \<open>A name that may leave: it came from an event of the flow, is dotted, no address, no reverse name, under no internal
  suffix and resolved to no internal address, and the server of its event is not internal.\<close>

definition name_ok :: "suricata_config option \<Rightarrow> string list \<Rightarrow> json list \<Rightarrow> string \<Rightarrow> bool" where
  "name_ok config hn events s \<longleftrightarrow>
     contains ''.'' s \<and> ip_address (JStr s) = None \<and> \<not> endswith s ''.arpa'' \<and>
     (\<exists>event\<in>set events. \<exists>server. event_domain event = Inr (JStr s, server) \<and> \<not> internal_name config hn server s)"

lemma candidate_Some:
  "candidate dn domains = Inr (Some s) \<Longrightarrow> dn = JStr s \<and> contains ''.'' s \<and> s \<notin> set domains \<and> \<not> endswith s ''.arpa''"
  by (cases dn) (auto simp: candidate_def split: if_splits)

lemma name_ok_mono: "name_ok config hn events s \<Longrightarrow> name_ok config hn (e # events) s"
  by (auto simp: name_ok_def)

lemma scan_domains_ok:
  assumes "scan_domains config hn events ips domains = Inr (ips', domains')" "length ips \<le> MAX_IPS"
    and "length domains < MAX_DOMAINS" "distinct domains"
  shows "length ips' \<le> MAX_IPS \<and> length domains' \<le> MAX_DOMAINS \<and> distinct domains' \<and>
    (\<forall>s\<in>set domains' - set domains. name_ok config hn events s) \<and>
    (\<forall>ip\<in>set ips' - set ips. \<exists>s. ip = JStr s)"
  using assms
proof (induction events arbitrary: ips domains)
  case (Cons event events)
  note scan = Cons.prems
  obtain dn server where ed: "event_domain event = Inr (dn, server)" using scan(1) by auto
  obtain cand where c: "candidate dn domains = Inr cand" using scan(1) ed by auto
  have room: "\<not> MAX_DOMAINS \<le> length domains" using scan(3) by simp
  show ?case
  proof (cases cand)
    case None
    from Cons.IH [of ips domains] scan ed c None room show ?thesis by (auto dest: name_ok_mono)
  next
    case (Some s)
    note s = candidate_Some [OF c [unfolded Some]]
    let ?ips = "if JStr s \<notin> set ips \<and> length ips < MAX_IPS then ips @ [JStr s] else ips"
    consider (ip) "ip_address (JStr s) \<noteq> None" | (internal) "ip_address (JStr s) = None" "internal_name config hn server s"
      | (name) "ip_address (JStr s) = None" "\<not> internal_name config hn server s" by blast
    then show ?thesis
    proof cases
      case ip
      have "scan_domains config hn events ?ips domains = Inr (ips', domains')" "length ?ips \<le> MAX_IPS"
        using scan(1,2) ed c Some ip room by auto
      from Cons.IH [OF this scan(3,4)] show ?thesis by (auto dest: name_ok_mono split: if_splits)
    next
      case internal
      then have "scan_domains config hn events ips domains = Inr (ips', domains')" using scan(1) ed c Some by simp
      from Cons.IH [OF this scan(2-4)] show ?thesis by (auto dest: name_ok_mono)
    next
      case name
      have ok: "name_ok config hn (event # events) s" using s ed name by (auto simp: name_ok_def)
      have d: "distinct (domains @ [s])" "length (domains @ [s]) \<le> MAX_DOMAINS" using scan(3,4) s by auto
      show ?thesis
      proof (cases "MAX_DOMAINS \<le> length (domains @ [s])")
        case True
        then have "ips' = ips" "domains' = domains @ [s]" using scan(1) ed c Some name by simp_all
        with d ok scan(2) show ?thesis by auto
      next
        case False
        then have "scan_domains config hn events ips (domains @ [s]) = Inr (ips', domains')" using scan(1) ed c Some name by simp
        from Cons.IH [OF this scan(2) _ d(1)] ok False show ?thesis
          by (auto dest: name_ok_mono)
      qed
    qed
  qed
qed auto

lemma alert_ips_length: "alert_ips raw = Inr ips \<Longrightarrow> length ips \<le> MAX_IPS"
  by (auto simp: alert_ips_def add_ip_def MAX_IPS_def Let_def split: if_splits)

lemma extract_indicators_cases:
  assumes "extract_indicators raw events config = Inr inds"
  obtains hn ips domains where "inds = map (\<lambda>ip. \<lparr>ind_type = IP, ind_value = ip\<rparr>) ips
      @ map (\<lambda>d. \<lparr>ind_type = DOMAIN, ind_value = JStr d\<rparr>) domains"
    and "length ips \<le> MAX_IPS" "length domains \<le> MAX_DOMAINS" "distinct domains"
    and "\<forall>s\<in>set domains. name_ok config hn events s"
    and "case config of Some cfg \<Rightarrow> (\<exists>as. dns_answer_ips events [] = Inr as \<and> hn = home_net_names cfg as) | None \<Rightarrow> hn = []"
proof -
  obtain hn ips ips' domains where *: "alert_ips raw = Inr ips" "scan_domains config hn events ips [] = Inr (ips', domains)"
      "inds = map (\<lambda>ip. \<lparr>ind_type = IP, ind_value = ip\<rparr>) ips' @ map (\<lambda>d. \<lparr>ind_type = DOMAIN, ind_value = JStr d\<rparr>) domains"
      "case config of Some cfg \<Rightarrow> (\<exists>as. dns_answer_ips events [] = Inr as \<and> hn = home_net_names cfg as) | None \<Rightarrow> hn = []"
    using assms by (auto simp: extract_indicators_def split: option.splits)
  from scan_domains_ok [OF *(2) alert_ips_length [OF *(1)]] show ?thesis
    by (intro that [OF *(3) _ _ _ _ *(4)]) (auto simp: MAX_DOMAINS_def)
qed

section \<open>Names that resolve to internal addresses\<close>

definition answered :: "answers \<Rightarrow> string \<Rightarrow> string \<Rightarrow> bool" where
  "answered as name ip \<longleftrightarrow> (\<exists>ips. map_of as name = Some ips \<and> ip \<in> set ips)"

lemma answered_add [simp]: "answered (add_answer n r as) name ip \<longleftrightarrow> n = name \<and> r = ip \<or> answered as name ip"
  by (auto simp: answered_def add_answer_def split: option.splits)

lemma add_names_mono: "add_names names r as = Inr as' \<Longrightarrow> answered as name ip \<Longrightarrow> answered as' name ip"
  by (induction names r as rule: add_names.induct) (auto split: if_splits)

lemma add_names_hit:
  "add_names names r as = Inr as' \<Longrightarrow> JStr n \<in> set names \<Longrightarrow> n \<noteq> [] \<Longrightarrow> answered as' (bare_name n) r"
proof (induction names r as rule: add_names.induct)
  case (2 m names r as)
  then show ?case using add_names_mono [of names r "add_answer (bare_name n) r as" as'] by (auto split: if_splits)
qed simp

lemma add_rdata_mono: "add_rdata names r as = Inr as' \<Longrightarrow> answered as name ip \<Longrightarrow> answered as' name ip"
  by (auto simp: add_rdata_def add_names_mono split: json.splits if_splits)

lemma add_rdata_hit:
  "add_rdata names (JStr ip) as = Inr as' \<Longrightarrow> ip_address (JStr ip) \<noteq> None \<Longrightarrow> JStr n \<in> set names \<Longrightarrow> n \<noteq> [] \<Longrightarrow>
   answered as' (bare_name n) ip"
  by (auto simp: add_rdata_def add_names_hit)

lemma add_rdatas_mono: "add_rdatas names rs as = Inr as' \<Longrightarrow> answered as name ip \<Longrightarrow> answered as' name ip"
  by (induction rs arbitrary: as) (auto dest: add_rdata_mono)

lemma add_rdatas_hit:
  "add_rdatas names rs as = Inr as' \<Longrightarrow> JStr ip \<in> set rs \<Longrightarrow> ip_address (JStr ip) \<noteq> None \<Longrightarrow> JStr n \<in> set names \<Longrightarrow>
   n \<noteq> [] \<Longrightarrow> answered as' (bare_name n) ip"
  by (induction rs arbitrary: as) (auto intro: add_rdatas_mono dest: add_rdata_hit)

lemma add_records_mono: "add_records names rs as = Inr as' \<Longrightarrow> answered as name ip \<Longrightarrow> answered as' name ip"
proof (induction rs arbitrary: as)
  case (Cons r rs)
  then show ?case by (cases r) (auto dest: add_rdata_mono)
qed simp

lemma add_records_hit:
  "add_records names rs as = Inr as' \<Longrightarrow> JObj r \<in> set rs \<Longrightarrow> map_of r ''rdata'' = Some (JStr ip) \<Longrightarrow>
   ip_address (JStr ip) \<noteq> None \<Longrightarrow> JStr n \<in> set names \<or> map_of r ''rrname'' = Some (JStr n) \<Longrightarrow> n \<noteq> [] \<Longrightarrow>
   answered as' (bare_name n) ip"
proof (induction rs arbitrary: as)
  case (Cons q rs)
  show ?case
  proof (cases "q = JObj r")
    case True
    then obtain as1 where "add_rdata (names @ [jor (dget r ''rrname'' JNull) (JStr [])]) (JStr ip) as = Inr as1"
      "add_records names rs as1 = Inr as'" using Cons.prems(1,3) by auto
    moreover have "JStr n \<in> set (names @ [jor (dget r ''rrname'' JNull) (JStr [])])" using Cons.prems(5,6) by auto
    ultimately show ?thesis using Cons.prems(4,6) by (blast intro: add_records_mono dest: add_rdata_hit)
  next
    case False
    with Cons show ?thesis by (cases q) auto
  qed
qed simp

text \<open>The DNS events of a flow say that a name has an address, in any of the shapes Suricata writes: under the query's
  name the record itself, a list of answers or the grouped form; or under an answer's own name.\<close>

definition says_query :: "jdict \<Rightarrow> string \<Rightarrow> bool" where
  "says_query d ip \<longleftrightarrow>
     map_of d ''rdata'' = Some (JStr ip) \<or>
     (\<exists>rs r. map_of d ''answers'' = Some (JArr rs) \<and> JObj r \<in> set rs \<and> map_of r ''rdata'' = Some (JStr ip)) \<or>
     (\<exists>g xs. map_of d ''grouped'' = Some (JObj g) \<and> JStr ip \<in> set xs \<and>
        (map_of g ''A'' = Some (JArr xs) \<or> map_of g ''AAAA'' = Some (JArr xs)))"

definition says_answer :: "jdict \<Rightarrow> string \<Rightarrow> string \<Rightarrow> bool" where
  "says_answer d name ip \<longleftrightarrow>
     (\<exists>rs r. map_of d ''answers'' = Some (JArr rs) \<and> JObj r \<in> set rs \<and> map_of r ''rdata'' = Some (JStr ip) \<and>
        map_of r ''rrname'' = Some (JStr name))"

definition dns_says :: "json \<Rightarrow> string \<Rightarrow> string \<Rightarrow> bool" where
  "dns_says event name ip \<longleftrightarrow>
     (\<exists>e d. event = JObj e \<and> map_of e ''event_type'' = Some (JStr ''dns'') \<and> map_of e ''dns'' = Some (JObj d) \<and> name \<noteq> [] \<and>
        (JStr name \<in> set (query_names d) \<and> says_query d ip \<or> says_answer d name ip))"

lemma add_event_stages:
  assumes "add_event event as = Inr as'" "jget event ''event_type'' JNull = Inr (JStr ''dns'')"
    and "jget event ''dns'' JNull = Inr v" "jor v (JObj []) = JObj d"
  obtains as1 records as2 where "add_rdata (query_names d) (dget d ''rdata'' JNull) as = Inr as1"
    and "jiter (jor (dget d ''answers'' JNull) (JArr [])) = Inr records"
    and "add_records (query_names d) records as1 = Inr as2"
    and "\<And>g. jor (dget d ''grouped'' JNull) (JObj []) = JObj g \<Longrightarrow>
      \<exists>a as3 aaaa. jiter (jor (dget g ''A'' JNull) (JArr [])) = Inr a \<and> add_rdatas (query_names d) a as2 = Inr as3 \<and>
        jiter (jor (dget g ''AAAA'' JNull) (JArr [])) = Inr aaaa \<and> add_rdatas (query_names d) aaaa as3 = Inr as'"
    and "\<And>name ip. answered as2 name ip \<Longrightarrow> answered as' name ip"
proof -
  obtain as1 records as2 where *: "add_rdata (query_names d) (dget d ''rdata'' JNull) as = Inr as1"
      "jiter (jor (dget d ''answers'' JNull) (JArr [])) = Inr records" "add_records (query_names d) records as1 = Inr as2"
      and rest: "(case jor (dget d ''grouped'' JNull) (JObj []) of
         JObj grouped \<Rightarrow>
           rbind (jiter (jor (dget grouped ''A'' JNull) (JArr []))) (\<lambda>a.
           rbind (add_rdatas (query_names d) a as2) (\<lambda>as.
           rbind (jiter (jor (dget grouped ''AAAA'' JNull) (JArr []))) (\<lambda>aaaa. add_rdatas (query_names d) aaaa as)))
       | _ \<Rightarrow> Inr as2) = Inr as'"
    using assms by (auto simp: add_event_def Let_def)
  have "answered as' name ip" if "answered as2 name ip" for name ip
    using rest that by (auto dest: add_rdatas_mono split: json.splits)
  with * rest show ?thesis by (intro that [OF *]) auto
qed

lemma add_event_hit:
  assumes "add_event event as = Inr as'" "dns_says event name ip" "ip_address (JStr ip) \<noteq> None"
  shows "answered as' (bare_name name) ip"
proof -
  obtain e d where e: "event = JObj e" "map_of e ''event_type'' = Some (JStr ''dns'')" "map_of e ''dns'' = Some (JObj d)"
      "name \<noteq> []" and says: "JStr name \<in> set (query_names d) \<and> says_query d ip \<or> says_answer d name ip"
    using assms(2) by (auto simp: dns_says_def)
  have ev: "jget event ''event_type'' JNull = Inr (JStr ''dns'')" "jget event ''dns'' JNull = Inr (JObj d)"
      "jor (JObj d) (JObj []) = JObj d"
    using e(1-3) by (simp_all add: jor_def)
  obtain as1 records as2 where st: "add_rdata (query_names d) (dget d ''rdata'' JNull) as = Inr as1"
      "jiter (jor (dget d ''answers'' JNull) (JArr [])) = Inr records" "add_records (query_names d) records as1 = Inr as2"
      and grouped: "\<And>g. jor (dget d ''grouped'' JNull) (JObj []) = JObj g \<Longrightarrow>
      \<exists>a as3 aaaa. jiter (jor (dget g ''A'' JNull) (JArr [])) = Inr a \<and> add_rdatas (query_names d) a as2 = Inr as3 \<and>
        jiter (jor (dget g ''AAAA'' JNull) (JArr [])) = Inr aaaa \<and> add_rdatas (query_names d) aaaa as3 = Inr as'"
      and mono: "\<And>name ip. answered as2 name ip \<Longrightarrow> answered as' name ip"
    using add_event_stages [OF assms(1) ev] by blast
  have recs: "answered as' (bare_name name) ip"
    if "map_of d ''answers'' = Some (JArr rs)" "JObj r \<in> set rs" "map_of r ''rdata'' = Some (JStr ip)"
      "JStr name \<in> set (query_names d) \<or> map_of r ''rrname'' = Some (JStr name)" for rs r
    using that st(2) add_records_hit [OF st(3) _ that(3) assms(3) that(4) e(4)] mono by (auto simp: jor_def split: if_splits)
  have "answered as' (bare_name name) ip" if "JStr name \<in> set (query_names d)" "map_of d ''grouped'' = Some (JObj g)"
      "JStr ip \<in> set xs" "map_of g ''A'' = Some (JArr xs) \<or> map_of g ''AAAA'' = Some (JArr xs)" for g xs
  proof -
    note g = that
    have xs: "jiter (jor (JArr xs) (JArr [])) = Inr xs" by (simp add: jor_def)
    have "jor (JObj g) (JObj []) = JObj g" by (simp add: jor_def)
    then obtain a as3 aaaa where *: "jiter (jor (dget g ''A'' JNull) (JArr [])) = Inr a" "add_rdatas (query_names d) a as2 = Inr as3"
        "jiter (jor (dget g ''AAAA'' JNull) (JArr [])) = Inr aaaa" "add_rdatas (query_names d) aaaa as3 = Inr as'"
      using grouped [of g] g(2) by auto
    then have "a = xs \<or> aaaa = xs" using g(4) xs by auto
    then show ?thesis
      using add_rdatas_hit [OF *(2) _ assms(3) g(1) e(4)] add_rdatas_mono [OF *(4)]
        add_rdatas_hit [OF *(4) _ assms(3) g(1) e(4)] g(3) by blast
  qed
  moreover have "answered as' (bare_name name) ip" if "JStr name \<in> set (query_names d)" "map_of d ''rdata'' = Some (JStr ip)"
    using that st(1) add_rdata_hit [OF _ assms(3) that(1) e(4)] add_records_mono [OF st(3)] mono by simp
  ultimately show ?thesis using says recs unfolding says_query_def says_answer_def by blast
qed

lemma add_event_mono:
  assumes "add_event event as = Inr as'" "answered as name ip"
  shows "answered as' name ip"
proof (cases "jget event ''event_type'' JNull = Inr (JStr ''dns'')")
  case True
  then obtain v where v: "jget event ''dns'' JNull = Inr v" using assms(1) by (auto simp: add_event_def)
  then obtain d where "jor v (JObj []) = JObj d"
    using assms(1) True by (cases "jor v (JObj [])") (auto simp: add_event_def)
  from add_event_stages [OF assms(1) True v this] show ?thesis
    using assms(2) add_rdata_mono add_records_mono by metis
next
  case False
  with assms show ?thesis by (auto simp: add_event_def split: if_splits)
qed

lemma dns_answer_ips_mono: "dns_answer_ips events as = Inr as' \<Longrightarrow> answered as name ip \<Longrightarrow> answered as' name ip"
  by (induction events arbitrary: as) (auto dest: add_event_mono)

lemma dns_answer_ips_hit:
  "dns_answer_ips events as = Inr as' \<Longrightarrow> event \<in> set events \<Longrightarrow> dns_says event name ip \<Longrightarrow> ip_address (JStr ip) \<noteq> None \<Longrightarrow>
   answered as' (bare_name name) ip"
  by (induction events arbitrary: as) (auto dest: add_event_hit dns_answer_ips_mono)

lemma home_net_names_hit: "answered as name ip \<Longrightarrow> in_home cfg (JStr ip) \<Longrightarrow> name \<in> set (home_net_names cfg as)"
  by (force simp: answered_def home_net_names_def list_ex_iff dest: map_of_SomeD)

lemma in_home_address: "in_home cfg ip \<Longrightarrow> ip_address ip \<noteq> None"
  by (cases "ip_address ip") (auto simp: in_home_def membership_for_ip_def)

text \<open>A name with no sign of being internal: not an address, not under an internal-only suffix, no DNS event of the flow
  gives it an address of HOME_NET (under its query name or an answer's name, up to case and trailing dots), and some event
  it comes from has no server in HOME_NET.\<close>

definition external_name :: "suricata_config \<Rightarrow> json list \<Rightarrow> string \<Rightarrow> bool" where
  "external_name cfg events s \<longleftrightarrow>
     ip_address (JStr s) = None \<and> \<not> is_internal_domain_name s \<and>
     (\<forall>event\<in>set events. \<forall>name ip. dns_says event name ip \<and> bare_name name = bare_name s \<longrightarrow> \<not> in_home cfg (JStr ip)) \<and>
     (\<exists>event\<in>set events. \<exists>server. event_domain event = Inr (JStr s, server) \<and> \<not> (truthy server \<and> in_home cfg server))"

lemma extracted_indicators:
  assumes "extract_indicators raw events (Some cfg) = Inr inds"
  shows "length (filter (\<lambda>i. ind_type i = IP) inds) \<le> MAX_IPS" "length (filter (\<lambda>i. ind_type i = DOMAIN) inds) \<le> MAX_DOMAINS"
    "length inds \<le> MAX_IPS + MAX_DOMAINS"
    "i \<in> set inds \<Longrightarrow> ind_type i = IP \<or> ind_type i = DOMAIN \<and> (\<exists>s. ind_value i = JStr s \<and> external_name cfg events s)"
proof -
  from assms obtain hn ips domains as where i: "inds = map (\<lambda>ip. \<lparr>ind_type = IP, ind_value = ip\<rparr>) ips
      @ map (\<lambda>d. \<lparr>ind_type = DOMAIN, ind_value = JStr d\<rparr>) domains" "length ips \<le> MAX_IPS" "length domains \<le> MAX_DOMAINS"
    and ok: "\<forall>s\<in>set domains. name_ok (Some cfg) hn events s" and a: "dns_answer_ips events [] = Inr as" "hn = home_net_names cfg as"
    by (elim extract_indicators_cases) auto
  have home: "\<not> in_home cfg (JStr ip)" if "s \<in> set domains" "event \<in> set events" "dns_says event name ip"
      "bare_name name = bare_name s" for s event name ip
  proof
    assume h: "in_home cfg (JStr ip)"
    from home_net_names_hit [OF dns_answer_ips_hit [OF a(1) that(2,3) in_home_address [OF h]] h]
    show False using that(1,4) ok a(2) by (auto simp: name_ok_def internal_name_def)
  qed
  have "ip_address (JStr s) = None \<and> \<not> is_internal_domain_name s \<and>
      (\<exists>event\<in>set events. \<exists>server. event_domain event = Inr (JStr s, server) \<and> \<not> (truthy server \<and> in_home cfg server))"
    if "s \<in> set domains" for s
    using bspec [OF ok that] unfolding name_ok_def internal_name_def by (simp del: ip_address.simps) blast
  with home have ext: "external_name cfg events s" if "s \<in> set domains" for s
    using that unfolding external_name_def by blast
  show "length (filter (\<lambda>i. ind_type i = IP) inds) \<le> MAX_IPS" "length (filter (\<lambda>i. ind_type i = DOMAIN) inds) \<le> MAX_DOMAINS"
    "length inds \<le> MAX_IPS + MAX_DOMAINS"
    using i by (simp_all add: filter_map o_def)
  show "ind_type i = IP \<or> ind_type i = DOMAIN \<and> (\<exists>s. ind_value i = JStr s \<and> external_name cfg events s)" if "i \<in> set inds"
    using that i(1) ext by auto
qed


definition sample_flow :: "json list" where
  "sample_flow =
     [JObj [(''event_type'', JStr ''dns''), (''dns'', JObj [(''rrname'', JStr ''intra.example.com''), (''rdata'', JStr ''10.0.0.9'')])],
      JObj [(''event_type'', JStr ''tls''), (''dest_ip'', JStr ''8.8.8.8''), (''tls'', JObj [(''sni'', JStr ''evil.example.net'')])],
      JObj [(''event_type'', JStr ''http''), (''dest_ip'', JStr ''10.0.0.7''), (''http'', JObj [(''hostname'', JStr ''wiki.example.com'')])]]"

lemma sample_flow_indicators:
  "extract_indicators (JObj [(''src_ip'', JStr ''10.0.0.5''), (''dest_ip'', JStr ''8.8.8.8'')]) sample_flow (Some home_config) =
    Inr [\<lparr>ind_type = IP, ind_value = JStr ''10.0.0.5''\<rparr>, \<lparr>ind_type = IP, ind_value = JStr ''8.8.8.8''\<rparr>,
         \<lparr>ind_type = DOMAIN, ind_value = JStr ''evil.example.net''\<rparr>]"
  by code_simp


text \<open>A reverse-lookup name is recognised only in lower case and without a trailing dot, although the other comparisons
  ignore both: the name of an internal address written as a fully qualified name is extracted.\<close>

lemma reverse_name_extracted:
  "extract_indicators (JObj []) [JObj [(''event_type'', JStr ''dns''), (''dns'', JObj [(''rrname'', JStr ''9.0.0.10.in-addr.arpa.'')])]]
     (Some home_config) = Inr [\<lparr>ind_type = DOMAIN, ind_value = JStr ''9.0.0.10.in-addr.arpa.''\<rparr>]"
  by code_simp

text \<open>The shared address space is recognised as IPv4 only: written as an IPv4-mapped IPv6 address it counts as public.
  The same holds for HOME_NET.\<close>

lemma mapped_cgnat_public:
  "is_public_ip (JStr ''100.64.0.1'') None = False \<and> is_public_ip (JStr ''::ffff:100.64.0.1'') None = True"
  by code_simp

end
