(* ===== verification/Virustotal.thy ===== *)
theory Virustotal
  imports Enrichment
begin

text \<open>
  The VirusTotal client of \<open>src/enrichment/virustotal/client.py\<close>: cache, then live query through the circuit breaker,
  then a stale copy of the last answer. It works with any cache of the protocol (\<open>cget\<close>, \<open>cset\<close>). Two readings of the
  wall clock are made: \<open>w0\<close> before and \<open>w1\<close> after the query; \<open>m0\<close> and \<open>m1\<close> are the breaker's readings. The list
  of URLs requested so far is part of the state. The rate limiter only delays a request (theory Rate\_Limiter).
\<close>

record vt_env =
  vt_api_key :: string
  vt_fixture :: "(string \<Rightarrow> string \<Rightarrow> json option) option"
  vt_http :: "string \<Rightarrow> http_result"
  vt_cache_ttl :: int

record vt_times =
  w0 :: nat
  w1 :: nat
  m0 :: rat
  m1 :: rat
  utc :: instant

record 'c vt_state =
  vt_cache :: 'c
  vt_cb :: breaker
  vt_requests :: "string list"

definition VTAuthError :: exn where
  "VTAuthError = Exn ''_VTAuthError'' ''Invalid VT API key (401)'' None"

definition VTRateLimit :: exn where
  "VTRateLimit = Exn ''_VTRateLimit'' ''VT rate limit (429)'' None"

definition VTTransportError :: "string \<Rightarrow> exn" where
  "VTTransportError m = Exn ''_VTTransportError'' m None"

definition endpoint_url :: "indicator \<Rightarrow> string" where
  "endpoint_url ind =
     (if ind_type ind = IP then ''https://www.virustotal.com/api/v3/ip_addresses/'' @ py_str (ind_value ind)
      else ''https://www.virustotal.com/api/v3/domains/'' @ py_str (ind_value ind))"

section \<open>The response\<close>

text \<open>Addition of counts: integers and booleans; anything else is a \<open>TypeError\<close>. (Counts that are JSON floats, which
  VirusTotal does not send, are treated like other non-integers.)\<close>

fun count_of :: "json \<Rightarrow> int res" where
  "count_of (JInt i) = Inr i"
| "count_of (JBool b) = Inr (if b then 1 else 0)"
| "count_of v = Inl (TypeError ''unsupported operand type(s) for +'')"

fun sum_counts :: "json list \<Rightarrow> int res" where
  "sum_counts [] = Inr 0"
| "sum_counts (v # vs) = rbind (count_of v) (\<lambda>i. rbind (sum_counts vs) (\<lambda>j. Inr (i + j)))"

definition vt_stats :: "json \<Rightarrow> (jdict \<times> string) res" where
  "vt_stats raw =
     rbind (jindex raw ''data'') (\<lambda>dat.
     rbind (jindex dat ''attributes'') (\<lambda>attrs.
     rbind (jget attrs ''last_analysis_stats'' (JObj [])) (\<lambda>stats.
     rbind (jget stats ''malicious'' (JInt 0)) (\<lambda>malicious.
     rbind (jget stats ''suspicious'' (JInt 0)) (\<lambda>suspicious.
     rbind (case stats of JObj d \<Rightarrow> sum_counts (map snd d) | _ \<Rightarrow> Inr 0) (\<lambda>total.
     rbind (jget attrs ''reputation'' JNull) (\<lambda>reputation.
     rbind (count_of malicious) (\<lambda>m.
     rbind (count_of suspicious) (\<lambda>su.
       Inr ([(''malicious_count'', malicious), (''suspicious_count'', suspicious), (''total_engines'', JInt total),
             (''reputation'', reputation), (''last_analysis_stats'', stats)],
            if total > 0 then show_int (m + su) @ ''/'' @ show_int total @ '' vendors flagged''
            else ''No detections''))))))))))"

text \<open>\<open>except (KeyError, TypeError)\<close>: an \<open>AttributeError\<close> is not caught.\<close>

definition parse_vt_response :: "instant \<Rightarrow> json \<Rightarrow> bool \<Rightarrow> json \<Rightarrow> enrichment_result res" where
  "parse_vt_response now raw cached age =
     rbind (jget raw ''_not_found'' JNull) (\<lambda>nf.
       if truthy nf
       then Inr (contributed now ''virustotal''
              [(''malicious_count'', JInt 0), (''total_engines'', JInt 0), (''not_in_database'', JBool True)]
              ''Not in VT database'' cached age)
       else case vt_stats raw of
              Inr (data, summary) \<Rightarrow> Inr (contributed now ''virustotal'' data summary cached age)
            | Inl e \<Rightarrow>
                (if qualname e = ''KeyError'' \<or> qualname e = ''TypeError''
                 then Inr (failing now ''virustotal'' MALFORMED_RESPONSE ''Unexpected VT API response structure'')
                 else Inl e))"

section \<open>The lookup\<close>

definition vt_fetch :: "vt_env \<Rightarrow> indicator \<Rightarrow> string list \<Rightarrow> json res \<times> string list" where
  "vt_fetch env ind reqs =
     (case vt_fixture env of
        Some loader \<Rightarrow>
          (Inr (case loader (type_value (ind_type ind)) (py_str (ind_value ind)) of
                  Some r \<Rightarrow> r
                | None \<Rightarrow> JObj [(''_not_found'', JBool True)]), reqs)
      | None \<Rightarrow>
          (let url = endpoint_url ind; reqs = reqs @ [url]
           in case vt_http env url of
                HttpExn e \<Rightarrow>
                  (if contains ''Timeout'' (qualname e) then (Inl (VTTransportError (''timeout: '' @ exn_msg e)), reqs)
                   else if contains ''NetworkError'' (qualname e) \<or> contains ''ConnectError'' (qualname e)
                        \<or> contains ''RemoteProtocol'' (qualname e)
                   then (Inl (VTTransportError (''network error: '' @ exn_msg e)), reqs)
                   else (Inl e, reqs))
              | HttpResp code body \<Rightarrow>
                  (if code = 401 then (Inl VTAuthError, reqs)
                   else if code = 429 then (Inl VTRateLimit, reqs)
                   else if code = 404 then (Inr (JObj [(''_not_found'', JBool True)]), reqs)
                   else (rbind (raise_for_status code) (\<lambda>_. body), reqs))))"

definition vt_cached ::
  "(rat \<Rightarrow> string \<Rightarrow> 'c \<Rightarrow> json option \<times> 'c) \<Rightarrow> instant \<Rightarrow> nat \<Rightarrow> string \<Rightarrow> 'c vt_state \<Rightarrow>
   enrichment_result res option \<times> 'c vt_state" where
  "vt_cached cget now w key st =
     (case cget (of_nat w / 1000000) key (vt_cache st) of
        (None, c) \<Rightarrow> (None, st\<lparr>vt_cache := c\<rparr>)
      | (Some entry, c) \<Rightarrow>
          (Some (rbind (jget entry ''_fetched_at'' (JFloat ''0.0'')) (\<lambda>t.
                 rbind (jindex entry ''response'') (\<lambda>response.
                   parse_vt_response now response True (JInt (age_seconds w t))))),
           st\<lparr>vt_cache := c\<rparr>))"

definition serve_stale_or_failing ::
  "(rat \<Rightarrow> string \<Rightarrow> 'c \<Rightarrow> json option \<times> 'c) \<Rightarrow> vt_times \<Rightarrow> string \<Rightarrow> failure_reason \<Rightarrow> string \<Rightarrow> 'c vt_state \<Rightarrow>
   enrichment_result res \<times> 'c vt_state" where
  "serve_stale_or_failing cget tm key reason detail st =
     (case vt_cached cget (utc tm) (w1 tm) (key @ '':stale'') st of
        (Some r, st') \<Rightarrow> (r, st')
      | (None, st') \<Rightarrow> (Inr (failing (utc tm) ''virustotal'' reason detail), st'))"

definition vt_failed ::
  "(rat \<Rightarrow> string \<Rightarrow> 'c \<Rightarrow> json option \<times> 'c) \<Rightarrow> vt_times \<Rightarrow> string \<Rightarrow> exn \<Rightarrow> 'c vt_state \<Rightarrow> enrichment_result res \<times> 'c vt_state" where
  "vt_failed cget tm key e st =
     (if qualname e = ''CircuitBreakerOpen''
        then serve_stale_or_failing cget tm key CIRCUIT_BREAKER_OPEN
          (''Circuit breaker open '' @ emdash @ '' VT temporarily unavailable'') st
      else if qualname e = ''_VTAuthError''
        then (Inr (failing (utc tm) ''virustotal'' AUTH_FAILED (exn_msg e)), st)
      else if qualname e = ''_VTRateLimit''
        then serve_stale_or_failing cget tm key RATE_LIMITED ''VT rate limit hit'' st
      else if qualname e = ''_VTTransportError''
        then serve_stale_or_failing cget tm key
          (if contains ''timeout'' (lower (exn_msg e)) then TIMEOUT else NETWORK_ERROR) (exn_msg e) st
      else serve_stale_or_failing cget tm key OTHER (exn_msg e) st)"

definition vt_entry :: "json \<Rightarrow> nat \<Rightarrow> json" where
  "vt_entry raw w = JObj [(''response'', raw), (''_fetched_at'', time_json w)]"

definition vt_store :: "(rat \<Rightarrow> string \<Rightarrow> json \<Rightarrow> int \<Rightarrow> 'c \<Rightarrow> 'c) \<Rightarrow> nat \<Rightarrow> string \<Rightarrow> json \<Rightarrow> int \<Rightarrow> 'c \<Rightarrow> 'c" where
  "vt_store cset w key raw ttl c =
     cset (of_nat w / 1000000) (key @ '':stale'') (vt_entry raw w) (ttl * 7)
       (cset (of_nat w / 1000000) key (vt_entry raw w) ttl c)"

definition vt_live ::
  "(rat \<Rightarrow> string \<Rightarrow> 'c \<Rightarrow> json option \<times> 'c) \<Rightarrow> (rat \<Rightarrow> string \<Rightarrow> json \<Rightarrow> int \<Rightarrow> 'c \<Rightarrow> 'c) \<Rightarrow> vt_env \<Rightarrow> vt_times \<Rightarrow>
   indicator \<Rightarrow> string \<Rightarrow> 'c vt_state \<Rightarrow> enrichment_result res \<times> 'c vt_state" where
  "vt_live cget cset env tm ind key st =
     (let (out, cb, reqs) = cb_call (m0 tm) (m1 tm) (vt_fetch env ind) (vt_cb st) (vt_requests st);
          st = st\<lparr>vt_cb := cb, vt_requests := reqs\<rparr>
      in case out of
           Inl e \<Rightarrow> vt_failed cget tm key e st
         | Inr raw \<Rightarrow>
             (parse_vt_response (utc tm) raw False JNull, st\<lparr>vt_cache := vt_store cset (w1 tm) key raw (vt_cache_ttl env) (vt_cache st)\<rparr>))"

definition vt_lookup ::
  "(rat \<Rightarrow> string \<Rightarrow> 'c \<Rightarrow> json option \<times> 'c) \<Rightarrow> (rat \<Rightarrow> string \<Rightarrow> json \<Rightarrow> int \<Rightarrow> 'c \<Rightarrow> 'c) \<Rightarrow> vt_env \<Rightarrow> vt_times \<Rightarrow>
   indicator \<Rightarrow> 'c vt_state \<Rightarrow> enrichment_result res \<times> 'c vt_state" where
  "vt_lookup cget cset env tm ind st =
     (if vt_api_key env = [] \<and> vt_fixture env = None then (Inr (not_configured (utc tm) ''virustotal''), st)
      else if ind_type ind \<noteq> IP \<and> ind_type ind \<noteq> DOMAIN then (Inr (not_configured (utc tm) ''virustotal''), st)
      else let key = ''vt:'' @ cache_key_suffix ind
           in case vt_cached cget (utc tm) (w0 tm) key st of
                (Some r, st') \<Rightarrow> (r, st')
              | (None, st') \<Rightarrow> vt_live cget cset env tm ind key st')"

section \<open>The provider contract\<close>

lemma parse_vt_ok: "parse_vt_response now raw cached age = Inr r \<Longrightarrow> result_ok r \<and> r_source r = ''virustotal''"
  by (auto simp: parse_vt_response_def split: if_splits sum.splits prod.splits)

lemma vt_cached_ok: "vt_cached cget now w key st = (Some (Inr r), st') \<Longrightarrow> result_ok r \<and> r_source r = ''virustotal''"
  by (auto simp: vt_cached_def parse_vt_ok split: prod.splits option.splits)

lemma serve_stale_ok:
  "serve_stale_or_failing cget tm key reason detail st = (Inr r, st') \<Longrightarrow> result_ok r \<and> r_source r = ''virustotal''"
  by (auto simp: serve_stale_or_failing_def dest: vt_cached_ok split: prod.splits option.splits)

lemma vt_failed_ok: "vt_failed cget tm key e st = (Inr r, st') \<Longrightarrow> result_ok r \<and> r_source r = ''virustotal''"
  by (auto simp: vt_failed_def dest: serve_stale_ok split: if_splits)

lemma vt_live_ok: "vt_live cget cset env tm ind key st = (Inr r, st') \<Longrightarrow> result_ok r \<and> r_source r = ''virustotal''"
  by (auto simp: vt_live_def Let_def dest: vt_failed_ok parse_vt_ok split: prod.splits sum.splits)

lemma vt_lookup_ok: "vt_lookup cget cset env tm ind st = (Inr r, st') \<Longrightarrow> result_ok r \<and> r_source r = ''virustotal''"
  by (auto simp: vt_lookup_def Let_def dest: vt_cached_ok vt_live_ok split: if_splits prod.splits option.splits)

interpretation vt: threat_intel "vt_lookup cget cset env tm" "''virustotal''" for cget cset env tm
  by unfold_locales (auto dest: vt_lookup_ok)

section \<open>Requests\<close>

lemma vt_fetch_requests: "snd (vt_fetch env ind reqs) \<in> {reqs, reqs @ [endpoint_url ind]}"
  by (auto simp: vt_fetch_def Let_def split: option.splits http_result.splits)

lemma cb_call_requests:
  "cb_call t0 t1 (vt_fetch env ind) cb reqs = (out, cb', reqs') \<Longrightarrow> reqs' \<in> {reqs, reqs @ [endpoint_url ind]}"
  using vt_fetch_requests [of env ind reqs]
  by (auto simp: cb_call_def split: prod.splits option.splits sum.splits)

lemma vt_cached_requests: "vt_requests (snd (vt_cached cget now w key st)) = vt_requests st"
  by (simp add: vt_cached_def split: prod.splits option.splits)

lemma serve_stale_requests: "vt_requests (snd (serve_stale_or_failing cget tm key reason detail st)) = vt_requests st"
  using vt_cached_requests [of cget "utc tm" "w1 tm" "key @ '':stale''" st]
  by (auto simp: serve_stale_or_failing_def split: prod.splits option.splits)

lemma vt_failed_requests: "vt_requests (snd (vt_failed cget tm key e st)) = vt_requests st"
  by (simp add: vt_failed_def serve_stale_requests)

lemma vt_live_requests:
  "vt_requests (snd (vt_live cget cset env tm ind key st)) \<in> {vt_requests st, vt_requests st @ [endpoint_url ind]}"
proof -
  obtain out cb reqs where c: "cb_call (m0 tm) (m1 tm) (vt_fetch env ind) (vt_cb st) (vt_requests st) = (out, cb, reqs)"
    by (metis prod_cases3)
  have "vt_requests (snd (vt_live cget cset env tm ind key st)) = reqs"
    by (cases out) (simp_all add: vt_live_def c vt_failed_requests Let_def)
  with cb_call_requests [OF c] show ?thesis by simp
qed

lemma vt_lookup_requests:
  "vt_requests (snd (vt_lookup cget cset env tm ind st)) \<in> {vt_requests st, vt_requests st @ [endpoint_url ind]}"
proof (cases "vt_cached cget (utc tm) (w0 tm) (''vt:'' @ cache_key_suffix ind) st")
  case (Pair o' st')
  then have "vt_requests st' = vt_requests st"
    using vt_cached_requests [of cget "utc tm" "w0 tm" "''vt:'' @ cache_key_suffix ind" st] by simp
  with Pair show ?thesis
    using vt_live_requests [of cget cset env tm ind "''vt:'' @ cache_key_suffix ind" st']
    by (cases o') (simp_all add: vt_lookup_def Let_def)
qed

section \<open>Caching\<close>

text \<open>What the cache of a successful live query answers later, for any implementation of the protocol.\<close>

lemma jwf_vt_entry: "jwf raw \<Longrightarrow> jwf (vt_entry raw w)"
  by (simp add: vt_entry_def)

lemma vt_live_success:
  assumes "cb_call (m0 tm) (m1 tm) (vt_fetch env ind) (vt_cb st) (vt_requests st) = (Inr raw, cb, reqs)"
  shows "vt_live cget cset env tm ind key st =
    (parse_vt_response (utc tm) raw False JNull,
     \<lparr>vt_cache = vt_store cset (w1 tm) key raw (vt_cache_ttl env) (vt_cache st), vt_cb = cb, vt_requests = reqs\<rparr>)"
  using assms by (cases st) (simp add: vt_live_def Let_def)

lemma vt_cached_hit:
  assumes "cget (of_nat w / 1000000) key (vt_cache st) = (Some (vt_entry raw w'), c)"
  shows "vt_cached cget now w key st =
    (Some (parse_vt_response now raw True (JInt (age_seconds w (time_json w')))), st\<lparr>vt_cache := c\<rparr>)"
  using assms by (simp add: vt_cached_def vt_entry_def)

context ttl_cache
begin

lemma vt_primary_hit:
  assumes "cinv c" "jwf raw" "of_nat w' / 1000000 \<le> of_nat w / 1000000 + (of_int ttl :: rat)"
  shows "fst (cget (of_nat w' / 1000000) key (vt_store cset w key raw ttl c)) = Some (vt_entry raw w)"
  unfolding vt_store_def
  by (rule get_set_frame [OF assms(1) jwf_vt_entry [OF assms(2)] _ assms(3)]) (simp_all add: vt_entry_def)

lemma vt_stale_hit:
  assumes "cinv c" "jwf raw" "of_nat w' / 1000000 \<le> of_nat w / 1000000 + (of_int (ttl * 7) :: rat)"
    and "t0 \<le> of_nat w' / 1000000"
  shows "fst (cget (of_nat w' / 1000000) (key @ '':stale'') (snd (cget t0 key (vt_store cset w key raw ttl c))))
    = Some (vt_entry raw w)"
  unfolding vt_store_def
  by (rule get_after_reads [OF inv_set [OF assms(1)] jwf_vt_entry [OF assms(2)] _ assms(3,4)]) (simp add: vt_entry_def)

end

section \<open>Properties\<close>

lemma vt_lookup_after_live:
  assumes "sql_inv (vt_cache st)" "jwf raw" "vt_api_key env \<noteq> []" "ind_type ind = IP \<or> ind_type ind = DOMAIN"
    and "cb_call (m0 tm) (m1 tm) (vt_fetch env ind) (vt_cb st) (vt_requests st) = (Inr raw, cb, reqs)"
    and "vt_live sql_get sql_set env tm ind (''vt:'' @ cache_key_suffix ind) st = (r, st')"
    and "of_nat (w0 tm') / 1000000 \<le> of_nat (w1 tm) / 1000000 + (of_int (vt_cache_ttl env) :: rat)"
  shows "fst (vt_lookup sql_get sql_set env tm' ind st') =
      parse_vt_response (utc tm') raw True (JInt (age_seconds (w0 tm') (time_json (w1 tm)))) \<and>
    vt_requests (snd (vt_lookup sql_get sql_set env tm' ind st')) = vt_requests st'"
proof -
  let ?key = "''vt:'' @ cache_key_suffix ind"
  have c: "vt_cache st' = vt_store sql_set (w1 tm) ?key raw (vt_cache_ttl env) (vt_cache st)"
    using assms(6) vt_live_success [OF assms(5), of sql_get sql_set ?key] by auto
  obtain c' where "sql_get (of_nat (w0 tm') / 1000000) ?key (vt_cache st') = (Some (vt_entry raw (w1 tm)), c')"
    using sql.vt_primary_hit [OF assms(1,2,7), of ?key] c by (metis prod.collapse)
  from vt_cached_hit [where cget = sql_get, OF this] show ?thesis
    using assms(3,4) by (auto simp: vt_lookup_def Let_def)
qed

text \<open>A cached answer costs no request: after a live query that succeeded, every lookup of the same indicator within
  the cache lifetime gives the result of parsing that same response, marked as cached, and sends nothing.\<close>

theorem vt_second_lookup_cached:
  assumes "sql_inv (vt_cache st)" "jwf raw" "vt_api_key env \<noteq> []" "ind_type ind = IP \<or> ind_type ind = DOMAIN"
    and "cb_call (m0 tm) (m1 tm) (vt_fetch env ind) (vt_cb st) (vt_requests st) = (Inr raw, cb, reqs)"
    and "vt_live sql_get sql_set env tm ind (''vt:'' @ cache_key_suffix ind) st = (r, st')"
    and "of_nat (w0 tm') / 1000000 \<le> of_nat (w1 tm) / 1000000 + (of_int (vt_cache_ttl env) :: rat)"
  shows "fst (vt_lookup sql_get sql_set env tm' ind st') =
      parse_vt_response (utc tm') raw True (JInt (age_seconds (w0 tm') (time_json (w1 tm)))) \<and>
    vt_requests (snd (vt_lookup sql_get sql_set env tm' ind st')) = vt_requests st'"
  using assms by (rule vt_lookup_after_live)

definition sample_vt :: "http_result \<Rightarrow> vt_env" where
  "sample_vt r = \<lparr>vt_api_key = ''key'', vt_fixture = None, vt_http = (\<lambda>_. r), vt_cache_ttl = 86400\<rparr>"

definition sample_vt_state :: "sqlite_cache vt_state" where
  "sample_vt_state = \<lparr>vt_cache = new_sqlite_cache, vt_cb = new_breaker 5 60, vt_requests = []\<rparr>"

definition sample_times :: "nat \<Rightarrow> vt_times" where
  "sample_times s = \<lparr>w0 = s * 1000000, w1 = s * 1000000, m0 = of_nat s, m1 = of_nat s, utc = 0\<rparr>"

definition sample_ip :: indicator where
  "sample_ip = \<lparr>ind_type = IP, ind_value = JStr ''8.8.8.8''\<rparr>"

lemma sample_vt_call:
  "cb_call (m0 tm) (m1 tm) (vt_fetch (sample_vt (HttpResp 404 (Inr JNull))) sample_ip) (vt_cb sample_vt_state)
      (vt_requests sample_vt_state)
    = (Inr (JObj [(''_not_found'', JBool True)]), new_breaker 5 60, [endpoint_url sample_ip])"
  by (simp add: sample_vt_state_def cb_call_def call_enter_def check_reset_def new_breaker_def cb_on_success_def
      vt_fetch_def sample_vt_def Let_def)

theorem vt_second_lookup_cached_witness:
  "\<exists>st'. snd (vt_live sql_get sql_set (sample_vt (HttpResp 404 (Inr JNull))) (sample_times 5) sample_ip
        (''vt:'' @ cache_key_suffix sample_ip) sample_vt_state) = st' \<and>
     vt_requests (snd (vt_lookup sql_get sql_set (sample_vt (HttpResp 404 (Inr JNull))) (sample_times 7) sample_ip st'))
       = vt_requests st'"
proof -
  obtain r st' where l: "vt_live sql_get sql_set (sample_vt (HttpResp 404 (Inr JNull))) (sample_times 5) sample_ip
      (''vt:'' @ cache_key_suffix sample_ip) sample_vt_state = (r, st')" by fastforce
  have "sql_inv (vt_cache sample_vt_state)" by (simp add: sample_vt_state_def sql_inv_def new_sqlite_cache_def)
  from vt_second_lookup_cached [OF this _ _ _ sample_vt_call l, of "sample_times 7"] l show ?thesis
    by (simp add: sample_vt_def sample_ip_def sample_times_def)
qed

text \<open>Degraded mode: when a query fails for rate limiting, an open circuit or a transport error, and a response was
  stored within seven cache lifetimes, the lookup answers from that response instead of failing.\<close>

theorem vt_stale_fallback:
  assumes "sql_inv c" "jwf raw" "vt_api_key env \<noteq> []" "ind_type ind = IP \<or> ind_type ind = DOMAIN"
    and "vt_cache st = vt_store sql_set w (''vt:'' @ cache_key_suffix ind) raw (vt_cache_ttl env) c"
    and "of_nat w / 1000000 + (of_int (vt_cache_ttl env) :: rat) < of_nat (w0 tm) / 1000000"
    and "of_nat (w0 tm) / 1000000 \<le> (of_nat (w1 tm) / 1000000 :: rat)"
    and "of_nat (w1 tm) / 1000000 \<le> of_nat w / 1000000 + (of_int (vt_cache_ttl env * 7) :: rat)"
    and "fst (cb_call (m0 tm) (m1 tm) (vt_fetch env ind) (vt_cb st) (vt_requests st)) = Inl e"
    and "qualname e \<noteq> ''_VTAuthError''"
  shows "fst (vt_lookup sql_get sql_set env tm ind st) =
    parse_vt_response (utc tm) raw True (JInt (age_seconds (w1 tm) (time_json w)))"
proof -
  let ?key = "''vt:'' @ cache_key_suffix ind" and ?t0 = "of_nat (w0 tm) / 1000000 :: rat"
  have "fst (sql_get ?t0 ?key (vt_cache st)) = None"
    using sql.get_expired [OF assms(1,6), of ?key "vt_entry raw w"]
      sql.get_set_other [OF sql.inv_set [OF assms(1)], of "?key @ '':stale''" ?key ?t0]
    by (simp add: assms(5) vt_store_def)
  then obtain c1 where c1: "sql_get ?t0 ?key (vt_cache st) = (None, c1)" by (metis prod.collapse)
  have "fst (sql_get (of_nat (w1 tm) / 1000000) (?key @ '':stale'') c1) = Some (vt_entry raw w)"
    using sql.vt_stale_hit [OF assms(1,2,8,7), of ?key] c1 by (simp add: assms(5))
  then obtain c2 where c2: "sql_get (of_nat (w1 tm) / 1000000) (?key @ '':stale'') c1 = (Some (vt_entry raw w), c2)"
    by (metis prod.collapse)
  obtain cb reqs where call: "cb_call (m0 tm) (m1 tm) (vt_fetch env ind) (vt_cb st) (vt_requests st) = (Inl e, cb, reqs)"
    using assms(9) by (metis prod.collapse)
  have stale: "fst (serve_stale_or_failing sql_get tm ?key reason detail (st\<lparr>vt_cache := c1, vt_cb := cb, vt_requests := reqs\<rparr>))
      = parse_vt_response (utc tm) raw True (JInt (age_seconds (w1 tm) (time_json w)))" for reason detail
    using vt_cached_hit [where cget = sql_get and st = "st\<lparr>vt_cache := c1, vt_cb := cb, vt_requests := reqs\<rparr>"] c2
    by (simp add: serve_stale_or_failing_def)
  have "vt_cached sql_get (utc tm) (w0 tm) ?key st = (None, st\<lparr>vt_cache := c1\<rparr>)"
    using c1 by (simp add: vt_cached_def)
  then show ?thesis
    using assms(3,4,10) call stale by (auto simp: vt_lookup_def vt_live_def vt_failed_def Let_def)
qed

theorem vt_stale_fallback_witness:
  "\<exists>r. fst (vt_lookup sql_get sql_set (sample_vt (HttpResp 429 (Inr JNull))) (sample_times 100000) sample_ip
      (sample_vt_state\<lparr>vt_cache := vt_store sql_set 0 (''vt:'' @ cache_key_suffix sample_ip)
         (JObj [(''_not_found'', JBool True)]) 86400 new_sqlite_cache\<rparr>)) = Inr r \<and> r_status r = CONTRIBUTED"
proof -
  have "fst (vt_lookup sql_get sql_set (sample_vt (HttpResp 429 (Inr JNull))) (sample_times 100000) sample_ip
      (sample_vt_state\<lparr>vt_cache := vt_store sql_set 0 (''vt:'' @ cache_key_suffix sample_ip)
         (JObj [(''_not_found'', JBool True)]) 86400 new_sqlite_cache\<rparr>)) =
    parse_vt_response (utc (sample_times 100000)) (JObj [(''_not_found'', JBool True)]) True
      (JInt (age_seconds (w1 (sample_times 100000)) (time_json 0)))"
    by (rule vt_stale_fallback [where c = new_sqlite_cache and e = VTRateLimit])
       (simp_all add: sample_vt_def sample_ip_def sample_times_def sample_vt_state_def sql_inv_def new_sqlite_cache_def
          cb_call_def call_enter_def check_reset_def new_breaker_def vt_fetch_def VTRateLimit_def Let_def)
  then show ?thesis by (simp add: parse_vt_response_def)
qed

abbreviation bad_vt :: vt_env where
  "bad_vt \<equiv> sample_vt (HttpResp 200 (Inr (JObj [(''data'', JObj [(''attributes'', JNull)])])))"

lemma bad_vt_call:
  "cb_call (m0 tm) (m1 tm) (vt_fetch bad_vt sample_ip) (vt_cb sample_vt_state) (vt_requests sample_vt_state)
    = (Inr (JObj [(''data'', JObj [(''attributes'', JNull)])]), new_breaker 5 60, [endpoint_url sample_ip])"
  by (simp add: sample_vt_state_def cb_call_def call_enter_def check_reset_def new_breaker_def cb_on_success_def
      vt_fetch_def sample_vt_def Let_def raise_for_status_def)

lemma bad_vt_parse:
  "parse_vt_response now (JObj [(''data'', JObj [(''attributes'', JNull)])]) cached age = Inl (AttributeError JNull ''get'')"
  by (simp add: parse_vt_response_def vt_stats_def AttributeError_def)

text \<open>The lookup can raise, although it is documented never to: a response whose \<open>attributes\<close> is null makes the
  parser raise an \<open>AttributeError\<close>, which nothing catches; and since the response was cached before it was parsed, the
  next lookups raise as well without asking again.\<close>

theorem vt_lookup_raises:
  "\<exists>e st'. vt_lookup sql_get sql_set bad_vt (sample_times 5) sample_ip sample_vt_state = (Inl e, st') \<and>
     qualname e = ''AttributeError'' \<and>
     fst (vt_lookup sql_get sql_set bad_vt (sample_times 7) sample_ip st') = Inl e \<and>
     vt_requests (snd (vt_lookup sql_get sql_set bad_vt (sample_times 7) sample_ip st')) = vt_requests st'"
proof -
  let ?key = "''vt:'' @ cache_key_suffix sample_ip"
  define st where "st = sample_vt_state\<lparr>vt_cache := get_conn new_sqlite_cache\<rparr>"
  have call: "cb_call (m0 tm) (m1 tm) (vt_fetch bad_vt sample_ip) (vt_cb st) (vt_requests st)
      = (Inr (JObj [(''data'', JObj [(''attributes'', JNull)])]), new_breaker 5 60, [endpoint_url sample_ip])" for tm
    using bad_vt_call by (simp add: st_def)
  obtain st' where l: "vt_live sql_get sql_set bad_vt (sample_times 5) sample_ip ?key st
      = (Inl (AttributeError JNull ''get''), st')"
    using vt_live_success [where cget = sql_get, OF call] bad_vt_parse by auto
  have inv: "sql_inv (vt_cache st)" by (simp add: st_def sql_inv_def new_sqlite_cache_def get_conn_def)
  have "vt_cached sql_get (utc (sample_times 5)) (w0 (sample_times 5)) ?key sample_vt_state = (None, st)"
    by (simp add: vt_cached_def sql_get_def sample_vt_state_def new_sqlite_cache_def st_def get_conn_def)
  then have "vt_lookup sql_get sql_set bad_vt (sample_times 5) sample_ip sample_vt_state
      = (Inl (AttributeError JNull ''get''), st')"
    using l by (simp add: vt_lookup_def sample_vt_def sample_ip_def Let_def)
  moreover from vt_lookup_after_live [OF inv _ _ _ call l, of "sample_times 7"]
  have "fst (vt_lookup sql_get sql_set bad_vt (sample_times 7) sample_ip st') = Inl (AttributeError JNull ''get'')"
    and "vt_requests (snd (vt_lookup sql_get sql_set bad_vt (sample_times 7) sample_ip st')) = vt_requests st'"
    by (simp_all add: sample_vt_def sample_ip_def sample_times_def bad_vt_parse)
  ultimately show ?thesis by (simp add: AttributeError_def)
qed

end
