(* ===== verification/Triage_Enrichment.thy ===== *)
theory Triage_Enrichment
  imports Indicators Virustotal
begin

text \<open>
  The enrichment of one alert, \<open>_enrich_all\<close> and \<open>_enrich_one\<close> of \<open>src/triage/worker.py\<close>, over any clients, and the
  clients the program is wired with in \<open>src/main.py\<close>: VirusTotal (when there is a key), GeoIP, RDAP and reverse DNS on
  one shared SQLite cache. \<open>asyncio.gather\<close> returns the results in the order of the indicators; the lookups are
  modelled here in that order, one after the other (\<open>Concurrent_Enrichment\<close> interleaves them). An exception is turned into a result by \<open>_lookup\<close>, so the branch of
  \<open>_enrich_all\<close> for an unexpected one is not reached.
\<close>

record 's clients =
  c_geoip :: "(indicator \<Rightarrow> 's \<Rightarrow> enrichment_result res \<times> 's) option"
  c_vt :: "(indicator \<Rightarrow> 's \<Rightarrow> enrichment_result res \<times> 's) option"
  c_rdap :: "(indicator \<Rightarrow> 's \<Rightarrow> enrichment_result res \<times> 's) option"
  c_now :: "'s \<Rightarrow> instant"

type_synonym pairs = "(indicator \<times> enrichment_result) list"

definition enrich_one :: "'s clients \<Rightarrow> suricata_config \<Rightarrow> indicator \<Rightarrow> 's \<Rightarrow> pairs \<times> 's" where
  "enrich_one cs cfg ind s =
     (if ind_type ind = IP then
        (let (geo, s) = worker_lookup (c_now cs s) (c_geoip cs) ind ''geoip'' s
         in if \<not> is_public_ip (ind_value ind) (Some cfg) then ([(ind, geo)], s)
            else let (vt, s) = worker_lookup (c_now cs s) (c_vt cs) ind ''virustotal'' s
                 in ([(ind, vt), (ind, geo)], s))
      else if ind_type ind = DOMAIN then
        (let (vt, s) = worker_lookup (c_now cs s) (c_vt cs) ind ''virustotal'' s;
             (rdap, s) = worker_lookup (c_now cs s) (c_rdap cs) ind ''rdap'' s
         in ([(ind, vt), (ind, rdap)], s))
      else ([(ind, not_configured (c_now cs s) (type_value (ind_type ind)))], s))"

fun enrich_all :: "'s clients \<Rightarrow> suricata_config \<Rightarrow> indicator list \<Rightarrow> 's \<Rightarrow> pairs \<times> 's" where
  "enrich_all cs cfg [] s = ([], s)"
| "enrich_all cs cfg (ind # inds) s =
     (let (ps, s) = enrich_one cs cfg ind s; (qs, s) = enrich_all cs cfg inds s in (ps @ qs, s))"

section \<open>The ledger\<close>

text \<open>Clients that keep the provider contract, each under its own source name.\<close>

definition clients_ok :: "'s clients \<Rightarrow> bool" where
  "clients_ok cs \<longleftrightarrow>
     (\<forall>f. c_geoip cs = Some f \<longrightarrow> threat_intel f ''geoip'') \<and> (\<forall>f. c_vt cs = Some f \<longrightarrow> threat_intel f ''virustotal'') \<and>
     (\<forall>f. c_rdap cs = Some f \<longrightarrow> threat_intel f ''rdap'')"

text \<open>The sources an indicator has in the ledger: what is sent where.\<close>

definition ledger_sources :: "suricata_config \<Rightarrow> indicator \<Rightarrow> string list" where
  "ledger_sources cfg ind =
     (case ind_type ind of
        IP \<Rightarrow> if is_public_ip (ind_value ind) (Some cfg) then [''virustotal'', ''geoip''] else [''geoip'']
      | DOMAIN \<Rightarrow> [''virustotal'', ''rdap'']
      | t \<Rightarrow> [type_value t])"

lemma worker_lookup_source:
  assumes "\<And>f. client = Some f \<Longrightarrow> threat_intel f src" "src \<noteq> []"
  shows "result_ok (fst (worker_lookup now client ind src s)) \<and> r_source (fst (worker_lookup now client ind src s)) = src"
proof (cases client)
  case None
  then show ?thesis using assms(2) by (simp add: worker_lookup_def)
next
  case (Some f)
  then show ?thesis using threat_intel.worker_lookup_ok [OF assms(1) [OF Some]] by simp
qed

lemma enrich_one_ledger:
  assumes "clients_ok cs" "enrich_one cs cfg ind s = (ps, s')"
  shows "map (\<lambda>p. (fst p, r_source (snd p))) ps = map (Pair ind) (ledger_sources cfg ind) \<and> (\<forall>p\<in>set ps. result_ok (snd p))"
proof -
  have g: "result_ok (fst (worker_lookup now (c_geoip cs) ind ''geoip'' s)) \<and>
      r_source (fst (worker_lookup now (c_geoip cs) ind ''geoip'' s)) = ''geoip''"
    and v: "result_ok (fst (worker_lookup now (c_vt cs) ind ''virustotal'' s)) \<and>
      r_source (fst (worker_lookup now (c_vt cs) ind ''virustotal'' s)) = ''virustotal''"
    and r: "result_ok (fst (worker_lookup now (c_rdap cs) ind ''rdap'' s)) \<and>
      r_source (fst (worker_lookup now (c_rdap cs) ind ''rdap'' s)) = ''rdap''" for now s
    using assms(1) by (auto intro!: worker_lookup_source simp: clients_ok_def)
  show ?thesis
    using assms(2) g v r
    by (cases "ind_type ind") (auto simp: enrich_one_def ledger_sources_def case_prod_beta Let_def split: if_splits)
qed

lemma enrich_all_ledger:
  assumes "clients_ok cs"
  shows "enrich_all cs cfg inds s = (ps, s') \<Longrightarrow>
    map (\<lambda>p. (fst p, r_source (snd p))) ps = concat (map (\<lambda>i. map (Pair i) (ledger_sources cfg i)) inds) \<and>
    (\<forall>p\<in>set ps. result_ok (snd p))"
proof (induction inds arbitrary: s ps s')
  case (Cons ind inds)
  obtain p1 s1 where 1: "enrich_one cs cfg ind s = (p1, s1)" by fastforce
  obtain p2 s2 where 2: "enrich_all cs cfg inds s1 = (p2, s2)" by fastforce
  from Cons.prems 1 2 have "ps = p1 @ p2" by simp
  with enrich_one_ledger [OF assms 1] Cons.IH [OF 2] show ?case by auto
qed simp

section \<open>The program's clients\<close>

record triage_io =
  io_cache :: sqlite_cache
  io_vt_cb :: breaker
  io_vt_requests :: "string list"
  io_geo :: geoip_client
  io_tld_map :: "json option"
  io_rdap_requests :: "string list"
  io_rdap_cb :: breaker
  io_rd_cb :: breaker
  io_rd_queries :: "json list"
  io_step :: nat

text \<open>The outside world: the clock readings of the n-th lookup, the HTTP and DNS answers and the GeoIP files.\<close>

record triage_env =
  te_vt :: "vt_env option"
  te_geo_files :: geo_files
  te_http :: "string \<Rightarrow> http_result"
  te_dns :: dns_env
  te_vt_times :: "nat \<Rightarrow> vt_times"
  te_rdap_times :: "nat \<Rightarrow> rdap_times"
  te_dns_times :: "nat \<Rightarrow> rat \<times> rat \<times> rat \<times> rat"
  te_now :: "nat \<Rightarrow> instant"

definition vt_client :: "triage_env \<Rightarrow> vt_env \<Rightarrow> indicator \<Rightarrow> triage_io \<Rightarrow> enrichment_result res \<times> triage_io" where
  "vt_client env v ind io =
     (let (r, st) = vt_lookup sql_get sql_set v (te_vt_times env (io_step io)) ind
            \<lparr>vt_cache = io_cache io, vt_cb = io_vt_cb io, vt_requests = io_vt_requests io\<rparr>
      in (r, io\<lparr>io_cache := vt_cache st, io_vt_cb := vt_cb st, io_vt_requests := vt_requests st, io_step := io_step io + 1\<rparr>))"

definition geo_client :: "triage_env \<Rightarrow> indicator \<Rightarrow> triage_io \<Rightarrow> enrichment_result res \<times> triage_io" where
  "geo_client env ind io =
     (let (r, g) = geoip_lookup (te_now env (io_step io)) (te_geo_files env) ind (io_geo io)
      in (r, io\<lparr>io_geo := g, io_step := io_step io + 1\<rparr>))"

definition rdap_client :: "triage_env \<Rightarrow> indicator \<Rightarrow> triage_io \<Rightarrow> enrichment_result res \<times> triage_io" where
  "rdap_client env ind io =
     (let (r, st) = rdap_lookup sql_get sql_set (te_http env) (te_rdap_times env (io_step io)) ind
            \<lparr>rdap_world = \<lparr>rdap_cache = io_cache io, rdap_tld_map = io_tld_map io, rdap_requests = io_rdap_requests io\<rparr>,
             rdap_cb = io_rdap_cb io\<rparr>
      in (r, io\<lparr>io_cache := rdap_cache (rdap_world st), io_tld_map := rdap_tld_map (rdap_world st),
               io_rdap_requests := rdap_requests (rdap_world st), io_rdap_cb := rdap_cb st, io_step := io_step io + 1\<rparr>))"

definition main_clients :: "triage_env \<Rightarrow> triage_io clients" where
  "main_clients env =
     \<lparr>c_geoip = Some (geo_client env), c_vt = map_option (vt_client env) (te_vt env), c_rdap = Some (rdap_client env),
      c_now = (\<lambda>io. te_now env (io_step io))\<rparr>"

lemma lifted_contract:
  assumes "\<And>i s r s'. g i s = (Inr r, s') \<Longrightarrow> \<exists>t t'. f s i t = (Inr r, t')" "\<And>s. threat_intel (f s) src"
  shows "threat_intel g src"
proof
  show "result_ok r \<and> r_source r = src" if "g i s = (Inr r, s')" for i s r s'
    using assms(1) [OF that] threat_intel.lookup_ok [OF assms(2)] by blast
  show "src \<noteq> []" using threat_intel.src_ne [OF assms(2)] .
qed

lemma main_clients_ok: "clients_ok (main_clients env)"
proof -
  have "threat_intel (geo_client env) ''geoip''"
    by (rule lifted_contract [where f = "\<lambda>s. geoip_lookup (te_now env (io_step s)) (te_geo_files env)"])
      (auto simp: geo_client_def geoip.threat_intel_axioms split: prod.splits)
  moreover have "threat_intel (vt_client env v) ''virustotal''" for v
    by (rule lifted_contract [where f = "\<lambda>s. vt_lookup sql_get sql_set v (te_vt_times env (io_step s))"])
      (auto simp: vt_client_def vt.threat_intel_axioms split: prod.splits)
  moreover have "threat_intel (rdap_client env) ''rdap''"
    by (rule lifted_contract [where f = "\<lambda>s. rdap_lookup sql_get sql_set (te_http env) (te_rdap_times env (io_step s))"])
      (auto simp: rdap_client_def rdap.threat_intel_axioms split: prod.splits)
  ultimately show ?thesis by (auto simp: clients_ok_def main_clients_def)
qed

text \<open>The enrichment ledger is complete and well-formed: every indicator has exactly one entry per source consulted for
  it, in order, whatever the sources answer or raise, and each entry is contributed with data, failing with a reason, or
  not configured; an address that is not public has no VirusTotal entry.\<close>

theorem enrichment_ledger_complete:
  assumes "enrich_all (main_clients env) cfg inds io = (ps, io')"
  shows "map (\<lambda>p. (fst p, r_source (snd p))) ps = concat (map (\<lambda>i. map (Pair i) (ledger_sources cfg i)) inds) \<and>
    (\<forall>p\<in>set ps. result_ok (snd p))"
  using main_clients_ok assms by (rule enrich_all_ledger)

definition new_io :: triage_io where
  "new_io = \<lparr>io_cache = new_sqlite_cache, io_vt_cb = new_breaker 5 60, io_vt_requests = [], io_geo = new_geoip,
     io_tld_map = Some (JObj FALLBACK_SERVICES), io_rdap_requests = [], io_rdap_cb = new_breaker 5 60,
     io_rd_cb = new_breaker 5 60, io_rd_queries = [], io_step = 0\<rparr>"

definition sample_triage_env :: triage_env where
  "sample_triage_env = \<lparr>te_vt = Some (sample_vt (HttpResp 429 (Inr JNull))),
     te_geo_files = \<lparr>geoip2_installed = False, country_isfile = False, country_opened = Inl VTRateLimit, asn_isfile = False,
       asn_opened = Inl VTRateLimit\<rparr>,
     te_http = (\<lambda>_. HttpResp 404 (Inr JNull)), te_dns = sample_dns, te_vt_times = (\<lambda>_. sample_times 5),
     te_rdap_times = (\<lambda>_. sample_rdap_times), te_dns_times = (\<lambda>_. (0, 0, 0, 0)), te_now = (\<lambda>_. 0)\<rparr>"

theorem enrichment_ledger_complete_witness:
  "map (\<lambda>p. r_source (snd p)) (fst (enrich_all (main_clients sample_triage_env) home_config
     [\<lparr>ind_type = IP, ind_value = JStr ''10.0.0.5''\<rparr>, \<lparr>ind_type = DOMAIN, ind_value = JStr ''evil.example.net''\<rparr>] new_io))
   = [''geoip'', ''virustotal'', ''rdap'']"
proof -
  let ?inds = "[\<lparr>ind_type = IP, ind_value = JStr ''10.0.0.5''\<rparr>, \<lparr>ind_type = DOMAIN, ind_value = JStr ''evil.example.net''\<rparr>]"
  obtain ps io' where e: "enrich_all (main_clients sample_triage_env) home_config ?inds new_io = (ps, io')" by fastforce
  have src: "concat (map (\<lambda>i. map (Pair i) (ledger_sources home_config i)) ?inds) =
      [(?inds ! 0, ''geoip''), (?inds ! 1, ''virustotal''), (?inds ! 1, ''rdap'')]" by code_simp
  from enrichment_ledger_complete [OF e] have "map (\<lambda>p. (fst p, r_source (snd p))) ps =
      [(?inds ! 0, ''geoip''), (?inds ! 1, ''virustotal''), (?inds ! 1, ''rdap'')]" unfolding src by blast
  then have "map snd (map (\<lambda>p. (fst p, r_source (snd p))) ps) = [''geoip'', ''virustotal'', ''rdap'']" by simp
  with e show ?thesis by (simp add: o_def)
qed

section \<open>What leaves the network\<close>

lemma rdap_download_requests: "rdap_requests (snd (rdap_download http w)) = rdap_requests w @ [IANA_BOOTSTRAP_URL]"
  by (auto simp: rdap_download_def Let_def split: http_result.splits sum.splits)

lemma get_tld_map_requests:
  "set (rdap_requests (snd (get_tld_map cget cset http tm w))) \<subseteq> insert IANA_BOOTSTRAP_URL (set (rdap_requests w))"
proof (cases "rdap_tld_map w")
  case None
  obtain hit c where g: "cget (at_boot_get tm) ''rdap:bootstrap'' (rdap_cache w) = (hit, c)" by fastforce
  obtain out w' where d: "rdap_download http (w\<lparr>rdap_cache := c\<rparr>) = (out, w')" by fastforce
  then have "rdap_requests w' = rdap_requests w @ [IANA_BOOTSTRAP_URL]"
    using rdap_download_requests [of http "w\<lparr>rdap_cache := c\<rparr>"] by simp
  with None g d show ?thesis by (cases hit; cases out) (simp_all add: get_tld_map_def subset_insertI)
qed (auto simp: get_tld_map_def)

lemma get_base_url_requests:
  "set (rdap_requests (snd (get_base_url cget cset http tm dn w))) \<subseteq> insert IANA_BOOTSTRAP_URL (set (rdap_requests w))"
  using get_tld_map_requests [of cget cset http tm w]
  by (auto simp: get_base_url_def split: option.splits prod.splits sum.splits)

lemma rdap_fetch_requests:
  "set (rdap_requests (snd (rdap_fetch cget cset http tm dn w))) \<subseteq>
     insert IANA_BOOTSTRAP_URL (range (\<lambda>b. rdap_url b dn) \<union> set (rdap_requests w))"
  using get_base_url_requests [of cget cset http tm dn w]
  by (auto simp: rdap_fetch_def Let_def split: prod.splits sum.splits)

lemma rdap_live_requests:
  "set (rdap_requests (rdap_world (snd (rdap_live cget cset http tm dn st)))) \<subseteq>
     insert IANA_BOOTSTRAP_URL (range (\<lambda>b. rdap_url b dn) \<union> set (rdap_requests (rdap_world st)))"
proof -
  obtain out cb w where c: "cb_call (at_enter tm) (at_exit tm) (rdap_fetch cget cset http tm dn) (rdap_cb st) (rdap_world st)
      = (out, cb, w)" by (metis prod_cases3)
  have "w = rdap_world st \<or> w = snd (rdap_fetch cget cset http tm dn (rdap_world st))"
    using c by (auto simp: cb_call_def split: prod.splits option.splits sum.splits)
  moreover have "rdap_requests (rdap_world (snd (rdap_live cget cset http tm dn st))) = rdap_requests w"
    using c by (simp add: rdap_live_def Let_def split: prod.split option.split)
  ultimately show ?thesis using rdap_fetch_requests [of cget cset http tm dn "rdap_world st"] by auto
qed

lemma rdap_lookup_requests:
  "set (rdap_requests (rdap_world (snd (rdap_lookup cget cset http tm ind st)))) \<subseteq>
     insert IANA_BOOTSTRAP_URL ({rdap_url b (normalise_domain v) | b v. ind_type ind = DOMAIN \<and> ind_value ind = JStr v}
       \<union> set (rdap_requests (rdap_world st)))"
proof (cases "ind_type ind = DOMAIN \<and> (\<exists>v. ind_value ind = JStr v)")
  case True
  then obtain v where v: "ind_type ind = DOMAIN" "ind_value ind = JStr v" by auto
  obtain hit c where g: "cget (at_get tm) (rdap_key (normalise_domain v)) (rdap_cache (rdap_world st)) = (hit, c)" by fastforce
  show ?thesis
  proof (cases hit)
    case None
    with v g rdap_live_requests [of cget cset http tm "normalise_domain v" "st\<lparr>rdap_world := (rdap_world st)\<lparr>rdap_cache := c\<rparr>\<rparr>"]
    show ?thesis by (auto simp: rdap_lookup_def Let_def)
  next
    case (Some j)
    with v g show ?thesis by (cases j) (auto simp: rdap_lookup_def Let_def)
  qed
next
  case False
  then show ?thesis by (cases "ind_value ind") (auto simp: rdap_lookup_def)
qed

text \<open>The two lists of requests before and after, for one lookup through the worker.\<close>

definition sends :: "triage_io \<Rightarrow> triage_io \<Rightarrow> string set \<Rightarrow> string set \<Rightarrow> nat \<Rightarrow> bool" where
  "sends io io' V R n \<longleftrightarrow>
     set (io_vt_requests io') \<subseteq> V \<union> set (io_vt_requests io) \<and> set (io_rdap_requests io') \<subseteq> R \<union> set (io_rdap_requests io) \<and>
     length (io_vt_requests io') \<le> length (io_vt_requests io) + n"

lemma sends_trans: "sends io io' V R n \<Longrightarrow> sends io' io'' V' R' m \<Longrightarrow> sends io io'' (V \<union> V') (R \<union> R') (n + m)"
  by (fastforce simp: sends_def)

lemma sends_mono: "sends io io' V R n \<Longrightarrow> V \<subseteq> V' \<Longrightarrow> R \<subseteq> R' \<Longrightarrow> n \<le> m \<Longrightarrow> sends io io' V' R' m"
  by (fastforce simp: sends_def)

lemma worker_lookup_state:
  "snd (worker_lookup now client ind src s) = (case client of None \<Rightarrow> s | Some f \<Rightarrow> snd (f ind s))"
  by (auto simp: worker_lookup_def split: option.splits prod.splits sum.splits)

lemma sends_geo: "sends io (snd (worker_lookup now (c_geoip (main_clients env)) ind src io)) {} {} 0"
  by (simp add: worker_lookup_state main_clients_def geo_client_def sends_def case_prod_beta)

lemma sends_vt: "sends io (snd (worker_lookup now (c_vt (main_clients env)) ind src io)) {endpoint_url ind} {} 1"
proof (cases "te_vt env")
  case None
  then show ?thesis by (auto simp: worker_lookup_state main_clients_def sends_def)
next
  case (Some v)
  let ?st = "\<lparr>vt_cache = io_cache io, vt_cb = io_vt_cb io, vt_requests = io_vt_requests io\<rparr>"
  from Some vt_lookup_requests [of sql_get sql_set v "te_vt_times env (io_step io)" ind ?st] show ?thesis
    by (auto simp: worker_lookup_state main_clients_def vt_client_def sends_def case_prod_beta)
qed

lemma sends_rdap:
  "sends io (snd (worker_lookup now (c_rdap (main_clients env)) ind src io)) {}
     (insert IANA_BOOTSTRAP_URL {rdap_url b (normalise_domain v) | b v. ind_type ind = DOMAIN \<and> ind_value ind = JStr v}) 0"
  using rdap_lookup_requests [of sql_get sql_set "te_http env" "te_rdap_times env (io_step io)" ind
      "\<lparr>rdap_world = \<lparr>rdap_cache = io_cache io, rdap_tld_map = io_tld_map io, rdap_requests = io_rdap_requests io\<rparr>,
             rdap_cb = io_rdap_cb io\<rparr>"]
  by (auto simp: worker_lookup_state main_clients_def rdap_client_def sends_def case_prod_beta)

definition vt_urls :: "suricata_config \<Rightarrow> indicator list \<Rightarrow> string set" where
  "vt_urls cfg inds = endpoint_url ` {i \<in> set inds. ind_type i = DOMAIN \<or> ind_type i = IP \<and> is_public_ip (ind_value i) (Some cfg)}"

definition rdap_urls :: "indicator list \<Rightarrow> string set" where
  "rdap_urls inds =
     insert IANA_BOOTSTRAP_URL {rdap_url b (normalise_domain v) | b v. \<lparr>ind_type = DOMAIN, ind_value = JStr v\<rparr> \<in> set inds}"

lemma sends_enrich_one:
  assumes "enrich_one (main_clients env) cfg ind io = (ps, io')"
  shows "sends io io' (vt_urls cfg [ind]) (rdap_urls [ind]) 1"
proof -
  let ?cs = "main_clients env"
  have refl: "sends io io {} {} 0" by (simp add: sends_def)
  consider (ip) "ind_type ind = IP" | (dn) "ind_type ind = DOMAIN" | (other) "ind_type ind \<noteq> IP" "ind_type ind \<noteq> DOMAIN" by blast
  then show ?thesis
  proof cases
    case ip
    obtain geo io1 where g: "worker_lookup (c_now ?cs io) (c_geoip ?cs) ind ''geoip'' io = (geo, io1)" by fastforce
    obtain vt io2 where v: "worker_lookup (c_now ?cs io1) (c_vt ?cs) ind ''virustotal'' io1 = (vt, io2)" by fastforce
    have s1: "sends io io1 {} {} 0" and s2: "sends io1 io2 {endpoint_url ind} {} 1"
      using sends_geo [of io "c_now ?cs io" env ind "''geoip''"] sends_vt [of io1 "c_now ?cs io1" env ind "''virustotal''"]
      by (simp_all add: g v)
    show ?thesis
    proof (cases "is_public_ip (ind_value ind) (Some cfg)")
      case True
      then have "io' = io2" using assms ip g v by (simp add: enrich_one_def)
      with sends_trans [OF s1 s2] True ip show ?thesis by (auto simp: vt_urls_def elim!: sends_mono)
    next
      case False
      then have "io' = io1" using assms ip g by (simp add: enrich_one_def)
      with s1 show ?thesis by (auto elim!: sends_mono)
    qed
  next
    case dn
    obtain vt io1 where v: "worker_lookup (c_now ?cs io) (c_vt ?cs) ind ''virustotal'' io = (vt, io1)" by fastforce
    obtain rd io2 where r: "worker_lookup (c_now ?cs io1) (c_rdap ?cs) ind ''rdap'' io1 = (rd, io2)" by fastforce
    have "sends io io1 {endpoint_url ind} {} 1"
      using sends_vt [of io "c_now ?cs io" env ind "''virustotal''"] by (simp add: v)
    from sends_trans [OF this, of io2] sends_rdap [of io1 "c_now ?cs io1" env ind "''rdap''"]
    have sent: "sends io io2 {endpoint_url ind} (insert IANA_BOOTSTRAP_URL
        {rdap_url b (normalise_domain v) | b v. ind_type ind = DOMAIN \<and> ind_value ind = JStr v}) 1" by (simp add: r)
    have "io' = io2" using assms dn v r by (simp add: enrich_one_def)
    have rd: "insert IANA_BOOTSTRAP_URL {rdap_url b (normalise_domain v) | b v. ind_type ind = DOMAIN \<and> ind_value ind = JStr v}
        \<subseteq> rdap_urls [ind]"
      by (cases ind) (auto simp: rdap_urls_def)
    have vt: "{endpoint_url ind} \<subseteq> vt_urls cfg [ind]" using dn by (simp add: vt_urls_def)
    show ?thesis unfolding \<open>io' = io2\<close> by (rule sends_mono [OF sent vt rd order_refl])
  next
    case other
    then have "io' = io" using assms by (simp add: enrich_one_def)
    with refl show ?thesis by (auto elim!: sends_mono)
  qed
qed

lemma sends_enrich_all:
  "enrich_all (main_clients env) cfg inds io = (ps, io') \<Longrightarrow> sends io io' (vt_urls cfg inds) (rdap_urls inds) (length inds)"
proof (induction inds arbitrary: io ps io')
  case Nil
  then show ?case by (simp add: sends_def)
next
  case (Cons ind inds)
  obtain p1 io1 where 1: "enrich_one (main_clients env) cfg ind io = (p1, io1)" by fastforce
  obtain p2 io2 where 2: "enrich_all (main_clients env) cfg inds io1 = (p2, io2)" by fastforce
  from Cons.prems 1 2 have "io' = io2" by simp
  moreover have "vt_urls cfg (ind # inds) = vt_urls cfg [ind] \<union> vt_urls cfg inds" "rdap_urls (ind # inds) = rdap_urls [ind] \<union> rdap_urls inds"
    by (auto simp: vt_urls_def rdap_urls_def)
  ultimately show ?case using sends_trans [OF sends_enrich_one [OF 1] Cons.IH [OF 2]] by simp
qed

lemma sent_is_external:
  assumes "extract_indicators raw events (Some cfg) = Inr inds" "sends io io' (vt_urls cfg inds) (rdap_urls inds) (length inds)"
  shows "(\<forall>u\<in>set (io_vt_requests io') - set (io_vt_requests io). \<exists>i\<in>set inds. u = endpoint_url i \<and>
      ((\<exists>a. ip_address (ind_value i) = Some a \<and> \<not> is_private a \<and> \<not> is_multicast a \<and> \<not> in_net a CGNAT_NET) \<and>
         \<not> in_home cfg (ind_value i) \<or>
       (\<exists>s. ind_value i = JStr s \<and> external_name cfg events s))) \<and>
    (\<forall>u\<in>set (io_rdap_requests io') - set (io_rdap_requests io). u = IANA_BOOTSTRAP_URL \<or>
      (\<exists>b s. u = rdap_url b (normalise_domain s) \<and> external_name cfg events s)) \<and>
    length (io_vt_requests io') \<le> length (io_vt_requests io) + 5"
proof -
  note sent = assms(2)
  have pub: "(\<exists>a. ip_address ip = Some a \<and> \<not> is_private a \<and> \<not> is_multicast a \<and> \<not> in_net a CGNAT_NET) \<and> \<not> in_home cfg ip"
    if "is_public_ip ip (Some cfg)" for ip
  proof -
    have "\<not> in_net (V6 w) CGNAT_NET" for w by (simp add: CGNAT_NET_def net4_def)
    with that show ?thesis by (auto simp: is_public_ip_def is_v4_def split: option.splits if_splits ipaddr.splits)
  qed
  have vt: "u \<in> vt_urls cfg inds" if "u \<in> set (io_vt_requests io') - set (io_vt_requests io)" for u
    using that sent by (auto simp: sends_def)
  have rd: "u \<in> rdap_urls inds" if "u \<in> set (io_rdap_requests io') - set (io_rdap_requests io)" for u
    using that sent by (auto simp: sends_def)
  have name: "\<exists>s. ind_value i = JStr s \<and> external_name cfg events s" if "i \<in> set inds" "ind_type i = DOMAIN" for i
    using extracted_indicators(4) [OF assms(1) that(1)] that(2) by auto
  have len: "length inds \<le> 5" using extracted_indicators(3) [OF assms(1)] by (simp add: MAX_IPS_def MAX_DOMAINS_def)
  show ?thesis
  proof (intro conjI ballI)
    fix u assume "u \<in> set (io_vt_requests io') - set (io_vt_requests io)"
    then obtain i where i: "i \<in> set inds" "u = endpoint_url i"
        "ind_type i = DOMAIN \<or> ind_type i = IP \<and> is_public_ip (ind_value i) (Some cfg)"
      using vt by (auto simp: vt_urls_def)
    with name [OF i(1)] pub show "\<exists>i\<in>set inds. u = endpoint_url i \<and>
      ((\<exists>a. ip_address (ind_value i) = Some a \<and> \<not> is_private a \<and> \<not> is_multicast a \<and> \<not> in_net a CGNAT_NET) \<and>
         \<not> in_home cfg (ind_value i) \<or> (\<exists>s. ind_value i = JStr s \<and> external_name cfg events s))" by blast
  next
    fix u assume u: "u \<in> set (io_rdap_requests io') - set (io_rdap_requests io)"
    consider "u = IANA_BOOTSTRAP_URL"
      | b v where "u = rdap_url b (normalise_domain v)" "\<lparr>ind_type = DOMAIN, ind_value = JStr v\<rparr> \<in> set inds"
      using rd [OF u] unfolding rdap_urls_def by blast
    then show "u = IANA_BOOTSTRAP_URL \<or> (\<exists>b s. u = rdap_url b (normalise_domain s) \<and> external_name cfg events s)"
      using name by cases fastforce+
  qed (use sent len in \<open>auto simp: sends_def\<close>)
qed

text \<open>Nothing internal leaves the network: every URL the enrichment of an alert requests from VirusTotal is that of an
  indicator of the alert, either a public address, which is neither private, multicast, shared address space nor in
  HOME_NET, or an external name; every URL requested from an RDAP registry is for an external name, apart from the registry
  directory itself; and at most five VirusTotal requests are made.\<close>

theorem only_external_indicators_leave:
  assumes "extract_indicators raw events (Some cfg) = Inr inds" "enrich_all (main_clients env) cfg inds io = (ps, io')"
  shows "(\<forall>u\<in>set (io_vt_requests io') - set (io_vt_requests io). \<exists>i\<in>set inds. u = endpoint_url i \<and>
      ((\<exists>a. ip_address (ind_value i) = Some a \<and> \<not> is_private a \<and> \<not> is_multicast a \<and> \<not> in_net a CGNAT_NET) \<and>
         \<not> in_home cfg (ind_value i) \<or>
       (\<exists>s. ind_value i = JStr s \<and> external_name cfg events s))) \<and>
    (\<forall>u\<in>set (io_rdap_requests io') - set (io_rdap_requests io). u = IANA_BOOTSTRAP_URL \<or>
      (\<exists>b s. u = rdap_url b (normalise_domain s) \<and> external_name cfg events s)) \<and>
    length (io_vt_requests io') \<le> length (io_vt_requests io) + 5"
  by (rule sent_is_external [OF assms(1) sends_enrich_all [OF assms(2)]])

theorem only_external_indicators_leave_witness:
  "\<exists>ps io'. enrich_all (main_clients sample_triage_env) home_config
      [\<lparr>ind_type = IP, ind_value = JStr ''10.0.0.5''\<rparr>, \<lparr>ind_type = IP, ind_value = JStr ''8.8.8.8''\<rparr>,
       \<lparr>ind_type = DOMAIN, ind_value = JStr ''evil.example.net''\<rparr>] new_io = (ps, io') \<and> length (io_vt_requests io') \<le> 5"
proof -
  let ?inds = "[\<lparr>ind_type = IP, ind_value = JStr ''10.0.0.5''\<rparr>, \<lparr>ind_type = IP, ind_value = JStr ''8.8.8.8''\<rparr>,
       \<lparr>ind_type = DOMAIN, ind_value = JStr ''evil.example.net''\<rparr>]"
  obtain ps io' where e: "enrich_all (main_clients sample_triage_env) home_config ?inds new_io = (ps, io')" by fastforce
  have "io_vt_requests new_io = []" by (simp add: new_io_def)
  with only_external_indicators_leave [OF sample_flow_indicators e] e show ?thesis by simp
qed

end
