(* ===== verification/Concurrent_Enrichment.thy ===== *)
theory Concurrent_Enrichment
  imports Triage_Enrichment Locks
begin

text \<open>
  The lookups of one alert as they are run, concurrently: \<open>_enrich_all\<close> and \<open>_enrich_one\<close> of \<open>src/triage/worker.py\<close> gather the
  coroutines of the clients \<open>src/enrichment/virustotal/client.py\<close> and \<open>rdap/client.py\<close>, which share the cache, two circuit breakers and,
  under a lock, the registry directory of \<open>rdap/bootstrap.py\<close>. A section is what runs up to an \<open>await\<close> that may suspend: a use of the cache, a request,
  a critical section of a breaker. Reading the cache is one section, with the deletion of the row if it has expired, and so is a request with its turn of
  the rate limiter. The order of the sections is any schedule. A nested \<open>gather\<close> is flattened: its coroutines are coroutines of the outer
  one. \<open>Triage_Enrichment\<close> has the same lookups one after the other, which is one of the schedules.
\<close>

section \<open>Sections on the shared state\<close>

record conc =
  co_io :: triage_io
  co_lock :: bool

definition on_io :: "(triage_io \<Rightarrow> 'a \<times> triage_io) \<Rightarrow> (conc, 'a) coro" where
  "on_io f = atomic (\<lambda>s. (fst (f (co_io s)), s\<lparr>co_io := snd (f (co_io s))\<rparr>))"

definition vt_view :: "triage_io \<Rightarrow> sqlite_cache vt_state" where
  "vt_view io = \<lparr>vt_cache = io_cache io, vt_cb = io_vt_cb io, vt_requests = io_vt_requests io\<rparr>"

definition vt_put :: "sqlite_cache vt_state \<Rightarrow> triage_io \<Rightarrow> triage_io" where
  "vt_put st io = io\<lparr>io_cache := vt_cache st, io_vt_cb := vt_cb st, io_vt_requests := vt_requests st\<rparr>"

definition on_vt :: "(sqlite_cache vt_state \<Rightarrow> 'a \<times> sqlite_cache vt_state) \<Rightarrow> (conc, 'a) coro" where
  "on_vt f = on_io (\<lambda>io. (fst (f (vt_view io)), vt_put (snd (f (vt_view io))) io))"

definition rdap_view :: "triage_io \<Rightarrow> sqlite_cache rdap_world" where
  "rdap_view io = \<lparr>rdap_cache = io_cache io, rdap_tld_map = io_tld_map io, rdap_requests = io_rdap_requests io\<rparr>"

definition rdap_put :: "sqlite_cache rdap_world \<Rightarrow> triage_io \<Rightarrow> triage_io" where
  "rdap_put w io = io\<lparr>io_cache := rdap_cache w, io_tld_map := rdap_tld_map w, io_rdap_requests := rdap_requests w\<rparr>"

definition on_rdap :: "(sqlite_cache rdap_world \<Rightarrow> 'a \<times> sqlite_cache rdap_world) \<Rightarrow> (conc, 'a) coro" where
  "on_rdap f = on_io (\<lambda>io. (fst (f (rdap_view io)), rdap_put (snd (f (rdap_view io))) io))"

text \<open>The number of the lookup, which selects its clock readings.\<close>

definition tick :: "(conc, nat) coro" where
  "tick = on_io (\<lambda>io. (io_step io, io\<lparr>io_step := io_step io + 1\<rparr>))"

text \<open>\<open>AsyncCircuitBreaker.call\<close>: the lock of the breaker is held in the two critical sections only.\<close>

definition breaker_call ::
  "(triage_io \<Rightarrow> breaker) \<Rightarrow> (breaker \<Rightarrow> triage_io \<Rightarrow> triage_io) \<Rightarrow> rat \<Rightarrow> rat \<Rightarrow> (conc, 'a res) coro \<Rightarrow> (conc, 'a res) coro" where
  "breaker_call get put t0 t1 body =
     cbind (on_io (\<lambda>io. (fst (call_enter t0 (get io)), put (snd (call_enter t0 (get io))) io))) (\<lambda>rejected.
       case rejected of
         Some e \<Rightarrow> Done (Inl e)
       | None \<Rightarrow> cbind body (\<lambda>out.
           on_io (\<lambda>io. (out, put (case out of Inr _ \<Rightarrow> cb_on_success (get io) | Inl _ \<Rightarrow> cb_on_failure t1 (get io)) io))))"

section \<open>VirusTotal\<close>

definition vt_set :: "vt_times \<Rightarrow> string \<Rightarrow> json \<Rightarrow> int \<Rightarrow> (conc, unit) coro" where
  "vt_set tm key raw ttl =
     on_vt (\<lambda>st. ((), st\<lparr>vt_cache := sql_set (of_nat (w1 tm) / 1000000) key (vt_entry raw (w1 tm)) ttl (vt_cache st)\<rparr>))"

definition vt_fetch_section :: "vt_env \<Rightarrow> indicator \<Rightarrow> (conc, json res) coro" where
  "vt_fetch_section v ind =
     on_vt (\<lambda>st. (fst (vt_fetch v ind (vt_requests st)), st\<lparr>vt_requests := snd (vt_fetch v ind (vt_requests st))\<rparr>))"

definition vt_coro :: "vt_env \<Rightarrow> vt_times \<Rightarrow> indicator \<Rightarrow> (conc, enrichment_result res) coro" where
  "vt_coro v tm ind =
     (if vt_api_key v = [] \<and> vt_fixture v = None \<or> ind_type ind \<noteq> IP \<and> ind_type ind \<noteq> DOMAIN
      then Done (Inr (not_configured (utc tm) ''virustotal''))
      else let key = ''vt:'' @ cache_key_suffix ind
           in cbind (on_vt (vt_cached sql_get (utc tm) (w0 tm) key)) (\<lambda>hit.
              case hit of
                Some r \<Rightarrow> Done r
              | None \<Rightarrow> cbind (breaker_call io_vt_cb (\<lambda>cb. io_vt_cb_update (\<lambda>_. cb)) (m0 tm) (m1 tm) (vt_fetch_section v ind)) (\<lambda>out.
                  case out of
                    Inl e \<Rightarrow> on_vt (vt_failed sql_get tm key e)
                  | Inr raw \<Rightarrow>
                      cbind (vt_set tm key raw (vt_cache_ttl v)) (\<lambda>_.
                      cbind (vt_set tm (key @ '':stale'') raw (vt_cache_ttl v * 7)) (\<lambda>_.
                        Done (parse_vt_response (utc tm) raw False JNull))))))"

section \<open>RDAP\<close>

definition boot_get :: "rdap_times \<Rightarrow> (conc, json option) coro" where
  "boot_get tm = on_rdap (\<lambda>w. (fst (sql_get (at_boot_get tm) ''rdap:bootstrap'' (rdap_cache w)),
     w\<lparr>rdap_cache := snd (sql_get (at_boot_get tm) ''rdap:bootstrap'' (rdap_cache w))\<rparr>))"

definition rdap_cache_set :: "rat \<Rightarrow> string \<Rightarrow> jdict \<Rightarrow> (conc, unit) coro" where
  "rdap_cache_set now key d = on_rdap (\<lambda>w. ((), w\<lparr>rdap_cache := sql_set now key (JObj d) week (rdap_cache w)\<rparr>))"

text \<open>The end of the critical section of the directory, with it in memory or after an exception.\<close>

definition leave :: "json res \<Rightarrow> (conc, json res) coro" where
  "leave r = atomic (\<lambda>s. (r, s\<lparr>co_lock := False,
     co_io := (case r of Inr m \<Rightarrow> (co_io s)\<lparr>io_tld_map := Some m\<rparr> | Inl _ \<Rightarrow> co_io s)\<rparr>))"

definition boot_load :: "(string \<Rightarrow> http_result) \<Rightarrow> rdap_times \<Rightarrow> (conc, json res) coro" where
  "boot_load http tm =
     cbind (boot_get tm) (\<lambda>hit.
       case hit of
         Some m \<Rightarrow> leave (Inr m)
       | None \<Rightarrow> cbind (on_rdap (rdap_download http)) (\<lambda>out.
           case out of
             Inl e \<Rightarrow> leave (Inl e)
           | Inr m \<Rightarrow> cbind (rdap_cache_set (at_boot_set tm) ''rdap:bootstrap'' m) (\<lambda>_. leave (Inr (JObj m)))))"

text \<open>The fast path, and else the lock and the second look at the directory under it.\<close>

definition tld_map_coro :: "(string \<Rightarrow> http_result) \<Rightarrow> rdap_times \<Rightarrow> (conc, json res) coro" where
  "tld_map_coro http tm =
     cbind (on_io (\<lambda>io. (io_tld_map io, io))) (\<lambda>loaded.
       case loaded of
         Some m \<Rightarrow> Done (Inr m)
       | None \<Rightarrow> Step (\<lambda>s. \<not> co_lock s) (\<lambda>s.
           case io_tld_map (co_io s) of
             Some m \<Rightarrow> (Done (Inr m), s)
           | None \<Rightarrow> (boot_load http tm, s\<lparr>co_lock := True\<rparr>)))"

definition base_url_coro :: "(string \<Rightarrow> http_result) \<Rightarrow> rdap_times \<Rightarrow> string \<Rightarrow> (conc, json res) coro" where
  "base_url_coro http tm dn =
     (case extract_tld dn of
        None \<Rightarrow> Done (Inr JNull)
      | Some tld \<Rightarrow>
          (if tld = [] then Done (Inr JNull)
           else cbind (tld_map_coro http tm) (\<lambda>r. Done (rbind r (\<lambda>m. jget m tld JNull)))))"

definition rdap_fetch_coro :: "(string \<Rightarrow> http_result) \<Rightarrow> rdap_times \<Rightarrow> string \<Rightarrow> (conc, jdict res) coro" where
  "rdap_fetch_coro http tm dn =
     cbind (base_url_coro http tm dn) (\<lambda>r.
       case r of
         Inl e \<Rightarrow> Done (Inl e)
       | Inr base \<Rightarrow>
           (if \<not> truthy base then Done (Inl (RDAPNetworkError (''No RDAP registry known for domain: '' @ dn)))
            else case jstr ''rstrip'' base of
                   Inl e \<Rightarrow> Done (Inl e)
                 | Inr b \<Rightarrow> on_rdap (\<lambda>w. (rdap_query (parse_now tm) http (rdap_url b dn) dn,
                     w\<lparr>rdap_requests := rdap_requests w @ [rdap_url b dn]\<rparr>))))"

definition rdap_coro :: "(string \<Rightarrow> http_result) \<Rightarrow> rdap_times \<Rightarrow> indicator \<Rightarrow> (conc, enrichment_result res) coro" where
  "rdap_coro http tm ind =
     (if ind_type ind \<noteq> DOMAIN then Done (Inr (not_configured (result_now tm) ''rdap''))
      else case jstr ''lower'' (ind_value ind) of
             Inl e \<Rightarrow> Done (Inl e)
           | Inr v \<Rightarrow>
               (let dn = normalise_domain v
                in cbind (on_rdap (\<lambda>w. (fst (sql_get (at_get tm) (rdap_key dn) (rdap_cache w)),
                     w\<lparr>rdap_cache := snd (sql_get (at_get tm) (rdap_key dn) (rdap_cache w))\<rparr>))) (\<lambda>hit.
                   case hit of
                     Some (JObj d) \<Rightarrow> Done (build_result (result_now tm) d True (dget d ''_age_s'' (JInt 0)))
                   | Some other \<Rightarrow> Done (Inl (AttributeError other ''get''))
                   | None \<Rightarrow> cbind (breaker_call io_rdap_cb (\<lambda>cb. io_rdap_cb_update (\<lambda>_. cb)) (at_enter tm) (at_exit tm)
                         (rdap_fetch_coro http tm dn)) (\<lambda>out.
                       case rdap_outcome (result_now tm) out of
                         (r, None) \<Rightarrow> Done r
                       | (r, Some payload) \<Rightarrow> cbind (rdap_cache_set (at_set tm) (rdap_key dn) payload) (\<lambda>_. Done r)))))"

section \<open>The lookups of an alert\<close>

text \<open>\<open>_lookup\<close> turns an exception into a result.\<close>

definition looked_up :: "instant \<Rightarrow> string \<Rightarrow> enrichment_result res \<Rightarrow> enrichment_result" where
  "looked_up now src r = (case r of Inr x \<Rightarrow> x | Inl e \<Rightarrow> failing now src OTHER (exn_msg e))"

definition vt_task :: "triage_env \<Rightarrow> indicator \<Rightarrow> (conc, enrichment_result) coro" where
  "vt_task env ind =
     (case te_vt env of
        None \<Rightarrow> on_io (\<lambda>io. (not_configured (te_now env (io_step io)) ''virustotal'', io))
      | Some v \<Rightarrow> cbind tick (\<lambda>n. cbind (vt_coro v (te_vt_times env n) ind) (\<lambda>r. Done (looked_up (te_now env n) ''virustotal'' r))))"

definition rdap_task :: "triage_env \<Rightarrow> indicator \<Rightarrow> (conc, enrichment_result) coro" where
  "rdap_task env ind =
     cbind tick (\<lambda>n. cbind (rdap_coro (te_http env) (te_rdap_times env n) ind) (\<lambda>r. Done (looked_up (te_now env n) ''rdap'' r)))"

definition geo_task :: "triage_env \<Rightarrow> indicator \<Rightarrow> (conc, enrichment_result) coro" where
  "geo_task env ind = on_io (\<lambda>io. worker_lookup (te_now env (io_step io)) (Some (geo_client env)) ind ''geoip'' io)"

definition tasks_one :: "triage_env \<Rightarrow> suricata_config \<Rightarrow> indicator \<Rightarrow> (conc, pairs) coro list" where
  "tasks_one env cfg ind =
     (if ind_type ind = IP then
        [cbind (geo_task env ind) (\<lambda>geo.
           if \<not> is_public_ip (ind_value ind) (Some cfg) then Done [(ind, geo)]
           else cbind (vt_task env ind) (\<lambda>vt. Done [(ind, vt), (ind, geo)]))]
      else if ind_type ind = DOMAIN then
        [cbind (vt_task env ind) (\<lambda>vt. Done [(ind, vt)]), cbind (rdap_task env ind) (\<lambda>rdap. Done [(ind, rdap)])]
      else [on_io (\<lambda>io. ([(ind, not_configured (te_now env (io_step io)) (type_value (ind_type ind)))], io))])"

definition tasks :: "triage_env \<Rightarrow> suricata_config \<Rightarrow> indicator list \<Rightarrow> (conc, pairs) coro list" where
  "tasks env cfg inds = concat (map (tasks_one env cfg) inds)"

section \<open>A lookup on its own\<close>

lemma run_on_io [simp]: "run (on_io f) s = Some (fst (f (co_io s)), s\<lparr>co_io := snd (f (co_io s))\<rparr>)"
  by (simp add: on_io_def)

lemma vt_put_simps [simp]:
  "vt_view (vt_put st io) = st" "vt_put st (vt_put st' io) = vt_put st io" "vt_put (vt_view io) io = io" "io_vt_cb (vt_put st io) = vt_cb st"
  "(vt_put st io)\<lparr>io_vt_cb := cb\<rparr> = vt_put (st\<lparr>vt_cb := cb\<rparr>) io"
  by (simp_all add: vt_put_def vt_view_def)

lemma rdap_put_simps [simp]:
  "rdap_view (rdap_put w io) = w" "rdap_put w (rdap_put w' io) = rdap_put w io" "rdap_put (rdap_view io) io = io"
  "io_rdap_cb (rdap_put w io) = io_rdap_cb io" "(rdap_put w io)\<lparr>io_rdap_cb := cb\<rparr> = rdap_put w (io\<lparr>io_rdap_cb := cb\<rparr>)"
  "io_tld_map (rdap_put w io) = rdap_tld_map w"
  "(rdap_put w io)\<lparr>io_tld_map := m\<rparr> = rdap_put (w\<lparr>rdap_tld_map := m\<rparr>) io"
  by (simp_all add: rdap_put_def rdap_view_def)

text \<open>Awaited without others, the coroutines are the lookups of \<open>Virustotal\<close> and \<open>Rdap\<close>.\<close>

lemma run_vt_coro:
  "run (vt_coro v tm ind) (s\<lparr>co_io := vt_put st io\<rparr>) =
     Some (fst (vt_lookup sql_get sql_set v tm ind st), s\<lparr>co_io := vt_put (snd (vt_lookup sql_get sql_set v tm ind st)) io\<rparr>)"
proof -
  obtain hit st' where "vt_cached sql_get (utc tm) (w0 tm) (''vt:'' @ cache_key_suffix ind) st = (hit, st')" by fastforce
  then show ?thesis
    by (cases st') (auto simp: vt_coro_def vt_lookup_def vt_live_def cb_call_def breaker_call_def on_vt_def vt_set_def vt_fetch_section_def
        vt_store_def Let_def case_prod_beta split: option.split sum.split)
qed

lemma run_tld_map:
  "\<not> co_lock s \<Longrightarrow> run (tld_map_coro http tm) (s\<lparr>co_io := rdap_put w io\<rparr>) =
     Some (fst (get_tld_map sql_get sql_set http tm w), s\<lparr>co_io := rdap_put (snd (get_tld_map sql_get sql_set http tm w)) io\<rparr>)"
  by (auto simp: tld_map_coro_def boot_load_def boot_get_def leave_def rdap_cache_set_def get_tld_map_def on_rdap_def
      case_prod_beta split: option.split sum.split)

lemma run_rdap_fetch:
  "\<not> co_lock s \<Longrightarrow> run (rdap_fetch_coro http tm dn) (s\<lparr>co_io := rdap_put w io\<rparr>) =
     Some (fst (rdap_fetch sql_get sql_set http tm dn w), s\<lparr>co_io := rdap_put (snd (rdap_fetch sql_get sql_set http tm dn w)) io\<rparr>)"
  by (auto simp: rdap_fetch_coro_def base_url_coro_def rdap_fetch_def get_base_url_def on_rdap_def run_tld_map Let_def
      case_prod_beta split: option.split sum.split)

lemma run_rdap_coro:
  assumes "\<not> co_lock s"
  shows "run (rdap_coro http tm ind) (s\<lparr>co_io := rdap_put (rdap_world st) (io\<lparr>io_rdap_cb := rdap_cb st\<rparr>)\<rparr>) =
    (let (r, st') = rdap_lookup sql_get sql_set http tm ind st
     in Some (r, s\<lparr>co_io := rdap_put (rdap_world st') (io\<lparr>io_rdap_cb := rdap_cb st'\<rparr>)\<rparr>))"
  using assms
  by (auto simp: rdap_coro_def rdap_lookup_def rdap_live_def cb_call_def breaker_call_def on_rdap_def rdap_cache_set_def run_rdap_fetch
      Let_def case_prod_beta split: option.split sum.split json.split)

lemma run_vt_task:
  "run (vt_task env ind) s =
     (let (r, io) = worker_lookup (c_now (main_clients env) (co_io s)) (c_vt (main_clients env)) ind ''virustotal'' (co_io s)
      in Some (r, s\<lparr>co_io := io\<rparr>))"
proof (cases "te_vt env")
  case (Some v)
  let ?io = "(co_io s)\<lparr>io_step := io_step (co_io s) + 1\<rparr>"
  have "run (vt_coro v (te_vt_times env (io_step (co_io s))) ind) (s\<lparr>co_io := ?io\<rparr>) =
      Some (fst (vt_client env v ind (co_io s)), s\<lparr>co_io := snd (vt_client env v ind (co_io s))\<rparr>)"
    using run_vt_coro [of v "te_vt_times env (io_step (co_io s))" ind "vt_view ?io" ?io s]
    by (simp add: vt_client_def vt_put_def vt_view_def case_prod_beta Let_def)
  then show ?thesis using Some
    by (auto simp: vt_task_def tick_def main_clients_def worker_lookup_def looked_up_def case_prod_beta Let_def split: sum.split)
qed (simp add: vt_task_def main_clients_def worker_lookup_def)

lemma run_rdap_task:
  assumes "\<not> co_lock s"
  shows "run (rdap_task env ind) s =
     (let (r, io) = worker_lookup (c_now (main_clients env) (co_io s)) (c_rdap (main_clients env)) ind ''rdap'' (co_io s)
      in Some (r, s\<lparr>co_io := io\<rparr>))"
proof -
  let ?io = "(co_io s)\<lparr>io_step := io_step (co_io s) + 1\<rparr>"
  have "run (rdap_coro (te_http env) (te_rdap_times env (io_step (co_io s))) ind) (s\<lparr>co_io := ?io\<rparr>) =
      Some (fst (rdap_client env ind (co_io s)), s\<lparr>co_io := snd (rdap_client env ind (co_io s))\<rparr>)"
    using run_rdap_coro [OF assms, of "te_http env" "te_rdap_times env (io_step (co_io s))" ind
        "\<lparr>rdap_world = rdap_view ?io, rdap_cb = io_rdap_cb ?io\<rparr>" ?io]
    by (simp add: rdap_client_def rdap_put_def rdap_view_def case_prod_beta Let_def)
  then show ?thesis
    by (auto simp: rdap_task_def tick_def main_clients_def worker_lookup_def looked_up_def case_prod_beta Let_def split: sum.split)
qed

lemma run_tasks_one:
  assumes "\<not> co_lock s" "enrich_one (main_clients env) cfg ind (co_io s) = (ps, io')"
  shows "\<exists>as. run_all (tasks_one env cfg ind) s = Some (as, s\<lparr>co_io := io'\<rparr>) \<and> concat as = ps"
proof -
  have g: "run (geo_task env ind) s = (let (r, io) = worker_lookup (c_now (main_clients env) (co_io s)) (c_geoip (main_clients env)) ind ''geoip'' (co_io s)
      in Some (r, s\<lparr>co_io := io\<rparr>))" for s
    by (simp add: geo_task_def main_clients_def case_prod_beta Let_def)
  consider "ind_type ind = IP" | "ind_type ind = DOMAIN" | "ind_type ind \<noteq> IP" "ind_type ind \<noteq> DOMAIN" by blast
  then show ?thesis
    using assms
    by cases (auto simp: tasks_one_def enrich_one_def g run_vt_task run_rdap_task main_clients_def case_prod_beta Let_def split: if_splits)
qed



section \<open>How long the lookups are\<close>

abbreviation steps :: "nat \<Rightarrow> (conc, 'a) coro \<Rightarrow> bool" where
  "steps \<equiv> spends sections (\<lambda>_. True)"

lemma steps_done: "steps n (Done a)"
  by (simp add: spends_done)

lemma steps_io: "1 \<le> n \<Longrightarrow> steps n (on_io f)"
  unfolding on_io_def by (rule spends_atomic) (simp add: sections_def)

lemma steps_sections: "1 \<le> n \<Longrightarrow> steps n (on_vt f)" "1 \<le> n \<Longrightarrow> steps n (on_rdap g)" "1 \<le> n \<Longrightarrow> steps n tick" "1 \<le> n \<Longrightarrow> steps n (leave r)"
  unfolding on_vt_def on_rdap_def tick_def leave_def by (simp_all add: steps_io spends_atomic sections_def)

lemma steps_bind: "steps n c \<Longrightarrow> n \<le> N \<Longrightarrow> (\<And>a. steps (N - n) (k a)) \<Longrightarrow> steps N (cbind c k)"
  by (rule spends_bind)

lemma steps_breaker: "steps n body \<Longrightarrow> n + 2 \<le> N \<Longrightarrow> steps N (breaker_call get put t0 t1 body)"
  unfolding breaker_call_def
  by (rule steps_bind [OF steps_io [OF order_refl]])
    (auto split: option.split intro!: steps_done steps_bind [where n = n] steps_io)

lemmas steps_binds = steps_bind [OF steps_io [OF order_refl]] steps_bind [OF steps_sections(1) [OF order_refl]]
  steps_bind [OF steps_sections(2) [OF order_refl]] steps_bind [OF steps_sections(3) [OF order_refl]]

lemma steps_vt_coro: "steps 6 (vt_coro v tm ind)"
  unfolding vt_coro_def vt_set_def vt_fetch_section_def Let_def
  by (auto split: option.split sum.split intro!: steps_done steps_binds steps_sections
      steps_bind [OF steps_breaker [where n = 1, OF _ order_refl]])

lemma steps_boot_load: "steps 4 (boot_load http tm)"
  unfolding boot_load_def boot_get_def rdap_cache_set_def
  by (auto split: option.split sum.split intro!: steps_done steps_binds steps_sections)

lemma steps_rdap_fetch: "steps 7 (rdap_fetch_coro http tm dn)"
proof -
  have "steps 5 (Step (\<lambda>s. \<not> co_lock s) (\<lambda>s. case io_tld_map (co_io s) of
      Some m \<Rightarrow> (Done (Inr m), s) | None \<Rightarrow> (boot_load http tm, s\<lparr>co_lock := True\<rparr>)))"
    using steps_boot_load [of http tm]
    by (intro spends_step exI [of _ 1] exI [of _ 4]) (auto simp: steps_done sections_def split: option.split)
  then have "steps 6 (tld_map_coro http tm)"
    unfolding tld_map_coro_def by (auto split: option.split intro!: steps_done steps_binds)
  then have "steps 6 (base_url_coro http tm dn)"
    unfolding base_url_coro_def by (auto split: option.split intro: steps_bind simp: steps_done)
  then show ?thesis
    unfolding rdap_fetch_coro_def
    by (rule steps_bind) (auto split: sum.split intro!: steps_done steps_sections)
qed

lemma steps_rdap_coro: "steps 11 (rdap_coro http tm ind)"
  unfolding rdap_coro_def rdap_cache_set_def Let_def
  by (auto split: option.split sum.split json.split prod.split intro!: steps_done steps_binds
      steps_bind [OF steps_breaker [OF steps_rdap_fetch order_refl]])

lemma steps_vt_task: "steps 7 (vt_task env ind)"
  unfolding vt_task_def by (auto split: option.split intro!: steps_done steps_io steps_binds steps_bind [OF steps_vt_coro])

lemma steps_rdap_task: "steps 12 (rdap_task env ind)"
  unfolding rdap_task_def by (auto intro!: steps_done steps_binds steps_bind [OF steps_rdap_coro])

lemma steps_tasks: "\<forall>c\<in>set (tasks env cfg inds). steps 12 c"
  unfolding tasks_def tasks_one_def geo_task_def
  by (auto intro!: steps_done steps_io steps_binds steps_bind [OF steps_vt_task] steps_bind [OF steps_rdap_task])

section \<open>The registry directory is loaded under its lock\<close>

text \<open>Whether what IANA answers is a directory the program can read, or no answer at all, for which there is the fallback.\<close>

definition directory_readable :: "(string \<Rightarrow> http_result) \<Rightarrow> bool" where
  "directory_readable http =
     (case (case http IANA_BOOTSTRAP_URL of HttpExn e \<Rightarrow> Inl e | HttpResp code body \<Rightarrow> rbind (raise_for_status code) (\<lambda>_. body)) of
        Inl _ \<Rightarrow> True
      | Inr data \<Rightarrow> (case parse_bootstrap data of Inl _ \<Rightarrow> False | Inr _ \<Rightarrow> True))"

definition downloads :: "triage_io \<Rightarrow> nat" where
  "downloads io = count_list (io_rdap_requests io) IANA_BOOTSTRAP_URL"

text \<open>\<open>n\<close> is the number of downloads before the lookups.\<close>

definition directory :: "(string \<Rightarrow> http_result) \<Rightarrow> nat \<Rightarrow> conc lock_view" where
  "directory http n =
     \<lparr>lk_held = co_lock,
      lk_rest = (\<lambda>s. directory_readable http \<longrightarrow>
        downloads (co_io s) = n \<or> downloads (co_io s) = n + 1 \<and> io_tld_map (co_io s) \<noteq> None),
      lk_safe = (\<lambda>s. directory_readable http \<longrightarrow> downloads (co_io s) \<le> n + 1),
      lk_quiet = (\<lambda>s s'. co_lock s' = co_lock s \<and> io_tld_map (co_io s') = io_tld_map (co_io s) \<and>
        downloads (co_io s') = downloads (co_io s))\<rparr>"

interpretation directory: lock "directory http n" for http n
  by unfold_locales (auto simp: directory_def)

text \<open>What the holder knows: the directory is not in memory, and was downloaded \<open>k\<close> times.\<close>

definition directory_missing :: "(string \<Rightarrow> http_result) \<Rightarrow> nat \<Rightarrow> conc \<Rightarrow> bool" where
  "directory_missing http k s \<longleftrightarrow> io_tld_map (co_io s) = None \<and> (directory_readable http \<longrightarrow> downloads (co_io s) = k)"

lemma directory_stable: "k \<le> n + 1 \<Longrightarrow> stable (directory http n) (directory_missing http k)"
  by (auto simp: stable_def directory_def directory_missing_def)

lemma downloads_put [simp]:
  "downloads (vt_put st io) = downloads io" "io_tld_map (vt_put st io) = io_tld_map io"
  "downloads (rdap_put w io) = count_list (rdap_requests w) IANA_BOOTSTRAP_URL"
  "downloads (io\<lparr>io_step := n\<rparr>) = downloads io" "downloads (io\<lparr>io_rdap_cb := cb\<rparr>) = downloads io" "downloads (io\<lparr>io_vt_cb := cb\<rparr>) = downloads io"
  "downloads (io\<lparr>io_tld_map := m\<rparr>) = downloads io"
  "rdap_tld_map (rdap_view io) = io_tld_map io" "count_list (rdap_requests (rdap_view io)) IANA_BOOTSTRAP_URL = downloads io"
  by (simp_all add: downloads_def vt_put_def rdap_put_def rdap_view_def)

lemma rdap_url_not_directory: "rdap_url b dn \<noteq> IANA_BOOTSTRAP_URL"
proof
  assume e: "rdap_url b dn = IANA_BOOTSTRAP_URL"
  have "sublist ''/domain/'' (rdap_url b dn)" unfolding rdap_url_def by (rule sublist_appendI)
  moreover have "\<not> contains ''/domain/'' IANA_BOOTSTRAP_URL" by code_simp
  ultimately show False using e by (simp add: contains_sublist)
qed

lemma locked_io:
  "(\<And>io. io_tld_map (snd (f io)) = io_tld_map io \<and> downloads (snd (f io)) = downloads io) \<Longrightarrow> guards (directory http n) None (on_io f)"
  unfolding on_io_def by (rule guards_atomic) (simp add: directory_def)

lemma locked_vt: "guards (directory http n) None (on_vt f)"
  unfolding on_vt_def by (rule locked_io) simp

lemma locked_rdap:
  "(\<And>w. rdap_tld_map (snd (f w)) = rdap_tld_map w \<and>
      count_list (rdap_requests (snd (f w))) IANA_BOOTSTRAP_URL = count_list (rdap_requests w) IANA_BOOTSTRAP_URL) \<Longrightarrow>
   guards (directory http n) None (on_rdap f)"
  unfolding on_rdap_def by (rule locked_io) simp

lemma locked_vt_breaker:
  "guards (directory http n) None body \<Longrightarrow> guards (directory http n) None (breaker_call io_vt_cb (\<lambda>cb. io_vt_cb_update (\<lambda>_. cb)) t0 t1 body)"
  unfolding breaker_call_def by (intro guards_cbind locked_io) (auto split: option.split intro!: guards_done guards_cbind locked_io)

lemma locked_rdap_breaker:
  "guards (directory http n) None body \<Longrightarrow> guards (directory http n) None (breaker_call io_rdap_cb (\<lambda>cb. io_rdap_cb_update (\<lambda>_. cb)) t0 t1 body)"
  unfolding breaker_call_def by (intro guards_cbind locked_io) (auto split: option.split intro!: guards_done guards_cbind locked_io)

lemma locked_vt_coro: "guards (directory http n) None (vt_coro v tm ind)"
  unfolding vt_coro_def vt_set_def vt_fetch_section_def Let_def
  by (auto split: option.split sum.split intro!: guards_done guards_cbind locked_vt locked_vt_breaker)

lemma download_facts:
  "rdap_tld_map (snd (rdap_download http w)) = rdap_tld_map w" "fst (rdap_download http w) = Inl e \<Longrightarrow> \<not> directory_readable http"
  by (auto simp: rdap_download_def directory_readable_def Let_def split: http_result.splits sum.splits)

lemma locked_leave:
  "guards (directory http n) (Some (directory_missing http n)) (leave (Inr m))"
  "guards (directory http n) (Some (directory_missing http (Suc n))) (leave (Inr m))"
  "\<not> directory_readable http \<Longrightarrow> guards (directory http n) (Some (directory_missing http (Suc n))) (leave (Inl e))"
  unfolding leave_def by (rule guards_leave [OF directory_stable]; auto simp: directory_def directory_missing_def)+

lemma locked_rdap_hold:
  assumes "k \<le> n + 1" "\<And>s. directory_missing http k s \<Longrightarrow>
     directory_missing http j (s\<lparr>co_io := rdap_put (snd (f (rdap_view (co_io s)))) (co_io s)\<rparr>) \<and>
     guards (directory http n) (Some (directory_missing http j)) (c (fst (f (rdap_view (co_io s)))))"
  shows "guards (directory http n) (Some (directory_missing http k)) (cbind (on_rdap f) c)"
  unfolding on_rdap_def on_io_def
  by (rule guards_hold [OF directory_stable [OF assms(1)]]) (use assms(2) in \<open>fastforce simp: directory_def\<close>)

lemma locked_boot_load: "guards (directory http n) (Some (directory_missing http n)) (boot_load http tm)"
proof -
  have set: "guards (directory http n) (Some (directory_missing http (Suc n))) (cbind (rdap_cache_set t key d) (\<lambda>_. leave (Inr m)))" for t key d m
    unfolding rdap_cache_set_def by (rule locked_rdap_hold [where j = "Suc n"]) (simp_all add: directory_missing_def locked_leave)
  have "guards (directory http n) (Some (directory_missing http n)) (cbind (on_rdap (rdap_download http)) (\<lambda>out. case out of
      Inl e \<Rightarrow> leave (Inl e) | Inr m \<Rightarrow> cbind (rdap_cache_set t key m) (\<lambda>_. leave (Inr (JObj m)))))" for t key
    by (rule locked_rdap_hold [where j = "Suc n"])
      (auto simp: set locked_leave directory_missing_def rdap_download_requests download_facts(1) split: sum.split dest: download_facts(2))
  then show ?thesis
    unfolding boot_load_def boot_get_def
    by (intro locked_rdap_hold [where j = n]) (auto simp: directory_missing_def locked_leave split: option.split)
qed

lemma locked_rdap_fetch: "guards (directory http n) None (rdap_fetch_coro http tm dn)"
proof -
  let ?f = "\<lambda>s::conc. case io_tld_map (co_io s) of
      Some m \<Rightarrow> (Done (Inr m), s) | None \<Rightarrow> (boot_load http tm, s\<lparr>co_lock := True\<rparr>)"
  have "lk_quiet (directory http n) s (snd (?f s)) \<and> guards (directory http n) None (fst (?f s)) \<or>
      \<not> lk_held (directory http n) s \<and> lk_held (directory http n) (snd (?f s)) \<and>
      (lk_rest (directory http n) s \<longrightarrow> (\<exists>p. p (snd (?f s)) \<and> guards (directory http n) (Some p) (fst (?f s))))" if "\<not> co_lock s" for s
  proof (cases "io_tld_map (co_io s)")
    case None
    have "directory_missing http n (s\<lparr>co_lock := True\<rparr>)" if "lk_rest (directory http n) s"
      using that None by (auto simp: directory_def directory_missing_def)
    then show ?thesis using None that locked_boot_load [of http n tm] by (auto simp: directory_def)
  qed (simp add: directory_def guards_done)
  then have "guards (directory http n) None (Step (\<lambda>s. \<not> co_lock s) ?f)"
    by (intro guards_out) (simp_all add: directory_def)
  then have "guards (directory http n) None (tld_map_coro http tm)"
    unfolding tld_map_coro_def by (intro guards_cbind locked_io) (auto simp: guards_done split: option.split)
  then have "guards (directory http n) None (base_url_coro http tm dn)"
    unfolding base_url_coro_def by (auto simp: guards_done split: option.split intro: guards_cbind)
  then show ?thesis
    unfolding rdap_fetch_coro_def
    by (rule guards_cbind) (auto simp: guards_done rdap_url_not_directory split: sum.split intro!: locked_rdap)
qed

lemma locked_rdap_coro: "guards (directory http n) None (rdap_coro http tm ind)"
  unfolding rdap_coro_def rdap_cache_set_def Let_def
  by (auto split: option.split sum.split json.split prod.split intro!: guards_done guards_cbind locked_rdap locked_rdap_breaker locked_rdap_fetch)

lemma geo_keeps: "io_tld_map (snd (geo_client env ind io)) = io_tld_map io \<and> downloads (snd (geo_client env ind io)) = downloads io"
  by (simp add: geo_client_def downloads_def case_prod_beta)

lemma locked_tasks: "\<forall>c\<in>set (tasks env cfg inds). guards (directory (te_http env) n) None c"
proof -
  have "guards (directory (te_http env) n) None tick" unfolding tick_def by (rule locked_io) simp
  moreover have "guards (directory (te_http env) n) None (geo_task env ind)" for ind
    unfolding geo_task_def by (rule locked_io) (simp add: worker_lookup_state geo_keeps)
  ultimately show ?thesis
    unfolding tasks_def tasks_one_def vt_task_def rdap_task_def
    by (auto split: option.split intro!: guards_done guards_cbind locked_io locked_vt_coro locked_rdap_coro)
qed

section \<open>What the lookups send and answer\<close>

definition requesting :: "string set \<Rightarrow> string set \<Rightarrow> nat \<Rightarrow> conc \<Rightarrow> conc \<Rightarrow> bool" where
  "requesting V R k s s' \<longleftrightarrow> sends (co_io s) (co_io s') V R k"

interpretation requests: additive_moves "requesting V R" for V R
proof
  show "requesting V R 0 s s" for s by (simp add: requesting_def sends_def)
  show "requesting V R (k + m) s u" if "requesting V R k s t" "requesting V R m t u" for k m s t u
    using sends_trans [of "co_io s" "co_io t" V R k "co_io u" V R m] that by (simp add: requesting_def)
  show "requesting V R m s t" if "requesting V R k s t" "k \<le> m" for k m s t
    using that sends_mono [of "co_io s" "co_io t" V R k V R m] by (simp add: requesting_def)
qed

lemma req_io: "(\<And>io. sends io (snd (f io)) V R n \<and> Q (fst (f io))) \<Longrightarrow> spends (requesting V R) Q n (on_io f)"
  unfolding on_io_def by (rule spends_atomic) (simp add: requesting_def)

lemma req_vt: "(\<And>st. vt_requests (snd (f st)) = vt_requests st \<and> Q (fst (f st))) \<Longrightarrow> spends (requesting V R) Q n (on_vt f)"
  unfolding on_vt_def by (rule req_io) (simp add: sends_def vt_put_def vt_view_def)

lemma req_vt_one:
  assumes "\<And>st. vt_requests (snd (f st)) \<in> {vt_requests st, vt_requests st @ [u]}" "u \<in> V"
  shows "spends (requesting V R) (\<lambda>_. True) 1 (on_vt f)"
  unfolding on_vt_def
proof (rule req_io)
  show "sends io (snd (fst (f (vt_view io)), vt_put (snd (f (vt_view io))) io)) V R 1 \<and> True" for io
    using assms(1) [of "vt_view io"] assms(2) by (auto simp: sends_def vt_put_def) (auto simp: vt_view_def)
qed

lemma req_rdap:
  assumes "\<And>w. set (rdap_requests (snd (f w))) \<subseteq> R \<union> set (rdap_requests w) \<and> Q (fst (f w))"
  shows "spends (requesting V R) Q n (on_rdap f)"
  unfolding on_rdap_def
proof (rule req_io)
  show "sends io (snd (fst (f (rdap_view io)), rdap_put (snd (f (rdap_view io))) io)) V R n \<and>
      Q (fst (fst (f (rdap_view io)), rdap_put (snd (f (rdap_view io))) io))" for io
    using assms [of "rdap_view io"] by (simp add: sends_def rdap_put_def) (simp add: rdap_view_def)
qed

lemma req_step: "(\<And>s. g s \<Longrightarrow> co_io (snd (f s)) = co_io s \<and> spends (requesting V R) Q n (fst (f s))) \<Longrightarrow> spends (requesting V R) Q n (Step g f)"
  by (rule spends_step, rule exI [of _ 0]) (auto simp: requesting_def sends_def)

lemma req_breaker:
  assumes "spends (requesting V R) (\<lambda>_. True) n body" "\<And>cb io. io_vt_requests (put cb io) = io_vt_requests io \<and> io_rdap_requests (put cb io) = io_rdap_requests io"
  shows "spends (requesting V R) (\<lambda>_. True) n (breaker_call get put t0 t1 body)"
proof -
  have io: "spends (requesting V R) (\<lambda>_. True) 0 (on_io (\<lambda>io. (h io, put (l io) io)))" for h :: "triage_io \<Rightarrow> 'b" and l
    by (rule req_io) (simp add: sends_def assms(2))
  show ?thesis
    unfolding breaker_call_def
    by (rule spends_bind [OF io]) (auto split: option.split intro!: spends_done spends_bind [OF assms(1)] io)
qed

definition answer_ok :: "string \<Rightarrow> enrichment_result res \<Rightarrow> bool" where
  "answer_ok src r \<longleftrightarrow> (\<forall>x. r = Inr x \<longrightarrow> result_ok x \<and> r_source x = src)"

lemma vt_cached_answer: "fst (vt_cached sql_get now w key st) = Some r \<Longrightarrow> answer_ok ''virustotal'' r"
  using vt_cached_ok [of sql_get now w key st] by (cases "vt_cached sql_get now w key st") (auto simp: answer_ok_def)

lemma vt_failed_answer: "answer_ok ''virustotal'' (fst (vt_failed sql_get tm key e st))"
  using vt_failed_ok [of sql_get tm key e st] by (cases "vt_failed sql_get tm key e st") (auto simp: answer_ok_def)

lemma req_vt_coro:
  assumes "endpoint_url ind \<in> V"
  shows "spends (requesting V R) (answer_ok ''virustotal'') 1 (vt_coro v tm ind)"
proof -
  have c: "spends (requesting V R) (\<lambda>hit. \<forall>r. hit = Some r \<longrightarrow> answer_ok ''virustotal'' r) 0 (on_vt (vt_cached sql_get now w key))" for now w key
    by (rule req_vt) (simp add: vt_cached_requests vt_cached_answer)
  have "spends (requesting V R) (\<lambda>_. True) 1 (vt_fetch_section v ind)"
    unfolding vt_fetch_section_def by (rule req_vt_one [OF _ assms]) (use vt_fetch_requests [of v ind] in simp)
  then have b: "spends (requesting V R) (\<lambda>_. True) 1 (breaker_call io_vt_cb (\<lambda>cb. io_vt_cb_update (\<lambda>_. cb)) t0 t1 (vt_fetch_section v ind))" for t0 t1
    by (rule req_breaker) simp
  have s: "spends (requesting V R) (\<lambda>_. True) 0 (vt_set tm key raw ttl)" for key raw ttl
    unfolding vt_set_def by (rule req_vt) simp
  have n: "answer_ok ''virustotal'' (Inr (not_configured now ''virustotal''))" for now by (simp add: answer_ok_def)
  have p: "answer_ok ''virustotal'' (parse_vt_response now raw cached age)" for now raw cached age
    by (auto simp: answer_ok_def dest: parse_vt_ok)
  have f: "spends (requesting V R) (answer_ok ''virustotal'') 0 (on_vt (vt_failed sql_get tm key e))" for key e
    by (rule req_vt) (simp add: vt_failed_requests vt_failed_answer)
  show ?thesis
    unfolding vt_coro_def Let_def
    by (auto split: option.split sum.split intro!: spends_done spends_bind [OF c] spends_bind [OF b] spends_bind [OF s] n p f)
qed

lemma req_rdap_coro:
  assumes "IANA_BOOTSTRAP_URL \<in> R" "\<And>b v. ind_type ind = DOMAIN \<Longrightarrow> ind_value ind = JStr v \<Longrightarrow> rdap_url b (normalise_domain v) \<in> R"
  shows "spends (requesting V R) (answer_ok ''rdap'') 0 (rdap_coro http tm ind)"
proof -
  note bind = spends_bind [where n = 0 and P = "\<lambda>_. True"]
  have leave: "spends (requesting V R) (\<lambda>_. True) 0 (leave r)" for r
    unfolding leave_def by (rule spends_atomic) (auto simp: requesting_def sends_def split: sum.split)
  have set: "spends (requesting V R) (\<lambda>_. True) 0 (rdap_cache_set t key d)" for t key d
    unfolding rdap_cache_set_def by (rule req_rdap) auto
  have get: "spends (requesting V R) (\<lambda>_. True) 0 (on_rdap (\<lambda>w. (h w, w\<lparr>rdap_cache := l w\<rparr>)))" for h :: "sqlite_cache rdap_world \<Rightarrow> json option" and l
    by (rule req_rdap) auto
  have "spends (requesting V R) (\<lambda>_. True) 0 (on_rdap (rdap_download http))"
    by (rule req_rdap) (use assms(1) in \<open>auto simp: rdap_download_requests\<close>)
  then have boot: "spends (requesting V R) (\<lambda>_. True) 0 (boot_load http tm)"
    unfolding boot_load_def boot_get_def by (auto split: option.split sum.split intro!: bind get set leave)
  have tld: "spends (requesting V R) (\<lambda>_. True) 0 (tld_map_coro http tm)"
    unfolding tld_map_coro_def
    by (auto split: option.split intro!: bind spends_done req_step boot req_io simp: sends_def)
  have fetch: "spends (requesting V R) (\<lambda>_. True) 0 (rdap_fetch_coro http tm (normalise_domain v))"
    if "ind_type ind = DOMAIN" "ind_value ind = JStr v" for v
    unfolding rdap_fetch_coro_def base_url_coro_def
    by (auto split: option.split sum.split intro!: bind spends_done tld req_rdap simp: assms(2) [OF that])
  have outcome: "answer_ok ''rdap'' (fst (rdap_outcome now out))" for now out
    by (auto simp: answer_ok_def rdap_outcome_def dest: build_result_ok split: sum.split)
  have v: "ind_value ind = JStr v" if "jstr ''lower'' (ind_value ind) = Inr v" for v
    using that by (cases "ind_value ind") auto
  have built: "answer_ok ''rdap'' (build_result now d cached age)" for now d cached age by (auto simp: answer_ok_def dest: build_result_ok)
  have e: "answer_ok ''rdap'' (Inl e)" "answer_ok ''rdap'' (Inr (not_configured now ''rdap''))" for e now by (simp_all add: answer_ok_def)
  show ?thesis
  proof (cases "ind_type ind = DOMAIN \<and> (\<exists>v. jstr ''lower'' (ind_value ind) = Inr v)")
    case True
    then obtain v where t: "ind_type ind = DOMAIN" "jstr ''lower'' (ind_value ind) = Inr v" by blast
    have call: "spends (requesting V R) (\<lambda>_. True) 0 (breaker_call io_rdap_cb (\<lambda>cb. io_rdap_cb_update (\<lambda>_. cb)) t0 t1
        (rdap_fetch_coro http tm (normalise_domain v)))" for t0 t1
      by (rule req_breaker [OF fetch [OF t(1) v [OF t(2)]]]) simp
    have stored: "answer_ok ''rdap'' r" if "rdap_outcome now out = (r, p)" for now and out :: "jdict res" and r p
      using outcome [of now out] that by simp
    show ?thesis
      using t unfolding rdap_coro_def Let_def
      by (auto split: option.split sum.split json.split prod.split intro!: bind spends_done get call set built e elim!: stored)
  next
    case False
    then show ?thesis unfolding rdap_coro_def by (auto split: sum.split intro!: spends_done e)
  qed
qed

text \<open>The entries each coroutine contributes to the ledger, with the number of requests to VirusTotal it may make.\<close>

definition parts :: "suricata_config \<Rightarrow> indicator \<Rightarrow> (nat \<times> (indicator \<times> string) list) list" where
  "parts cfg ind =
     (if ind_type ind = IP then [(if is_public_ip (ind_value ind) (Some cfg) then 1 else 0, map (Pair ind) (ledger_sources cfg ind))]
      else if ind_type ind = DOMAIN then [(1, [(ind, ''virustotal'')]), (0, [(ind, ''rdap'')])]
      else [(0, map (Pair ind) (ledger_sources cfg ind))])"

definition ledger_part :: "(indicator \<times> string) list \<Rightarrow> pairs \<Rightarrow> bool" where
  "ledger_part e ps \<longleftrightarrow> map (\<lambda>p. (fst p, r_source (snd p))) ps = e \<and> (\<forall>p\<in>set ps. result_ok (snd p))"

lemma parts_ledger: "concat (map snd (parts cfg ind)) = map (Pair ind) (ledger_sources cfg ind)" "sum_list (map fst (parts cfg ind)) \<le> 1"
  by (cases "ind_type ind"; simp add: parts_def ledger_sources_def)+

lemma answer_looked_up: "answer_ok src r \<Longrightarrow> result_ok (looked_up now src r) \<and> r_source (looked_up now src r) = src"
  by (cases r) (simp_all add: answer_ok_def looked_up_def)

lemma req_tasks:
  assumes "ind \<in> set inds"
  shows "list_all2 (\<lambda>x c. spends (requesting (vt_urls cfg inds) (rdap_urls inds)) (ledger_part (snd x)) (fst x) c) (parts cfg ind) (tasks_one env cfg ind)"
proof -
  let ?G = "requesting (vt_urls cfg inds) (rdap_urls inds)"
  let ?ok = "\<lambda>src r. result_ok r \<and> r_source r = src"
  have tick: "spends ?G (\<lambda>_. True) 0 tick" unfolding tick_def by (rule req_io) (simp add: sends_def)
  have geo: "spends ?G (?ok ''geoip'') 0 (geo_task env ind)"
    unfolding geo_task_def
  proof (rule req_io)
    show "sends io (snd (worker_lookup (te_now env (io_step io)) (Some (geo_client env)) ind ''geoip'' io)) (vt_urls cfg inds) (rdap_urls inds) 0 \<and>
        ?ok ''geoip'' (fst (worker_lookup (te_now env (io_step io)) (Some (geo_client env)) ind ''geoip'' io))" for io
      using main_clients_ok [of env] worker_lookup_source [of "Some (geo_client env)" "''geoip''" "te_now env (io_step io)" ind io]
        sends_mono [OF sends_geo [of io "te_now env (io_step io)" env ind "''geoip''"]]
      by (simp add: main_clients_def clients_ok_def)
  qed
  have vt: "spends ?G (?ok ''virustotal'') 1 (vt_task env ind)" if "endpoint_url ind \<in> vt_urls cfg inds"
  proof (cases "te_vt env")
    case (Some v)
    show ?thesis unfolding vt_task_def Some option.case
      by (rule spends_bind [OF tick], simp, rule spends_bind [OF req_vt_coro [OF that]])
        (auto simp: answer_looked_up intro!: spends_done)
  qed (auto simp: vt_task_def sends_def intro!: req_io)
  have rdap: "spends ?G (?ok ''rdap'') 0 (rdap_task env ind)" if dn: "ind_type ind = DOMAIN"
  proof -
    have "rdap_url b (normalise_domain v) \<in> rdap_urls inds" if "ind_value ind = JStr v" for b v
    proof -
      have "\<lparr>ind_type = DOMAIN, ind_value = JStr v\<rparr> = ind" using that dn by simp
      then show ?thesis using assms by (auto simp: rdap_urls_def)
    qed
    then have c: "spends ?G (answer_ok ''rdap'') 0 (rdap_coro http tm ind)" for http tm
      by (intro req_rdap_coro) (simp_all add: rdap_urls_def)
    show ?thesis unfolding rdap_task_def
      by (rule spends_bind [OF tick], simp, rule spends_bind [OF c]) (auto simp: answer_looked_up intro!: spends_done)
  qed
  have url: "endpoint_url ind \<in> vt_urls cfg inds" if "ind_type ind = DOMAIN \<or> ind_type ind = IP \<and> is_public_ip (ind_value ind) (Some cfg)"
    using that assms by (auto simp: vt_urls_def)
  consider "ind_type ind = IP" | "ind_type ind = DOMAIN" | "ind_type ind \<noteq> IP" "ind_type ind \<noteq> DOMAIN" by blast
  then show ?thesis
  proof cases
    case 1
    then show ?thesis using url
      by (auto simp: parts_def tasks_one_def ledger_sources_def ledger_part_def intro!: spends_bind [OF geo] spends_bind [OF vt] spends_done)
  next
    case 2
    then show ?thesis using url
      by (auto simp: parts_def tasks_one_def ledger_part_def intro!: spends_bind [OF vt] spends_bind [OF rdap] spends_done)
  next
    case 3
    then show ?thesis
      by (cases "ind_type ind")
        (auto simp: parts_def tasks_one_def ledger_sources_def ledger_part_def sends_def intro!: req_io)
  qed
qed

lemma tasks_fit:
  "fits (requesting (vt_urls cfg inds) (rdap_urls inds)) ledger_part (concat (map (parts cfg) inds)) (tasks env cfg inds)"
proof -
  let ?G = "requesting (vt_urls cfg inds) (rdap_urls inds)"
  have "fits ?G ledger_part (concat (map (parts cfg) is)) (tasks env cfg is)" if "set is \<subseteq> set inds" for "is"
    using that
  proof (induction "is")
    case (Cons i "is")
    then show ?case using req_tasks [of i inds cfg env] by (simp add: fits_def tasks_def list_all2_appendI)
  qed (simp add: fits_def tasks_def)
  then show ?thesis by simp
qed

lemma parts_all:
  "concat (map snd (concat (map (parts cfg) inds))) = concat (map (\<lambda>i. map (Pair i) (ledger_sources cfg i)) inds)"
  "units (concat (map (parts cfg) inds)) \<le> length inds"
proof -
  show "concat (map snd (concat (map (parts cfg) inds))) = concat (map (\<lambda>i. map (Pair i) (ledger_sources cfg i)) inds)"
    by (induction inds) (simp_all add: parts_ledger(1))
  show "units (concat (map (parts cfg) inds)) \<le> length inds"
  proof (induction inds)
    case (Cons i inds)
    then show ?case using parts_ledger(2) [of cfg i] by simp
  qed simp
qed

lemma ledger_parts:
  "list_all2 ledger_part es as \<Longrightarrow> map (\<lambda>p. (fst p, r_source (snd p))) (concat as) = concat es \<and> (\<forall>p\<in>set (concat as). result_ok (snd p))"
  by (induction rule: list_all2_induct) (auto simp: ledger_part_def)



text \<open>C25: the lookups of an alert all end: there is no deadlock, and if the event loop gives every coroutine a turn again and again, in
  whatever order, they have ended after twelve rounds for each; the ledger then has exactly one well-formed entry per source
  consulted for each indicator, in the order of the indicators, as when they are run one after the other; and the lock is free.\<close>

theorem concurrent_lookups_finish:
  assumes "\<forall>r\<in>set rounds. {..<length (tasks env cfg inds)} \<subseteq> set r" "12 * length (tasks env cfg inds) \<le> length rounds"
    and "schedule (concat rounds) (tasks env cfg inds, \<lparr>co_io = io, co_lock = False\<rparr>) = (cs, s)"
  shows "\<exists>as. results cs = Some as \<and>
    map (\<lambda>p. (fst p, r_source (snd p))) (concat as) = concat (map (\<lambda>i. map (Pair i) (ledger_sources cfg i)) inds) \<and>
    (\<forall>p\<in>set (concat as). result_ok (snd p)) \<and> \<not> co_lock s"
proof -
  obtain as where r: "results cs = Some as" and free: "\<not> co_lock s"
    using directory.lock_rounds_finish [OF locked_tasks steps_tasks _ _ assms, of "downloads io"]
    by (auto simp: directory_def results_Some)
  have "list_all2 ledger_part (map snd (concat (map (parts cfg) inds))) as"
    using requests.schedule_bound [OF tasks_fit assms(3)] r by blast
  note l = ledger_parts [OF this, unfolded parts_all(1)]
  show ?thesis using r l free by blast
qed

theorem concurrent_lookups_finish_witness:
  "let cs = tasks sample_triage_env home_config [\<lparr>ind_type = DOMAIN, ind_value = JStr ''evil.example''\<rparr>];
       rounds = replicate 24 [0, 1]
   in length cs = 2 \<and> (\<exists>as. results (fst (schedule (concat rounds) (cs, \<lparr>co_io = new_io, co_lock = False\<rparr>))) = Some as \<and>
        map (\<lambda>p. r_source (snd p)) (concat as) = [''virustotal'', ''rdap''])"
proof -
  let ?inds = "[\<lparr>ind_type = DOMAIN, ind_value = JStr ''evil.example''\<rparr>]"
  let ?cs = "tasks sample_triage_env home_config ?inds"
  have l: "length ?cs = 2" by (simp add: tasks_def tasks_one_def)
  obtain cs s where r: "schedule (concat (replicate 24 [0, 1])) (?cs, \<lparr>co_io = new_io, co_lock = False\<rparr>) = (cs, s)" by fastforce
  have e: "concat (map (\<lambda>i. map (Pair i) (ledger_sources home_config i)) ?inds) =
      [(\<lparr>ind_type = DOMAIN, ind_value = JStr ''evil.example''\<rparr>, ''virustotal''), (\<lparr>ind_type = DOMAIN, ind_value = JStr ''evil.example''\<rparr>, ''rdap'')]"
    by (simp add: ledger_sources_def)
  obtain as where a: "results cs = Some as" "map (\<lambda>p. (fst p, r_source (snd p))) (concat as) =
      [(\<lparr>ind_type = DOMAIN, ind_value = JStr ''evil.example''\<rparr>, ''virustotal''), (\<lparr>ind_type = DOMAIN, ind_value = JStr ''evil.example''\<rparr>, ''rdap'')]"
    using concurrent_lookups_finish [OF _ _ r] l unfolding e by (auto simp: lessThan_nat_numeral lessThan_Suc)
  have "map (\<lambda>p. r_source (snd p)) (concat as) = map snd (map (\<lambda>p. (fst p, r_source (snd p))) (concat as))" by simp
  then have "map (\<lambda>p. r_source (snd p)) (concat as) = [''virustotal'', ''rdap'']" unfolding a(2) by simp
  then show ?thesis using a(1) l r by (simp add: Let_def)
qed

end
