(* ===== verification/Prompt_Context.thy ===== *)
theory Prompt_Context
  imports Triage_Enrichment
begin

text \<open>
  The enrichment part of the prompt: \<open>build_enrichment_context\<close> and its formatters, and the builder of
  \<open>src/llm/prompt_builder.py\<close>. The template engine is outside the program: rendering a template on its arguments is an
  argument of the builder.
\<close>

definition source_display :: "string \<Rightarrow> string" where
  "source_display src =
     (case map_of [(''virustotal'', ''VirusTotal''), (''geoip'', ''GeoIP''), (''rdap'', ''RDAP'')] (lower src) of
        Some s \<Rightarrow> s | None \<Rightarrow> src)"

text \<open>Only for a count: the number of engines is positive.\<close>

definition vt_label :: "int \<Rightarrow> string \<Rightarrow> string \<Rightarrow> string" where
  "vt_label n malicious engines =
     (if n \<ge> 10 then ''Confirmed malicious '' @ emdash @ '' '' @ malicious @ ''/'' @ engines @ '' vendors''
      else if n > 0 then ''Suspicious '' @ emdash @ '' '' @ malicious @ ''/'' @ engines @ '' vendors''
      else ''Clean '' @ emdash @ '' 0/'' @ engines @ '' vendors, no detections'')"

definition vt_no_analysis_text :: "jdict \<Rightarrow> string" where
  "vt_no_analysis_text data =
     (if truthy (dget data ''not_in_database'' JNull)
      then ''Not in VirusTotal'' @ [CHR 0x27] @ ''s database '' @ emdash @ '' no analysis data returned.''
      else ''VirusTotal returned no analysis data for this indicator.'')"

definition cache_age_clause :: "int \<Rightarrow> string" where
  "cache_age_clause seconds =
     (if seconds < 60 then show_int seconds @ ''s old''
      else let minutes = seconds div 60
           in if minutes < 60 then show_int minutes @ ''m old''
              else let hours = minutes div 60
                   in if hours < 24 then show_int hours @ ''h old''
                      else show_int (hours div 24) @ ''d old'')"

text \<open>The comparisons need numbers (\<open>count_of\<close>); the texts are those of the values.\<close>

definition format_virustotal_fields :: "enrichment_result \<Rightarrow> jdict res" where
  "format_virustotal_fields r =
     (let data = (case r_data r of Some d \<Rightarrow> d | None \<Rightarrow> []);
          malicious = dget data ''malicious_count'' (JInt 0); engines = dget data ''total_engines'' (JInt 0)
      in rbind (count_of engines) (\<lambda>t.
         rbind (if t > 0 then rbind (count_of malicious) (\<lambda>m. Inr (''label'', JStr (vt_label m (py_str malicious) (py_str engines))))
                else Inr (''vt_no_analysis_text'', JStr (vt_no_analysis_text data))) (\<lambda>field.
         rbind (if r_cached r \<and> r_cache_age_seconds r \<noteq> JNull
                then rbind (count_of (r_cache_age_seconds r)) (\<lambda>s. Inr [(''vt_cache_age'', JStr (cache_age_clause s))])
                else Inr []) (\<lambda>age.
           Inr ([(''vt_malicious'', malicious), (''vt_total'', engines), field] @ age)))))"

definition jstr_opt :: "string option \<Rightarrow> json" where
  "jstr_opt s = (case s of Some t \<Rightarrow> JStr t | None \<Rightarrow> JNull)"

text \<open>\<open>d.update(e)\<close>.\<close>

definition dict_update :: "jdict \<Rightarrow> jdict \<Rightarrow> jdict" where
  "dict_update d e = foldl (\<lambda>d p. dict_set (fst p) (snd p) d) d e"

definition context_item :: "indicator \<Rightarrow> enrichment_result \<Rightarrow> jdict res" where
  "context_item ind r =
     (let item = [(''type'', JStr (type_value (ind_type ind))), (''indicator'', ind_value ind),
                  (''source'', JStr (source_display (r_source r))), (''status'', JStr (status_value (r_status r))),
                  (''summary'', jstr_opt (r_summary r)), (''cached'', JBool (r_cached r)),
                  (''cache_age_seconds'', r_cache_age_seconds r)]
      in if lower (r_source r) = ''virustotal'' then rbind (format_virustotal_fields r) (\<lambda>fs. Inr (dict_update item fs))
         else Inr item)"

fun build_enrichment_context :: "pairs \<Rightarrow> jdict list res" where
  "build_enrichment_context [] = Inr []"
| "build_enrichment_context ((ind, r) # ps) =
     (if r_status r \<noteq> CONTRIBUTED then build_enrichment_context ps
      else rbind (context_item ind r) (\<lambda>item. rbind (build_enrichment_context ps) (\<lambda>ctx. Inr (item # ctx))))"

section \<open>The builder\<close>

record prompt_args =
  pa_alert :: json
  pa_correlated_events :: "json list"
  pa_enrichment_context :: "jdict list"
  pa_src_hostname :: json
  pa_dst_hostname :: json

definition DEFAULT_VERSION :: string where
  "DEFAULT_VERSION = ''verdict_v6''"

definition build_prompt :: "(string \<Rightarrow> prompt_args \<Rightarrow> string res) \<Rightarrow> string \<Rightarrow> prompt_args \<Rightarrow> string res" where
  "build_prompt render version args = render (version @ ''.j2'') args"

text \<open>\<open>eval_enrichment_context_from_hits\<close>: the evaluation corpus has its hits in this form.\<close>

record threat_intel_hit =
  hit_type :: string
  hit_indicator :: string
  hit_label :: string
  hit_vt_malicious :: int
  hit_vt_total :: int

definition eval_enrichment_context_from_hits :: "threat_intel_hit list \<Rightarrow> jdict list" where
  "eval_enrichment_context_from_hits hits =
     map (\<lambda>h. [(''type'', JStr (hit_type h)), (''indicator'', JStr (hit_indicator h)), (''source'', JStr ''VirusTotal''),
       (''status'', JStr ''contributed''), (''label'', JStr (hit_label h)), (''vt_malicious'', JInt (hit_vt_malicious h)),
       (''vt_total'', JInt (hit_vt_total h)),
       (''summary'', JStr (show_int (hit_vt_malicious h) @ ''/'' @ show_int (hit_vt_total h) @ '' vendors flagged malicious'')),
       (''cached'', JBool False), (''cache_age_seconds'', JNull), (''failure_reason'', JNull)]) hits"

section \<open>What the model is told\<close>

text \<open>A VirusTotal result as the client makes it: the counts are numbers, and so is the age.\<close>

definition vt_data_ok :: "enrichment_result \<Rightarrow> bool" where
  "vt_data_ok r \<longleftrightarrow>
     (case r_data r of
        None \<Rightarrow> True
      | Some d \<Rightarrow> (\<exists>t. dget d ''total_engines'' (JInt 0) = JInt t) \<and> (\<exists>m. count_of (dget d ''malicious_count'' (JInt 0)) = Inr m)) \<and>
     (r_cache_age_seconds r = JNull \<or> (\<exists>a. r_cache_age_seconds r = JInt a))"

lemma format_total:
  assumes "vt_data_ok r"
  shows "\<exists>fs. format_virustotal_fields r = Inr fs"
proof -
  define data where "data = (case r_data r of Some d \<Rightarrow> d | None \<Rightarrow> [])"
  obtain t m where "count_of (dget data ''total_engines'' (JInt 0)) = Inr t" "count_of (dget data ''malicious_count'' (JInt 0)) = Inr m"
    using assms by (auto simp: vt_data_ok_def data_def split: option.splits)
  moreover have "r_cache_age_seconds r = JNull \<or> (\<exists>a. r_cache_age_seconds r = JInt a)" using assms by (simp add: vt_data_ok_def)
  ultimately show ?thesis
    unfolding format_virustotal_fields_def data_def [symmetric]
    by (cases "t > 0") (auto simp: Let_def simp del: rbind_eq_Inr)
qed

lemma context_item_total: "lower (r_source r) = ''virustotal'' \<longrightarrow> vt_data_ok r \<Longrightarrow> \<exists>item. context_item ind r = Inr item"
  using format_total [of r] by (auto simp: context_item_def Let_def)

lemma build_context_total:
  "\<forall>p\<in>set ps. lower (r_source (snd p)) = ''virustotal'' \<longrightarrow> vt_data_ok (snd p) \<Longrightarrow>
   \<exists>ctx. build_enrichment_context ps = Inr ctx"
proof (induction ps)
  case (Cons p ps)
  obtain ind r where p: "p = (ind, r)" by fastforce
  obtain ctx where "build_enrichment_context ps = Inr ctx" using Cons by auto
  moreover obtain item where "context_item ind r = Inr item"
    using context_item_total [of r] Cons.prems p by auto
  ultimately show ?case by (simp add: p)
qed simp

lemma map_of_dict_update: "map_of (dict_update d e) k = (case map_of (rev e) k of Some v \<Rightarrow> Some v | None \<Rightarrow> map_of d k)"
proof (induction e rule: rev_induct)
  case (snoc p e)
  then show ?case by (cases p) (simp add: dict_update_def)
qed (simp add: dict_update_def)

lemma context_item_facts:
  assumes "context_item ind r = Inr item"
  shows "map_of item ''indicator'' = Some (ind_value ind)" "map_of item ''status'' = Some (JStr (status_value (r_status r)))"
    "map_of item ''source'' = Some (JStr (source_display (r_source r)))"
    "(map_of item ''label'' \<noteq> None \<longleftrightarrow> lower (r_source r) = ''virustotal'' \<and>
       (\<exists>t. count_of (dget (case r_data r of Some d \<Rightarrow> d | None \<Rightarrow> []) ''total_engines'' (JInt 0)) = Inr t \<and> t > 0))"
    "(map_of item ''vt_no_analysis_text'' \<noteq> None \<longleftrightarrow> lower (r_source r) = ''virustotal'' \<and>
       (\<exists>t. count_of (dget (case r_data r of Some d \<Rightarrow> d | None \<Rightarrow> []) ''total_engines'' (JInt 0)) = Inr t \<and> t \<le> 0))"
  using assms
  by (auto simp: context_item_def format_virustotal_fields_def map_of_dict_update Let_def split: if_splits)

lemma build_context_items:
  "build_enrichment_context ps = Inr ctx \<Longrightarrow>
   list_all2 (\<lambda>p item. context_item (fst p) (snd p) = Inr item) (filter (\<lambda>p. r_status (snd p) = CONTRIBUTED) ps) ctx"
proof (induction ps arbitrary: ctx)
  case (Cons p ps)
  obtain ind r where p: "p = (ind, r)" by fastforce
  show ?case
  proof (cases "r_status r = CONTRIBUTED")
    case True
    then obtain item ctx' where "context_item ind r = Inr item" "build_enrichment_context ps = Inr ctx'" "ctx = item # ctx'"
      using Cons.prems p by auto
    with Cons.IH p True show ?thesis by auto
  next
    case False
    with Cons p show ?thesis by auto
  qed
qed simp

section \<open>The context of an enriched alert\<close>

lemma vt_data_ok_constructors [simp]: "vt_data_ok (not_configured now src)" "vt_data_ok (failing now src reason detail)"
  by (simp_all add: vt_data_ok_def not_configured_def failing_def)

lemma parse_vt_data_ok:
  assumes "parse_vt_response now raw cached age = Inr r" "age = JNull \<or> (\<exists>a. age = JInt a)"
  shows "vt_data_ok r"
proof -
  have stats: "(\<exists>t. dget d ''total_engines'' (JInt 0) = JInt t) \<and> (\<exists>m. count_of (dget d ''malicious_count'' (JInt 0)) = Inr m)"
    if "vt_stats raw = Inr (d, s)" for d s
    using that by (auto simp: vt_stats_def dget_def)
  show ?thesis using assms stats
    by (auto simp: parse_vt_response_def vt_data_ok_def contributed_def dget_def not_configured_def failing_def
        split: if_splits sum.splits prod.splits)
qed

lemma vt_cached_data_ok: "vt_cached cget now w key st = (Some (Inr r), st') \<Longrightarrow> vt_data_ok r"
  by (auto simp: vt_cached_def split: prod.splits option.splits intro: parse_vt_data_ok)

lemma serve_stale_data_ok: "serve_stale_or_failing cget tm key reason detail st = (Inr r, st') \<Longrightarrow> vt_data_ok r"
  by (auto simp: serve_stale_or_failing_def dest: vt_cached_data_ok split: prod.splits option.splits)

lemma vt_live_data_ok: "vt_live cget cset env tm ind key st = (Inr r, st') \<Longrightarrow> vt_data_ok r"
  by (auto simp: vt_live_def vt_failed_def Let_def dest: serve_stale_data_ok intro: parse_vt_data_ok split: prod.splits sum.splits if_splits)

lemma vt_lookup_data_ok: "vt_lookup cget cset env tm ind st = (Inr r, st') \<Longrightarrow> vt_data_ok r"
  by (auto simp: vt_lookup_def Let_def dest: vt_cached_data_ok vt_live_data_ok split: if_splits prod.splits option.splits)

lemma vt_client_data_ok: "vt_client env v ind io = (Inr r, io') \<Longrightarrow> vt_data_ok r"
  by (auto simp: vt_client_def dest: vt_lookup_data_ok split: prod.splits)

lemma worker_vt_data_ok: "vt_data_ok (fst (worker_lookup now (c_vt (main_clients env)) ind src io))"
  by (auto simp: worker_lookup_def main_clients_def dest: vt_client_data_ok split: option.splits prod.splits sum.splits)

lemma enrich_one_data_ok:
  assumes "enrich_one (main_clients env) cfg ind io = (ps, io')" "p \<in> set ps" "lower (r_source (snd p)) = ''virustotal''"
  shows "vt_data_ok (snd p)"
proof -
  let ?cs = "main_clients env"
  have "lower (r_source (fst (worker_lookup now (c_geoip ?cs) ind ''geoip'' s))) \<noteq> ''virustotal''"
    "lower (r_source (fst (worker_lookup now (c_rdap ?cs) ind ''rdap'' s))) \<noteq> ''virustotal''" for now s
    using worker_lookup_source [of "c_geoip ?cs" "''geoip''" now ind s] worker_lookup_source [of "c_rdap ?cs" "''rdap''" now ind s]
      main_clients_ok [of env] by (auto simp: clients_ok_def lower_def lower_char_def)
  then show ?thesis
    using assms worker_vt_data_ok
    by (cases "ind_type ind") (auto simp: enrich_one_def case_prod_beta Let_def split: if_splits)
qed

lemma enrich_all_data_ok:
  "enrich_all (main_clients env) cfg inds io = (ps, io') \<Longrightarrow>
   \<forall>p\<in>set ps. lower (r_source (snd p)) = ''virustotal'' \<longrightarrow> vt_data_ok (snd p)"
proof (induction inds arbitrary: io ps io')
  case (Cons ind inds)
  obtain p1 io1 where 1: "enrich_one (main_clients env) cfg ind io = (p1, io1)" by fastforce
  obtain p2 io2 where 2: "enrich_all (main_clients env) cfg inds io1 = (p2, io2)" by fastforce
  from Cons.prems 1 2 have "ps = p1 @ p2" by simp
  with Cons.IH [OF 2] enrich_one_data_ok [OF 1] show ?case by auto
qed simp

text \<open>What the model is told about an alert's indicators: the context is always built; it has one item per contributed
  result, in order, about the right indicator; and a VirusTotal item carries a count exactly when engines were consulted,
  and otherwise the statement that there is no analysis, so that an unknown indicator is never shown as clean.\<close>

theorem prompt_context_faithful:
  assumes "enrich_all (main_clients env) cfg inds io = (ps, io')"
  shows "\<exists>ctx. build_enrichment_context ps = Inr ctx \<and>
    list_all2 (\<lambda>p item. map_of item ''indicator'' = Some (ind_value (fst p)) \<and> map_of item ''status'' = Some (JStr ''contributed'') \<and>
      (r_source (snd p) = ''virustotal'' \<longrightarrow>
        (\<exists>d t. r_data (snd p) = Some d \<and> dget d ''total_engines'' (JInt 0) = JInt t \<and>
          (map_of item ''label'' \<noteq> None \<longleftrightarrow> t > 0) \<and> (map_of item ''vt_no_analysis_text'' \<noteq> None \<longleftrightarrow> t \<le> 0))))
      (filter (\<lambda>p. r_status (snd p) = CONTRIBUTED) ps) ctx"
proof -
  have ok: "\<forall>p\<in>set ps. result_ok (snd p)" using enrich_all_ledger [OF main_clients_ok assms] by blast
  have dat: "\<forall>p\<in>set ps. lower (r_source (snd p)) = ''virustotal'' \<longrightarrow> vt_data_ok (snd p)" by (rule enrich_all_data_ok [OF assms])
  obtain ctx where ctx: "build_enrichment_context ps = Inr ctx" using build_context_total [OF dat] by blast
  have faithful: "map_of item ''indicator'' = Some (ind_value (fst p)) \<and> map_of item ''status'' = Some (JStr ''contributed'') \<and>
      (r_source (snd p) = ''virustotal'' \<longrightarrow>
        (\<exists>d t. r_data (snd p) = Some d \<and> dget d ''total_engines'' (JInt 0) = JInt t \<and>
          (map_of item ''label'' \<noteq> None \<longleftrightarrow> t > 0) \<and> (map_of item ''vt_no_analysis_text'' \<noteq> None \<longleftrightarrow> t \<le> 0)))"
    if p: "p \<in> set (filter (\<lambda>p. r_status (snd p) = CONTRIBUTED) ps)" and it: "context_item (fst p) (snd p) = Inr item" for p item
  proof -
    note facts = context_item_facts [OF it]
    have "\<exists>d. r_data (snd p) = Some d" using p ok by (auto simp: result_ok_def)
    moreover have "vt_data_ok (snd p)" if "r_source (snd p) = ''virustotal''"
      using that p dat by (auto simp: lower_def lower_char_def)
    ultimately show ?thesis using facts p by (auto simp: vt_data_ok_def lower_def lower_char_def)
  qed
  show ?thesis
    by (rule exI [of _ ctx], rule conjI [OF ctx], rule list.rel_mono_strong [OF build_context_items [OF ctx]], rule faithful)
qed

theorem prompt_context_faithful_witness:
  "\<exists>ctx. build_enrichment_context (fst (enrich_all (main_clients sample_triage_env) home_config
     [\<lparr>ind_type = DOMAIN, ind_value = JStr ''evil.example.net''\<rparr>] new_io)) = Inr ctx"
proof -
  obtain ps io' where e: "enrich_all (main_clients sample_triage_env) home_config
      [\<lparr>ind_type = DOMAIN, ind_value = JStr ''evil.example.net''\<rparr>] new_io = (ps, io')" by fastforce
  from prompt_context_faithful [OF e] e show ?thesis by auto
qed

end
