(* ===== verification/Llm.thy ===== *)
theory Llm
  imports Rdap
begin

text \<open>
  The language-model clients: \<open>src/llm/models.py\<close>, the Ollama client of the program (\<open>ollama_client.py\<close>) and the Gemini
  client of the evaluation (\<open>gemini_client.py\<close>). The contract of \<open>src/interfaces/llm_provider.py\<close> is the locale
  \<open>llm_provider\<close>, interpreted for both. Outside the program, and arguments here, are the server, which answers a request
  knowing all requests so far, and what pydantic does before the checks of the model: parsing the text, converting a value
  to a float (its value and its text) and wording an error.
\<close>

section \<open>Texts as characters\<close>

text \<open>A string holds UTF-8 bytes; a character starts at every byte that is not a continuation byte.\<close>

definition continuation :: "char \<Rightarrow> bool" where
  "continuation c \<longleftrightarrow> 128 \<le> (of_char c :: nat) \<and> (of_char c :: nat) < 192"

definition char_len :: "string \<Rightarrow> nat" where
  "char_len s = length (filter (\<lambda>c. \<not> continuation c) s)"

fun take_chars :: "nat \<Rightarrow> string \<Rightarrow> string" where
  "take_chars n [] = []"
| "take_chars n (c # s) =
     (if continuation c then c # take_chars n s
      else case n of 0 \<Rightarrow> [] | Suc k \<Rightarrow> c # take_chars k s)"

fun content_len :: "json \<Rightarrow> int res" where
  "content_len (JStr s) = Inr (int (char_len s))"
| "content_len v = rbind (jlen v) (\<lambda>n. Inr (int n))"

section \<open>Verdicts\<close>

record verdict_output =
  vo_category :: string
  vo_score :: rat
  vo_score_text :: string
  vo_reasoning :: string
  vo_facts :: "string list"

record pydantic =
  py_parse :: "string \<Rightarrow> json option"
  py_float :: "json \<Rightarrow> (rat \<times> string) option"
  py_error_text :: "string \<Rightarrow> string"

definition ValidationError :: "pydantic \<Rightarrow> string \<Rightarrow> exn" where
  "ValidationError pv raw = Exn ''ValidationError'' (py_error_text pv raw) None"

definition CATEGORIES :: "string list" where
  "CATEGORIES = [''likely_fp'', ''suspicious_investigate'', ''likely_tp'']"

fun strings_of :: "json list \<Rightarrow> string list option" where
  "strings_of [] = Some []"
| "strings_of (JStr s # xs) = map_option ((#) s) (strings_of xs)"
| "strings_of (_ # xs) = None"

definition facts_of :: "jdict \<Rightarrow> string list option" where
  "facts_of d =
     (case map_of d ''contributing_facts'' of
        None \<Rightarrow> Some []
      | Some (JArr xs) \<Rightarrow> strings_of xs
      | Some _ \<Rightarrow> None)"

definition check_fields :: "pydantic \<Rightarrow> jdict \<Rightarrow> verdict_output option" where
  "check_fields pv d =
     (case (map_of d ''verdict_category'', Option.bind (map_of d ''confidence_score'') (py_float pv),
            map_of d ''reasoning'', facts_of d) of
        (Some (JStr c), Some (score, text), Some (JStr r), Some facts) \<Rightarrow>
          (if c \<in> set CATEGORIES \<and> 0 \<le> score \<and> score \<le> 1
           then Some \<lparr>vo_category = c, vo_score = score, vo_score_text = text, vo_reasoning = r, vo_facts = facts\<rparr>
           else None)
      | _ \<Rightarrow> None)"

definition model_validate_json :: "pydantic \<Rightarrow> json \<Rightarrow> verdict_output res" where
  "model_validate_json pv raw =
     (case raw of
        JStr s \<Rightarrow>
          (case py_parse pv s of
             Some (JObj d) \<Rightarrow> (case check_fields pv d of Some out \<Rightarrow> Inr out | None \<Rightarrow> Inl (ValidationError pv s))
           | _ \<Rightarrow> Inl (ValidationError pv s))
      | _ \<Rightarrow> Inl (ValidationError pv []))"

definition model_dump :: "verdict_output \<Rightarrow> json" where
  "model_dump out =
     JObj [(''verdict_category'', JStr (vo_category out)), (''confidence_score'', JFloat (vo_score_text out)),
           (''reasoning'', JStr (vo_reasoning out)), (''contributing_facts'', JArr (map JStr (vo_facts out)))]"

record llm_response =
  lr_verdict_category :: string
  lr_confidence_score :: rat
  lr_reasoning :: string
  lr_contributing_facts :: "string list"
  lr_raw_output :: json
  lr_latency_ms :: int
  lr_model_version :: string
  lr_prompt_version :: string
  lr_llm_inputs :: json
  lr_first_attempt_valid :: bool
  lr_attempts :: nat

text \<open>\<open>int(seconds * 1000)\<close>: the monotonic clock does not go back.\<close>

definition response_of :: "rat \<Rightarrow> rat \<Rightarrow> string \<Rightarrow> string \<Rightarrow> json \<Rightarrow> verdict_output \<times> nat \<times> bool \<Rightarrow> llm_response" where
  "response_of t0 t1 model version inputs res =
     (case res of (out, attempts, first) \<Rightarrow>
       \<lparr>lr_verdict_category = vo_category out, lr_confidence_score = vo_score out, lr_reasoning = vo_reasoning out,
        lr_contributing_facts = vo_facts out, lr_raw_output = model_dump out, lr_latency_ms = \<lfloor>(t1 - t0) * 1000\<rfloor>,
        lr_model_version = model, lr_prompt_version = version, lr_llm_inputs = inputs,
        lr_first_attempt_valid = first, lr_attempts = attempts\<rparr>)"

definition RuntimeError :: "string \<Rightarrow> exn" where
  "RuntimeError m = Exn ''RuntimeError'' m None"

section \<open>Ollama\<close>

definition OUTPUT_SCHEMA :: json where
  "OUTPUT_SCHEMA =
     JObj [(''type'', JStr ''object''),
       (''properties'', JObj
          [(''verdict_category'', JObj [(''type'', JStr ''string''), (''enum'', JArr (map JStr CATEGORIES))]),
           (''confidence_score'', JObj [(''type'', JStr ''number'')]),
           (''reasoning'', JObj [(''type'', JStr ''string'')]),
           (''contributing_facts'', JObj [(''type'', JStr ''array''), (''items'', JObj [(''type'', JStr ''string'')])])]),
       (''required'', JArr [JStr ''verdict_category'', JStr ''confidence_score'', JStr ''reasoning'', JStr ''contributing_facts''])]"

definition MAX_ATTEMPTS :: nat where
  "MAX_ATTEMPTS = 2"

definition newlines2 :: string where
  "newlines2 = [CHR 0x0A, CHR 0x0A]"

definition CORRECTIVE_PREAMBLE :: string where
  "CORRECTIVE_PREAMBLE =
     ''Your previous response could not be parsed as valid JSON matching the required schema. It started with: ''"

definition CORRECTIVE_SCHEMA_RESTATEMENT :: string where
  "CORRECTIVE_SCHEMA_RESTATEMENT =
     newlines2 @ ''Return ONLY a single JSON object with exactly these fields:'' @ [CHR 0x0A]
     @ ''- verdict_category: string, one of '' @ join '', '' (map (\<lambda>c. [CHR 0x22] @ c @ [CHR 0x22]) CATEGORIES) @ [CHR 0x0A]
     @ ''- confidence_score: number between 0.0 and 1.0'' @ [CHR 0x0A]
     @ ''- reasoning: a concise string (a few sentences, not a full essay)'' @ [CHR 0x0A]
     @ ''- contributing_facts: a concise array of short strings'' @ [CHR 0x0A]
     @ ''No preamble, no markdown fences, no text outside the JSON object.''"

definition build_corrective_prompt :: "string \<Rightarrow> string \<Rightarrow> string" where
  "build_corrective_prompt original failed =
     original @ newlines2 @ CORRECTIVE_PREAMBLE @ take_chars 200 failed @ CORRECTIVE_SCHEMA_RESTATEMENT"

definition classify_request_exception :: "exn \<Rightarrow> string \<times> bool" where
  "classify_request_exception e =
     (if contains ''Timeout'' (qualname e) then (''read_timeout'', False)
      else if contains ''ConnectError'' (qualname e) then (''connect_error'', True)
      else if contains ''HTTPStatusError'' (qualname e) then (''http_error'', exn_status e = Some 503)
      else (''unclassified'', True))"

record ollama =
  o_model :: string
  o_temperature :: "json option"
  o_num_thread :: "int option"

definition ollama_payload :: "ollama \<Rightarrow> json \<Rightarrow> string \<Rightarrow> json" where
  "ollama_payload cl schema prompt =
     JObj [(''model'', JStr (o_model cl)),
       (''messages'', JArr [JObj [(''role'', JStr ''user''), (''content'', JStr prompt)]]),
       (''stream'', JBool False), (''format'', schema), (''think'', JBool False),
       (''options'', JObj ([(''num_ctx'', JInt 8192)]
          @ (case o_temperature cl of Some t \<Rightarrow> [(''temperature'', t)] | None \<Rightarrow> [])
          @ (case o_num_thread cl of Some n \<Rightarrow> [(''num_thread'', JInt n)] | None \<Rightarrow> [])))]"

definition single_call ::
  "ollama \<Rightarrow> (json list \<Rightarrow> http_result) \<Rightarrow> json \<Rightarrow> string \<Rightarrow> json list \<Rightarrow> (json \<times> json) res \<times> json list" where
  "single_call cl post schema prompt reqs =
     (let reqs = reqs @ [ollama_payload cl schema prompt]
      in (case post reqs of
            HttpExn e \<Rightarrow> Inl e
          | HttpResp code body \<Rightarrow>
              rbind (raise_for_status code) (\<lambda>_. rbind body (\<lambda>data. rbind (jindex data ''message'') (\<lambda>m.
                rbind (jindex m ''content'') (\<lambda>content. rbind (jget data ''done_reason'' JNull) (\<lambda>done.
                  Inr (content, done)))))), reqs))"

definition exhausted :: "exn \<Rightarrow> exn" where
  "exhausted e = RuntimeError (''All '' @ show_nat MAX_ATTEMPTS @ '' Ollama attempts failed. Last error: '' @ exn_msg e)"

definition degenerate :: "json \<Rightarrow> json \<Rightarrow> exn" where
  "degenerate done content =
     (case content_len content of
        Inl e \<Rightarrow> e
      | Inr n \<Rightarrow> RuntimeError (''Ollama returned a degenerate response (done_reason='' @ py_repr done @ '', response_len=''
                   @ show_int n @ ''); not retrying.''))"

text \<open>What one answered request leads to: an end of the loop, or the error and the prompt for the next attempt.\<close>

datatype attempt_result = Raise exn | Done verdict_output | Retry exn string

definition attempt_once ::
  "pydantic \<Rightarrow> ollama \<Rightarrow> (json list \<Rightarrow> http_result) \<Rightarrow> json \<Rightarrow> string \<Rightarrow> string \<Rightarrow> json list \<Rightarrow> attempt_result \<times> json list" where
  "attempt_once pv cl post schema prompt current reqs =
     (let (out, reqs) = single_call cl post schema current reqs
      in (case out of
            Inl e \<Rightarrow>
              (if fst (classify_request_exception e) = ''read_timeout'' then Raise e
               else if \<not> snd (classify_request_exception e) then Raise e
               else Retry e prompt)
          | Inr (content, done) \<Rightarrow>
              (if done = JStr ''length'' then Raise (degenerate done content)
               else case jstr ''strip'' content of
                      Inl e \<Rightarrow> Raise e
                    | Inr raw \<Rightarrow>
                        (if strip raw = [] then Raise (degenerate done content)
                         else case model_validate_json pv content of
                                Inr v \<Rightarrow> Done v
                              | Inl e \<Rightarrow> Retry e (build_corrective_prompt prompt raw))), reqs))"

text \<open>The loop from an attempt on, with so many left after it.\<close>

fun ollama_attempts ::
  "pydantic \<Rightarrow> ollama \<Rightarrow> (json list \<Rightarrow> http_result) \<Rightarrow> json \<Rightarrow> string \<Rightarrow> nat \<Rightarrow> nat \<Rightarrow> string \<Rightarrow> json list \<Rightarrow>
   (verdict_output \<times> nat \<times> bool) res \<times> json list" where
  "ollama_attempts pv cl post schema prompt attempt left current reqs =
     (case attempt_once pv cl post schema prompt current reqs of
        (Raise e, reqs) \<Rightarrow> (Inl e, reqs)
      | (Done v, reqs) \<Rightarrow> (Inr (v, attempt, attempt = 1), reqs)
      | (Retry e next, reqs) \<Rightarrow>
          (case left of
             0 \<Rightarrow> (Inl (exhausted e), reqs)
           | Suc left \<Rightarrow> ollama_attempts pv cl post schema prompt (attempt + 1) left next reqs))"

declare ollama_attempts.simps [simp del]

definition call_with_retry ::
  "pydantic \<Rightarrow> ollama \<Rightarrow> (json list \<Rightarrow> http_result) \<Rightarrow> string \<Rightarrow> json \<Rightarrow> json list \<Rightarrow> (verdict_output \<times> nat \<times> bool) res \<times> json list" where
  "call_with_retry pv cl post prompt schema reqs =
     ollama_attempts pv cl post schema prompt 1 (MAX_ATTEMPTS - 1) prompt reqs"

definition ollama_inputs :: "string \<Rightarrow> json \<Rightarrow> json" where
  "ollama_inputs prompt schema = JObj [(''prompt'', JStr prompt), (''output_schema'', schema)]"

definition ollama_complete ::
  "pydantic \<Rightarrow> ollama \<Rightarrow> (json list \<Rightarrow> http_result) \<Rightarrow> (nat \<Rightarrow> rat) \<Rightarrow> string \<Rightarrow> json \<Rightarrow> string \<Rightarrow> json list \<Rightarrow> llm_response res \<times> json list" where
  "ollama_complete pv cl post clock prompt schema version reqs =
     (let (out, reqs') = call_with_retry pv cl post prompt schema reqs
      in (rbind out (\<lambda>res. Inr (response_of (clock (length reqs)) (clock (length reqs')) (o_model cl) version
             (ollama_inputs prompt schema) res)), reqs'))"

section \<open>Gemini\<close>

record gemini =
  g_api_key :: string
  g_model :: string
  g_temperature :: "json option"

definition RESPONSE_SCHEMA :: json where
  "RESPONSE_SCHEMA = OUTPUT_SCHEMA"

definition gemini_payload :: "gemini \<Rightarrow> string \<Rightarrow> json" where
  "gemini_payload cl prompt =
     JObj [(''contents'', JArr [JObj [(''parts'', JArr [JObj [(''text'', JStr prompt)]])]]),
       (''generationConfig'', JObj ([(''responseMimeType'', JStr ''application/json''), (''responseSchema'', RESPONSE_SCHEMA)]
          @ (case g_temperature cl of
               Some t \<Rightarrow> [(''temperature'', t), (''topK'', JInt 1), (''topP'', JFloat ''1.0'')] | None \<Rightarrow> [])))]"

definition gemini_call :: "gemini \<Rightarrow> (json list \<Rightarrow> http_result) \<Rightarrow> string \<Rightarrow> json list \<Rightarrow> json res \<times> json list" where
  "gemini_call cl post prompt reqs =
     (let reqs = reqs @ [gemini_payload cl prompt]
      in (case post reqs of
            HttpExn e \<Rightarrow> Inl e
          | HttpResp code body \<Rightarrow>
              rbind (raise_for_status code) (\<lambda>_. rbind body (\<lambda>data.
                rbind (jindex data ''candidates'') (\<lambda>cs. rbind (jat cs 0) (\<lambda>c. rbind (jindex c ''content'') (\<lambda>ct.
                rbind (jindex ct ''parts'') (\<lambda>ps. rbind (jat ps 0) (\<lambda>p. jindex p ''text''))))))), reqs))"

fun gemini_attempts ::
  "pydantic \<Rightarrow> gemini \<Rightarrow> (json list \<Rightarrow> http_result) \<Rightarrow> string \<Rightarrow> nat \<Rightarrow> nat \<Rightarrow> json list \<Rightarrow> (verdict_output \<times> nat \<times> bool) res \<times> json list" where
  "gemini_attempts pv cl post prompt attempt left reqs =
     (let (out, reqs) = gemini_call cl post prompt reqs
      in case rbind out (model_validate_json pv) of
           Inr v \<Rightarrow> (Inr (v, attempt, attempt = 1), reqs)
         | Inl e \<Rightarrow>
             (case left of
                0 \<Rightarrow> (Inl (RuntimeError (''All 3 Gemini attempts failed. Last error: '' @ exn_msg e)), reqs)
              | Suc left \<Rightarrow> gemini_attempts pv cl post prompt (attempt + 1) left reqs))"

declare gemini_attempts.simps [simp del]

definition gemini_complete ::
  "pydantic \<Rightarrow> gemini \<Rightarrow> (json list \<Rightarrow> http_result) \<Rightarrow> (nat \<Rightarrow> rat) \<Rightarrow> string \<Rightarrow> json \<Rightarrow> string \<Rightarrow> json list \<Rightarrow> llm_response res \<times> json list" where
  "gemini_complete pv cl post clock prompt schema version reqs =
     (let (out, reqs') = gemini_attempts pv cl post prompt 1 2 reqs
      in (rbind out (\<lambda>res. Inr (response_of (clock (length reqs)) (clock (length reqs')) (g_model cl) version (JObj []) res)), reqs'))"

section \<open>What a provider promises\<close>

definition response_ok :: "string \<Rightarrow> llm_response \<Rightarrow> bool" where
  "response_ok version r \<longleftrightarrow>
     lr_verdict_category r \<in> set CATEGORIES \<and> 0 \<le> lr_confidence_score r \<and> lr_confidence_score r \<le> 1 \<and>
     lr_prompt_version r = version \<and> (lr_first_attempt_valid r \<longleftrightarrow> lr_attempts r = 1)"

locale llm_provider =
  fixes complete :: "string \<Rightarrow> json \<Rightarrow> string \<Rightarrow> json list \<Rightarrow> llm_response res \<times> json list"
    and max_calls :: nat
  assumes complete_ok: "complete prompt schema version reqs = (Inr r, reqs') \<Longrightarrow>
      response_ok version r \<and> 1 \<le> lr_attempts r \<and> length reqs' = length reqs + lr_attempts r"
    and complete_bounded: "complete prompt schema version reqs = (out, reqs') \<Longrightarrow>
      length reqs < length reqs' \<and> length reqs' \<le> length reqs + max_calls"
begin

text \<open>The attempts a response reports are the requests made for it, and bounded.\<close>

lemma attempts_bounded: "complete prompt schema version reqs = (Inr r, reqs') \<Longrightarrow> lr_attempts r \<le> max_calls"
  using complete_ok complete_bounded by fastforce

end

section \<open>Both clients keep it\<close>

definition output_ok :: "verdict_output \<Rightarrow> bool" where
  "output_ok v \<longleftrightarrow> vo_category v \<in> set CATEGORIES \<and> 0 \<le> vo_score v \<and> vo_score v \<le> 1"

lemma validated_ok: "model_validate_json pv raw = Inr v \<Longrightarrow> output_ok v"
  by (auto simp: model_validate_json_def check_fields_def output_ok_def split: json.splits option.splits if_splits prod.splits)

lemma attempt_once_requests:
  "snd (attempt_once pv cl post schema prompt current reqs) = reqs @ [ollama_payload cl schema current]"
  by (simp add: attempt_once_def single_call_def Let_def)

lemma attempt_once_Done: "attempt_once pv cl post schema prompt current reqs = (Done v, reqs') \<Longrightarrow> output_ok v"
  by (auto simp: attempt_once_def Let_def dest: validated_ok split: prod.splits sum.splits if_splits)

lemma ollama_attempts_ok:
  "ollama_attempts pv cl post schema prompt attempt left current reqs = (out, reqs') \<Longrightarrow>
   length reqs < length reqs' \<and> length reqs' \<le> length reqs + left + 1 \<and>
   (\<forall>v n f. out = Inr (v, n, f) \<longrightarrow> output_ok v \<and> attempt \<le> n \<and> f = (n = 1) \<and> length reqs' + attempt = length reqs + n + 1)"
proof (induction left arbitrary: attempt current reqs out reqs')
  case 0
  obtain res r1 where a: "attempt_once pv cl post schema prompt current reqs = (res, r1)" by fastforce
  then have "length r1 = length reqs + 1" using attempt_once_requests [of pv cl post schema prompt current reqs] by simp
  with 0 a attempt_once_Done show ?case
    by (cases res) (auto simp: ollama_attempts.simps [of _ _ _ _ _ _ 0])
next
  case (Suc left)
  obtain res r1 where a: "attempt_once pv cl post schema prompt current reqs = (res, r1)" by fastforce
  then have len: "length r1 = length reqs + 1" using attempt_once_requests [of pv cl post schema prompt current reqs] by simp
  show ?case
  proof (cases res)
    case (Retry e nxt)
    then have "ollama_attempts pv cl post schema prompt (attempt + 1) left nxt r1 = (out, reqs')"
      using Suc.prems a by (simp add: ollama_attempts.simps [of _ _ _ _ _ _ "Suc left"])
    from Suc.IH [OF this] len show ?thesis by auto
  qed (use Suc.prems a len attempt_once_Done in \<open>auto simp: ollama_attempts.simps [of _ _ _ _ _ _ "Suc left"]\<close>)
qed

lemma response_of_ok:
  "output_ok v \<Longrightarrow> f = (n = 1) \<Longrightarrow> response_ok version (response_of t0 t1 model version inputs (v, n, f))"
  "lr_attempts (response_of t0 t1 model version inputs (v, n, f)) = n"
  by (simp_all add: response_of_def response_ok_def output_ok_def)

interpretation ollama: llm_provider "ollama_complete pv cl post clock" MAX_ATTEMPTS for pv cl post clock
proof
  fix prompt schema version reqs r reqs'
  assume "ollama_complete pv cl post clock prompt schema version reqs = (Inr r, reqs')"
  then obtain v n f where c: "call_with_retry pv cl post prompt schema reqs = (Inr (v, n, f), reqs')"
      and r: "r = response_of (clock (length reqs)) (clock (length reqs')) (o_model cl) version (ollama_inputs prompt schema) (v, n, f)"
    by (auto simp: ollama_complete_def Let_def split: prod.splits)
  from ollama_attempts_ok [OF c [unfolded call_with_retry_def]] show "response_ok version r \<and> 1 \<le> lr_attempts r \<and> length reqs' = length reqs + lr_attempts r"
    unfolding r by (auto simp: response_of_ok)
next
  fix prompt schema version reqs out reqs'
  assume "ollama_complete pv cl post clock prompt schema version reqs = (out, reqs')"
  then obtain res where c: "call_with_retry pv cl post prompt schema reqs = (res, reqs')"
    by (auto simp: ollama_complete_def Let_def split: prod.splits)
  from ollama_attempts_ok [OF c [unfolded call_with_retry_def]]
  show "length reqs < length reqs' \<and> length reqs' \<le> length reqs + MAX_ATTEMPTS" by (simp add: MAX_ATTEMPTS_def)
qed

lemma gemini_attempts_ok:
  "gemini_attempts pv cl post prompt attempt left reqs = (out, reqs') \<Longrightarrow>
   length reqs < length reqs' \<and> length reqs' \<le> length reqs + left + 1 \<and>
   (\<forall>v n f. out = Inr (v, n, f) \<longrightarrow> output_ok v \<and> attempt \<le> n \<and> f = (n = 1) \<and> length reqs' + attempt = length reqs + n + 1)"
proof (induction left arbitrary: attempt reqs out reqs')
  case 0
  then show ?case
    by (auto simp: gemini_attempts.simps [of _ _ _ _ _ 0] gemini_call_def Let_def dest: validated_ok split: sum.splits)
next
  case (Suc left)
  obtain res r1 where a: "gemini_call cl post prompt reqs = (res, r1)" by fastforce
  then have len: "length r1 = length reqs + 1" by (auto simp: gemini_call_def Let_def)
  show ?case
  proof (cases "rbind res (model_validate_json pv)")
    case (Inl e)
    then have "gemini_attempts pv cl post prompt (attempt + 1) left r1 = (out, reqs')"
      using Suc.prems a by (simp add: gemini_attempts.simps [of _ _ _ _ _ "Suc left"])
    from Suc.IH [OF this] len show ?thesis by auto
  next
    case (Inr v)
    then have "out = Inr (v, attempt, attempt = 1)" "reqs' = r1"
      using Suc.prems a by (simp_all add: gemini_attempts.simps [of _ _ _ _ _ "Suc left"] del: rbind_eq_Inr)
    moreover have "output_ok v" using Inr by (cases res) (auto dest: validated_ok)
    ultimately show ?thesis using len by auto
  qed
qed

interpretation gemini: llm_provider "gemini_complete pv cl post clock" 3 for pv cl post clock
proof
  fix prompt schema version reqs r reqs'
  assume "gemini_complete pv cl post clock prompt schema version reqs = (Inr r, reqs')"
  then obtain v n f where c: "gemini_attempts pv cl post prompt 1 2 reqs = (Inr (v, n, f), reqs')"
      and r: "r = response_of (clock (length reqs)) (clock (length reqs')) (g_model cl) version (JObj []) (v, n, f)"
    by (auto simp: gemini_complete_def Let_def split: prod.splits)
  from gemini_attempts_ok [OF c] show "response_ok version r \<and> 1 \<le> lr_attempts r \<and> length reqs' = length reqs + lr_attempts r"
    unfolding r by (auto simp: response_of_ok)
next
  fix prompt schema version reqs out reqs'
  assume "gemini_complete pv cl post clock prompt schema version reqs = (out, reqs')"
  then obtain res where c: "gemini_attempts pv cl post prompt 1 2 reqs = (res, reqs')"
    by (auto simp: gemini_complete_def Let_def split: prod.splits)
  from gemini_attempts_ok [OF c] show "length reqs < length reqs' \<and> length reqs' \<le> length reqs + 3" by simp
qed

section \<open>The retry policy\<close>

lemma call_with_retry_first:
  "call_with_retry pv cl post prompt schema reqs =
    (case attempt_once pv cl post schema prompt prompt reqs of
       (Raise e, r) \<Rightarrow> (Inl e, r)
     | (Done v, r) \<Rightarrow> (Inr (v, 1, True), r)
     | (Retry e nxt, r) \<Rightarrow> ollama_attempts pv cl post schema prompt 2 0 nxt r)"
  by (simp add: call_with_retry_def MAX_ATTEMPTS_def ollama_attempts.simps [of _ _ _ _ _ "Suc 0"] numeral_2_eq_2
      split: prod.splits attempt_result.splits)

lemma last_attempt_requests:
  "snd (ollama_attempts pv cl post schema prompt n 0 nxt r) = r @ [ollama_payload cl schema nxt]"
  using attempt_once_requests [of pv cl post schema prompt nxt r]
  by (auto simp: ollama_attempts.simps [of _ _ _ _ _ _ 0] split: prod.splits attempt_result.splits)


definition sample_pydantic :: pydantic where
  "sample_pydantic = \<lparr>py_parse = (\<lambda>s. if s = ''ok'' then Some (JObj [(''verdict_category'', JStr ''likely_fp''), (''confidence_score'', JInt 1),
       (''reasoning'', JStr ''r'')]) else None),
     py_float = (\<lambda>v. case v of JInt i \<Rightarrow> Some (of_int i, ''1.0'') | _ \<Rightarrow> None), py_error_text = (\<lambda>s. s)\<rparr>"

definition sample_post :: "json list \<Rightarrow> http_result" where
  "sample_post reqs = HttpResp 200 (Inr (JObj [(''message'', JObj [(''content'', JStr (if length reqs = 1 then ''bad'' else ''ok''))])]))"

definition sample_ollama :: ollama where
  "sample_ollama = \<lparr>o_model = ''m'', o_temperature = None, o_num_thread = None\<rparr>"


text \<open>The retry policy: a timeout, a server error other than 503 and a truncated or empty answer end the call after one
  request; after a connection error the same prompt is sent again; after an answer that is no valid verdict the prompt is
  sent again with a correction.\<close>

theorem ollama_retry_policy:
  assumes "first = reqs @ [ollama_payload cl schema prompt]"
  shows "(\<forall>e. post first = HttpExn e \<and> contains ''Timeout'' (qualname e) \<longrightarrow>
       call_with_retry pv cl post prompt schema reqs = (Inl e, first)) \<and>
    (\<forall>code body. post first = HttpResp code body \<and> \<not> (200 \<le> code \<and> code < 300) \<and> code \<noteq> 503 \<longrightarrow>
       snd (call_with_retry pv cl post prompt schema reqs) = first \<and> (\<exists>e. fst (call_with_retry pv cl post prompt schema reqs) = Inl e)) \<and>
    (\<forall>e. post first = HttpExn e \<and> qualname e = ''ConnectError'' \<longrightarrow>
       snd (call_with_retry pv cl post prompt schema reqs) = first @ [ollama_payload cl schema prompt]) \<and>
    (\<forall>raw d reason. post first = HttpResp 200 (Inr (JObj d)) \<and> map_of d ''message'' = Some (JObj [(''content'', JStr raw)]) \<and>
         reason = dget d ''done_reason'' JNull \<longrightarrow>
       (if reason = JStr ''length'' \<or> strip raw = []
        then call_with_retry pv cl post prompt schema reqs = (Inl (degenerate reason (JStr raw)), first)
        else case model_validate_json pv (JStr raw) of
               Inr v \<Rightarrow> call_with_retry pv cl post prompt schema reqs = (Inr (v, 1, True), first)
             | Inl _ \<Rightarrow> snd (call_with_retry pv cl post prompt schema reqs)
                 = first @ [ollama_payload cl schema (build_corrective_prompt prompt raw)]))"
proof (intro conjI allI impI)
  note defs = call_with_retry_first attempt_once_def single_call_def classify_request_exception_def assms [symmetric] Let_def
  fix e assume "post first = HttpExn e \<and> contains ''Timeout'' (qualname e)"
  then show "call_with_retry pv cl post prompt schema reqs = (Inl e, first)" by (simp add: defs)
next
  note defs = call_with_retry_first attempt_once_def single_call_def classify_request_exception_def assms [symmetric] Let_def
  fix code body assume c: "post first = HttpResp code body \<and> \<not> (200 \<le> code \<and> code < 300) \<and> code \<noteq> 503"
  then have "raise_for_status code = Inl (Exn ''HTTPStatusError'' (''HTTP status '' @ show_int code) (Some code))"
    by (auto simp: raise_for_status_def)
  moreover have "\<not> contains ''Timeout'' ''HTTPStatusError''" "\<not> contains ''ConnectError'' ''HTTPStatusError''"
      "contains ''HTTPStatusError'' ''HTTPStatusError''" by code_simp+
  ultimately have "call_with_retry pv cl post prompt schema reqs =
      (Inl (Exn ''HTTPStatusError'' (''HTTP status '' @ show_int code) (Some code)), first)"
    using c by (simp add: defs)
  then show "snd (call_with_retry pv cl post prompt schema reqs) = first"
    "\<exists>e. fst (call_with_retry pv cl post prompt schema reqs) = Inl e" by simp_all
next
  note defs = call_with_retry_first attempt_once_def single_call_def classify_request_exception_def assms [symmetric] Let_def
  fix e assume c: "post first = HttpExn e \<and> qualname e = ''ConnectError''"
  moreover have "\<not> contains ''Timeout'' ''ConnectError''" "contains ''ConnectError'' ''ConnectError''" by code_simp+
  ultimately show "snd (call_with_retry pv cl post prompt schema reqs) = first @ [ollama_payload cl schema prompt]"
    by (simp add: defs last_attempt_requests)
next
  note defs = call_with_retry_first attempt_once_def single_call_def assms [symmetric] Let_def
  fix raw d reason
  assume "post first = HttpResp 200 (Inr (JObj d)) \<and> map_of d ''message'' = Some (JObj [(''content'', JStr raw)]) \<and>
         reason = dget d ''done_reason'' JNull"
  then show "if reason = JStr ''length'' \<or> strip raw = []
        then call_with_retry pv cl post prompt schema reqs = (Inl (degenerate reason (JStr raw)), first)
        else case model_validate_json pv (JStr raw) of
               Inr v \<Rightarrow> call_with_retry pv cl post prompt schema reqs = (Inr (v, 1, True), first)
             | Inl _ \<Rightarrow> snd (call_with_retry pv cl post prompt schema reqs)
                 = first @ [ollama_payload cl schema (build_corrective_prompt prompt raw)]"
    by (auto simp: defs raise_for_status_def last_attempt_requests split: sum.splits)
qed

theorem ollama_retry_policy_witness:
  "snd (call_with_retry sample_pydantic sample_ollama sample_post ''p'' OUTPUT_SCHEMA []) =
    [ollama_payload sample_ollama OUTPUT_SCHEMA ''p'',
     ollama_payload sample_ollama OUTPUT_SCHEMA (build_corrective_prompt ''p'' ''bad'')]"
proof -
  let ?first = "[] @ [ollama_payload sample_ollama OUTPUT_SCHEMA ''p'']"
  have post: "sample_post ?first = HttpResp 200 (Inr (JObj [(''message'', JObj [(''content'', JStr ''bad'')])]))"
    by (simp add: sample_post_def)
  have inv: "model_validate_json sample_pydantic (JStr ''bad'') = Inl (ValidationError sample_pydantic ''bad'')"
    by (simp add: model_validate_json_def sample_pydantic_def)
  have "strip ''bad'' \<noteq> []" by code_simp
  with ollama_retry_policy [OF refl, of sample_post "[]" sample_ollama OUTPUT_SCHEMA "''p''" sample_pydantic] post inv
  show ?thesis by (simp add: dget_def)
qed

end
