(* ===== verification/Worker.thy ===== *)
theory Worker
  imports Prompt_Context Llm Operational_Store
begin

text \<open>
  The triage worker, \<open>src/triage/worker.py\<close>: dequeuing under the daily cap, the pipeline of one alert (roles, inherited
  verdict or identities, enrichment, prompt, model, evidence), and the loop; and the cleanup task of \<open>cleanup.py\<close>.
  A call of a store is one transaction. The other tasks of the program (ingestion, cleanup, the web interface) run while the
  worker waits for a store: what they have written before the n-th call is \<open>we_others n\<close>. The n-th call may meet a database
  fault (\<open>we_fault\<close>), which is the exception it raises. The worker's state is the database, the state of the clients, the requests to the model and the number of store
  calls. Logging is left out; \<open>Lifecycle\<close> adds cancellation.
\<close>

record world =
  w_db :: db
  w_io :: triage_io
  w_llm :: "json list"
  w_calls :: nat

record worker_env =
  we_cfg :: suricata_config
  we_env :: triage_env
  we_identity :: bool
  we_render :: "string \<Rightarrow> prompt_args \<Rightarrow> string res"
  we_complete :: "string \<Rightarrow> json \<Rightarrow> string \<Rightarrow> json list \<Rightarrow> llm_response res \<times> json list"
  we_fault :: "nat \<Rightarrow> exn option"
  we_others :: "nat \<Rightarrow> db \<Rightarrow> db"
  we_now :: "nat \<Rightarrow> instant"
  we_uuid :: "nat \<Rightarrow> string"
  we_daily_cap :: int
  we_reset_hour :: int

section \<open>Actions that may raise\<close>

type_synonym 'a act = "world \<Rightarrow> 'a res \<times> world"

definition wret :: "'a \<Rightarrow> 'a act" where
  "wret x w = (Inr x, w)"

definition wbind :: "'a act \<Rightarrow> ('a \<Rightarrow> 'b act) \<Rightarrow> 'b act" where
  "wbind m f w = (case m w of (Inl e, w') \<Rightarrow> (Inl e, w') | (Inr x, w') \<Rightarrow> f x w')"

definition wlift :: "'a res \<Rightarrow> 'a act" where
  "wlift r w = (r, w)"

definition store :: "worker_env \<Rightarrow> (db \<Rightarrow> ('a \<times> db) res) \<Rightarrow> 'a act" where
  "store env f w =
     (let d0 = we_others env (w_calls w) (w_db w); w' = w\<lparr>w_calls := w_calls w + 1, w_db := d0\<rparr>
      in case we_fault env (w_calls w) of
           Some e \<Rightarrow> (Inl e, w')
         | None \<Rightarrow> (case f d0 of Inl e \<Rightarrow> (Inl e, w') | Inr (x, d) \<Rightarrow> (Inr x, w'\<lparr>w_db := d\<rparr>)))"

definition store_write :: "worker_env \<Rightarrow> (db \<Rightarrow> db) \<Rightarrow> unit act" where
  "store_write env f = store env (\<lambda>d. Inr ((), f d))"

definition fetch :: "worker_env \<Rightarrow> (db \<Rightarrow> 'a) \<Rightarrow> 'a act" where
  "fetch env f = store env (\<lambda>d. Inr (f d, d))"

section \<open>Evidence\<close>

definition identity_to_dict :: "identity_facts option \<Rightarrow> json" where
  "identity_to_dict facts =
     (case facts of
        None \<Rightarrow> JNull
      | Some f \<Rightarrow> JObj [(''ip'', f_ip f), (''hostname'', f_hostname f), (''username'', f_username f), (''ou_path'', f_ou_path f),
          (''group_memberships'', JArr (f_group_memberships f)), (''source'', JStr (f_source f)),
          (''queried_at'', JStr (isoformat (f_queried_at f)))])"

definition enrichment_result_to_dict :: "enrichment_result \<Rightarrow> jdict" where
  "enrichment_result_to_dict r =
     [(''source'', JStr (r_source r)), (''status'', JStr (status_value (r_status r))),
      (''data'', (case r_data r of Some d \<Rightarrow> JObj d | None \<Rightarrow> JNull)), (''summary'', jstr_opt (r_summary r)),
      (''failure_reason'', (case r_failure_reason r of Some f \<Rightarrow> JStr (reason_value f) | None \<Rightarrow> JNull)),
      (''failure_detail'', jstr_opt (r_failure_detail r)), (''cached'', JBool (r_cached r)),
      (''cache_age_seconds'', r_cache_age_seconds r), (''queried_at'', JStr (isoformat (r_queried_at r)))]"

definition build_evidence_chain ::
  "json \<Rightarrow> json list \<Rightarrow> role_assignment \<Rightarrow> identity_facts option \<Rightarrow> identity_facts option \<Rightarrow> pairs \<Rightarrow> json" where
  "build_evidence_chain raw events role src dst ps =
     JObj [(''alert'', raw), (''correlated_events'', JArr events),
       (''role_assignment'', JObj [(''initiator_ip'', initiator_ip role), (''responder_ip'', responder_ip role),
          (''attacker_ip'', attacker_ip role), (''victim_ip'', victim_ip role), (''confidence'', JStr (confidence role)),
          (''reasoning'', JStr (reasoning role)), (''signals_used'', JArr (map JStr (signals_used role)))]),
       (''identity'', JObj [(''src'', identity_to_dict src), (''dst'', identity_to_dict dst)]),
       (''enrichment_ledger'', JArr (map (\<lambda>p. JObj ([(''indicator'', ind_value (fst p)),
          (''indicator_type'', JStr (type_value (ind_type (fst p))))] @ enrichment_result_to_dict (snd p))) ps))]"

definition rank :: "enrichment_status \<Rightarrow> int" where
  "rank s = (case s of CONTRIBUTED \<Rightarrow> 2 | FAILING \<Rightarrow> 1 | NOT_CONFIGURED \<Rightarrow> 0)"

definition best_result :: "enrichment_result \<Rightarrow> enrichment_result \<Rightarrow> enrichment_result" where
  "best_result a b = (if rank (r_status a) \<ge> rank (r_status b) then a else b)"

section \<open>Identities\<close>

definition identity_client :: "worker_env \<Rightarrow> json \<Rightarrow> triage_io \<Rightarrow> identity_facts option \<times> triage_io" where
  "identity_client env ip io =
     (let n = io_step io; (t0, t1, m0, m1) = te_dns_times (we_env env) n;
          (r, st) = resolve_ip sql_get sql_set (te_dns (we_env env)) (we_cfg env) t0 t1 m0 m1 (te_now (we_env env) n) ip
            \<lparr>rd_cache = io_cache io, rd_cb = io_rd_cb io, rd_queries = io_rd_queries io\<rparr>
      in (r, io\<lparr>io_cache := rd_cache st, io_rd_cb := rd_cb st, io_rd_queries := rd_queries st, io_step := n + 1\<rparr>))"

definition resolve_one :: "worker_env \<Rightarrow> json \<Rightarrow> identity_facts option act" where
  "resolve_one env ip w =
     (if truthy ip then (let (r, io) = identity_client env ip (w_io w) in (Inr r, w\<lparr>w_io := io\<rparr>)) else (Inr None, w))"

definition resolve_identities :: "worker_env \<Rightarrow> json \<Rightarrow> (identity_facts option \<times> identity_facts option) act" where
  "resolve_identities env raw =
     (if \<not> we_identity env then wret (None, None)
      else wbind (wlift (jget raw ''src_ip'' (JStr []))) (\<lambda>src.
           wbind (wlift (jget raw ''dest_ip'' (JStr []))) (\<lambda>dst.
           wbind (resolve_one env src) (\<lambda>s. wbind (resolve_one env dst) (\<lambda>d. wret (s, d))))))"

definition enrich_act :: "worker_env \<Rightarrow> indicator list \<Rightarrow> pairs act" where
  "enrich_act env inds w =
     (let (ps, io) = enrich_all (main_clients (we_env env)) (we_cfg env) inds (w_io w) in (Inr ps, w\<lparr>w_io := io\<rparr>))"

definition complete_act :: "worker_env \<Rightarrow> string \<Rightarrow> llm_response act" where
  "complete_act env prompt w =
     (let (r, reqs) = we_complete env prompt OUTPUT_SCHEMA DEFAULT_VERSION (w_llm w) in (r, w\<lparr>w_llm := reqs\<rparr>))"

section \<open>One alert\<close>

definition json_loads :: "string \<Rightarrow> json res" where
  "json_loads s = (case loads s of Some v \<Rightarrow> Inr v | None \<Rightarrow> Inl (Exn ''JSONDecodeError'' ''Expecting value'' None))"

text \<open>Supersede, record, link: the three transactions that give an alert its verdict. The identifier and the creation time
  are those of the second call.\<close>

definition persist :: "worker_env \<Rightarrow> string \<Rightarrow> verdict_row \<Rightarrow> unit act" where
  "persist env alert_id v w =
     (let n = w_calls w + 1; vid = we_uuid env n;
          v = v\<lparr>v_verdict_id := vid, v_alert_id := alert_id, v_is_current := True, v_created_at := isoformat (we_now env n)\<rparr>
      in wbind (store_write env (mark_previous_verdicts_superseded alert_id)) (\<lambda>_.
         wbind (store env (\<lambda>d. rbind (record_verdict vid (we_now env n) (Some vid) (Some (isoformat (we_now env n))) v d) (\<lambda>d. Inr ((), d)))) (\<lambda>_.
           store_write env (link_verdict_to_alert alert_id vid)))) w"

definition inherited_inputs :: "string \<Rightarrow> string" where
  "inherited_inputs source_id = dumps (JObj [(''inherited_from'', JStr source_id)])"

definition inherit :: "worker_env \<Rightarrow> string \<Rightarrow> string \<Rightarrow> verdict_row \<Rightarrow> unit act" where
  "inherit env alert_id source_id source =
     persist env alert_id (source\<lparr>v_llm_inputs := inherited_inputs source_id, v_latency_ms := 0\<rparr>)"

definition produced_verdict :: "llm_response \<Rightarrow> json \<Rightarrow> verdict_row" where
  "produced_verdict r evidence =
     \<lparr>v_verdict_id = [], v_alert_id = [], v_verdict_category = lr_verdict_category r,
      v_confidence_score = lr_confidence_score r, v_reasoning = lr_reasoning r,
      v_contributing_facts = dumps (JArr (map JStr (lr_contributing_facts r))), v_evidence_chain = dumps evidence,
      v_model_version = lr_model_version r, v_prompt_version = lr_prompt_version r, v_llm_inputs = dumps (lr_llm_inputs r),
      v_llm_raw_output = dumps (lr_raw_output r), v_latency_ms = lr_latency_ms r, v_is_current = True, v_created_at = []\<rparr>"

definition hostname_of :: "identity_facts option \<Rightarrow> json" where
  "hostname_of f = (case f of Some x \<Rightarrow> f_hostname x | None \<Rightarrow> JNull)"

definition analyse :: "worker_env \<Rightarrow> string \<Rightarrow> json \<Rightarrow> json list \<Rightarrow> role_assignment \<Rightarrow> unit act" where
  "analyse env alert_id raw events role =
     wbind (resolve_identities env raw) (\<lambda>(src, dst).
     wbind (wlift (extract_indicators raw events (Some (we_cfg env)))) (\<lambda>inds.
     wbind (enrich_act env inds) (\<lambda>ps.
     wbind (wlift (build_enrichment_context ps)) (\<lambda>ctx.
     wbind (wlift (build_prompt (we_render env) DEFAULT_VERSION
       \<lparr>pa_alert = raw, pa_correlated_events = events, pa_enrichment_context = ctx, pa_src_hostname = hostname_of src,
        pa_dst_hostname = hostname_of dst\<rparr>)) (\<lambda>prompt.
     wbind (complete_act env prompt) (\<lambda>response.
       persist env alert_id (produced_verdict response (build_evidence_chain raw events role src dst ps))))))))"

definition inheritable :: "worker_env \<Rightarrow> alert_row \<Rightarrow> (string \<times> verdict_row) option act" where
  "inheritable env row =
     wbind (store env (\<lambda>d. rbind (find_recent_verdict_for_group (a_signature_id row) (a_src_ip row) (a_dst_ip row)
         (a_ingest_timestamp row) 1 d) (\<lambda>v. Inr (v, d)))) (\<lambda>vid.
       case vid of
         Some (c # cs) \<Rightarrow> wbind (fetch env (get_verdict (c # cs))) (\<lambda>v. wret (map_option (Pair (c # cs)) v))
       | _ \<Rightarrow> wret None)"

definition process_body :: "worker_env \<Rightarrow> alert_row \<Rightarrow> unit act" where
  "process_body env row =
     wbind (store_write env (update_alert_status (a_alert_id row) ''analyzing'')) (\<lambda>_.
     wbind (wlift (json_loads (a_raw_eve row))) (\<lambda>raw.
     wbind (if truthy (a_flow_id row) then fetch env (get_correlated_events (a_flow_id row) None None) else wret []) (\<lambda>rows.
     wbind (wlift (rmap (\<lambda>r. json_loads (e_raw_eve r)) rows)) (\<lambda>events.
     wbind (wlift (assign_roles raw (we_cfg env))) (\<lambda>role.
     wbind (store env (\<lambda>d. rbind (update_alert_role_assignment (a_alert_id row) role d) (\<lambda>d. Inr ((), d)))) (\<lambda>_.
     wbind (inheritable env row) (\<lambda>source.
       case source of
         Some (vid, v) \<Rightarrow> inherit env (a_alert_id row) vid v
       | None \<Rightarrow> analyse env (a_alert_id row) raw events role)))))))"

text \<open>Any exception marks the alert as failed; a fault of that last write is swallowed.\<close>

definition process_alert :: "worker_env \<Rightarrow> alert_row \<Rightarrow> world \<Rightarrow> world" where
  "process_alert env row w =
     (case process_body env row w of
        (Inr _, w') \<Rightarrow> w'
      | (Inl e, w') \<Rightarrow> snd (store_write env (update_alert_status (a_alert_id row) ''failed'') w'))"

section \<open>The loop\<close>

definition dequeue_next :: "worker_env \<Rightarrow> alert_row option act" where
  "dequeue_next env w =
     wbind (store env (\<lambda>d. rbind (count_analyzed_today (we_reset_hour env) 1 (we_now env (w_calls w)) d) (\<lambda>n. Inr (n, d)))) (\<lambda>count.
       if int count \<ge> we_daily_cap env then wret None
       else wbind (fetch env (query_alerts None None (Some ''queued'') None 1 0)) (\<lambda>rows. wret (first_row rows))) w"

text \<open>One turn of \<open>run\<close>: an exception of the dequeuing is logged and the loop goes on.\<close>

definition worker_turn :: "worker_env \<Rightarrow> world \<Rightarrow> world" where
  "worker_turn env w =
     (case dequeue_next env w of
        (Inl e, w') \<Rightarrow> w'
      | (Inr None, w') \<Rightarrow> w'
      | (Inr (Some row), w') \<Rightarrow> process_alert env row w')"

fun worker_run :: "worker_env \<Rightarrow> nat \<Rightarrow> world \<Rightarrow> world" where
  "worker_run env 0 w = w"
| "worker_run env (Suc n) w = worker_run env n (worker_turn env w)"

section \<open>Cleanup\<close>

text \<open>A pass of the nightly task: an exception is logged and the loop goes on after a day.\<close>

definition cleanup_run_once :: "worker_env \<Rightarrow> int \<Rightarrow> nat act" where
  "cleanup_run_once env retention_days w =
     store env (\<lambda>d. delete_expired_eve_events retention_days (we_now env (w_calls w)) d) w"

definition cleanup_nightly :: "worker_env \<Rightarrow> int \<Rightarrow> world \<Rightarrow> world" where
  "cleanup_nightly env retention_days w = snd (cleanup_run_once env retention_days w)"

end
