(* ===== verification/Worker_Correct.thy ===== *)
theory Worker_Correct
  imports Worker Store_Correct
begin

text \<open>
  Properties of the triage worker. A triple \<open>keeps I m Q\<close> says that an action keeps an invariant of the world on its normal
  and on its exceptional exit and that what it returns satisfies \<open>Q\<close>. What has to hold of the stores and of the model for an
  invariant of the database to survive the whole pipeline is the locale \<open>triage_invariant\<close>.
\<close>

section \<open>Triples\<close>

definition triple :: "(world \<Rightarrow> bool) \<Rightarrow> 'a act \<Rightarrow> (world \<Rightarrow> bool) \<Rightarrow> ('a \<Rightarrow> bool) \<Rightarrow> bool" where
  "triple K m J Q \<longleftrightarrow> (\<forall>w. K w \<longrightarrow> J (snd (m w)) \<and> (\<forall>x. fst (m w) = Inr x \<longrightarrow> Q x))"

abbreviation keeps :: "(world \<Rightarrow> bool) \<Rightarrow> 'a act \<Rightarrow> ('a \<Rightarrow> bool) \<Rightarrow> bool" where
  "keeps I m Q \<equiv> triple I m I Q"

named_theorems keeps_intros

lemma tripleD: "triple K m J Q \<Longrightarrow> K w \<Longrightarrow> m w = (r, w') \<Longrightarrow> J w' \<and> (\<forall>x. r = Inr x \<longrightarrow> Q x)"
  unfolding triple_def by (metis fst_conv snd_conv)

lemma triple_weaken: "triple K m J Q \<Longrightarrow> (\<And>w. J w \<Longrightarrow> J' w) \<Longrightarrow> triple K m J' Q"
  by (simp add: triple_def)

lemma keeps_ret [keeps_intros]: "Q x \<Longrightarrow> keeps I (wret x) Q"
  by (simp add: triple_def wret_def)

lemma keeps_lift [keeps_intros]: "(\<And>x. r = Inr x \<Longrightarrow> Q x) \<Longrightarrow> keeps I (wlift r) Q"
  by (simp add: triple_def wlift_def)

lemma triple_bind:
  assumes "keeps K m P" "\<And>w. K w \<Longrightarrow> J w" "\<And>x. P x \<Longrightarrow> triple K (f x) J Q"
  shows "triple K (wbind m f) J Q"
  using assms unfolding triple_def wbind_def by (auto split: sum.splits prod.splits)

lemma keeps_bind: "keeps I m P \<Longrightarrow> (\<And>x. P x \<Longrightarrow> keeps I (f x) Q) \<Longrightarrow> keeps I (wbind m f) Q"
  by (rule triple_bind)

lemma wbind_Inr: "wbind m f w = (Inr y, w') \<longleftrightarrow> (\<exists>x w1. m w = (Inr x, w1) \<and> f x w1 = (Inr y, w'))"
  by (auto simp: wbind_def split: prod.splits sum.splits)

definition others_keep :: "worker_env \<Rightarrow> (db \<Rightarrow> bool) \<Rightarrow> bool" where
  "others_keep env J \<longleftrightarrow> (\<forall>n d. J d \<longrightarrow> J (we_others env n d))"

lemma keeps_store:
  assumes "others_keep env J" "\<And>d x d'. J d \<Longrightarrow> f d = Inr (x, d') \<Longrightarrow> J d' \<and> Q x"
  shows "keeps (\<lambda>w. J (w_db w)) (store env f) Q"
  using assms by (auto simp: others_keep_def triple_def store_def Let_def split: option.splits sum.splits prod.splits) blast+

lemma keeps_write:
  "others_keep env J \<Longrightarrow> (\<And>d. J d \<Longrightarrow> J (f d)) \<Longrightarrow> keeps (\<lambda>w. J (w_db w)) (store_write env f) (\<lambda>_. True)"
  unfolding store_write_def by (rule keeps_store) auto

lemma keeps_fetch: "others_keep env J \<Longrightarrow> (\<And>d. J d \<Longrightarrow> Q (f d)) \<Longrightarrow> keeps (\<lambda>w. J (w_db w)) (fetch env f) Q"
  unfolding fetch_def by (rule keeps_store) auto

text \<open>The calls of the clients leave the database alone.\<close>

lemma keeps_identities [keeps_intros]: "keeps (\<lambda>w. J (w_db w)) (resolve_identities env raw) (\<lambda>_. True)"
proof -
  have "keeps (\<lambda>w. J (w_db w)) (resolve_one env ip) (\<lambda>_. True)" for ip
    by (simp add: triple_def resolve_one_def split: prod.splits)
  then show ?thesis unfolding resolve_identities_def by (auto intro!: keeps_bind keeps_intros)
qed

lemma keeps_enrich [keeps_intros]: "keeps (\<lambda>w. J (w_db w)) (enrich_act env inds) (\<lambda>_. True)"
  by (simp add: triple_def enrich_act_def split: prod.splits)

lemma keeps_complete:
  assumes "\<And>reqs r reqs'. we_complete env prompt OUTPUT_SCHEMA DEFAULT_VERSION reqs = (Inr r, reqs') \<Longrightarrow> Q r"
  shows "keeps (\<lambda>w. J (w_db w)) (complete_act env prompt) Q"
  using assms by (auto simp: triple_def complete_act_def split: prod.splits)

section \<open>Invariants of the pipeline\<close>

text \<open>\<open>K\<close> holds while the alert is being worked on, \<open>J\<close> holds from then on; \<open>V\<close> is what verdicts satisfy.\<close>

locale triage_invariant =
  fixes env :: worker_env and a :: string and K J :: "db \<Rightarrow> bool" and V :: "verdict_row \<Rightarrow> bool"
  assumes weaker: "K d \<Longrightarrow> J d"
    and others: "others_keep env K" "others_keep env J"
    and analysing: "K d \<Longrightarrow> K (update_alert_status a ''analyzing'' d)"
    and failed: "J d \<Longrightarrow> J (update_alert_status a ''failed'' d)"
    and role: "K d \<Longrightarrow> update_alert_role_assignment a r d = Inr d' \<Longrightarrow> K d'"
    and persisted: "V v \<Longrightarrow> triple (\<lambda>w. K (w_db w)) (persist env a v) (\<lambda>w. J (w_db w)) (\<lambda>_. True)"
    and source: "K d \<Longrightarrow> get_verdict i d = Some v \<Longrightarrow> V v"
    and inherits: "V v \<Longrightarrow> V (v\<lparr>v_llm_inputs := l, v_latency_ms := 0\<rparr>)"
    and produces: "we_complete env p OUTPUT_SCHEMA DEFAULT_VERSION reqs = (Inr res, reqs') \<Longrightarrow> V (produced_verdict res e)"
begin

lemma analyse_keeps: "triple (\<lambda>w. K (w_db w)) (analyse env a raw events ra) (\<lambda>w. J (w_db w)) (\<lambda>_. True)"
  unfolding analyse_def
  by (auto intro!: triple_bind [where P = "\<lambda>_. True"] keeps_intros weaker
      triple_bind [OF keeps_complete [where Q = "\<lambda>r. \<forall>e. V (produced_verdict r e)"]] persisted
      dest: produces split: prod.splits)

lemma inheritable_keeps: "keeps (\<lambda>w. K (w_db w)) (inheritable env row) (\<lambda>s. \<forall>i v. s = Some (i, v) \<longrightarrow> V v)"
proof -
  have "keeps (\<lambda>w. K (w_db w)) (fetch env (get_verdict i)) (\<lambda>v. \<forall>x. v = Some x \<longrightarrow> V x)" for i
    by (rule keeps_fetch [OF others(1)]) (auto dest: source)
  then have "keeps (\<lambda>w. K (w_db w)) (wbind (fetch env (get_verdict i)) (\<lambda>v. wret (map_option (Pair i) v)))
      (\<lambda>s. \<forall>i v. s = Some (i, v) \<longrightarrow> V v)" for i
    by (rule keeps_bind) (auto intro!: keeps_intros)
  then show ?thesis unfolding inheritable_def
    by (intro keeps_bind [where P = "\<lambda>_. True"] keeps_store others(1)) (auto intro!: keeps_intros split: option.splits list.splits)
qed

lemma body_keeps:
  assumes "a_alert_id row = a"
  shows "triple (\<lambda>w. K (w_db w)) (process_body env row) (\<lambda>w. J (w_db w)) (\<lambda>_. True)"
proof -
  have src: "triple (\<lambda>w. K (w_db w)) (case s of Some (i, v) \<Rightarrow> inherit env a i v | None \<Rightarrow> analyse env a raw events ra)
      (\<lambda>w. J (w_db w)) (\<lambda>_. True)" if "\<forall>i v. s = Some (i, v) \<longrightarrow> V v" for s raw events ra
    using that analyse_keeps by (auto simp: inherit_def intro!: persisted inherits split: option.splits)
  have st: "keeps (\<lambda>w. K (w_db w)) (store_write env (update_alert_status a ''analyzing'')) (\<lambda>_. True)"
    by (rule keeps_write [OF others(1)]) (rule analysing)
  have rl: "keeps (\<lambda>w. K (w_db w)) (store env (\<lambda>d. rbind (update_alert_role_assignment a ra d) (\<lambda>d. Inr ((), d)))) (\<lambda>_. True)" for ra
    by (rule keeps_store [OF others(1)]) (auto dest: role)
  have ev: "keeps (\<lambda>w. K (w_db w)) (if b then fetch env f else wret []) (\<lambda>_. True)" for b f
    by (auto intro!: keeps_intros keeps_fetch others(1))
  show ?thesis unfolding process_body_def assms
    by (rule triple_bind [OF st] triple_bind [OF keeps_lift [where Q = "\<lambda>_. True"]] triple_bind [OF ev] triple_bind [OF rl]
        triple_bind [OF inheritable_keeps] TrueI src weaker | assumption)+
qed

lemma alert_keeps:
  assumes "a_alert_id row = a" "K (w_db w)"
  shows "J (w_db (process_alert env row w))"
proof (cases "process_body env row w")
  case (Pair r w')
  have J: "J (w_db w')" using tripleD [OF body_keeps [OF assms(1)] assms(2) Pair] by simp
  have "keeps (\<lambda>w. J (w_db w)) (store_write env (update_alert_status a ''failed'')) (\<lambda>_. True)"
    by (rule keeps_write [OF others(2)]) (rule failed)
  then show ?thesis using J Pair assms(1) by (simp add: process_alert_def triple_def split: sum.splits)
qed

end

section \<open>Giving an alert its verdict\<close>

definition recorded :: "worker_env \<Rightarrow> string \<Rightarrow> world \<Rightarrow> verdict_row \<Rightarrow> verdict_row" where
  "recorded env a w v =
     v\<lparr>v_verdict_id := we_uuid env (w_calls w + 1), v_alert_id := a, v_is_current := True,
       v_created_at := isoformat (we_now env (w_calls w + 1))\<rparr>"

definition add_verdict :: "verdict_row \<Rightarrow> db \<Rightarrow> db" where
  "add_verdict v d = d\<lparr>verdicts := verdicts d @ [v]\<rparr>"

text \<open>The states in which the three transactions can leave the database, with what the other tasks do in between.\<close>

lemma persist_exits:
  assumes "persist env a v w = (r, w')"
  obtains d1 d2 d3 where "d1 = we_others env (w_calls w) (w_db w)"
    and "d2 = we_others env (w_calls w + 1) (mark_previous_verdicts_superseded a d1)"
    and "d3 = we_others env (w_calls w + 2) (add_verdict (recorded env a w v) d2)"
    and "r \<noteq> Inr () \<and> w_db w' \<in> {d1, d2} \<or>
      we_uuid env (w_calls w + 1) \<notin> v_verdict_id ` set (verdicts d2) \<and>
        (r \<noteq> Inr () \<and> w_db w' = d3 \<or> r = Inr () \<and> w_db w' = link_verdict_to_alert a (we_uuid env (w_calls w + 1)) d3)"
proof -
  let ?w = "\<lambda>n d. w\<lparr>w_calls := w_calls w + n, w_db := d\<rparr>" and ?i = "we_uuid env (w_calls w + 1)"
  let ?v = "recorded env a w v"
  have rec: "rbind (record_verdict u t (Some ?i) (Some (isoformat (we_now env (w_calls w + 1)))) ?v d) (\<lambda>d. Inr ((), d)) =
      (if ?i \<in> v_verdict_id ` set (verdicts d) then Inl (IntegrityError ''UNIQUE constraint failed: verdicts.verdict_id'')
       else Inr ((), add_verdict ?v d))" for u t d
    by (simp add: record_verdict_def add_verdict_def recorded_def Let_def del: rbind_eq_Inr)
  have st: "store env f (?w n d) = (case we_fault env (w_calls w + n) of
        Some e \<Rightarrow> (Inl e, ?w (n + 1) (we_others env (w_calls w + n) d))
      | None \<Rightarrow> (case f (we_others env (w_calls w + n) d) of Inl e \<Rightarrow> (Inl e, ?w (n + 1) (we_others env (w_calls w + n) d))
          | Inr (x, d') \<Rightarrow> (Inr x, ?w (n + 1) d')))" for f :: "db \<Rightarrow> (unit \<times> db) res" and n d
    by (simp add: store_def Let_def add.assoc split: option.splits sum.splits)
  have p: "persist env a v w = wbind (store env (\<lambda>d. Inr ((), mark_previous_verdicts_superseded a d))) (\<lambda>_.
      wbind (store env (\<lambda>d. rbind (record_verdict ?i (we_now env (w_calls w + 1)) (Some ?i)
         (Some (isoformat (we_now env (w_calls w + 1)))) ?v d) (\<lambda>d. Inr ((), d)))) (\<lambda>_.
      store env (\<lambda>d. Inr ((), link_verdict_to_alert a ?i d)))) (?w 0 (w_db w))"
    by (simp add: persist_def Let_def store_write_def recorded_def)
  have eq: "r = fst (persist env a v w)" "w' = snd (persist env a v w)" using assms by simp_all
  have db: "w_db (?w n d) = d" for n d by simp
  define d1 where "d1 = we_others env (w_calls w + 0) (w_db w)"
  define d2 where "d2 = we_others env (w_calls w + (0 + 1)) (mark_previous_verdicts_superseded a d1)"
  define d3 where "d3 = we_others env (w_calls w + (0 + 1 + 1)) (add_verdict ?v d2)"
  have "r \<noteq> Inr () \<and> w_db w' \<in> {d1, d2} \<or> ?i \<notin> v_verdict_id ` set (verdicts d2) \<and>
        (r \<noteq> Inr () \<and> w_db w' = d3 \<or> r = Inr () \<and> w_db w' = link_verdict_to_alert a ?i d3)"
    unfolding eq p wbind_def
    by (cases "we_fault env (w_calls w + 0)"; cases "we_fault env (w_calls w + (0 + 1))"; cases "we_fault env (w_calls w + (0 + 1 + 1))";
      cases "?i \<in> v_verdict_id ` set (verdicts d2)") (simp_all only: st rec option.case sum.case prod.case if_True if_False
        fst_conv snd_conv db insert_iff empty_iff simp_thms sum.distinct d1_def [symmetric] d2_def [symmetric] d3_def [symmetric])
  then show thesis by (rule that [of d1 d2 d3, rotated 3]) (simp_all add: d1_def d2_def d3_def)
qed

text \<open>An invariant survives the three transactions if each of them keeps it.\<close>

lemma triple_persist:
  assumes "others_keep env K" "others_keep env L" "\<And>w. others_keep env (M w)"
    and "\<And>d. K d \<Longrightarrow> J d \<and> L (mark_previous_verdicts_superseded a d)"
    and "\<And>d w. L d \<Longrightarrow> we_uuid env (w_calls w + 1) \<notin> v_verdict_id ` set (verdicts d) \<Longrightarrow> M w (add_verdict (recorded env a w v) d)"
    and "\<And>d. L d \<Longrightarrow> J d" "\<And>d w. M w d \<Longrightarrow> J d \<and> J (link_verdict_to_alert a (we_uuid env (w_calls w + 1)) d)"
  shows "triple (\<lambda>w. K (w_db w)) (persist env a v) (\<lambda>w. J (w_db w)) (\<lambda>_. True)"
  unfolding triple_def
proof (intro allI impI conjI TrueI)
  fix w :: world assume K: "K (w_db w)"
  obtain r w' where p: "persist env a v w = (r, w')" by fastforce
  obtain d1 d2 d3 where d: "d1 = we_others env (w_calls w) (w_db w)"
      "d2 = we_others env (w_calls w + 1) (mark_previous_verdicts_superseded a d1)"
      "d3 = we_others env (w_calls w + 2) (add_verdict (recorded env a w v) d2)"
    and ex: "r \<noteq> Inr () \<and> w_db w' \<in> {d1, d2} \<or> we_uuid env (w_calls w + 1) \<notin> v_verdict_id ` set (verdicts d2) \<and>
      (r \<noteq> Inr () \<and> w_db w' = d3 \<or> r = Inr () \<and> w_db w' = link_verdict_to_alert a (we_uuid env (w_calls w + 1)) d3)"
    by (rule persist_exits [OF p])
  have 1: "K d1" using assms(1) K d(1) by (simp add: others_keep_def)
  then have 2: "L d2" using assms(2,4) d(2) by (simp add: others_keep_def)
  then have "M w d3" if "we_uuid env (w_calls w + 1) \<notin> v_verdict_id ` set (verdicts d2)"
    using assms(3) [of w] assms(5) [OF 2 that] d(3) by (simp add: others_keep_def)
  then show "J (w_db (snd (persist env a v w)))" using ex 1 2 assms(4,6,7) p by auto
qed

section \<open>What the other tasks do\<close>

lemma alert_row_of_fields:
  "alert_row_of uid now alert st = Inr r \<Longrightarrow> a_alert_id r = uid \<and> a_status r = st \<and> a_raw_eve r = dumps alert"
  by (auto simp: alert_row_of_def)

text \<open>The writes of the other tasks: the dispatcher inserts alerts as queued or deferred, the indexer inserts events, the
  cleanup expires them, analysts record and link dispositions, and settings and users change.\<close>

inductive external_write :: "db \<Rightarrow> db \<Rightarrow> bool" where
  x_alert: "insert_alert uid now alert st d = Inr (i, d') \<Longrightarrow> st \<in> {''queued'', ''deferred''} \<Longrightarrow> external_write d d'"
| x_events: "insert_eve_events_batch uids now es d = Inr d' \<Longrightarrow> external_write d d'"
| x_expire: "delete_expired_eve_events days now d = Inr (n, d') \<Longrightarrow> external_write d d'"
| x_disp: "record_disposition uid now disp d = Inr (i, d') \<Longrightarrow> external_write d d'"
| x_link: "external_write d (link_disposition_to_alert i did d)"
| x_config: "external_write d (set_config key val now d)"
| x_admin: "ensure_admin_user uid now d = Inr d' \<Longrightarrow> external_write d d'"
| x_login: "external_write d (update_last_login uid now d)"

text \<open>All that matters of them here: verdicts stay, and alerts either stay up to their disposition or are new and not
  analysed.\<close>

lemma external_write_cases:
  assumes "external_write d d'"
  obtains "verdicts d' = verdicts d" "alerts d' = alerts d"
  | r where "verdicts d' = verdicts d" "alerts d' = alerts d @ [r]" "a_alert_id r \<notin> a_alert_id ` set (alerts d)" "a_status r \<noteq> ''analyzed''"
      "a_status r \<in> {''queued'', ''deferred''}"
  | i did where "verdicts d' = verdicts d" "alerts d' = update_where (\<lambda>r. a_alert_id r = i) (\<lambda>r. r\<lparr>a_disposition_id := Some did\<rparr>) (alerts d)"
  using assms
proof cases
  case (x_alert uid now alert st i)
  then obtain r where "alert_row_of uid now alert st = Inr r" "d' = d\<lparr>alerts := alerts d @ [r]\<rparr>" "uid \<notin> a_alert_id ` set (alerts d)"
    unfolding insert_alert_def by (auto split: option.splits if_splits)
  with x_alert that(2) show ?thesis by (auto simp: alert_row_of_fields)
next
  case (x_config key val now)
  with that(1) set_config_other show ?thesis by simp
next
  case (x_events uids now es)
  from insert_eve_events_batch_other [OF this] that(1) show ?thesis by auto
next
  case (x_expire days now n)
  from delete_expired_other [OF this] that(1) show ?thesis by auto
next
  case (x_disp uid now disp i)
  from record_disposition_other [OF this] that(1) show ?thesis by auto
next
  case (x_admin uid now)
  from ensure_admin_other [OF this] that(1) show ?thesis by auto
qed (use that in \<open>simp_all add: link_disposition_to_alert_def update_last_login_def\<close>)

definition rely :: "worker_env \<Rightarrow> bool" where
  "rely env \<longleftrightarrow> (\<forall>n d. external_write\<^sup>*\<^sup>* d (we_others env n d))"

lemma others_keepI:
  assumes "rely env" "\<And>d d'. external_write d d' \<Longrightarrow> J d \<Longrightarrow> J d'"
  shows "others_keep env J"
proof -
  have "J d'" if "external_write\<^sup>*\<^sup>* d d'" "J d" for d d'
    using that by (induction rule: rtranclp_induct) (auto intro: assms(2))
  then show ?thesis using assms(1) unfolding others_keep_def rely_def by blast
qed

section \<open>Nothing else is touched\<close>

definition others :: "string \<Rightarrow> db \<Rightarrow> db" where
  "others a d = d\<lparr>alerts := filter (\<lambda>r. a_alert_id r \<noteq> a) (alerts d), verdicts := filter (\<lambda>v. v_alert_id v \<noteq> a) (verdicts d)\<rparr>"

lemma filter_update_where_other:
  "(\<And>r. r \<in> set rs \<Longrightarrow> p r \<Longrightarrow> \<not> q r \<and> \<not> q (f r)) \<Longrightarrow> filter q (update_where p f rs) = filter q rs"
  by (induction rs) (simp_all add: update_where_def)

lemma others_alerts:
  "(\<And>r. a_alert_id (f r) = a_alert_id r) \<Longrightarrow> others a (d\<lparr>alerts := update_where (\<lambda>r. a_alert_id r = a) f (alerts d)\<rparr>) = others a d"
  unfolding others_def by (simp add: filter_update_where_other)

lemma others_writes:
  "others a (update_alert_status a st d) = others a d"
  "others a (link_verdict_to_alert a vid d) = others a d"
  "others a (mark_previous_verdicts_superseded a d) = others a d"
proof -
  have "filter (\<lambda>v. v_alert_id v \<noteq> a) (verdicts (mark_previous_verdicts_superseded a d)) = filter (\<lambda>v. v_alert_id v \<noteq> a) (verdicts d)"
    unfolding mark_previous_verdicts_superseded_def by (auto intro!: filter_update_where_other)
  then show "others a (mark_previous_verdicts_superseded a d) = others a d"
    by (simp add: others_def) (simp add: mark_previous_verdicts_superseded_def)
qed (simp_all add: update_alert_status_def link_verdict_to_alert_def others_alerts)

lemma others_add_verdict: "v_alert_id v = a \<Longrightarrow> others a (add_verdict v d) = others a d"
  by (simp add: add_verdict_def others_def)

definition same_frame :: "string \<Rightarrow> db \<Rightarrow> db \<Rightarrow> bool" where
  "same_frame a d d' \<longleftrightarrow> others a d' = others a d \<and> map a_alert_id (alerts d') = map a_alert_id (alerts d)"

lemma same_frame_writes:
  "same_frame a d e \<Longrightarrow> same_frame a d (update_alert_status a st e)"
  "same_frame a d e \<Longrightarrow> same_frame a d (link_verdict_to_alert a vid e)"
  "same_frame a d e \<Longrightarrow> same_frame a d (mark_previous_verdicts_superseded a e)"
  "same_frame a d e \<Longrightarrow> v_alert_id v = a \<Longrightarrow> same_frame a d (add_verdict v e)"
  by (simp_all add: same_frame_def others_writes others_add_verdict)
    (simp_all add: write_defs map_update_where add_verdict_def)

abbreviation alone :: "worker_env \<Rightarrow> worker_env" where
  "alone env \<equiv> env\<lparr>we_others := \<lambda>_ d. d\<rparr>"

interpretation frame: triage_invariant "alone env" a "same_frame a d" "same_frame a d" "\<lambda>_. True" for env a d
proof
  show "others_keep (alone env) (same_frame a d)" by (simp add: others_keep_def)
  fix e r d'
  assume "same_frame a d e" "update_alert_role_assignment a r e = Inr d'"
  then show "same_frame a d d'" by (auto dest!: update_role_other simp: same_frame_def others_alerts map_update_where)
next
  fix v
  have "others_keep (alone env) (same_frame a d)" by (simp add: others_keep_def)
  then show "keeps (\<lambda>w. same_frame a d (w_db w)) (persist (alone env) a v) (\<lambda>_. True)"
    by (rule triple_persist [where L = "same_frame a d" and M = "\<lambda>_. same_frame a d"])
      (simp_all add: others_keep_def same_frame_writes recorded_def)
qed (simp_all add: same_frame_writes)

text \<open>C5: triage touches only its alert: whatever happens in the pipeline, faults of the database included, the worker itself
  leaves the rows of every other alert, the verdicts of every other alert and all other tables exactly as they were, and no
  alert is added, lost or moved.\<close>

theorem process_alert_frame:
  "others (a_alert_id row) (w_db (process_alert (alone env) row w)) = others (a_alert_id row) (w_db w) \<and>
   map a_alert_id (alerts (w_db (process_alert (alone env) row w))) = map a_alert_id (alerts (w_db w))"
  using frame.alert_keeps [OF refl, of row "w_db w" w env] by (simp add: same_frame_def)

section \<open>The database stays sound\<close>

definition verdict_ok :: "verdict_row \<Rightarrow> bool" where
  "verdict_ok v \<longleftrightarrow> v_verdict_category v \<in> set CATEGORIES \<and> 0 \<le> v_confidence_score v \<and> v_confidence_score v \<le> 1"

text \<open>An analysed alert is linked to its current verdict.\<close>

definition linked :: "db \<Rightarrow> bool" where
  "linked d \<longleftrightarrow> (\<forall>r\<in>set (alerts d). a_status r = ''analyzed'' \<longrightarrow>
     (\<exists>v\<in>set (verdicts d). a_verdict_id r = Some (v_verdict_id v) \<and> v_alert_id v = a_alert_id r \<and> v_is_current v))"

definition sound :: "db \<Rightarrow> bool" where
  "sound d \<longleftrightarrow> distinct (map a_alert_id (alerts d)) \<and> distinct (map v_verdict_id (verdicts d)) \<and>
     one_current d \<and> linked d \<and> (\<forall>v\<in>set (verdicts d). verdict_ok v)"

definition idle :: "string \<Rightarrow> db \<Rightarrow> bool" where
  "idle a d \<longleftrightarrow> (\<forall>r\<in>set (alerts d). a_alert_id r = a \<longrightarrow> a_status r \<noteq> ''analyzed'')"

lemma sound_alerts:
  assumes "sound d" "\<And>r. a_alert_id (f r) = a_alert_id r"
    and "\<And>r. a_status (f r) = ''analyzed'' \<Longrightarrow> a_status r = ''analyzed'' \<and> a_verdict_id (f r) = a_verdict_id r"
  shows "sound (d\<lparr>alerts := update_where p f (alerts d)\<rparr>)"
proof -
  have "linked (d\<lparr>alerts := update_where p f (alerts d)\<rparr>)"
    using assms unfolding linked_def sound_def by (auto simp: set_update_where split: if_splits)
  then show ?thesis using assms(1,2) by (simp add: sound_def one_current_def map_update_where)
qed

lemma idle_alerts:
  assumes "idle a d" "\<And>r. a_alert_id (f r) = a_alert_id r" "\<And>r. a_status (f r) = ''analyzed'' \<Longrightarrow> a_status r = ''analyzed''"
  shows "idle a (d\<lparr>alerts := update_where p f (alerts d)\<rparr>)"
  using assms unfolding idle_def by (auto simp: set_update_where split: if_splits)

lemma sound_status: "sound d \<Longrightarrow> st \<noteq> ''analyzed'' \<Longrightarrow> sound (update_alert_status a st d)"
  unfolding update_alert_status_def by (rule sound_alerts) simp_all

lemma idle_status: "idle a d \<Longrightarrow> st \<noteq> ''analyzed'' \<Longrightarrow> idle a (update_alert_status b st d)"
  unfolding update_alert_status_def by (rule idle_alerts) simp_all

lemma sound_role: "sound d \<Longrightarrow> update_alert_role_assignment a r d = Inr d' \<Longrightarrow> sound d'"
  by (auto dest!: update_role_other intro!: sound_alerts)

lemma idle_role: "idle a d \<Longrightarrow> update_alert_role_assignment b r d = Inr d' \<Longrightarrow> idle a d'"
  by (auto dest!: update_role_other intro!: idle_alerts)

lemma sound_supersede:
  assumes "sound d" "idle a d"
  shows "sound (mark_previous_verdicts_superseded a d)"
proof -
  let ?d = "mark_previous_verdicts_superseded a d"
  have vs: "set (verdicts ?d) = (\<lambda>v. if v_alert_id v = a \<and> v_is_current v then v\<lparr>v_is_current := False\<rparr> else v) ` set (verdicts d)"
    by (simp add: mark_previous_verdicts_superseded_def set_update_where)
  have al: "alerts ?d = alerts d" by (simp add: mark_previous_verdicts_superseded_def)
  have "map v_verdict_id (verdicts ?d) = map v_verdict_id (verdicts d)"
    by (simp add: mark_previous_verdicts_superseded_def map_update_where)
  moreover have "linked ?d" unfolding linked_def al
  proof (intro ballI impI)
    fix r assume r: "r \<in> set (alerts d)" "a_status r = ''analyzed''"
    then obtain v where v: "v \<in> set (verdicts d)" "a_verdict_id r = Some (v_verdict_id v)" "v_alert_id v = a_alert_id r" "v_is_current v"
      using assms(1) unfolding sound_def linked_def by blast
    have "v_alert_id v \<noteq> a" using r v(3) assms(2) unfolding idle_def by auto
    then have "v \<in> set (verdicts ?d)" using v(1) unfolding vs by force
    then show "\<exists>v\<in>set (verdicts ?d). a_verdict_id r = Some (v_verdict_id v) \<and> v_alert_id v = a_alert_id r \<and> v_is_current v"
      using v by blast
  qed
  moreover have "\<forall>v\<in>set (verdicts ?d). verdict_ok v" using assms(1) unfolding vs sound_def verdict_ok_def by auto
  ultimately show ?thesis using assms(1) one_current_supersede unfolding sound_def al by auto
qed

definition none_current :: "string \<Rightarrow> db \<Rightarrow> bool" where
  "none_current a d \<longleftrightarrow> filter (\<lambda>v. v_alert_id v = a \<and> v_is_current v) (verdicts d) = []"

lemma sound_add_verdict:
  assumes "sound d" "none_current a d" "v_verdict_id v \<notin> v_verdict_id ` set (verdicts d)" "v_alert_id v = a" "verdict_ok v"
  shows "sound (add_verdict v d)"
proof -
  have "one_current (add_verdict v d)"
    using assms(1,2,4) by (auto simp: one_current_def sound_def none_current_def add_verdict_def)
  moreover have "linked (add_verdict v d)" using assms(1) unfolding sound_def linked_def add_verdict_def by auto
  ultimately show ?thesis using assms(1,3,5) by (simp add: add_verdict_def sound_def)
qed

lemma sound_link:
  assumes "sound d" "v \<in> set (verdicts d)" "v_alert_id v = a" "v_is_current v"
  shows "sound (link_verdict_to_alert a (v_verdict_id v) d)"
proof -
  have "linked (link_verdict_to_alert a (v_verdict_id v) d)"
    using assms unfolding sound_def linked_def link_verdict_to_alert_def by (auto simp: set_update_where)
  then show ?thesis using assms(1) by (simp add: sound_def one_current_def link_verdict_to_alert_def map_update_where)
qed

text \<open>The other tasks keep all of it.\<close>

lemma sound_external: "external_write d d' \<Longrightarrow> sound d \<Longrightarrow> sound d'"
proof (erule external_write_cases, goal_cases)
  case (2 r)
  then have "linked d'" unfolding sound_def linked_def by auto
  with 2 show ?case by (auto simp: sound_def one_current_def)
next
  case (3 i did)
  have "sound (d\<lparr>alerts := alerts d'\<rparr>)" unfolding 3 by (rule sound_alerts [OF 3(1)]) simp_all
  with 3 show ?case by (simp add: sound_def one_current_def linked_def)
qed (simp add: sound_def one_current_def linked_def)

lemma idle_external: "external_write d d' \<Longrightarrow> idle a d \<Longrightarrow> idle a d'"
  by (erule external_write_cases) (auto simp: idle_def set_update_where)

lemma verdicts_external: "external_write d d' \<Longrightarrow> verdicts d' = verdicts d"
  by (erule external_write_cases) auto

lemma sound_persist:
  assumes "rely env" "verdict_ok v"
  shows "triple (\<lambda>w. sound (w_db w) \<and> idle a (w_db w)) (persist env a v) (\<lambda>w. sound (w_db w)) (\<lambda>_. True)"
proof (rule triple_persist [where K = "\<lambda>d. sound d \<and> idle a d" and L = "\<lambda>d. sound d \<and> none_current a d"
      and M = "\<lambda>w d. sound d \<and> recorded env a w v \<in> set (verdicts d)"])
  show "others_keep env (\<lambda>d. sound d \<and> idle a d)" "others_keep env (\<lambda>d. sound d \<and> none_current a d)"
    "others_keep env (\<lambda>d. sound d \<and> recorded env a w v \<in> set (verdicts d))" for w
    by (rule others_keepI [OF assms(1)]; auto simp: none_current_def dest: sound_external idle_external verdicts_external)+
  show "sound d \<and> (sound (mark_previous_verdicts_superseded a d) \<and> none_current a (mark_previous_verdicts_superseded a d))"
    if "sound d \<and> idle a d" for d
    using that sound_supersede supersede_none by (simp add: none_current_def)
  fix w :: world and d
  have v: "v_alert_id (recorded env a w v) = a" "verdict_ok (recorded env a w v)" "v_is_current (recorded env a w v)"
    "v_verdict_id (recorded env a w v) = we_uuid env (w_calls w + 1)"
    using assms(2) by (simp_all add: recorded_def verdict_ok_def)
  show "sound (add_verdict (recorded env a w v) d) \<and> recorded env a w v \<in> set (verdicts (add_verdict (recorded env a w v) d))"
    if "sound d \<and> none_current a d" "we_uuid env (w_calls w + 1) \<notin> v_verdict_id ` set (verdicts d)"
    using that sound_add_verdict [of d a "recorded env a w v"] v by (simp add: add_verdict_def)
  show "sound d \<and> sound (link_verdict_to_alert a (we_uuid env (w_calls w + 1)) d)" if "sound d \<and> recorded env a w v \<in> set (verdicts d)"
    using that sound_link [of d "recorded env a w v" a] v by simp
qed simp

lemma get_verdict_in: "get_verdict i d = Some v \<Longrightarrow> v \<in> set (verdicts d) \<and> v_verdict_id v = i"
  unfolding get_verdict_def by (rule first_row_filter)

lemma sound_triage:
  assumes "rely env" "\<And>p reqs r reqs'. we_complete env p OUTPUT_SCHEMA DEFAULT_VERSION reqs = (Inr r, reqs') \<Longrightarrow> response_ok DEFAULT_VERSION r"
  shows "triage_invariant env a (\<lambda>d. sound d \<and> idle a d) sound verdict_ok"
proof
  show "verdict_ok (produced_verdict res e)" if "we_complete env p OUTPUT_SCHEMA DEFAULT_VERSION reqs = (Inr res, reqs')" for p reqs res reqs' e
    using assms(2) [OF that] by (simp add: verdict_ok_def produced_verdict_def response_ok_def)
  show "verdict_ok v" if "sound d \<and> idle a d" "get_verdict i d = Some v" for d i v
    using that get_verdict_in unfolding sound_def by blast
  show "others_keep env (\<lambda>d. sound d \<and> idle a d)" "others_keep env sound"
    by (rule others_keepI [OF assms(1)]; auto dest: sound_external idle_external)+
qed (auto simp: sound_status idle_status sound_persist assms(1) verdict_ok_def dest: sound_role idle_role)

locale sound_worker = llm_provider "we_complete env" k for env :: worker_env and k :: nat
begin

lemma triage: "rely env \<Longrightarrow> triage_invariant env a (\<lambda>d. sound d \<and> idle a d) sound verdict_ok"
  using complete_ok by (intro sound_triage) blast+

end

lemma dequeue_keeps:
  assumes "others_keep env J"
  shows "keeps (\<lambda>w. J (w_db w)) (dequeue_next env) (\<lambda>_. True)"
proof -
  have k: "keeps (\<lambda>w. J (w_db w)) (wbind (store env (\<lambda>d. rbind (count_analyzed_today (we_reset_hour env) 1 t d) (\<lambda>n. Inr (n, d)))) (\<lambda>count.
       if int count \<ge> we_daily_cap env then wret None
       else wbind (fetch env (query_alerts None None (Some ''queued'') None 1 0)) (\<lambda>rows. wret (first_row rows)))) (\<lambda>_. True)" for t
    by (auto intro!: keeps_bind [where P = "\<lambda>_. True"] keeps_store assms keeps_fetch keeps_intros)
  show ?thesis unfolding triple_def dequeue_next_def using k [unfolded triple_def] by blast
qed

lemma dequeue_row:
  assumes "dequeue_next env w = (Inr (Some row), w')"
  shows "row \<in> set (alerts (w_db w')) \<and> a_status row = ''queued''"
proof -
  let ?rows = "\<lambda>d. sort_key a_ingest_timestamp (filter (\<lambda>r. a_status r = ''queued'') (alerts d))"
  have q: "query_alerts None None (Some ''queued'') None 1 0 d = take 1 (?rows d)" for d
    by (simp add: query_alerts_def opt_ge_def opt_le_def)
  have "first_row (take 1 (?rows (w_db w'))) = Some row"
    using assms unfolding dequeue_next_def wbind_Inr q
    by (auto simp: wbind_Inr store_def fetch_def wret_def Let_def simp del: One_nat_def split: option.splits sum.splits if_splits)
  then have "take 1 (?rows (w_db w')) = [row]" by (cases "?rows (w_db w')") simp_all
  then show ?thesis
    using take_one_sorted [of a_ingest_timestamp "\<lambda>r. a_status r = ''queued''" "alerts (w_db w')"] by blast
qed

lemma distinct_map_eq: "distinct (map k rs) \<Longrightarrow> r \<in> set rs \<Longrightarrow> q \<in> set rs \<Longrightarrow> k r = k q \<Longrightarrow> r = q"
  by (simp add: distinct_map inj_on_def)

context sound_worker
begin

lemma turn_sound:
  assumes "rely env" "sound (w_db w)"
  shows "sound (w_db (worker_turn env w))"
proof (cases "dequeue_next env w")
  case (Pair r w')
  have "others_keep env sound" by (rule others_keepI [OF assms(1)]) (rule sound_external)
  from dequeue_keeps [OF this] have "sound (w_db (snd (dequeue_next env w)))" using assms(2) by (simp add: triple_def)
  then have s: "sound (w_db w')" using Pair by simp
  have "sound (w_db (process_alert env row w'))" if "r = Inr (Some row)" for row
  proof (rule triage_invariant.alert_keeps [OF triage [OF assms(1)] refl])
    have row: "row \<in> set (alerts (w_db w'))" "a_status row = ''queued''"
      using dequeue_row Pair that by auto
    then have "idle (a_alert_id row) (w_db w')"
      using s distinct_map_eq [of a_alert_id "alerts (w_db w')" row] unfolding idle_def sound_def by fastforce
    then show "sound (w_db w') \<and> idle (a_alert_id row) (w_db w')" using s by simp
  qed
  then show ?thesis using s Pair by (auto simp: worker_turn_def split: sum.splits option.splits)
qed

lemma run_sound: "rely env \<Longrightarrow> sound (w_db w) \<Longrightarrow> sound (w_db (worker_run env n w))"
  by (induction n arbitrary: w) (simp_all add: turn_sound)

end

interpretation ollama_worker: sound_worker "env\<lparr>we_complete := ollama_complete pv cl post clock\<rparr>" MAX_ATTEMPTS for env pv cl post clock
  unfolding sound_worker_def using ollama.llm_provider_axioms by simp

interpretation gemini_worker: sound_worker "env\<lparr>we_complete := gemini_complete pv cl post clock\<rparr>" 3 for env pv cl post clock
  unfolding sound_worker_def using gemini.llm_provider_axioms by simp

text \<open>C2: the database stays sound however long the worker runs, whatever its clients, the model and the database do, and
  with the other tasks of the program writing between any two of its transactions: identifiers are unique, every alert has at
  most one current verdict, every analysed alert is linked to its current verdict, and every verdict is of one of the three
  categories with a confidence between zero and one.\<close>

theorem worker_keeps_database_sound:
  assumes "rely env" "sound (w_db w)"
  shows "sound (w_db (worker_run (env\<lparr>we_complete := ollama_complete pv cl post clock\<rparr>) n w)) \<and>
    sound (w_db (worker_run (env\<lparr>we_complete := gemini_complete pg gcl gpost clock\<rparr>) n w))"
  using ollama_worker.run_sound [OF _ assms(2)] gemini_worker.run_sound [OF _ assms(2)] assms(1) by (simp add: rely_def)

section \<open>The outcome of an alert\<close>

lemma process_body_persists:
  assumes "process_body env row w = (Inr (), w')"
  shows "\<exists>v w1. persist env (a_alert_id row) v w1 = (Inr (), w')"
  using assms unfolding process_body_def analyse_def inherit_def wbind_Inr
  by (auto simp: wbind_Inr split: option.splits prod.splits) blast

lemma current_add_verdict:
  "none_current a d \<Longrightarrow> v_alert_id v = a \<Longrightarrow> v_is_current v \<Longrightarrow> get_current_verdict_for_alert a (add_verdict v d) = Some v"
  by (simp add: get_current_verdict_for_alert_def add_verdict_def none_current_def)

lemma link_rows: "r \<in> set (alerts (link_verdict_to_alert a i d)) \<Longrightarrow> a_alert_id r = a \<Longrightarrow> a_status r = ''analyzed'' \<and> a_verdict_id r = Some i"
proof -
  assume r: "r \<in> set (alerts (link_verdict_to_alert a i d))" "a_alert_id r = a"
  then obtain q where "r = q\<lparr>a_verdict_id := Some i, a_status := ''analyzed'', a_auto_analyzed := True\<rparr>"
    unfolding link_verdict_to_alert_def by (simp add: set_update_where) blast
  then show ?thesis by simp
qed

text \<open>After the three transactions, the recorded verdict is the current one and the alert is linked to it.\<close>

lemma persist_success:
  assumes "rely env" "persist env a v w = (Inr (), w')"
  shows "get_current_verdict_for_alert a (w_db w') = Some (recorded env a w v)"
    and "\<forall>r\<in>set (alerts (w_db w')). a_alert_id r = a \<longrightarrow> a_status r = ''analyzed'' \<and> a_verdict_id r = Some (v_verdict_id (recorded env a w v))"
proof -
  let ?v = "recorded env a w v"
  obtain d1 d2 d3 where "d1 = we_others env (w_calls w) (w_db w)"
      and d2: "d2 = we_others env (w_calls w + 1) (mark_previous_verdicts_superseded a d1)"
      and d3: "d3 = we_others env (w_calls w + 2) (add_verdict ?v d2)"
      and w': "w_db w' = link_verdict_to_alert a (v_verdict_id ?v) d3"
    by (rule persist_exits [OF assms(2)]) (auto simp: recorded_def)
  have same: "verdicts (we_others env n d) = verdicts d" for n d
    using others_keepI [OF assms(1), of "\<lambda>e. verdicts e = verdicts d"] verdicts_external unfolding others_keep_def by auto
  have "none_current a d2" using supersede_none [of a d1] by (simp add: none_current_def d2 same)
  then have "get_current_verdict_for_alert a (add_verdict ?v d2) = Some ?v" by (simp add: current_add_verdict recorded_def)
  then show "get_current_verdict_for_alert a (w_db w') = Some ?v"
    by (simp add: w' d3 get_current_verdict_for_alert_def link_verdict_to_alert_def same)
  show "\<forall>r\<in>set (alerts (w_db w')). a_alert_id r = a \<longrightarrow> a_status r = ''analyzed'' \<and> a_verdict_id r = Some (v_verdict_id ?v)"
    unfolding w' using link_rows by blast
qed

text \<open>C3: no alert is left half way: after triage it is analysed, and linked to the verdict that is now its current one, or
  it has failed; only a database fault in the very last write of its status can leave it otherwise.\<close>

theorem process_alert_outcome:
  assumes "rely env" "w' = process_alert env row w" "we_fault env (w_calls w' - 1) = None"
    and "r \<in> set (alerts (w_db w'))" "a_alert_id r = a_alert_id row"
  shows "a_status r = ''failed'' \<or>
    a_status r = ''analyzed'' \<and> (\<exists>v. get_current_verdict_for_alert (a_alert_id row) (w_db w') = Some v \<and>
       a_verdict_id r = Some (v_verdict_id v))"
proof (cases "process_body env row w")
  case (Pair res w1)
  show ?thesis
  proof (cases res)
    case (Inl e)
    then have w': "w' = snd (store_write env (update_alert_status (a_alert_id row) ''failed'') w1)"
      using assms(2) Pair by (simp add: process_alert_def)
    then have "we_fault env (w_calls w1) = None" using assms(3)
      by (simp add: store_write_def store_def Let_def split: option.splits)
    then have "w_db w' = update_alert_status (a_alert_id row) ''failed'' (we_others env (w_calls w1) (w_db w1))"
      by (simp add: w' store_write_def store_def Let_def)
    then show ?thesis using assms(4,5) by (auto simp: update_alert_status_def set_update_where split: if_splits)
  next
    case (Inr u)
    then have "w' = w1" using assms(2) Pair by (simp add: process_alert_def)
    moreover obtain v w2 where "persist env (a_alert_id row) v w2 = (Inr (), w1)" using process_body_persists Pair Inr by fastforce
    ultimately show ?thesis using persist_success [OF assms(1), of "a_alert_id row" v w2 w'] assms(4,5) by auto
  qed
qed

section \<open>Inherited verdicts\<close>

lemma triple_conj:
  "triple K m J Q \<Longrightarrow> triple K' m J' Q' \<Longrightarrow> triple (\<lambda>w. K w \<and> K' w) m (\<lambda>w. J w \<and> J' w) (\<lambda>x. Q x \<and> Q' x)"
  by (auto simp: triple_def)

definition silent :: "world \<Rightarrow> world \<Rightarrow> bool" where
  "silent w w' \<longleftrightarrow> w_io w' = w_io w \<and> w_llm w' = w_llm w"

lemma silent_store [keeps_intros]: "keeps (silent w) (store env f) (\<lambda>_. True)"
  by (auto simp: triple_def silent_def store_def Let_def split: option.splits sum.splits)

lemma silent_persist: "keeps (silent w) (persist env a v) (\<lambda>_. True)"
proof -
  have "keeps (silent w) (wbind (store_write env f) (\<lambda>_. wbind (store env g) (\<lambda>_. store_write env h))) (\<lambda>_. True)"
    for f h and g :: "db \<Rightarrow> (unit \<times> db) res"
    unfolding store_write_def by (intro keeps_bind [where P = "\<lambda>_. True"] silent_store)
  then show ?thesis unfolding triple_def persist_def Let_def by blast
qed

text \<open>The search for a verdict does not see an alert that is not analysed.\<close>

lemma find_recent_idle:
  assumes "idle a d" "\<And>r. a_alert_id (f r) = a_alert_id r" "\<And>r. a_status (f r) = ''analyzed'' \<Longrightarrow> a_status r = ''analyzed''"
  shows "find_recent_verdict_for_group sid sip dip c n (d\<lparr>alerts := update_where (\<lambda>r. a_alert_id r = a) f (alerts d)\<rparr>) =
    find_recent_verdict_for_group sid sip dip c n d"
proof -
  have "filter (group_source sid sip dip s c vs) (update_where (\<lambda>r. a_alert_id r = a) f (alerts d)) =
      filter (group_source sid sip dip s c vs) (alerts d)" for s vs
    using assms by (intro filter_update_where_other) (auto simp: group_source_def idle_def)
  then show ?thesis by (simp add: find_recent_verdict_for_group_def)
qed

lemma sort_key_map: "(\<And>x. k (g x) = k x) \<Longrightarrow> sort_key k (map g xs) = map g (sort_key k xs)"
proof (induction xs)
  case (Cons x xs)
  have "insort_key k (g x) (map g ys) = map g (insort_key k x ys)" for ys by (induction ys) (simp_all add: Cons.prems)
  with Cons show ?case by simp
qed simp

lemma first_row_map: "first_row (map g xs) = map_option g (first_row xs)"
  by (cases xs) simp_all

text \<open>Nor does it see what the other tasks write.\<close>

lemma find_recent_external:
  assumes "external_write d d'"
  shows "find_recent_verdict_for_group sid sip dip c n d' = find_recent_verdict_for_group sid sip dip c n d"
  using assms
proof (cases rule: external_write_cases)
  case 1
  then show ?thesis by (simp add: find_recent_verdict_for_group_def)
next
  case (2 r)
  then show ?thesis by (simp add: find_recent_verdict_for_group_def group_source_def)
next
  case (3 i did)
  define g :: "alert_row \<Rightarrow> alert_row" where "g = (\<lambda>r. if a_alert_id r = i then r\<lparr>a_disposition_id := Some did\<rparr> else r)"
  have al: "alerts d' = map g (alerts d)" by (simp add: 3(2) update_where_def g_def)
  have g: "group_source sid sip dip s c vs (g r) = group_source sid sip dip s c vs r" "a_ingest_timestamp (g r) = a_ingest_timestamp r"
    "a_verdict_id (g r) = a_verdict_id r" for s vs r by (simp_all add: g_def group_source_def)
  have "filter (group_source sid sip dip s c vs) (alerts d') = map g (filter (group_source sid sip dip s c vs) (alerts d))" for s vs
    by (simp add: al filter_map comp_def g)
  moreover have "Option.bind (map_option g x) a_verdict_id = Option.bind x a_verdict_id" for x by (cases x) (simp_all add: g)
  ultimately show ?thesis
    by (simp add: find_recent_verdict_for_group_def 3(1) sort_key_map g rev_map first_row_map del: first_row.simps)
qed

definition has_source :: "alert_row \<Rightarrow> string \<Rightarrow> verdict_row \<Rightarrow> db \<Rightarrow> bool" where
  "has_source row vid v d \<longleftrightarrow> idle (a_alert_id row) d \<and> get_verdict vid d = Some v \<and>
     find_recent_verdict_for_group (a_signature_id row) (a_src_ip row) (a_dst_ip row) (a_ingest_timestamp row) 1 d = Inr (Some vid)"

lemma has_source_alerts:
  assumes "has_source row vid v d" "\<And>r. a_alert_id (f r) = a_alert_id r" "\<And>r. a_status (f r) = ''analyzed'' \<Longrightarrow> a_status r = ''analyzed''"
  shows "has_source row vid v (d\<lparr>alerts := update_where (\<lambda>r. a_alert_id r = a_alert_id row) f (alerts d)\<rparr>)"
  using assms idle_alerts [of "a_alert_id row" d f] find_recent_idle [of "a_alert_id row" d f]
  by (simp add: has_source_def get_verdict_def)

lemma has_source_external: "external_write d d' \<Longrightarrow> has_source row vid v d \<Longrightarrow> has_source row vid v d'"
  using idle_external [of d d' "a_alert_id row"] find_recent_external [of d d'] verdicts_external [of d d']
  by (simp add: has_source_def get_verdict_def)

lemma inheritable_source:
  assumes "rely env" "vid \<noteq> []"
  shows "keeps (\<lambda>w. has_source row vid v (w_db w)) (inheritable env row) (\<lambda>s. s = Some (vid, v))"
proof -
  have ok: "others_keep env (has_source row vid v)" by (rule others_keepI [OF assms(1)]) (rule has_source_external)
  have "keeps (\<lambda>w. has_source row vid v (w_db w)) (wbind (fetch env (get_verdict vid)) (\<lambda>x. wret (map_option (Pair vid) x)))
      (\<lambda>s. s = Some (vid, v))"
    by (rule keeps_bind [OF keeps_fetch [OF ok, where Q = "\<lambda>x. x = Some v"]]) (auto simp: has_source_def intro!: keeps_intros)
  then show ?thesis using assms unfolding inheritable_def
    by (intro keeps_bind [where P = "\<lambda>x. x = Some vid"] keeps_store ok) (auto simp: has_source_def neq_Nil_conv)
qed

lemma silent_inheritable: "keeps (silent w) (inheritable env row) (\<lambda>_. True)"
  unfolding inheritable_def fetch_def
  by (intro keeps_bind [where P = "\<lambda>_. True"] silent_store) (auto intro!: keeps_bind [where P = "\<lambda>_. True"] keeps_intros split: option.splits list.splits)

definition copied :: "string \<Rightarrow> verdict_row \<Rightarrow> verdict_row \<Rightarrow> bool" where
  "copied vid v n \<longleftrightarrow> (v_verdict_category n, v_confidence_score n, v_reasoning n, v_contributing_facts n, v_evidence_chain n,
       v_model_version n, v_prompt_version n, v_llm_raw_output n) =
     (v_verdict_category v, v_confidence_score v, v_reasoning v, v_contributing_facts v, v_evidence_chain v,
       v_model_version v, v_prompt_version v, v_llm_raw_output v) \<and> v_llm_inputs n = inherited_inputs vid \<and> v_latency_ms n = 0"

text \<open>Once the alert is analysed, its current verdict is a copy.\<close>

definition copy_or_idle :: "string \<Rightarrow> string \<Rightarrow> verdict_row \<Rightarrow> db \<Rightarrow> bool" where
  "copy_or_idle a vid v d \<longleftrightarrow> idle a d \<or> (\<exists>n. get_current_verdict_for_alert a d = Some n \<and> copied vid v n)"

lemma inherit_copies:
  assumes "rely env"
  shows "triple (\<lambda>w. idle a (w_db w)) (inherit env a vid v) (\<lambda>w. copy_or_idle a vid v (w_db w)) (\<lambda>_. True)"
  unfolding inherit_def
proof (rule triple_persist [where L = "\<lambda>d. idle a d \<and> none_current a d"
      and M = "\<lambda>w d. idle a d \<and> (\<exists>n. get_current_verdict_for_alert a d = Some n \<and> copied vid v n)"])
  let ?c = "v\<lparr>v_llm_inputs := inherited_inputs vid, v_latency_ms := 0\<rparr>"
  show "others_keep env (idle a)" "others_keep env (\<lambda>d. idle a d \<and> none_current a d)"
    "others_keep env (\<lambda>d. idle a d \<and> (\<exists>n. get_current_verdict_for_alert a d = Some n \<and> copied vid v n))"
    by (rule others_keepI [OF assms];
        auto simp: none_current_def get_current_verdict_for_alert_def dest: idle_external verdicts_external)+
  show "copy_or_idle a vid v d \<and> idle a (mark_previous_verdicts_superseded a d) \<and> none_current a (mark_previous_verdicts_superseded a d)"
    if "idle a d" for d
    using that supersede_none [of a d] by (simp add: copy_or_idle_def none_current_def) (simp add: idle_def mark_previous_verdicts_superseded_def)
  fix d and w :: world
  have n: "copied vid v (recorded env a w ?c)" "v_alert_id (recorded env a w ?c) = a" "v_is_current (recorded env a w ?c)"
    by (simp_all add: copied_def recorded_def)
  show "idle a (add_verdict (recorded env a w ?c) d) \<and> (\<exists>n. get_current_verdict_for_alert a (add_verdict (recorded env a w ?c) d) = Some n \<and> copied vid v n)"
    if "idle a d \<and> none_current a d"
    using current_add_verdict [of a d "recorded env a w ?c"] n that by (simp add: idle_def add_verdict_def)
  show "copy_or_idle a vid v d \<and> copy_or_idle a vid v (link_verdict_to_alert a (we_uuid env (w_calls w + 1)) d)"
    if "idle a d \<and> (\<exists>n. get_current_verdict_for_alert a d = Some n \<and> copied vid v n)"
    using that by (simp add: copy_or_idle_def get_current_verdict_for_alert_def link_verdict_to_alert_def)
qed (simp_all add: copy_or_idle_def)

lemma silent_keeps:
  "keeps (silent w) m (\<lambda>_. True) \<Longrightarrow> triple (\<lambda>w1. K (w_db w1)) m (\<lambda>w1. J (w_db w1)) Q \<Longrightarrow>
   triple (\<lambda>w1. silent w w1 \<and> K (w_db w1)) m (\<lambda>w1. silent w w1 \<and> J (w_db w1)) Q"
  by (auto simp: triple_def)

lemma body_inherits:
  assumes "rely env" "vid \<noteq> []"
  shows "triple (\<lambda>w1. silent w w1 \<and> has_source row vid v (w_db w1)) (process_body env row)
    (\<lambda>w1. silent w w1 \<and> copy_or_idle (a_alert_id row) vid v (w_db w1)) (\<lambda>_. True)"
proof -
  let ?a = "a_alert_id row" and ?K = "\<lambda>w1. silent w w1 \<and> has_source row vid v (w_db w1)"
  have ok: "others_keep env (has_source row vid v)" by (rule others_keepI [OF assms(1)]) (rule has_source_external)
  have weak: "silent w w1 \<and> copy_or_idle ?a vid v (w_db w1)" if "?K w1" for w1
    using that by (simp add: has_source_def copy_or_idle_def)
  have st: "keeps ?K (store_write env (update_alert_status ?a ''analyzing'')) (\<lambda>_. True)"
    by (rule silent_keeps [OF _ keeps_write [OF ok]])
      (auto simp: store_write_def update_alert_status_def intro!: keeps_intros has_source_alerts)
  have rl: "keeps ?K (store env (\<lambda>d. rbind (update_alert_role_assignment ?a ra d) (\<lambda>d. Inr ((), d)))) (\<lambda>_. True)" for ra
    by (rule silent_keeps [OF silent_store keeps_store [OF ok]]) (auto dest!: update_role_other intro!: has_source_alerts)
  have ev: "keeps ?K (if b then fetch env f else wret []) (\<lambda>_. True)" for b f
    by (auto simp: fetch_def intro!: silent_keeps silent_store keeps_store ok keeps_intros)
  have src: "triple ?K (case s of Some (i, x) \<Rightarrow> inherit env ?a i x | None \<Rightarrow> analyse env ?a raw events ra)
      (\<lambda>w1. silent w w1 \<and> copy_or_idle ?a vid v (w_db w1)) (\<lambda>_. True)" if "s = Some (vid, v)" for s raw events ra
  proof -
    have "keeps (silent w) (inherit env ?a vid v) (\<lambda>_. True)" unfolding inherit_def by (rule silent_persist)
    from silent_keeps [OF this inherit_copies [OF assms(1)]] show ?thesis using that by (auto simp: triple_def has_source_def)
  qed
  show ?thesis unfolding process_body_def
    by (rule triple_bind [OF st] triple_bind [OF keeps_lift [where Q = "\<lambda>_. True"]] triple_bind [OF ev] triple_bind [OF rl]
        triple_bind [OF silent_keeps [OF silent_inheritable inheritable_source [OF assms]]] TrueI src weak | assumption)+
qed

text \<open>C4: a repeated alert costs nothing: when a produced verdict of the same group is found within the window, triage asks
  no enrichment service, resolves no name and does not call the model, whatever happens; and if the alert ends up analysed,
  its current verdict is that verdict, marked as inherited from it.\<close>

theorem inherited_verdict_costs_nothing:
  assumes "rely env" "find_recent_verdict_for_group (a_signature_id row) (a_src_ip row) (a_dst_ip row) (a_ingest_timestamp row) 1 (w_db w) =
      Inr (Some vid)" "vid \<noteq> []" "get_verdict vid (w_db w) = Some v" "idle (a_alert_id row) (w_db w)"
    and "w' = process_alert env row w"
  shows "w_io w' = w_io w \<and> w_llm w' = w_llm w \<and>
    (\<forall>r\<in>set (alerts (w_db w')). a_alert_id r = a_alert_id row \<and> a_status r = ''analyzed'' \<longrightarrow>
       (\<exists>n. get_current_verdict_for_alert (a_alert_id row) (w_db w') = Some n \<and> copied vid v n))"
proof (cases "process_body env row w")
  case (Pair res w1)
  have "has_source row vid v (w_db w)" using assms(2,4,5) by (simp add: has_source_def)
  then have e: "silent w w1 \<and> copy_or_idle (a_alert_id row) vid v (w_db w1)"
    using tripleD [OF body_inherits [OF assms(1,3)] _ Pair, of w v] by (simp add: silent_def)
  have "keeps (silent w) (store_write env (update_alert_status (a_alert_id row) ''failed'')) (\<lambda>_. True)"
    unfolding store_write_def by (rule silent_store)
  moreover have "keeps (\<lambda>w1. copy_or_idle (a_alert_id row) vid v (w_db w1)) (store_write env (update_alert_status (a_alert_id row) ''failed'')) (\<lambda>_. True)"
  proof (rule keeps_write)
    show "others_keep env (copy_or_idle (a_alert_id row) vid v)"
      by (rule others_keepI [OF assms(1)]) (auto simp: copy_or_idle_def get_current_verdict_for_alert_def dest: idle_external verdicts_external)
  qed (auto simp: copy_or_idle_def idle_def update_alert_status_def set_update_where)
  ultimately have "silent w w' \<and> copy_or_idle (a_alert_id row) vid v (w_db w')"
    using e Pair assms(6) by (simp add: process_alert_def triple_def split: sum.splits)
  then show ?thesis by (auto simp: silent_def copy_or_idle_def idle_def)
qed

section \<open>The daily cap\<close>

text \<open>The worker counts every alert of the day that is not deferred, the queued ones included, against the cap: as soon as
  the cap is reached by ingestion, nothing is dequeued, although the alerts were admitted under the same cap.\<close>

theorem full_queue_stalls:
  assumes "count_analyzed_today (we_reset_hour env) 1 (we_now env (w_calls w)) (w_db w) = Inr n" "we_daily_cap env \<le> int n"
  shows "w_db (worker_turn (alone env) w) = w_db w"
  using assms by (simp add: worker_turn_def dequeue_next_def wbind_def store_def wret_def Let_def split: option.splits)

section \<open>A repeated alert\<close>

definition sample_worker_env :: worker_env where
  "sample_worker_env = \<lparr>we_cfg = home_config, we_env = sample_triage_env, we_identity = True, we_render = (\<lambda>_ _. Inr ''prompt''),
     we_complete = ollama_complete sample_pydantic sample_ollama sample_post (\<lambda>_. 0), we_fault = (\<lambda>_. None), we_others = (\<lambda>_ d. d),
     we_now = (\<lambda>_. 5 * hour_us), we_uuid = (\<lambda>n. ''new''), we_daily_cap = 10, we_reset_hour = 0\<rparr>"

definition repeated_alert :: alert_row where
  "repeated_alert = sample_alert_row ''b'' (4 * hour_us) ''queued''"

definition sample_world :: world where
  "sample_world = \<lparr>w_db = empty_db\<lparr>alerts := [(sample_alert_row ''a'' (3 * hour_us) ''analyzed'')\<lparr>a_verdict_id := Some ''v''\<rparr>,
       repeated_alert], verdicts := [(sample_verdict ''v'' ''a'' ''{}'')\<lparr>v_verdict_category := ''likely_fp''\<rparr>]\<rparr>,
     w_io = new_io, w_llm = [], w_calls = 0\<rparr>"

lemmas sample_defs = sample_world_def repeated_alert_def sample_alert_row_def sample_verdict_def empty_db_def

lemma sample_rely: "rely sample_worker_env"
  by (simp add: rely_def sample_worker_env_def)

lemma sample_world_sound: "sound (w_db sample_world)"
  by (simp add: sample_defs sound_def one_current_def linked_def verdict_ok_def CATEGORIES_def)

theorem worker_keeps_database_sound_witness:
  "sound (w_db (worker_run (sample_worker_env\<lparr>we_complete := ollama_complete sample_pydantic sample_ollama sample_post (\<lambda>_. 0)\<rparr>) 3 sample_world))"
  using worker_keeps_database_sound [OF sample_rely sample_world_sound] by blast

theorem process_alert_outcome_witness:
  "\<exists>r\<in>set (alerts (w_db (process_alert sample_worker_env repeated_alert sample_world))).
     a_alert_id r = ''b'' \<and> a_status r \<in> {''failed'', ''analyzed''}"
proof -
  let ?w = "process_alert sample_worker_env repeated_alert sample_world"
  have "map a_alert_id (alerts (w_db ?w)) = [''a'', ''b'']"
    using frame.alert_keeps [OF refl, of repeated_alert "w_db sample_world" sample_world sample_worker_env]
    by (simp add: same_frame_def sample_worker_env_def) (simp add: sample_defs)
  then have "''b'' \<in> a_alert_id ` set (alerts (w_db ?w))" by (metis list.set_intros set_map)
  then obtain r where r: "r \<in> set (alerts (w_db ?w))" "a_alert_id r = ''b''" by auto
  from process_alert_outcome [OF sample_rely refl _ r(1)] r show ?thesis by (auto simp: sample_worker_env_def repeated_alert_def sample_alert_row_def)
qed

theorem inherited_verdict_costs_nothing_witness:
  "w_llm (process_alert sample_worker_env repeated_alert sample_world) = [] \<and>
   w_io (process_alert sample_worker_env repeated_alert sample_world) = new_io"
proof -
  have f: "find_recent_verdict_for_group (a_signature_id repeated_alert) (a_src_ip repeated_alert) (a_dst_ip repeated_alert)
      (a_ingest_timestamp repeated_alert) 1 (w_db sample_world) = Inr (Some ''v'')"
    by code_simp
  have g: "get_verdict ''v'' (w_db sample_world) = Some (hd (verdicts (w_db sample_world)))"
    by (simp add: get_verdict_def sample_defs)
  have i: "idle (a_alert_id repeated_alert) (w_db sample_world)" by (simp add: idle_def sample_defs)
  from inherited_verdict_costs_nothing [OF sample_rely f _ g i refl] show ?thesis by (simp add: sample_world_def)
qed

section \<open>What was dispatched is what is analysed\<close>

text \<open>C35: what the dispatcher stores the worker reads back: after an alert is inserted, the store returns under its identifier
  a row with the status given, and the text in that row parses to the event that was inserted.\<close>

theorem alert_round_trip:
  assumes "insert_alert uid now alert st d = Inr (i, d')" "jwf alert"
  shows "\<exists>r. get_alert i d' = Some r \<and> a_status r = st \<and> json_loads (a_raw_eve r) = Inr alert"
proof -
  obtain r where a: "alert_row_of uid now alert st = Inr r" and i: "i = uid"
      and d': "d' = d\<lparr>alerts := alerts d @ [r]\<rparr>" "uid \<notin> a_alert_id ` set (alerts d)"
    using assms(1) unfolding insert_alert_def by (auto split: option.splits if_splits)
  note r = alert_row_of_fields [OF a]
  have "filter (\<lambda>r. a_alert_id r = uid) (alerts d) = []" using d'(2) by (auto simp: filter_empty_conv)
  then have "get_alert i d' = Some r" using r by (simp add: get_alert_def d'(1) i)
  then show ?thesis using r loads_dumps [OF assms(2)] by (simp add: json_loads_def)
qed

theorem alert_round_trip_witness:
  "\<exists>d' r. insert_alert ''a'' 0 (JObj [(''src_ip'', JStr ''10.0.0.5'')]) ''queued'' empty_db = Inr (''a'', d') \<and> get_alert ''a'' d' = Some r \<and>
     json_loads (a_raw_eve r) = Inr (JObj [(''src_ip'', JStr ''10.0.0.5'')])"
proof -
  obtain d' where i: "insert_alert ''a'' 0 (JObj [(''src_ip'', JStr ''10.0.0.5'')]) ''queued'' empty_db = Inr (''a'', d')"
    by (simp add: insert_alert_def alert_row_of_def dget_def alert_row_ok_def empty_db_def)
  from alert_round_trip [OF i] i show ?thesis by auto
qed

end
