(* ===== verification/Web_Gate.thy ===== *)
theory Web_Gate
  imports Operational_Store Ingestion_Status
begin

text \<open>
  Access to the web interface: sessions, passwords and the lockout of \<open>src/web/auth.py\<close>, the login routes
  (\<open>routes/auth_routes.py\<close>), the accepted licence (\<open>deps.py\<close>, \<open>routes/setup.py\<close>, \<open>src/telemetry/install_id.py\<close>) and the gate every
  request passes (\<open>app.py\<close>). A request carries its session, already verified by the session middleware. A response is a redirect
  (status 303), a page with its template, context and status, or JSON. Times are readings of \<open>time.time()\<close>.
\<close>

record request =
  req_method :: string
  req_path :: string
  req_session :: jdict
  req_forwarded_for :: "string option"
  req_client_host :: "string option"

datatype response = Redirect string | Page string jdict int | JsonResp json int

section \<open>Sessions and passwords\<close>

definition verify_password :: "string \<Rightarrow> string \<Rightarrow> bool" where
  "verify_password admin_password password = (admin_password \<noteq> [] \<and> password = admin_password)"

definition is_authenticated :: "request \<Rightarrow> bool" where
  "is_authenticated req = truthy (dget (req_session req) ''user'' JNull)"

section \<open>Lockout\<close>

definition LOCKOUT_SECONDS :: rat where
  "LOCKOUT_SECONDS = 60"

definition MAX_FAILURES :: int where
  "MAX_FAILURES = 5"

record lock_entry =
  failures :: int
  locked_until :: rat

type_synonym lockout = "(string \<times> lock_entry) list"

definition check_lockout :: "rat \<Rightarrow> string \<Rightarrow> lockout \<Rightarrow> rat option" where
  "check_lockout now ip lo =
     (case map_of lo ip of
        None \<Rightarrow> None
      | Some e \<Rightarrow> (if locked_until e \<noteq> 0 \<and> now < locked_until e then Some (locked_until e) else None))"

definition login_failure :: "rat \<Rightarrow> rat \<Rightarrow> string \<Rightarrow> lockout \<Rightarrow> (int \<times> rat option) \<times> lockout" where
  "login_failure now1 now2 ip lo =
     (let e = (case map_of lo ip of Some e \<Rightarrow> e | None \<Rightarrow> \<lparr>failures = 0, locked_until = 0\<rparr>);
          e = (if locked_until e \<noteq> 0 \<and> now1 > locked_until e then e\<lparr>failures := 0, locked_until := 0\<rparr> else e);
          e = e\<lparr>failures := failures e + 1\<rparr>
      in if failures e \<ge> MAX_FAILURES
         then ((failures e, Some (now2 + LOCKOUT_SECONDS)), dict_set ip (e\<lparr>locked_until := now2 + LOCKOUT_SECONDS\<rparr>) lo)
         else ((failures e, None), dict_set ip e lo))"

definition clear_failures :: "string \<Rightarrow> lockout \<Rightarrow> lockout" where
  "clear_failures ip lo = dict_del ip lo"

section \<open>Login and logout\<close>

definition client_ip :: "request \<Rightarrow> string" where
  "client_ip req =
     (case req_forwarded_for req of
        Some (c # cs) \<Rightarrow> strip (hd (split_on CHR '','' (c # cs)))
      | _ \<Rightarrow> (case req_client_host req of Some h \<Rightarrow> h | None \<Rightarrow> ''unknown''))"

text \<open>The clock readings of a login: the lockout check, the two of a failure, and that of the time shown.\<close>

record login_times =
  lt_check :: rat
  lt_fail1 :: rat
  lt_fail2 :: rat
  lt_shown :: rat

definition locked_page :: "rat \<Rightarrow> rat \<Rightarrow> response" where
  "locked_page until now =
     Page ''login.html'' [(''locked'', JBool True), (''remaining'', JInt (max 0 \<lfloor>until - now\<rfloor>))] 429"

definition post_login :: "string \<Rightarrow> login_times \<Rightarrow> request \<Rightarrow> string \<Rightarrow> lockout \<Rightarrow> response \<times> jdict \<times> lockout" where
  "post_login admin_password t req password lo =
     (let ip = client_ip req
      in case check_lockout (lt_check t) ip lo of
           Some until \<Rightarrow> (locked_page until (lt_shown t), req_session req, lo)
         | None \<Rightarrow>
             (if \<not> verify_password admin_password password
              then (case login_failure (lt_fail1 t) (lt_fail2 t) ip lo of
                      ((n, Some until), lo') \<Rightarrow> (locked_page until (lt_shown t), req_session req, lo')
                    | ((n, None), lo') \<Rightarrow> (Page ''login.html'' [(''error'', JStr ''incorrect_password'')] 401, req_session req, lo'))
              else (Redirect ''/queue'', dict_set ''user'' (JStr ''admin'') (req_session req), clear_failures ip lo)))"

definition post_logout :: "request \<Rightarrow> response \<times> jdict" where
  "post_logout req = (Redirect ''/login'', [])"

section \<open>The licence\<close>

definition ensure_install_id :: "string \<Rightarrow> instant \<Rightarrow> db \<Rightarrow> string \<times> db" where
  "ensure_install_id new_id now d =
     (case get_config ''install_id'' d of
        Some (c # cs) \<Rightarrow> (c # cs, d)
      | _ \<Rightarrow> (new_id, set_config ''install_id'' new_id now d))"

definition get_install_id :: "db \<Rightarrow> string option" where
  "get_install_id d = get_config ''install_id'' d"

text \<open>The flag is cached; \<open>None\<close> until the first read. The store is \<open>None\<close> before it is configured, and a read may fail.\<close>

definition check_license_accepted :: "exn option \<Rightarrow> db option \<Rightarrow> bool option \<Rightarrow> bool \<times> bool option" where
  "check_license_accepted fault store cached =
     (case cached of
        Some b \<Rightarrow> (b, cached)
      | None \<Rightarrow>
          (let b = (case (store, fault) of (Some d, None) \<Rightarrow> get_config ''eula_accepted'' d = Some ''true'' | _ \<Rightarrow> False)
           in (b, Some b)))"

definition mark_license_accepted :: "bool option \<Rightarrow> bool option" where
  "mark_license_accepted cached = Some True"

definition get_license :: "exn option \<Rightarrow> db option \<Rightarrow> bool option \<Rightarrow> response \<times> bool option" where
  "get_license fault store cached =
     (let (b, cached) = check_license_accepted fault store cached
      in (if b then Redirect ''/setup/health'' else Page ''setup_license.html'' [] 200, cached))"

definition post_license :: "string \<Rightarrow> instant \<Rightarrow> string \<Rightarrow> db \<Rightarrow> bool option \<Rightarrow> response \<times> db \<times> bool option" where
  "post_license new_id now accepted d cached =
     (if accepted \<noteq> ''true'' then (Page ''setup_license.html'' [(''declined'', JBool True)] 200, d, cached)
      else let d = set_config ''eula_accepted'' ''true'' now d;
               d = set_config ''eula_accepted_at'' (isoformat now) now d;
               (i, d) = ensure_install_id new_id now d
           in (Redirect ''/setup/health'', d, mark_license_accepted cached))"

section \<open>The gate\<close>

definition ALWAYS_OPEN :: "string list" where
  "ALWAYS_OPEN = [''/health'']"

definition POST_LICENSE_OPEN :: "string list" where
  "POST_LICENSE_OPEN = [''/setup/health'', ''/login'', ''/logout'', ''/api/health'']"

definition BLOCKED_OPEN :: "string list" where
  "BLOCKED_OPEN = [''/setup/health'', ''/health'', ''/api/health'', ''/login'', ''/logout'']"

definition blocked_ingestion_status :: "ingestion_status option \<Rightarrow> ingestion_status option" where
  "blocked_ingestion_status status =
     (case status of Some st \<Rightarrow> (if blocked_reason st \<noteq> None then Some st else None) | None \<Rightarrow> None)"

definition returns_json_when_unauthed :: "string \<Rightarrow> string \<Rightarrow> bool" where
  "returns_json_when_unauthed path meth =
     (startswith path ''/api/'' \<or> (meth = ''POST'' \<and> startswith path ''/alert/''))"

text \<open>\<open>None\<close> hands the request on to its route.\<close>

definition gate_dispatch ::
  "exn option \<Rightarrow> db option \<Rightarrow> ingestion_status option \<Rightarrow> request \<Rightarrow> bool option \<Rightarrow> response option \<times> bool option" where
  "gate_dispatch fault store status req cached =
     (let path = req_path req
      in if path \<in> set ALWAYS_OPEN \<or> startswith path ''/static/'' then (None, cached)
         else let (license_ok, cached) = check_license_accepted fault store cached
              in (if \<not> license_ok then (if path \<in> {''/setup/license'', ''/api/health''} then None else Some (Redirect ''/setup/license''))
                  else case (blocked_ingestion_status status, path \<in> set BLOCKED_OPEN) of
                         (Some st, False) \<Rightarrow>
                           (if startswith path ''/api/''
                            then Some (JsonResp (JObj [(''status'', JStr ''blocked''), (''reason'', jopt (blocked_reason st))]) 503)
                            else Some (Redirect ''/setup/health''))
                       | _ \<Rightarrow>
                           (if is_authenticated req \<and> path \<in> {''/setup/license'', ''/login''} then Some (Redirect ''/queue'')
                            else if \<not> is_authenticated req \<and> path \<notin> set POST_LICENSE_OPEN \<and> \<not> startswith path ''/setup/''
                            then (if returns_json_when_unauthed path (req_method req)
                                  then Some (JsonResp (JObj [(''error'', JStr ''unauthorized'')]) 401)
                                  else Some (Redirect ''/login''))
                            else None), cached))"

section \<open>Guessing passwords\<close>

text \<open>How many of a sequence of logins get as far as comparing the password.\<close>

fun compared :: "string \<Rightarrow> (login_times \<times> request \<times> string) list \<Rightarrow> lockout \<Rightarrow> nat" where
  "compared admin_password [] lo = 0"
| "compared admin_password ((t, req, p) # attempts) lo =
     (if check_lockout (lt_check t) (client_ip req) lo = None then 1 else 0)
     + compared admin_password attempts (snd (snd (post_login admin_password t req p lo)))"

definition entry_ok :: "lock_entry \<Rightarrow> bool" where
  "entry_ok e \<longleftrightarrow> (if locked_until e = 0 then 0 \<le> failures e \<and> failures e < MAX_FAILURES else MAX_FAILURES \<le> failures e)"

definition entry_of :: "string \<Rightarrow> lockout \<Rightarrow> lock_entry" where
  "entry_of ip lo = (case map_of lo ip of Some e \<Rightarrow> e | None \<Rightarrow> \<lparr>failures = 0, locked_until = 0\<rparr>)"

text \<open>How many comparisons an entry still allows before a time.\<close>

definition budget :: "rat \<Rightarrow> lock_entry \<Rightarrow> int" where
  "budget T e = (if locked_until e = 0 then MAX_FAILURES - failures e else if T \<le> locked_until e then 0 else MAX_FAILURES)"

definition wrong_within :: "rat \<Rightarrow> string \<Rightarrow> string \<Rightarrow> login_times \<times> request \<times> string \<Rightarrow> bool" where
  "wrong_within T0 ip pw a \<longleftrightarrow> (case a of (t, req, p) \<Rightarrow>
     client_ip req = ip \<and> \<not> verify_password pw p \<and> T0 \<le> lt_check t \<and> lt_check t \<le> lt_fail1 t \<and> lt_fail1 t \<le> lt_fail2 t \<and>
     lt_fail2 t < T0 + LOCKOUT_SECONDS)"

lemma login_failure_entry:
  assumes "entry_ok (entry_of ip lo)" "0 \<le> T0" "T0 \<le> t" "t \<le> f1" "f1 \<le> f2" "f2 < T0 + LOCKOUT_SECONDS"
    and "check_lockout t ip lo = None" "login_failure f1 f2 ip lo = (r, lo')"
  shows "entry_ok (entry_of ip lo') \<and> 1 + budget (T0 + LOCKOUT_SECONDS) (entry_of ip lo') \<le> budget (T0 + LOCKOUT_SECONDS) (entry_of ip lo)"
proof -
  define e where "e = entry_of ip lo"
  have free: "locked_until e = 0 \<or> locked_until e \<le> t"
    using assms(7) by (auto simp: check_lockout_def e_def entry_of_def split: option.splits if_splits)
  define e1 where "e1 = (if locked_until e \<noteq> 0 \<and> f1 > locked_until e then e\<lparr>failures := 0, locked_until := 0\<rparr> else e)"
  have new: "entry_of ip lo' = (if failures e1 + 1 \<ge> MAX_FAILURES
      then e1\<lparr>failures := failures e1 + 1, locked_until := f2 + LOCKOUT_SECONDS\<rparr> else e1\<lparr>failures := failures e1 + 1\<rparr>)"
    using assms(8) by (auto simp: login_failure_def Let_def e_def e1_def entry_of_def split: option.splits if_splits)
  have bounds: "f2 + LOCKOUT_SECONDS \<noteq> 0" "T0 + LOCKOUT_SECONDS \<le> f2 + LOCKOUT_SECONDS" "t < T0 + LOCKOUT_SECONDS"
    using assms(2-6) by (simp_all add: LOCKOUT_SECONDS_def)
  show ?thesis unfolding e_def [symmetric] using assms(1) free bounds assms(4)
    by (auto simp: new e1_def entry_ok_def budget_def MAX_FAILURES_def e_def [symmetric] split: if_splits)
qed

lemma compared_budget:
  assumes "list_all (wrong_within T0 ip pw) attempts" "0 \<le> T0" "entry_ok (entry_of ip lo)"
  shows "int (compared pw attempts lo) \<le> budget (T0 + LOCKOUT_SECONDS) (entry_of ip lo)"
  using assms
proof (induction pw attempts lo rule: compared.induct)
  case (1 pw lo)
  then show ?case by (auto simp: budget_def entry_ok_def MAX_FAILURES_def)
next
  case (2 pw t req p attempts lo)
  note w = 2(2) [unfolded list.pred_inject wrong_within_def, simplified]
  obtain r lo' where f: "login_failure (lt_fail1 t) (lt_fail2 t) ip lo = (r, lo')" by fastforce
  show ?case
  proof (cases "check_lockout (lt_check t) ip lo")
    case None
    have step: "entry_ok (entry_of ip lo') \<and> 1 + budget (T0 + LOCKOUT_SECONDS) (entry_of ip lo') \<le> budget (T0 + LOCKOUT_SECONDS) (entry_of ip lo)"
      using login_failure_entry [OF 2(4,3) _ _ _ _ None f] w by blast
    have "snd (snd (post_login pw t req p lo)) = lo'"
      using w f None by (cases r; cases "snd r") (auto simp: post_login_def Let_def)
    with 2(1) [of] step w 2(3) None show ?thesis by (auto simp: wrong_within_def list_all_iff)
  next
    case (Some u)
    then have "snd (snd (post_login pw t req p lo)) = lo" using w by (simp add: post_login_def Let_def)
    with 2(1) w 2(3,4) Some show ?thesis by (auto simp: wrong_within_def list_all_iff)
  qed
qed


definition sample_request :: "string \<Rightarrow> string \<Rightarrow> request" where
  "sample_request meth path =
     \<lparr>req_method = meth, req_path = path, req_session = [], req_forwarded_for = None, req_client_host = Some ''10.0.0.9''\<rparr>"

definition sample_login :: "rat \<Rightarrow> login_times" where
  "sample_login t = \<lparr>lt_check = t, lt_fail1 = t, lt_fail2 = t, lt_shown = t\<rparr>"


text \<open>The address is taken from a header the client chooses: with a new one for each attempt, every password is compared.\<close>

lemma post_login_other:
  "ip \<noteq> client_ip req \<Longrightarrow> map_of (snd (snd (post_login pw t req p lo))) ip = map_of lo ip"
  by (auto simp: post_login_def login_failure_def clear_failures_def Let_def split: option.splits)

theorem forwarded_header_evades_lockout:
  assumes "distinct (map (\<lambda>a. client_ip (fst (snd a))) attempts)" "\<forall>a\<in>set attempts. map_of lo (client_ip (fst (snd a))) = None"
  shows "compared pw attempts lo = length attempts"
  using assms
proof (induction pw attempts lo rule: compared.induct)
  case (2 pw t req p attempts lo)
  have "map_of (snd (snd (post_login pw t req p lo))) (client_ip (fst (snd a))) = None" if "a \<in> set attempts" for a
    using 2(2,3) that post_login_other [of "client_ip (fst (snd a))" req] by force
  with 2 show ?case by (simp add: check_lockout_def)
qed simp

section \<open>What the gate lets through\<close>

text \<open>The licence flag is cached even when it could not be read: after one failed read, an accepted licence counts as not
  accepted until it is accepted again.\<close>

theorem license_fault_sticks:
  assumes "get_config ''eula_accepted'' d = Some ''true''"
  shows "check_license_accepted None (Some d) (snd (check_license_accepted (Some e) (Some d) None)) = (False, Some False)"
  by (simp add: check_license_accepted_def)

lemma gate_cases:
  assumes "gate_dispatch fault store status req cached = (None, cached')"
    "\<not> (req_path req \<in> set ALWAYS_OPEN \<or> startswith (req_path req) ''/static/'')"
  shows "if fst (check_license_accepted fault store cached)
     then (blocked_ingestion_status status = None \<or> req_path req \<in> set BLOCKED_OPEN) \<and>
       (is_authenticated req \<or> req_path req \<in> set POST_LICENSE_OPEN \<or> startswith (req_path req) ''/setup/'')
     else req_path req \<in> {''/setup/license'', ''/api/health''}"
  using assms by (auto simp: gate_dispatch_def Let_def split: prod.splits if_splits option.splits bool.splits)

text \<open>The pages with alerts in them and the interfaces behind the login.\<close>

definition protected_path :: "string \<Rightarrow> bool" where
  "protected_path p \<longleftrightarrow> startswith p ''/alert/'' \<or>
     p \<in> set [''/'', ''/queue'', ''/api/queue-depth'', ''/api/queue-rows'', ''/api/feedback'', ''/api/feedback-context'']"

lemma setup_not_protected: "startswith p ''/setup/'' \<Longrightarrow> \<not> protected_path p"
proof -
  assume "startswith p ''/setup/''"
  then obtain q where "p = ''/setup/'' @ q" by (metis startswith_def append_take_drop_id)
  then show ?thesis by (simp add: protected_path_def startswith_def)
qed

lemma open_not_protected:
  assumes "p \<in> set POST_LICENSE_OPEN \<or> startswith p ''/setup/'' \<or> p \<in> {''/setup/license'', ''/api/health''}"
  shows "\<not> protected_path p"
proof -
  have "\<not> protected_path ''/login''" "\<not> protected_path ''/logout''" "\<not> protected_path ''/api/health''"
    "startswith ''/setup/health'' ''/setup/''" "startswith ''/setup/license'' ''/setup/''" by code_simp+
  then show ?thesis using assms setup_not_protected unfolding POST_LICENSE_OPEN_def by (elim disjE) auto
qed

text \<open>C40: the gate: apart from the liveness probe and static files, a request reaches its route only if the licence is accepted or
  the page is the licence or the health report; then, only if ingestion is not blocked or the page is one of those that help
  to repair it; and only if the session is logged in or the page belongs to set-up or login. Nobody reaches an alert, the queue
  or the other interfaces without having logged in.\<close>

theorem gate_protects:
  assumes "gate_dispatch fault store status req cached = (None, cached')" "req_path req \<noteq> ''/health''" "\<not> startswith (req_path req) ''/static/''"
  shows "(fst (check_license_accepted fault store cached) \<or> req_path req \<in> {''/setup/license'', ''/api/health''}) \<and>
    (fst (check_license_accepted fault store cached) \<and> blocked_ingestion_status status \<noteq> None \<longrightarrow> req_path req \<in> set BLOCKED_OPEN) \<and>
    (protected_path (req_path req) \<longrightarrow> is_authenticated req \<and> fst (check_license_accepted fault store cached))"
proof -
  let ?p = "req_path req"
  have "\<not> (?p \<in> set ALWAYS_OPEN \<or> startswith ?p ''/static/'')" using assms(2,3) by (simp add: ALWAYS_OPEN_def)
  note c = gate_cases [OF assms(1) this]
  have "\<not> protected_path ?p" if "?p \<in> set POST_LICENSE_OPEN \<or> startswith ?p ''/setup/'' \<or> ?p \<in> {''/setup/license'', ''/api/health''}"
    using that open_not_protected by blast
  then show ?thesis using c by (cases "fst (check_license_accepted fault store cached)") auto
qed

theorem gate_protects_witness:
  "gate_dispatch None (Some (set_config ''eula_accepted'' ''true'' 0 empty_db)) None ((sample_request ''GET'' ''/queue'')\<lparr>req_session := [(''user'', JStr ''admin'')]\<rparr>) None
     = (None, Some True) \<and> is_authenticated ((sample_request ''GET'' ''/queue'')\<lparr>req_session := [(''user'', JStr ''admin'')]\<rparr>)"
proof -
  let ?r = "(sample_request ''GET'' ''/queue'')\<lparr>req_session := [(''user'', JStr ''admin'')]\<rparr>"
  have g: "gate_dispatch None (Some (set_config ''eula_accepted'' ''true'' 0 empty_db)) None ?r None = (None, Some True)"
    by code_simp
  have "req_path ?r \<noteq> ''/health''" "\<not> startswith (req_path ?r) ''/static/''" by (simp_all add: sample_request_def startswith_def)
  moreover have "protected_path (req_path ?r)" by (simp add: sample_request_def protected_path_def)
  ultimately show ?thesis using gate_protects [OF g] g by blast
qed

end
