(* ===== verification/Web_Alerts.thy ===== *)
theory Web_Alerts
  imports Web_Gate Rdap Store_Correct
begin

text \<open>
  The investigation view of an alert and the analyst's decision, \<open>src/web/routes/alert_routes.py\<close>: the summary of correlated events
  with repeated ones collapsed, the enrichment ledger with the reverse-DNS entries the view adds, and the disposition route.
  The view is the context handed to the template. A value that is not hashable as a key raises, as in Python.
\<close>

section \<open>Summaries of events\<close>

definition colon :: "json \<Rightarrow> json \<Rightarrow> string" where
  "colon a b = py_str a @ '':'' @ py_str b"

definition flow_summary :: "json \<Rightarrow> json res" where
  "flow_summary ev =
     rbind (jget ev ''proto'' (JStr ''TCP'')) (\<lambda>proto.
     rbind (jget ev ''src_ip'' (JStr ''?'')) (\<lambda>sip. rbind (jget ev ''src_port'' (JStr ''?'')) (\<lambda>sport.
     rbind (jget ev ''dest_ip'' (JStr ''?'')) (\<lambda>dip. rbind (jget ev ''dest_port'' (JStr ''?'')) (\<lambda>dport.
     rbind (jget ev ''flow'' (JObj [])) (\<lambda>fl.
     rbind (jget fl ''bytes_toserver'' (JStr ''?'')) (\<lambda>ts. rbind (jget fl ''bytes_toclient'' (JStr ''?'')) (\<lambda>tc.
       Inr (JStr (py_str proto @ '' '' @ colon sip sport @ '' -> '' @ colon dip dport @ ''  bytes_toserver='' @ py_str ts
         @ '' bytes_toclient='' @ py_str tc))))))))))"

definition http_summary :: "json \<Rightarrow> json res" where
  "http_summary ev =
     rbind (jget ev ''http'' (JObj [])) (\<lambda>http.
     rbind (jget http ''http_method'' (JStr ''GET'')) (\<lambda>meth. rbind (jget http ''url'' (JStr ''/'')) (\<lambda>url.
     rbind (jget http ''status'' (JStr [])) (\<lambda>status.
     rbind (jget ev ''dest_ip'' (JStr [])) (\<lambda>dip. rbind (jget http ''hostname'' dip) (\<lambda>host.
       Inr (JStr (py_str meth @ '' '' @ py_str host @ py_str url @ '' ('' @ py_str status @ '')''))))))))"

definition dns_summary :: "json \<Rightarrow> json res" where
  "dns_summary ev =
     rbind (jget ev ''dns'' (JObj [])) (\<lambda>dns.
     rbind (jget dns ''rrname'' (JStr [])) (\<lambda>flat.
     rbind (if truthy flat then Inr flat
            else rbind (jget dns ''queries'' (JArr [])) (\<lambda>queries.
                   if truthy queries then rbind (jat queries 0) (\<lambda>q. jget q ''rrname'' (JStr [])) else Inr flat)) (\<lambda>rrname.
     rbind (jget dns ''type'' (JStr ''query'')) (\<lambda>qtype.
       Inr (JStr (''DNS '' @ py_str qtype @ '' '' @ py_str (jor rrname (JStr ''?''))))))))"

definition tls_summary :: "json \<Rightarrow> json res" where
  "tls_summary ev =
     rbind (jget ev ''tls'' (JObj [])) (\<lambda>tls.
     rbind (jget tls ''sni'' JNull) (\<lambda>sni.
     rbind (if truthy sni then Inr sni else jget tls ''subject'' (JStr ''?'')) (\<lambda>name.
       Inr (JStr (''TLS SNI: '' @ py_str name)))))"

definition alert_summary :: "json \<Rightarrow> json res" where
  "alert_summary ev =
     rbind (jget ev ''alert'' (JObj [])) (\<lambda>al.
     rbind (jget al ''signature'' (JStr ''co-alert'')) (\<lambda>sig. rbind (jget al ''category'' (JStr [])) (\<lambda>cat.
       Inr (JStr (''CO-ALERT: '' @ py_str sig @ ''  ['' @ py_str cat @ '']'')))))"

definition fileinfo_summary :: "json \<Rightarrow> json res" where
  "fileinfo_summary ev =
     rbind (jget ev ''fileinfo'' (JObj [])) (\<lambda>fi.
     rbind (jget fi ''filename'' (JStr [])) (\<lambda>f0. rbind (jget fi ''magic'' (JStr [])) (\<lambda>m0. rbind (jget fi ''size'' JNull) (\<lambda>size.
       let filename = jor f0 (JStr []); magic = jor m0 (JStr []); head = ''File: '' @ py_str (jor filename (JStr ''/''));
           bytes = (if size \<noteq> JNull then [py_str size @ '' bytes''] else [])
       in if filename \<in> {JStr [], JStr ''/''} \<and> \<not> truthy magic \<and> size = JNull then Inr (JStr [])
          else if truthy magic
          then (case magic of
                  JStr m \<Rightarrow> Inr (JStr (head @ '' ('' @ join '', '' (m # bytes) @ '')''))
                | _ \<Rightarrow> Inl (TypeError ''sequence item 0: expected str instance''))
          else Inr (JStr (if bytes = [] then head else head @ '' ('' @ join '', '' bytes @ '')''))))))"

definition summarise_event :: "json \<Rightarrow> json res" where
  "summarise_event ev =
     rbind (jget ev ''event_type'' (JStr [])) (\<lambda>etype.
       if etype = JStr ''flow'' then flow_summary ev
       else if etype = JStr ''http'' then http_summary ev
       else if etype = JStr ''dns'' then dns_summary ev
       else if etype = JStr ''tls'' then tls_summary ev
       else if etype = JStr ''alert'' then alert_summary ev
       else if etype = JStr ''fileinfo'' then fileinfo_summary ev
       else Inr etype)"

section \<open>Collapsing repeated events\<close>

record shown_event =
  se_type :: json
  se_timestamp :: json
  se_summary :: json
  se_count :: nat

text \<open>\<open>json.loads(text or dflt)\<close>, with the default again where the text cannot be parsed.\<close>

definition loads_or :: "string \<Rightarrow> json \<Rightarrow> json" where
  "loads_or s dflt = (if s = [] then dflt else case loads s of Some v \<Rightarrow> v | None \<Rightarrow> dflt)"

definition shown_event_of :: "eve_row \<Rightarrow> shown_event res" where
  "shown_event_of r =
     rbind (summarise_event (loads_or (e_raw_eve r) (JObj []))) (\<lambda>summary.
       Inr \<lparr>se_type = e_event_type r, se_timestamp = e_event_timestamp r, se_summary = summary, se_count = 1\<rparr>)"

definition event_key :: "shown_event \<Rightarrow> json \<times> json" where
  "event_key s = (se_type s, se_summary s)"

fun bump :: "shown_event \<Rightarrow> shown_event list \<Rightarrow> shown_event list" where
  "bump ev [] = [ev]"
| "bump ev (s # ss) = (if event_key s = event_key ev then s\<lparr>se_count := se_count s + 1\<rparr> # ss else s # bump ev ss)"

fun collapse_events :: "shown_event list \<Rightarrow> shown_event list \<Rightarrow> shown_event list res" where
  "collapse_events shown [] = Inr shown"
| "collapse_events shown (ev # evs) =
     (if \<not> truthy (se_summary ev) then collapse_events shown evs
      else if hashable (se_summary ev) then collapse_events (bump ev shown) evs
      else Inl unhashable)"

definition correlated_view :: "eve_row list \<Rightarrow> shown_event list res" where
  "correlated_view rows = rbind (rmap shown_event_of (take 200 rows)) (collapse_events [])"

section \<open>The ledger and the names\<close>

definition reverse_dns_entry :: "json \<Rightarrow> json \<Rightarrow> json" where
  "reverse_dns_entry ip hostname =
     JObj [(''indicator'', ip), (''indicator_type'', JStr ''ip''), (''source'', JStr ''reverse_dns''),
       (''status'', JStr (if truthy hostname then ''contributed'' else ''failing'')), (''summary'', hostname),
       (''failure_reason'', if truthy hostname then JNull else JStr ''no_ptr_record''),
       (''failure_detail'', if truthy hostname then JNull else JStr ''No PTR record found''),
       (''cached'', JBool False), (''cache_age_seconds'', JNull)]"

fun ledger_sides :: "json \<Rightarrow> string list \<Rightarrow> json list \<Rightarrow> json list \<Rightarrow> json list res" where
  "ledger_sides identity [] seen ledger = Inr ledger"
| "ledger_sides identity (side # sides) seen ledger =
     rbind (jget identity side JNull) (\<lambda>ident.
       if ident = JNull then ledger_sides identity sides seen ledger
       else rbind (jget ident ''ip'' (JStr [])) (\<lambda>ip.
              if \<not> truthy ip then ledger_sides identity sides seen ledger
              else if \<not> hashable ip then Inl unhashable
              else if ip \<in> set seen then ledger_sides identity sides seen ledger
              else rbind (jget ident ''hostname'' JNull) (\<lambda>hostname.
                     ledger_sides identity sides (seen @ [ip]) (ledger @ [reverse_dns_entry ip hostname]))))"

fun hostname_sides :: "json \<Rightarrow> string list \<Rightarrow> (json \<times> json) list \<Rightarrow> (json \<times> json) list res" where
  "hostname_sides identity [] names = Inr names"
| "hostname_sides identity (side # sides) names =
     rbind (jget identity side JNull) (\<lambda>ident.
       if \<not> truthy ident then hostname_sides identity sides names
       else rbind (jget ident ''hostname'' JNull) (\<lambda>hostname.
              if \<not> truthy hostname then hostname_sides identity sides names
              else rbind (jindex ident ''ip'') (\<lambda>ip.
                     if hashable ip then hostname_sides identity sides (dict_set ip hostname names) else Inl unhashable)))"

section \<open>The view\<close>

text \<open>What is shown of the inputs of the model: nothing, the parsed value, or the text as stored.\<close>

datatype inputs_preview = NoPreview | Formatted json | Verbatim string

record alert_view =
  av_alert :: alert_row
  av_verdict :: "verdict_row option"
  av_disposition :: "disposition_row option"
  av_correlated :: "shown_event list"
  av_enrichment_ledger :: "json list"
  av_contributing_facts :: json
  av_role_signals :: json
  av_llm_inputs_preview :: inputs_preview
  av_evidence_chain :: json
  av_ip_to_hostname :: "(json \<times> json) list"
  av_is_inherited :: bool
  av_source_alert_id :: "string option"

definition verdict_by_ref :: "json \<Rightarrow> db \<Rightarrow> verdict_row option res" where
  "verdict_by_ref ref d =
     (if \<not> bindable ref then Inl InterfaceError
      else Inr (case text_aff ref of JStr s \<Rightarrow> get_verdict s d | _ \<Rightarrow> None))"

definition inputs_view :: "verdict_row \<Rightarrow> db \<Rightarrow> (inputs_preview \<times> bool \<times> string option) res" where
  "inputs_view v d =
     (case (if v_llm_inputs v = [] then Some (JObj []) else loads (v_llm_inputs v)) of
        None \<Rightarrow> Inr (Verbatim (v_llm_inputs v), False, None)
      | Some raw_in \<Rightarrow>
          rbind (jget raw_in ''inherited_from'' JNull) (\<lambda>ref.
            if truthy ref then rbind (verdict_by_ref ref d) (\<lambda>src. Inr (NoPreview, True, map_option v_alert_id src))
            else Inr (Formatted raw_in, False, None)))"

definition alert_view_of :: "alert_row \<Rightarrow> db \<Rightarrow> alert_view res" where
  "alert_view_of row d =
     (let verdict = (case a_verdict_id row of Some (c # cs) \<Rightarrow> get_verdict (c # cs) d | _ \<Rightarrow> None);
          chain = (case verdict of Some v \<Rightarrow> loads_or (v_evidence_chain v) (JObj []) | None \<Rightarrow> JObj [])
      in rbind (case verdict of Some v \<Rightarrow> inputs_view v d | None \<Rightarrow> Inr (NoPreview, False, None)) (\<lambda>(preview, inherited, source).
         rbind (if truthy (a_flow_id row) then correlated_view (get_correlated_events (a_flow_id row) None None d) else Inr []) (\<lambda>correlated.
         rbind (rbind (jget chain ''enrichment_ledger'' (JArr [])) jiter) (\<lambda>ledger.
         rbind (jget chain ''identity'' (JObj [])) (\<lambda>identity.
         rbind (hostname_sides identity [''src'', ''dst''] []) (\<lambda>names.
         rbind (ledger_sides identity [''src'', ''dst''] [] ledger) (\<lambda>ledger.
           Inr \<lparr>av_alert = row, av_verdict = verdict, av_disposition = get_latest_disposition (JStr (a_alert_id row)) d,
                av_correlated = correlated, av_enrichment_ledger = ledger,
                av_contributing_facts = (case verdict of Some v \<Rightarrow> loads_or (v_contributing_facts v) (JArr []) | None \<Rightarrow> JArr []),
                av_role_signals = (case a_role_assignment_signals row of JStr s \<Rightarrow> loads_or s (JArr []) | _ \<Rightarrow> JArr []),
                av_llm_inputs_preview = preview, av_evidence_chain = chain, av_ip_to_hostname = names,
                av_is_inherited = inherited, av_source_alert_id = source\<rparr>)))))))"

text \<open>The route: a redirect without a session, the empty queue page for an unknown alert, the view otherwise.\<close>

definition get_alert_page :: "request \<Rightarrow> string \<Rightarrow> db \<Rightarrow> (response + alert_view) res" where
  "get_alert_page req alert_id d =
     (if \<not> is_authenticated req then Inr (Inl (Redirect ''/login''))
      else case get_alert alert_id d of
             None \<Rightarrow> Inr (Inl (Page ''queue.html''
               [(''error'', JStr (''Alert '' @ alert_id @ '' not found'')), (''rows'', JArr []), (''window'', JStr ''24h''),
                (''status_filter'', JStr ''all''), (''queued_count'', JInt 0), (''analyzing_count'', JInt 0), (''failed_count'', JInt 0),
                (''deferred_count'', JInt 0), (''total'', JInt 0), (''time_behind'', JNull),
                (''ingestion'', JObj [(''state'', JStr ''green'')])] 404))
           | Some row \<Rightarrow> rbind (alert_view_of row d) (\<lambda>v. Inr (Inr v)))"

section \<open>Dispositions\<close>

definition disposition_of :: "string \<Rightarrow> string \<Rightarrow> string \<Rightarrow> db \<Rightarrow> json" where
  "disposition_of alert_id action reason d =
     JObj [(''alert_id'', JStr alert_id),
       (''verdict_id'', jopt (map_option v_verdict_id (get_current_verdict_for_alert alert_id d))),
       (''analyst_user_id'', JStr ''admin''), (''disposition_action'', JStr action),
       (''override_reason_freetext'', jor (JStr (strip reason)) JNull)]"

definition post_disposition :: "string \<Rightarrow> instant \<Rightarrow> request \<Rightarrow> string \<Rightarrow> string \<Rightarrow> string \<Rightarrow> db \<Rightarrow> (response \<times> db) res" where
  "post_disposition uid now req alert_id action reason d =
     (if \<not> is_authenticated req then Inr (JsonResp (JObj [(''error'', JStr ''unauthorized'')]) 401, d)
      else if action \<notin> {''accept'', ''override''} then Inr (JsonResp (JObj [(''error'', JStr ''invalid action'')]) 400, d)
      else rbind (record_disposition uid now (disposition_of alert_id action reason d) d) (\<lambda>(did, d).
             Inr (Redirect ''/queue'', link_disposition_to_alert alert_id (py_str did) d)))"

section \<open>The collapsed list is faithful\<close>

lemma event_key_count [simp]: "event_key (s\<lparr>se_count := n\<rparr>) = event_key s"
  by (simp add: event_key_def)

definition tally :: "json \<times> json \<Rightarrow> shown_event list \<Rightarrow> nat" where
  "tally k ss = sum_list (map se_count (filter (\<lambda>s. event_key s = k) ss))"

definition occurrences :: "json \<times> json \<Rightarrow> shown_event list \<Rightarrow> nat" where
  "occurrences k evs = length (filter (\<lambda>e. event_key e = k \<and> truthy (se_summary e)) evs)"

lemma tally_bump: "se_count ev = 1 \<Longrightarrow> tally k (bump ev ss) = tally k ss + (if event_key ev = k then 1 else 0)"
  by (induction ss) (auto simp: tally_def)

lemma keys_bump: "set (map event_key (bump ev ss)) = insert (event_key ev) (set (map event_key ss))"
  by (induction ss) auto

lemma distinct_bump: "distinct (map event_key ss) \<Longrightarrow> distinct (map event_key (bump ev ss))"
proof (induction ss)
  case (Cons s ss)
  then show ?case using keys_bump [of ev ss] by auto
qed simp

lemma collapse_tally:
  "collapse_events shown evs = Inr ss \<Longrightarrow> list_all (\<lambda>e. se_count e = 1) evs \<Longrightarrow> distinct (map event_key shown) \<Longrightarrow>
   distinct (map event_key ss) \<and> tally k ss = tally k shown + occurrences k evs"
proof (induction shown evs rule: collapse_events.induct)
  case (2 shown ev evs)
  show ?case
  proof (cases "truthy (se_summary ev)")
    case True
    then have "collapse_events (bump ev shown) evs = Inr ss" using 2(3) by (simp split: if_splits)
    with 2(2) [OF _ _ this] True 2 distinct_bump [of shown ev] tally_bump [of ev k shown] show ?thesis
      by (auto simp: occurrences_def split: if_splits)
  next
    case False
    with 2 show ?thesis by (auto simp: occurrences_def)
  qed
qed (simp add: occurrences_def)

lemma filter_key_none: "k \<notin> event_key ` set ss \<Longrightarrow> filter (\<lambda>u. event_key u = k) ss = []"
  by (induction ss) auto

lemma tally_distinct: "distinct (map event_key ss) \<Longrightarrow> s \<in> set ss \<Longrightarrow> tally (event_key s) ss = se_count s"
proof (induction ss)
  case (Cons t ss)
  show ?case
  proof (cases "s = t")
    case True
    with Cons.prems have "filter (\<lambda>u. event_key u = event_key s) ss = []" by (intro filter_key_none) simp
    with True show ?thesis by (simp add: tally_def)
  next
    case False
    with Cons.prems have "event_key t \<noteq> event_key s" by auto
    with Cons False show ?thesis by (auto simp: tally_def)
  qed
qed simp

lemma shown_events_single: "rmap shown_event_of rows = Inr evs \<Longrightarrow> list_all (\<lambda>e. se_count e = 1) evs"
  by (induction rows arbitrary: evs) (auto simp: shown_event_of_def)

text \<open>The list of correlated events of the investigation view is faithful: no kind of event appears twice, and the count of
  each is exactly the number of the first two hundred events of the flow that have this type and this summary; events with an
  empty summary are left out.\<close>

theorem correlated_view_faithful:
  assumes "correlated_view rows = Inr ss" "rmap shown_event_of (take 200 rows) = Inr evs"
  shows "distinct (map event_key ss) \<and> (\<forall>s\<in>set ss. se_count s = occurrences (event_key s) evs) \<and>
    (\<forall>e\<in>set evs. truthy (se_summary e) \<longrightarrow> event_key e \<in> event_key ` set ss)"
proof -
  have c: "collapse_events [] evs = Inr ss" using assms by (simp add: correlated_view_def)
  have t: "distinct (map event_key ss)" "tally k ss = occurrences k evs" for k
    using collapse_tally [OF c shown_events_single [OF assms(2)], of k] by (simp_all add: tally_def)
  have "event_key e \<in> event_key ` set ss" if e: "e \<in> set evs" "truthy (se_summary e)" for e
  proof (rule ccontr)
    assume "\<not> ?thesis"
    then have "filter (\<lambda>s. event_key s = event_key e) ss = []" by (rule filter_key_none)
    then have "occurrences (event_key e) evs = 0" using t(2) [of "event_key e"] by (simp add: tally_def)
    with e show False by (auto simp: occurrences_def filter_empty_conv)
  qed
  with t tally_distinct [OF t(1)] show ?thesis by auto
qed

definition tls_row :: eve_row where
  "tls_row = (sample_event 0)\<lparr>e_raw_eve := dumps (JObj [(''event_type'', JStr ''tls'')])\<rparr>"

theorem correlated_view_faithful_witness:
  "\<exists>s. correlated_view (replicate 3 tls_row) = Inr [s] \<and> se_count s = 3"
proof -
  let ?e = "\<lparr>se_type = JStr ''dns'', se_timestamp = JStr (isoformat 0), se_summary = JStr ''TLS SNI: ?'', se_count = 1\<rparr>"
  have "loads_or (dumps (JObj [(''event_type'', JStr ''tls'')])) (JObj []) = JObj [(''event_type'', JStr ''tls'')]"
    by code_simp
  then have "shown_event_of tls_row = Inr ?e"
    by (simp add: shown_event_of_def tls_row_def sample_event_def summarise_event_def tls_summary_def dget_def)
  then have r: "rmap shown_event_of (take 200 (replicate 3 tls_row)) = Inr (replicate 3 ?e)" by (simp add: numeral_3_eq_3)
  then have c: "correlated_view (replicate 3 tls_row) = Inr [?e\<lparr>se_count := 3\<rparr>]"
    by (simp add: correlated_view_def numeral_3_eq_3 event_key_def)
  from correlated_view_faithful [OF c r] have "se_count (?e\<lparr>se_count := 3\<rparr>) = occurrences (event_key (?e\<lparr>se_count := 3\<rparr>)) (replicate 3 ?e)" by simp
  with c show ?thesis by simp
qed

section \<open>A decision is recorded\<close>

lemma link_disposition_rows:
  "\<forall>a\<in>set (alerts (link_disposition_to_alert i did d)). a_alert_id a = i \<longrightarrow> a_disposition_id a = Some did"
proof (intro ballI impI)
  fix a assume "a \<in> set (alerts (link_disposition_to_alert i did d))" "a_alert_id a = i"
  then obtain q where "a = q\<lparr>a_disposition_id := Some did\<rparr>"
    unfolding link_disposition_to_alert_def by (simp add: set_update_where) blast
  then show "a_disposition_id a = Some did" by simp
qed

text \<open>C39: a decision of a logged-in analyst is recorded once, beside all earlier ones, with the verdict that is current for the alert
  at that time; the alert is linked to it, and verdicts are not touched. Without a session, or with another action, nothing is written.\<close>

theorem disposition_recorded:
  assumes "uid \<noteq> []" "JStr uid \<notin> set (map d_disposition_id (dispositions d))"
  shows "if is_authenticated req \<and> action \<in> {''accept'', ''override''}
    then \<exists>d' r. post_disposition uid now req alert_id action reason d = Inr (Redirect ''/queue'', d') \<and>
      dispositions d' = dispositions d @ [r] \<and> verdicts d' = verdicts d \<and> get_disposition (JStr uid) d' = Some r \<and>
      d_alert_id r = JStr alert_id \<and> d_disposition_action r = JStr action \<and>
      d_verdict_id r = jopt (map_option v_verdict_id (get_current_verdict_for_alert alert_id d)) \<and>
      (\<forall>a\<in>set (alerts d'). a_alert_id a = alert_id \<longrightarrow> a_disposition_id a = Some uid)
    else \<exists>resp. post_disposition uid now req alert_id action reason d = Inr (resp, d)"
proof (cases "is_authenticated req \<and> action \<in> {''accept'', ''override''}")
  case True
  define r where "r = \<lparr>d_disposition_id = JStr uid, d_alert_id = JStr alert_id,
     d_verdict_id = jopt (map_option v_verdict_id (get_current_verdict_for_alert alert_id d)), d_analyst_user_id = JStr ''admin'',
     d_disposition_action = JStr action, d_override_category = JNull, d_override_reason_freetext = jor (JStr (strip reason)) JNull,
     d_schema_version = JInt 1, d_created_at = JStr (isoformat now)\<rparr>"
  have row: "disposition_row_of uid now (disposition_of alert_id action reason d) = Inr r"
    by (simp add: disposition_row_of_def disposition_of_def dget_def r_def)
  have "bindable (jopt x)" "bindable (jor (JStr y) JNull)" for x y by (cases x; simp) (simp add: jor_def)
  then have ok: "disposition_row_ok (dispositions d) r = None"
    using assms(2) by (simp add: disposition_row_ok_def r_def)
  have rec: "record_disposition uid now (disposition_of alert_id action reason d) d = Inr (JStr uid, d\<lparr>dispositions := dispositions d @ [r]\<rparr>)"
    using row ok by (simp add: record_disposition_def) (simp add: r_def)
  define d' where "d' = link_disposition_to_alert alert_id uid (d\<lparr>dispositions := dispositions d @ [r]\<rparr>)"
  have "post_disposition uid now req alert_id action reason d = Inr (Redirect ''/queue'', d')"
    unfolding post_disposition_def rec d'_def using True by simp
  moreover have "filter (\<lambda>q. d_disposition_id q = JStr uid) (dispositions d) = []" using assms(2)
    by (simp add: filter_empty_conv) (metis image_eqI)
  then have "get_disposition (JStr uid) d' = Some r"
    by (simp add: get_disposition_def d'_def link_disposition_to_alert_def) (simp add: r_def)
  moreover have "\<forall>a\<in>set (alerts d'). a_alert_id a = alert_id \<longrightarrow> a_disposition_id a = Some uid"
    unfolding d'_def by (rule link_disposition_rows)
  moreover have "dispositions d' = dispositions d @ [r]" "verdicts d' = verdicts d" by (simp_all add: d'_def link_disposition_to_alert_def)
  moreover have "d_alert_id r = JStr alert_id" "d_disposition_action r = JStr action"
    "d_verdict_id r = jopt (map_option v_verdict_id (get_current_verdict_for_alert alert_id d))" by (simp_all add: r_def)
  ultimately show ?thesis unfolding if_P [OF True] by blast
next
  case False
  then show ?thesis by (auto simp: post_disposition_def)
qed

definition admin_request :: request where
  "admin_request = (sample_request ''POST'' ''/alert/a/disposition'')\<lparr>req_session := [(''user'', JStr ''admin'')]\<rparr>"

theorem disposition_recorded_witness:
  "\<exists>d' r. post_disposition ''u'' 0 admin_request ''a'' ''accept'' [] empty_db = Inr (Redirect ''/queue'', d') \<and>
     get_disposition (JStr ''u'') d' = Some r \<and> d_alert_id r = JStr ''a''"
proof -
  have "is_authenticated admin_request" by (simp add: is_authenticated_def admin_request_def sample_request_def dget_def)
  with disposition_recorded [of "''u''" empty_db admin_request "''accept''" 0 "''a''" "[]"] show ?thesis
    by (auto simp: empty_db_def)
qed

end
