(* ===== verification/Web_Queue.thy ===== *)
theory Web_Queue
  imports Web_Alerts
begin

text \<open>
  The alert queue of the web interface, \<open>src/web/routes/queue_routes.py\<close>, and the JSON routes on its depth and on liveness
  (\<open>routes/api_routes.py\<close>). Alerts are grouped by signature, endpoints and hour of arrival; a group shows its newest member and a
  verdict of its analysed members. A route reads one state of the database.
\<close>

section \<open>Parameters of the query\<close>

definition WINDOW_HOURS :: "(string \<times> int) list" where
  "WINDOW_HOURS = [(''24h'', 24), (''7d'', 168), (''30d'', 720)]"

definition VALID_STATUS_FILTERS :: "string list" where
  "VALID_STATUS_FILTERS = [''all'', ''analyzed'', ''deferred'', ''queued'']"

definition normalize_window_status :: "string \<Rightarrow> string \<Rightarrow> string \<times> string" where
  "normalize_window_status window status =
     (if map_of WINDOW_HOURS window = None then ''24h'' else window, if status \<in> set VALID_STATUS_FILTERS then status else ''all'')"

section \<open>Grouping\<close>

text \<open>The hour of an instant, with whether it has a time zone: aware datetimes are equal when they are the same instant.\<close>

type_synonym hour_bucket = "bool \<times> int"

definition hour_of :: "event_date \<Rightarrow> hour_bucket" where
  "hour_of e =
     (let h = local_time e div hour_us * hour_us
      in case utc_offset e of None \<Rightarrow> (False, h) | Some m \<Rightarrow> (True, h - m * 60 * sec_us))"

definition arrival_bucket :: "instant \<Rightarrow> alert_row \<Rightarrow> hour_bucket" where
  "arrival_bucket now r =
     (let ts = (if a_ingest_timestamp r \<noteq> [] then JStr (a_ingest_timestamp r) else a_event_timestamp r)
      in case rbind (jstr ''replace'' ts) (\<lambda>s. read_event_date (replace_z s)) of
           Inr e \<Rightarrow> hour_of e
         | Inl e \<Rightarrow> (True, now div hour_us * hour_us))"

type_synonym queue_key = "json \<times> json \<times> json \<times> hour_bucket"

definition group_key :: "instant \<Rightarrow> alert_row \<Rightarrow> queue_key" where
  "group_key now r = (a_signature_id r, a_src_ip r, a_dst_ip r, arrival_bucket now r)"

fun add_member :: "'k \<Rightarrow> 'r \<Rightarrow> ('k \<times> 'r list) list \<Rightarrow> ('k \<times> 'r list) list" where
  "add_member k r [] = [(k, [r])]"
| "add_member k r ((k', rs) # gs) = (if k = k' then (k', rs @ [r]) # gs else (k', rs) # add_member k r gs)"

definition group_alerts :: "(alert_row \<Rightarrow> instant) \<Rightarrow> alert_row list \<Rightarrow> (queue_key \<times> alert_row list) list" where
  "group_alerts now rs = fold (\<lambda>r. add_member (group_key (now r) r) r) rs []"

section \<open>Rows\<close>

text \<open>\<open>max\<close> with a key: the first of the largest.\<close>

fun first_max :: "('r \<Rightarrow> 'k::linorder) \<Rightarrow> 'r \<Rightarrow> 'r list \<Rightarrow> 'r" where
  "first_max k r [] = r"
| "first_max k r (q # qs) = first_max k (if k q > k r then q else r) qs"

definition STATUS_RANK :: "(string \<times> int) list" where
  "STATUS_RANK = [(''analyzed'', 5), (''analyzing'', 4), (''queued'', 3), (''failed'', 2), (''deferred'', 1)]"

definition status_rank :: "alert_row \<Rightarrow> int" where
  "status_rank r = (case map_of STATUS_RANK (a_status r) of Some n \<Rightarrow> n | None \<Rightarrow> 0)"

definition VERDICT_LABELS :: "(string \<times> string) list" where
  "VERDICT_LABELS = [(''likely_tp'', ''TP''), (''suspicious_investigate'', ''Investigate''), (''likely_fp'', ''FP'')]"

definition verdict_label :: "string \<Rightarrow> string" where
  "verdict_label c = (case map_of VERDICT_LABELS c of Some l \<Rightarrow> l | None \<Rightarrow> c)"

text \<open>\<open>Counter(xs).most_common()\<close>: by falling count, first come first.\<close>

definition most_common :: "string list \<Rightarrow> (string \<times> nat) list" where
  "most_common cs =
     (let counts = map (\<lambda>c. (c, count_list cs c)) (rev (remdups (rev cs)))
      in rev (sort_key snd (rev counts)))"

definition verdict_of :: "db \<Rightarrow> alert_row \<Rightarrow> verdict_row option" where
  "verdict_of d r = (case a_verdict_id r of Some (c # cs) \<Rightarrow> get_verdict (c # cs) d | _ \<Rightarrow> None)"

definition has_verdict :: "alert_row \<Rightarrow> bool" where
  "has_verdict r \<longleftrightarrow> (case a_verdict_id r of Some (c # cs) \<Rightarrow> True | _ \<Rightarrow> False)"

definition categories :: "db \<Rightarrow> alert_row list \<Rightarrow> string list" where
  "categories d rs =
     filter (\<lambda>c. c \<noteq> []) (map v_verdict_category (List.map_filter (verdict_of d) (filter has_verdict rs)))"

record queue_row =
  q_alert_id :: string
  q_count :: nat
  q_signature_msg :: json
  q_signature_severity :: json
  q_src_ip :: json
  q_dst_ip :: json
  q_src_port :: json
  q_dst_port :: json
  q_proto :: json
  q_app_proto :: json
  q_event_timestamp :: json
  q_ingest_timestamp :: string
  q_status :: string
  q_verdict_category :: "string option"
  q_confidence_score :: "rat option"
  q_verdict_mixed :: bool
  q_verdict_breakdown :: "(string \<times> nat) list"
  q_disposition_id :: "string option"
  q_attacker_ip :: json
  q_victim_ip :: json

definition queue_row_of :: "db \<Rightarrow> alert_row \<Rightarrow> alert_row list \<Rightarrow> queue_row" where
  "queue_row_of d m ms =
     (let rep = first_max a_ingest_timestamp m ms; analyzed = filter has_verdict (m # ms); cats = categories d (m # ms);
          mixed = length (remdups cats) > 1;
          vm = (case analyzed of [] \<Rightarrow> None | x # xs \<Rightarrow> Some (first_max a_ingest_timestamp x xs));
          verdict = Option.bind vm (verdict_of d)
      in \<lparr>q_alert_id = a_alert_id (case vm of Some v \<Rightarrow> v | None \<Rightarrow> rep), q_count = length (m # ms),
          q_signature_msg = jor (a_signature_msg rep) (JStr ''Unknown signature''), q_signature_severity = a_signature_severity rep,
          q_src_ip = jor (a_src_ip rep) (JStr ''?''), q_dst_ip = jor (a_dst_ip rep) (JStr ''?''), q_src_port = a_src_port rep,
          q_dst_port = a_dst_port rep, q_proto = a_proto rep, q_app_proto = a_app_proto rep, q_event_timestamp = a_event_timestamp rep,
          q_ingest_timestamp = a_ingest_timestamp rep, q_status = a_status (first_max status_rank m ms),
          q_verdict_category = (if mixed then None else map_option v_verdict_category verdict),
          q_confidence_score = (if mixed then None else map_option v_confidence_score verdict), q_verdict_mixed = mixed,
          q_verdict_breakdown = (if mixed then map (\<lambda>(c, n). (verdict_label c, n)) (most_common cats) else []),
          q_disposition_id = a_disposition_id rep, q_attacker_ip = a_attacker_role rep, q_victim_ip = a_victim_role rep\<rparr>)"

text \<open>Newest first; \<open>sort\<close> with \<open>reverse=True\<close> keeps the order of equal rows.\<close>

definition build_queue_rows :: "(alert_row \<Rightarrow> instant) \<Rightarrow> alert_row list \<Rightarrow> db \<Rightarrow> queue_row list" where
  "build_queue_rows now rs d =
     rev (sort_key q_ingest_timestamp (rev (map (\<lambda>g. queue_row_of d (hd (snd g)) (tl (snd g))) (group_alerts now rs))))"

definition query_rows_for :: "instant \<Rightarrow> (alert_row \<Rightarrow> instant) \<Rightarrow> string \<Rightarrow> string \<Rightarrow> db \<Rightarrow> (queue_row list \<times> nat) res" where
  "query_rows_for now now' window status d =
     rbind (dt_sub now ((case map_of WINDOW_HOURS window of Some h \<Rightarrow> h | None \<Rightarrow> 24) * hour_us)) (\<lambda>since.
       let rs = query_alerts (Some since) None (if status = ''all'' then None else Some status) None 2000 0 d
       in Inr (build_queue_rows now' rs d, length rs))"

section \<open>Depth and liveness\<close>

definition DEFAULT_LATENCY_S :: int where
  "DEFAULT_LATENCY_S = 150"

definition time_behind :: "int \<Rightarrow> string option" where
  "time_behind queued =
     (let s = queued * DEFAULT_LATENCY_S; h = s div 3600; m = s mod 3600 div 60
      in if h > 0 then Some (if m \<noteq> 0 then ''~'' @ show_int h @ ''h '' @ show_int m @ ''min behind'' else ''~'' @ show_int h @ ''h behind'')
         else if m > 0 then Some (''~'' @ show_int m @ ''min behind'')
         else None)"

definition red_reason :: "ingestion_status \<Rightarrow> string" where
  "red_reason st =
     (case (blocked_reason st, last_error st) of
        (Some (c # cs), _) \<Rightarrow> c # cs
      | (_, Some (c # cs)) \<Rightarrow> c # cs
      | _ \<Rightarrow> ''ingestion pipeline is red'')"

definition ingestion_panel :: "ingestion_status option \<Rightarrow> json" where
  "ingestion_panel status =
     (case status of
        Some st \<Rightarrow> (if st_state st = ''red'' then JObj [(''state'', JStr ''red''), (''reason'', JStr (red_reason st))]
                    else JObj [(''state'', JStr ''green'')])
      | None \<Rightarrow> JObj [(''state'', JStr ''green'')])"

definition APP_VERSION :: string where
  "APP_VERSION = ''0.3.2''"

definition liveness :: "ingestion_status option \<Rightarrow> response" where
  "liveness status =
     (case status of
        Some st \<Rightarrow>
          (if st_state st = ''red''
           then JsonResp (JObj [(''status'', JStr ''red''), (''reason'', JStr (red_reason st)), (''version'', JStr APP_VERSION)]) 503
           else JsonResp (JObj [(''status'', JStr ''ok''), (''version'', JStr APP_VERSION)]) 200)
      | None \<Rightarrow> JsonResp (JObj [(''status'', JStr ''ok''), (''version'', JStr APP_VERSION)]) 200)"

definition status_count :: "string \<Rightarrow> nat \<Rightarrow> db \<Rightarrow> int" where
  "status_count st limit d = int (length (query_alerts None None (Some st) None limit 0 d))"

definition api_queue_depth :: "int \<Rightarrow> int \<Rightarrow> instant \<Rightarrow> request \<Rightarrow> ingestion_status option \<Rightarrow> db \<Rightarrow> response" where
  "api_queue_depth daily_cap reset_hour now req status d =
     (if \<not> is_authenticated req then JsonResp (JObj [(''error'', JStr ''unauthorized'')]) 401
      else case count_analyzed_today reset_hour 1 now d of
             Inl e \<Rightarrow> JsonResp (JObj [(''error'', JStr (exn_msg e))]) 500
           | Inr n \<Rightarrow>
               JsonResp (JObj [(''analyzed_today'', JInt (int n)), (''daily_cap'', JInt daily_cap), (''cap_hit'', JBool (int n \<ge> daily_cap)),
                 (''queued'', JInt (status_count ''queued'' 1000 d)), (''analyzing'', JInt (status_count ''analyzing'' 100 d)),
                 (''deferred'', JInt (status_count ''deferred'' 1000 d)), (''failed'', JInt (status_count ''failed'' 100 d)),
                 (''time_behind'', jopt (time_behind (status_count ''queued'' 1000 d))), (''ingestion'', ingestion_panel status)]) 200)"

record queue_page =
  qp_rows :: "queue_row list"
  qp_window :: string
  qp_status_filter :: string
  qp_queued_count :: nat
  qp_analyzing_count :: nat
  qp_failed_count :: nat
  qp_deferred_count :: nat
  qp_time_behind :: "string option"
  qp_total :: nat
  qp_ingestion :: json

definition count_of :: "string \<Rightarrow> (string \<times> nat) list \<Rightarrow> nat" where
  "count_of st counts = (case map_of counts st of Some n \<Rightarrow> n | None \<Rightarrow> 0)"

definition get_queue ::
  "instant \<Rightarrow> instant \<Rightarrow> (alert_row \<Rightarrow> instant) \<Rightarrow> request \<Rightarrow> ingestion_status option \<Rightarrow> string \<Rightarrow> string \<Rightarrow> db \<Rightarrow> (response + queue_page) res" where
  "get_queue now1 now2 now' req ist window status d =
     (if \<not> is_authenticated req then Inr (Inl (Redirect ''/login''))
      else let (window, status) = normalize_window_status window status
           in rbind (dt_sub now1 ((case map_of WINDOW_HOURS window of Some h \<Rightarrow> h | None \<Rightarrow> 24) * hour_us)) (\<lambda>since.
              let counts = count_alerts_by_status (Some since) d
              in rbind (query_rows_for now2 now' window status d) (\<lambda>(rows, n).
                 Inr (Inr \<lparr>qp_rows = rows, qp_window = window, qp_status_filter = status, qp_queued_count = count_of ''queued'' counts,
                   qp_analyzing_count = count_of ''analyzing'' counts, qp_failed_count = count_of ''failed'' counts,
                   qp_deferred_count = count_of ''deferred'' counts, qp_time_behind = time_behind (int (count_of ''queued'' counts)),
                   qp_total = n, qp_ingestion = ingestion_panel ist\<rparr>))))"

definition get_queue_rows ::
  "instant \<Rightarrow> (alert_row \<Rightarrow> instant) \<Rightarrow> request \<Rightarrow> string \<Rightarrow> string \<Rightarrow> db \<Rightarrow> (response + (queue_row list \<times> string \<times> nat)) res" where
  "get_queue_rows now now' req window status d =
     (if \<not> is_authenticated req then Inr (Inl (JsonResp JNull 401))
      else let (window, status) = normalize_window_status window status
           in rbind (query_rows_for now now' window status d) (\<lambda>(rows, n). Inr (Inr (rows, window, n))))"

section \<open>The queue page is faithful\<close>

lemma first_max_max: "first_max k r qs \<in> set (r # qs) \<and> (\<forall>q\<in>set (r # qs). k q \<le> k (first_max k r qs))"
proof (induction k r qs rule: first_max.induct)
  case (2 k r q qs)
  then show ?case by (auto split: if_splits)
qed simp

lemma map_of_add_member:
  "map_of (add_member k r gs) k' = (if k' = k then Some (case map_of gs k of None \<Rightarrow> [r] | Some rs \<Rightarrow> rs @ [r]) else map_of gs k')"
  by (induction k r gs rule: add_member.induct) auto

lemma keys_add_member: "set (map fst (add_member k r gs)) = insert k (set (map fst gs))"
  by (induction k r gs rule: add_member.induct) auto

lemma distinct_add_member: "distinct (map fst gs) \<Longrightarrow> distinct (map fst (add_member k r gs))"
proof (induction k r gs rule: add_member.induct)
  case (2 k r k' rs gs)
  then show ?case using keys_add_member [of k r gs] by auto
qed simp

lemma sum_add_member: "sum_list (map (\<lambda>g. length (snd g)) (add_member k r gs)) = Suc (sum_list (map (\<lambda>g. length (snd g)) gs))"
  by (induction k r gs rule: add_member.induct) auto

lemma group_alerts_snoc: "group_alerts now (rs @ [r]) = add_member (group_key (now r) r) r (group_alerts now rs)"
  by (simp add: group_alerts_def)

lemma group_alerts_spec:
  "distinct (map fst (group_alerts now rs)) \<and> sum_list (map (\<lambda>g. length (snd g)) (group_alerts now rs)) = length rs \<and>
   map_of (group_alerts now rs) k =
     (let ms = filter (\<lambda>r. group_key (now r) r = k) rs in if ms = [] then None else Some ms)"
proof (induction rs rule: rev_induct)
  case (snoc r rs)
  then show ?case
    by (auto simp: group_alerts_snoc distinct_add_member sum_add_member map_of_add_member Let_def split: option.splits if_splits)
qed (simp add: group_alerts_def)

lemma categories_iff:
  "c \<in> set (categories d rs) \<longleftrightarrow> c \<noteq> [] \<and> (\<exists>r\<in>set rs. \<exists>v. verdict_of d r = Some v \<and> v_verdict_category v = c)"
proof -
  have "has_verdict r" if "verdict_of d r = Some v" for r v
    using that by (auto simp: verdict_of_def has_verdict_def split: option.splits list.splits)
  then show ?thesis by (force simp: categories_def List.map_filter_def)
qed

lemma remdups_single: "length (remdups xs) \<le> 1 \<Longrightarrow> x \<in> set xs \<Longrightarrow> y \<in> set xs \<Longrightarrow> x = y"
  by (metis card_le_Suc0_iff_eq List.finite_set One_nat_def length_remdups_card_conv)

lemma queue_row_verdict:
  assumes "q_verdict_category (queue_row_of d m ms) = Some c" "c \<noteq> []"
  shows "(\<exists>r\<in>set (m # ms). \<exists>v. verdict_of d r = Some v \<and> v_verdict_category v = c) \<and>
    (\<forall>r\<in>set (m # ms). \<forall>v. verdict_of d r = Some v \<and> v_verdict_category v \<noteq> [] \<longrightarrow> v_verdict_category v = c)"
proof -
  obtain x xs where a: "filter has_verdict (m # ms) = x # xs"
    using assms(1) by (auto simp: queue_row_of_def Let_def split: list.splits if_splits)
  define vm where "vm = first_max a_ingest_timestamp x xs"
  have "vm \<in> set (filter has_verdict (m # ms))" using first_max_max [of a_ingest_timestamp x xs] unfolding vm_def a by blast
  then have mem: "vm \<in> set (m # ms)" by (simp only: set_filter mem_Collect_eq)
  obtain v where v: "verdict_of d vm = Some v" "v_verdict_category v = c" and one: "length (remdups (categories d (m # ms))) \<le> 1"
    using assms(1) a by (auto simp: queue_row_of_def Let_def vm_def split: if_splits)
  have "c \<in> set (categories d (m # ms))" using v mem assms(2) categories_iff by blast
  then have "v_verdict_category u = c" if "r \<in> set (m # ms)" "verdict_of d r = Some u" "v_verdict_category u \<noteq> []" for r u
    using remdups_single [OF one] categories_iff [of "v_verdict_category u" d "m # ms"] that by blast
  then show ?thesis using v mem by blast
qed

lemma sum_list_rev_sort: "sum_list (map f (rev (sort_key k (rev xs)))) = sum_list (map (f :: 'a \<Rightarrow> nat) xs)"
proof -
  have insort: "sum_list (map f (insort_key k x ys)) = f x + sum_list (map f ys)" for x ys by (induction ys) simp_all
  have "sum_list (map f (sort_key k ys)) = sum_list (map f ys)" for ys by (induction ys) (simp_all add: insort)
  then show ?thesis by (simp add: rev_map [symmetric])
qed



text \<open>The page is limited to two thousand alerts, taken from the oldest on: with more in the window, one at least as new as every
  alert shown is missing.\<close>

theorem queue_page_misses_newest:
  assumes "length (filter (\<lambda>r. since \<le> a_ingest_timestamp r) (alerts d)) > n" "since = isoformat t"
  shows "\<exists>x\<in>set (alerts d). since \<le> a_ingest_timestamp x \<and>
    (\<forall>r\<in>set (query_alerts (Some t) None None None n 0 d). a_ingest_timestamp r \<le> a_ingest_timestamp x)"
proof -
  let ?s = "sort_key a_ingest_timestamp (filter (\<lambda>r. since \<le> a_ingest_timestamp r) (alerts d))"
  have q: "query_alerts (Some t) None None None n 0 d = take n ?s" by (simp add: query_alerts_def opt_ge_def opt_le_def assms(2))
  have "n < length ?s" using assms(1) by simp
  then obtain x ys where x: "drop n ?s = x # ys" by (metis Cons_nth_drop_Suc)
  have s: "?s = take n ?s @ x # ys" using append_take_drop_id [of n ?s] x by simp
  have "x \<in> set ?s" by (subst s) simp
  moreover have "sorted (map a_ingest_timestamp ?s)" by simp
  then have "\<forall>r\<in>set (take n ?s). a_ingest_timestamp r \<le> a_ingest_timestamp x" by (subst (asm) s) (auto simp: sorted_append)
  ultimately show ?thesis unfolding q by auto
qed

end
