(* ===== verification/Telemetry.thy ===== *)
theory Telemetry
  imports Health_Check Store_Correct
begin

text \<open>
  Feedback and its context: \<open>src/telemetry/\<close> and the two feedback routes of \<open>api_routes.py\<close>. The host's figures, the answer of the feedback server,
  the environment and a fault of the database are arguments. Of the two float computations, \<open>int(n * 0.95)\<close> is exactly \<open>19 * n div 20\<close> for every list
  length below \<open>2^53\<close>, and the agreement rate is computed as the program does: a division rounded to the nearest double, then rounded to
  three decimals; it is kept in thousandths.
\<close>

section \<open>Metrics\<close>

record submission_metrics =
  sm_alerts_processed_total :: nat
  sm_verdicts_likely_fp :: nat
  sm_verdicts_suspicious :: nat
  sm_verdicts_likely_tp :: nat
  sm_agreement_rate :: "int option"
  sm_latency_p95_ms :: "int option"

definition no_metrics :: submission_metrics where
  "no_metrics = \<lparr>sm_alerts_processed_total = 0, sm_verdicts_likely_fp = 0, sm_verdicts_suspicious = 0, sm_verdicts_likely_tp = 0,
     sm_agreement_rate = None, sm_latency_p95_ms = None\<rparr>"

text \<open>The double nearest to \<open>a / b\<close> for \<open>a \<le> b\<close>: \<open>lead\<close> doublings bring the ratio between one and two, and 53 bits are kept.\<close>

function lead :: "nat \<Rightarrow> nat \<Rightarrow> nat" where
  "lead a b = (if a = 0 \<or> b \<le> a then 0 else Suc (lead (2 * a) b))"
  by auto
termination by (relation "measure (\<lambda>(a, b). b - a)") auto

declare lead.simps [simp del]

definition double_ratio :: "nat \<Rightarrow> nat \<Rightarrow> rat" where
  "double_ratio a b =
     (if a = 0 then 0
      else let k = 52 + lead a b in of_int (round_half_even (of_nat (a * 2 ^ k) / of_nat b)) / 2 ^ k)"

definition agreement_rate :: "nat \<Rightarrow> nat \<Rightarrow> int option" where
  "agreement_rate accepted dispositioned =
     (if dispositioned > 0 then Some (round_half_even (1000 * double_ratio accepted dispositioned)) else None)"

definition latency_p95 :: "int list \<Rightarrow> int option" where
  "latency_p95 ls =
     (if ls = [] then None
      else let idx = 19 * length ls div 20 - 1 in Some (ls ! min idx (length ls - 1)))"

definition collect_metrics :: "exn option \<Rightarrow> db \<Rightarrow> submission_metrics" where
  "collect_metrics fault d =
     (case fault of
        Some _ \<Rightarrow> no_metrics
      | None \<Rightarrow>
          let current = filter v_is_current (verdicts d);
              dist = (\<lambda>cat. length (filter (\<lambda>v. v_verdict_category v = cat) current));
              accepted = length (filter (\<lambda>x. d_disposition_action x = JStr ''accept'') (dispositions d));
              latencies = sort (filter (\<lambda>n. n > 0) (map v_latency_ms current))
          in \<lparr>sm_alerts_processed_total = length (filter (\<lambda>r. a_status r = ''analyzed'') (alerts d)),
              sm_verdicts_likely_fp = dist ''likely_fp'', sm_verdicts_suspicious = dist ''suspicious_investigate'',
              sm_verdicts_likely_tp = dist ''likely_tp'',
              sm_agreement_rate = agreement_rate accepted (length (dispositions d)), sm_latency_p95_ms = latency_p95 latencies\<rparr>)"

section \<open>Context\<close>

record host_figures =
  hf_mem_total :: "int option"
  hf_cpu_count :: "int option"
  hf_nvidia_list :: "(int \<times> string) option"

record hardware_context =
  hc_ram_gb :: "int option"
  hc_cpu_cores :: "int option"
  hc_gpu_present :: bool

definition collect_hardware :: "host_figures \<Rightarrow> hardware_context" where
  "collect_hardware h =
     \<lparr>hc_ram_gb = map_option (\<lambda>b. round_half_even (gib b)) (hf_mem_total h), hc_cpu_cores = hf_cpu_count h,
      hc_gpu_present = (case hf_nvidia_list h of Some (code, out) \<Rightarrow> code = 0 \<and> strip out \<noteq> [] | None \<Rightarrow> False)\<rparr>"

record submission_context =
  sc_model :: string
  sc_enrichment_sources :: "string list"
  sc_hardware :: hardware_context
  sc_days_since_install :: "int option"

definition days_since_install :: "exn option \<Rightarrow> instant \<Rightarrow> db \<Rightarrow> int option" where
  "days_since_install fault now d =
     (case (fault, get_config ''eula_accepted_at'' d) of
        (None, Some (c # cs)) \<Rightarrow>
          (case rbind (read_event_date (c # cs)) as_utc of Inr t \<Rightarrow> Some (days_between now t) | Inl _ \<Rightarrow> None)
      | _ \<Rightarrow> None)"

definition collect_context :: "probes \<Rightarrow> host_figures \<Rightarrow> exn option \<Rightarrow> instant \<Rightarrow> db \<Rightarrow> submission_context" where
  "collect_context p h fault now d =
     \<lparr>sc_model = getenv p ''VX_OLLAMA_MODEL'' ''gemma4:e4b-it-q8_0'',
      sc_enrichment_sources = (if getenv p ''VX_VIRUSTOTAL_API_KEY'' [] \<noteq> [] then [''virustotal''] else []) @ [''geoip'', ''rdap''],
      sc_hardware = collect_hardware h,
      sc_days_since_install = days_since_install fault now d\<rparr>"

section \<open>Submission\<close>

definition SCHEMA_VERSION :: int where
  "SCHEMA_VERSION = 2"

definition ACCEPTED_SUBMISSION_TYPES :: "string list" where
  "ACCEPTED_SUBMISSION_TYPES = [''feedback'', ''deletion_request'']"

definition endpoint :: "probes \<Rightarrow> string" where
  "endpoint p = strip (getenv p ''VX_FEEDBACK_ENDPOINT'' [])"

definition endpoint_configured :: "probes \<Rightarrow> bool" where
  "endpoint_configured p \<longleftrightarrow> endpoint p \<noteq> []"

text \<open>A request to the feedback server: its address, its headers and its body.\<close>

type_synonym outgoing = "string \<times> (string \<times> string) list \<times> json"

definition submit :: "probes \<Rightarrow> (outgoing \<Rightarrow> http_result) \<Rightarrow> json \<Rightarrow> bool \<times> outgoing list" where
  "submit p post payload =
     (if endpoint p = [] then (False, [])
      else let token = strip (getenv p ''VX_FEEDBACK_TOKEN'' []);
               request = (endpoint p, if token \<noteq> [] then [(''Authorization'', ''Bearer '' @ token)] else [], payload)
           in (case post request of HttpResp code _ \<Rightarrow> code \<in> {200, 201, 202} | HttpExn _ \<Rightarrow> False, [request]))"

definition feedback_payload :: "string \<Rightarrow> string \<Rightarrow> string \<Rightarrow> instant \<Rightarrow> jdict \<Rightarrow> jdict" where
  "feedback_payload submission_type feedback_text install_id now body =
     [(''schema_version'', JInt SCHEMA_VERSION), (''submission_type'', JStr submission_type), (''app_version'', JStr APP_VERSION),
      (''install_id'', JStr install_id), (''submitted_at'', JStr (isoformat now)), (''feedback_text'', JStr feedback_text)]
     @ (if truthy (dget body ''context'' JNull) then [(''context'', dget body ''context'' JNull)] else [])
     @ (if truthy (dget body ''metrics'' JNull) then [(''metrics'', dget body ''metrics'' JNull)] else [])"

text \<open>The same payload as the module declares it: a data class whose dictionary leaves out what is null or empty. The route builds its own.\<close>

record feedback_record =
  fp_feedback_text :: string
  fp_context :: json
  fp_metrics :: json
  fp_schema_version :: int
  fp_submission_type :: string
  fp_app_version :: string
  fp_install_id :: string
  fp_submitted_at :: string

definition new_feedback :: "string \<Rightarrow> feedback_record" where
  "new_feedback feedback_text =
     \<lparr>fp_feedback_text = feedback_text, fp_context = JNull, fp_metrics = JNull, fp_schema_version = SCHEMA_VERSION,
      fp_submission_type = ''feedback'', fp_app_version = APP_VERSION, fp_install_id = [], fp_submitted_at = []\<rparr>"

definition feedback_to_dict :: "feedback_record \<Rightarrow> jdict" where
  "feedback_to_dict p = filter (\<lambda>(k, v). v \<noteq> JNull \<and> v \<noteq> JStr [])
     [(''feedback_text'', JStr (fp_feedback_text p)), (''context'', fp_context p), (''metrics'', fp_metrics p),
      (''schema_version'', JInt (fp_schema_version p)), (''submission_type'', JStr (fp_submission_type p)),
      (''app_version'', JStr (fp_app_version p)), (''install_id'', JStr (fp_install_id p)), (''submitted_at'', JStr (fp_submitted_at p))]"

text \<open>A field of the body, or a default where it is missing or false, without surrounding space.\<close>

definition text_field :: "json \<Rightarrow> string \<Rightarrow> string \<Rightarrow> string res" where
  "text_field body key dflt = rbind (jget body key JNull) (\<lambda>v. rbind (jstr ''strip'' (jor v (JStr dflt))) (\<lambda>s. Inr (strip s)))"

definition install_id_or_unknown :: "db \<Rightarrow> string" where
  "install_id_or_unknown d = (case get_install_id d of Some (c # cs) \<Rightarrow> c # cs | _ \<Rightarrow> ''unknown'')"

fun fields_of :: "json \<Rightarrow> jdict" where
  "fields_of (JObj d) = d"
| "fields_of _ = []"

text \<open>The answer to the browser, and the payload handed to \<open>submit\<close> in the background.\<close>

definition api_feedback :: "exn option \<Rightarrow> instant \<Rightarrow> request \<Rightarrow> json res \<Rightarrow> db \<Rightarrow> response res \<times> json option" where
  "api_feedback fault now req parsed d =
     (if \<not> is_authenticated req then (Inr (JsonResp (JObj [(''error'', JStr ''unauthorized'')]) 401), None)
      else case parsed of
        Inl _ \<Rightarrow> (Inr (JsonResp (JObj [(''error'', JStr ''invalid_json'')]) 400), None)
      | Inr body \<Rightarrow>
          (case text_field body ''submission_type'' ''feedback'' of
             Inl e \<Rightarrow> (Inl e, None)
           | Inr ty \<Rightarrow>
               if ty \<notin> set ACCEPTED_SUBMISSION_TYPES
               then (Inr (JsonResp (JObj [(''detail'', JStr ''invalid submission_type'')]) 422), None)
               else case text_field body ''feedback_text'' [] of
                 Inl e \<Rightarrow> (Inl e, None)
               | Inr txt \<Rightarrow>
                   if ty = ''feedback'' \<and> txt = []
                   then (Inr (JsonResp (JObj [(''detail'', JStr ''feedback_text is required'')]) 422), None)
                   else case fault of
                     Some e \<Rightarrow> (Inl e, None)
                   | None \<Rightarrow>
                       (Inr (JsonResp (JObj [(''ok'', JBool True)]) 200),
                        Some (JObj (feedback_payload ty txt (install_id_or_unknown d) now (fields_of body))))))"

definition thousandths_text :: "int \<Rightarrow> string" where
  "thousandths_text k =
     (let frac = rstrip_char (CHR ''0'') (pad 3 (k mod 1000))
      in show_int (k div 1000) @ ''.'' @ (if frac = [] then ''0'' else frac))"

definition api_feedback_context :: "probes \<Rightarrow> host_figures \<Rightarrow> exn option \<Rightarrow> exn option \<Rightarrow> instant \<Rightarrow> request \<Rightarrow> db \<Rightarrow> response" where
  "api_feedback_context p h config_fault fault now req d =
     (if \<not> is_authenticated req then JsonResp (JObj [(''error'', JStr ''unauthorized'')]) 401
      else let ctx = collect_context p h config_fault now d; m = collect_metrics fault d; hw = sc_hardware ctx;
               note = (if endpoint_configured p then [] else ''VX_FEEDBACK_ENDPOINT is not set '' @ emdash @ '' feedback will be logged locally only.'')
           in JsonResp (JObj
             [(''model'', JStr (sc_model ctx)), (''enrichment_sources'', JArr (map JStr (sc_enrichment_sources ctx))),
              (''hardware'', JObj [(''ram_gb'', jopt_int (hc_ram_gb hw)), (''cpu_cores'', jopt_int (hc_cpu_cores hw)),
                 (''gpu_present'', JBool (hc_gpu_present hw))]),
              (''days_since_install'', jopt_int (sc_days_since_install ctx)),
              (''metrics'', JObj [(''alerts_processed_total'', JInt (int (sm_alerts_processed_total m))),
                 (''verdicts_likely_fp'', JInt (int (sm_verdicts_likely_fp m))), (''verdicts_suspicious'', JInt (int (sm_verdicts_suspicious m))),
                 (''verdicts_likely_tp'', JInt (int (sm_verdicts_likely_tp m))),
                 (''agreement_rate'', case sm_agreement_rate m of Some k \<Rightarrow> JFloat (thousandths_text k) | None \<Rightarrow> JNull),
                 (''latency_p95_ms'', jopt_int (sm_latency_p95_ms m))]),
              (''endpoint_note'', JStr note)]) 200)"

section \<open>The payload\<close>

text \<open>The route's payload is the data class's, as a dictionary: context and metrics are there when the body has them.\<close>

lemma payload_as_declared:
  assumes "ty \<noteq> []" "txt \<noteq> []" "install_id \<noteq> []"
  shows "map_of (feedback_payload ty txt install_id now body) =
    map_of (feedback_to_dict ((new_feedback txt)\<lparr>fp_submission_type := ty, fp_install_id := install_id, fp_submitted_at := isoformat now,
      fp_context := if truthy (dget body ''context'' JNull) then dget body ''context'' JNull else JNull,
      fp_metrics := if truthy (dget body ''metrics'' JNull) then dget body ''metrics'' JNull else JNull\<rparr>))"
proof -
  have "isoformat now \<noteq> []" by (simp add: isoformat_def Let_def split: prod.split)
  moreover have "truthy v \<Longrightarrow> v \<noteq> JNull \<and> v \<noteq> JStr []" for v by auto
  ultimately show ?thesis using assms
    by (auto simp: feedback_payload_def feedback_to_dict_def new_feedback_def APP_VERSION_def fun_eq_iff)
qed

section \<open>Figures\<close>

lemma round_half_even_near: "\<bar>of_int (round_half_even x) - x\<bar> \<le> 1/2"
proof -
  have "of_int \<lfloor>x\<rfloor> \<le> x" "x < of_int \<lfloor>x\<rfloor> + 1" by (rule of_int_floor_le, rule floor_correct [THEN conjunct2, of x, simplified])
  then show ?thesis by (auto simp: round_half_even_def Let_def abs_le_iff)
qed

lemma double_ratio_near: "b > 0 \<Longrightarrow> \<bar>double_ratio a b - of_nat a / of_nat b\<bar> \<le> 1 / 2 ^ 53"
proof (cases "a = 0")
  case False
  assume b: "b > 0"
  define k where "k = 52 + lead a b"
  define y :: rat where "y = of_nat (a * 2 ^ k) / of_nat b"
  have y: "of_nat a / of_nat b = y / 2 ^ k" by (simp add: y_def)
  have "double_ratio a b - of_nat a / of_nat b = (of_int (round_half_even y) - y) / 2 ^ k"
    unfolding y using False by (simp add: double_ratio_def k_def y_def Let_def diff_divide_distrib)
  then have "\<bar>double_ratio a b - of_nat a / of_nat b\<bar> = \<bar>of_int (round_half_even y) - y\<bar> / 2 ^ k" by simp
  also have "\<dots> \<le> (1 / 2) / 2 ^ k" using round_half_even_near [of y] by (intro divide_right_mono) auto
  also have "\<dots> \<le> (1 / 2) / 2 ^ 52" by (intro divide_left_mono power_increasing) (auto simp: k_def)
  finally show ?thesis by simp
qed (simp add: double_ratio_def)

text \<open>The agreement rate sent with feedback is the true share of accepted verdicts to within half a thousandth and the rounding of one double.\<close>

theorem agreement_rate_accurate:
  assumes "agreement_rate accepted n = Some k"
  shows "\<bar>of_int k / 1000 - (of_nat accepted / of_nat n :: rat)\<bar> \<le> 1 / 2000 + 1 / 2 ^ 53"
proof -
  let ?r = "double_ratio accepted n"
  have n: "n > 0" and k: "k = round_half_even (1000 * ?r)" using assms by (auto simp: agreement_rate_def split: if_splits)
  have "\<bar>of_int k / 1000 - ?r\<bar> \<le> 1 / 2000" using round_half_even_near [of "1000 * ?r"] unfolding k abs_le_iff by linarith
  with double_ratio_near [OF n, of accepted] show ?thesis by linarith
qed

lemma sorted_rank:
  assumes "sorted ls" "i < length ls"
  shows "i < length (filter (\<lambda>x. x \<le> ls ! i) ls)" "length (filter (\<lambda>x. x < ls ! i) ls) \<le> i"
proof -
  have "filter (\<lambda>x. x \<le> ls ! i) (take (Suc i) ls) = take (Suc i) ls"
    using assms by (intro filter_True) (auto simp: in_set_conv_nth sorted_nth_mono)
  then have "Suc i \<le> length (filter (\<lambda>x. x \<le> ls ! i) (take (Suc i) ls))" using assms(2) by simp
  also have "\<dots> \<le> length (filter (\<lambda>x. x \<le> ls ! i) (take (Suc i) ls @ drop (Suc i) ls))" by (simp only: filter_append length_append)
  finally show "i < length (filter (\<lambda>x. x \<le> ls ! i) ls)" by simp
  have "filter (\<lambda>x. x < ls ! i) (drop i ls) = []"
    using assms by (auto simp: filter_empty_conv in_set_conv_nth sorted_nth_mono not_less)
  then have "filter (\<lambda>x. x < ls ! i) ls = filter (\<lambda>x. x < ls ! i) (take i ls)"
    by (metis append_Nil2 append_take_drop_id filter_append)
  then show "length (filter (\<lambda>x. x < ls ! i) ls) \<le> i"
    by (metis length_filter_le length_take min.cobounded2 le_trans)
qed

text \<open>The reported latency is one of the measured ones and sits at the 95th percentile: at least \<open>\<lfloor>0.95 n\<rfloor>\<close> of the \<open>n\<close> current, non-inherited
  verdicts took no longer, and at most one fewer than that took strictly less.\<close>

theorem latency_p95_rank:
  assumes "sm_latency_p95_ms (collect_metrics None d) = Some p"
    "ls = filter (\<lambda>n. n > 0) (map v_latency_ms (filter v_is_current (verdicts d)))"
  shows "p \<in> set ls \<and> 19 * length ls div 20 \<le> length (filter (\<lambda>x. x \<le> p) ls) \<and>
    length (filter (\<lambda>x. x < p) ls) \<le> 19 * length ls div 20 - 1"
proof -
  let ?i = "min (19 * length ls div 20 - 1) (length ls - 1)"
  have "latency_p95 (sort ls) = Some p" using assms by (simp add: collect_metrics_def Let_def)
  then have ne: "ls \<noteq> []" and p: "p = sort ls ! ?i" by (auto simp: latency_p95_def Let_def split: if_splits)
  have i: "?i < length (sort ls)" using ne by (cases ls) auto
  have count: "length (filter Q (sort ls)) = length (filter Q ls)" for Q by (simp add: filter_sort)
  have "p \<in> set ls" using nth_mem [OF i] p by simp
  moreover have "19 * length ls div 20 \<le> Suc ?i" using ne by (cases ls) auto
  moreover have "?i < length (filter (\<lambda>x. x \<le> p) ls)" "length (filter (\<lambda>x. x < p) ls) \<le> ?i"
    using sorted_rank [OF sorted_sort i] unfolding p count by blast+
  ultimately show ?thesis by linarith
qed

section \<open>What leaves the installation\<close>

text \<open>The part of the database the context reads: statuses, the category and latency of current verdicts, and the analysts' actions.\<close>

definition usage_view :: "db \<Rightarrow> string list \<times> (string \<times> int) list \<times> json list \<times> string option" where
  "usage_view d = (map a_status (alerts d), map (\<lambda>v. (v_verdict_category v, v_latency_ms v)) (filter v_is_current (verdicts d)),
     map d_disposition_action (dispositions d), get_config ''eula_accepted_at'' d)"

lemma count_map: "length (filter (\<lambda>r. P (f r)) xs) = length (filter P (map f xs))"
  by (simp add: filter_map comp_def)

lemma collect_metrics_view: "usage_view d = usage_view e \<Longrightarrow> collect_metrics fault d = collect_metrics fault e"
proof -
  assume v: "usage_view d = usage_view e"
  then have st: "map a_status (alerts d) = map a_status (alerts e)"
    and c: "map (\<lambda>v. (v_verdict_category v, v_latency_ms v)) (filter v_is_current (verdicts d)) =
      map (\<lambda>v. (v_verdict_category v, v_latency_ms v)) (filter v_is_current (verdicts e))"
    and ac: "map d_disposition_action (dispositions d) = map d_disposition_action (dispositions e)"
    unfolding usage_view_def prod.inject by blast+
  have cats: "map v_verdict_category (filter v_is_current (verdicts d)) = map v_verdict_category (filter v_is_current (verdicts e))"
    and lats: "map v_latency_ms (filter v_is_current (verdicts d)) = map v_latency_ms (filter v_is_current (verdicts e))"
    using arg_cong [OF c, of "map fst"] arg_cong [OF c, of "map snd"] unfolding map_map comp_def fst_conv snd_conv by blast+
  have "length (filter (\<lambda>v. v_verdict_category v = c) (filter v_is_current (verdicts d))) =
      length (filter (\<lambda>v. v_verdict_category v = c) (filter v_is_current (verdicts e)))" for c
    unfolding count_map [of "\<lambda>x. x = c" v_verdict_category] cats ..
  moreover have "length (filter (\<lambda>r. a_status r = ''analyzed'') (alerts d)) = length (filter (\<lambda>r. a_status r = ''analyzed'') (alerts e))"
    unfolding count_map [of "\<lambda>x. x = ''analyzed''" a_status] st ..
  moreover have "length (filter (\<lambda>x. d_disposition_action x = JStr ''accept'') (dispositions d)) =
      length (filter (\<lambda>x. d_disposition_action x = JStr ''accept'') (dispositions e))"
    unfolding count_map [of "\<lambda>x. x = JStr ''accept''" d_disposition_action] ac ..
  moreover have "length (dispositions d) = length (dispositions e)" using arg_cong [OF ac, of length] by simp
  ultimately show ?thesis by (simp only: collect_metrics_def Let_def lats)
qed

text \<open>C19: nothing of an alert's content leaves with the feedback context. Two databases that agree on the statuses of alerts, on the categories and
  latencies of current verdicts, on the analysts' actions and on the date of installation get the same answer, whatever addresses,
  signatures, raw events, reasoning or analyst's words they hold.\<close>

theorem feedback_context_private:
  assumes "usage_view d = usage_view e"
  shows "api_feedback_context p h config_fault fault now req d = api_feedback_context p h config_fault fault now req e"
proof -
  have "collect_context p h config_fault now d = collect_context p h config_fault now e"
    using assms by (simp add: collect_context_def days_since_install_def usage_view_def)
  with collect_metrics_view [OF assms] show ?thesis by (simp add: api_feedback_context_def)
qed

lemma feedback_payload_keys:
  "map_of (feedback_payload ty txt i now body) ''install_id'' = Some (JStr i)"
  "map_of (feedback_payload ty txt i now body) ''submitted_at'' = Some (JStr (isoformat now))"
  "map_of (feedback_payload ty txt i now body) ''submission_type'' = Some (JStr ty)"
  "fst ` set (feedback_payload ty txt i now body) \<subseteq>
     {''schema_version'', ''submission_type'', ''app_version'', ''install_id'', ''submitted_at'', ''feedback_text'', ''context'', ''metrics''}"
  by (auto simp: feedback_payload_def)

text \<open>A submission leaves only for a session that is logged in and only with a configured endpoint. Its type is one the receiver accepts, a
  feedback has a text, the identifier and the time are the server's whatever the browser sends, and of the browser's fields only the
  text, the context and the metrics are passed on. The browser never sees the identifier.\<close>

theorem feedback_stamped:
  assumes "api_feedback fault now req parsed d = (r, Some payload)" "submit p post payload = (ok, sent)" "sent \<noteq> []"
  shows "is_authenticated req \<and> endpoint_configured p \<and> r = Inr (JsonResp (JObj [(''ok'', JBool True)]) 200) \<and>
    (\<exists>fields ty. payload = JObj fields \<and> map_of fields ''submission_type'' = Some (JStr ty) \<and> ty \<in> set ACCEPTED_SUBMISSION_TYPES \<and>
       (ty = ''feedback'' \<longrightarrow> map_of fields ''feedback_text'' \<noteq> Some (JStr [])) \<and>
       map_of fields ''install_id'' = Some (JStr (install_id_or_unknown d)) \<and> map_of fields ''submitted_at'' = Some (JStr (isoformat now)) \<and>
       fst ` set fields \<subseteq> {''schema_version'', ''submission_type'', ''app_version'', ''install_id'', ''submitted_at'', ''feedback_text'',
         ''context'', ''metrics''})"
proof -
  obtain ty words body where s: "is_authenticated req" "r = Inr (JsonResp (JObj [(''ok'', JBool True)]) 200)" "ty \<in> set ACCEPTED_SUBMISSION_TYPES"
    "ty = ''feedback'' \<longrightarrow> words \<noteq> []" "payload = JObj (feedback_payload ty words (install_id_or_unknown d) now body)"
    using assms(1) by (auto simp: api_feedback_def split: if_splits sum.splits option.splits)
  moreover have "map_of (feedback_payload ty words (install_id_or_unknown d) now body) ''feedback_text'' = Some (JStr words)"
    by (simp add: feedback_payload_def)
  moreover have "endpoint_configured p" using assms(2,3) by (auto simp: submit_def endpoint_configured_def split: if_splits)
  ultimately show ?thesis using feedback_payload_keys by auto
qed

text \<open>A body that is JSON but no object is not refused: the route fails.\<close>

lemma feedback_list_body_raises:
  "is_authenticated req \<Longrightarrow> fst (api_feedback fault now req (Inr (JArr [])) d) = Inl (AttributeError (JArr []) ''get'')"
  by (simp add: api_feedback_def text_field_def)

text \<open>The same verdict given for two different alerts, with different reasoning.\<close>

definition sample_verdict :: "string \<Rightarrow> string \<Rightarrow> verdict_row" where
  "sample_verdict alert why =
     \<lparr>v_verdict_id = ''v'', v_alert_id = alert, v_verdict_category = ''likely_tp'', v_confidence_score = 1, v_reasoning = why,
      v_contributing_facts = ''[]'', v_evidence_chain = ''{}'', v_model_version = ''m'', v_prompt_version = ''p'', v_llm_inputs = ''{}'',
      v_llm_raw_output = ''{}'', v_latency_ms = 1200, v_is_current = True, v_created_at = isoformat 0\<rparr>"

definition sample_figures :: host_figures where
  "sample_figures = \<lparr>hf_mem_total = Some 34359738368, hf_cpu_count = Some 8, hf_nvidia_list = None\<rparr>"

abbreviation analyst :: request where
  "analyst \<equiv> (sample_request ''GET'' ''/api/feedback-context'')\<lparr>req_session := [(''user'', JStr ''admin'')]\<rparr>"

theorem feedback_context_private_witness:
  "api_feedback_context sample_probes sample_figures None None 0 analyst (empty_db\<lparr>verdicts := [sample_verdict ''a'' ''beacon to 203.0.113.7'']\<rparr>) =
   api_feedback_context sample_probes sample_figures None None 0 analyst (empty_db\<lparr>verdicts := [sample_verdict ''b'' ''scan of 192.0.2.1'']\<rparr>)"
  by (rule feedback_context_private) (simp add: usage_view_def empty_db_def sample_verdict_def get_config_def)

end
