(* ===== verification/Web_App.thy ===== *)
theory Web_App
  imports Telemetry
begin

text \<open>
  The web application as a whole, \<open>create_app\<close> of \<open>src/web/app.py\<close>: the session of a request, the gate, the route table that the modules of
  \<open>src/web/routes\<close> register, and the handlers behind it, composed into what one request is answered and what it changes. The handlers are those
  of \<open>Web_Gate\<close>, \<open>Web_Alerts\<close>, \<open>Web_Queue\<close>, \<open>Health_Check\<close> and \<open>Telemetry\<close>. The session middleware (how a session is read from a signed cookie and
  written to one) is an argument; what FastAPI answers when no route matches is \<open>Unrouted\<close>.
\<close>

section \<open>Sessions\<close>

text \<open>The configuration of the application; \<open>wf_load\<close> and \<open>wf_save\<close> are the session middleware under a secret at a time: the session of the
  cookie a request carries, and the cookie a response leaves the client with when a session has become another.\<close>

record 'c web_config =
  wf_admin_password :: string
  wf_sha256 :: "string \<Rightarrow> string"
  wf_load :: "string \<Rightarrow> rat \<Rightarrow> 'c option \<Rightarrow> jdict"
  wf_save :: "string \<Rightarrow> rat \<Rightarrow> jdict \<Rightarrow> jdict \<Rightarrow> 'c option"
  wf_static_dir :: bool
  wf_daily_cap :: int
  wf_reset_hour :: int

definition session_secret :: "'c web_config \<Rightarrow> string" where
  "session_secret cfg = wf_sha256 cfg (''vx-session-v1:'' @ wf_admin_password cfg)"

section \<open>Requests and answers\<close>

text \<open>What comes with a request from outside: its form, query and body, the clock readings, a fresh identifier, the ingestion status, the probes
  of the health check, and the faults of the database reads that are handled.\<close>

record web_input =
  wi_form :: "string \<Rightarrow> string"
  wi_query :: "string \<Rightarrow> string option"
  wi_body :: "json res"
  wi_clock :: rat
  wi_times :: login_times
  wi_now :: instant
  wi_now2 :: instant
  wi_row_now :: "alert_row \<Rightarrow> instant"
  wi_uuid :: string
  wi_status :: "ingestion_status option"
  wi_probes :: probes
  wi_files :: config_env
  wi_host :: host_figures
  wi_license_fault :: "exn option"
  wi_config_fault :: "exn option"
  wi_metrics_fault :: "exn option"
  wi_install_fault :: "exn option"

datatype answer =
    Plain response
  | QueuePage queue_page
  | QueueTable "queue_row list" string nat
  | AlertPage alert_view
  | StaticFile string
  | Unrouted

text \<open>The state the handlers share: the database, the lockout and the cached licence flag.\<close>

record web_state =
  ws_db :: db
  ws_lockout :: lockout
  ws_license :: "bool option"

text \<open>The reply: the answer or the exception of the handler, the session after it, the cookie the response sets and the submission sent.\<close>

record 'c reply =
  rp_answer :: "answer res"
  rp_session :: jdict
  rp_cookie :: "'c option"
  rp_sent :: "json option"

section \<open>The route table\<close>

datatype handler =
    GetLicense | PostLicense | GetHealthCheck | GetLogin | PostLogin | PostLogout | GetLogout | GetQueue | GetQueueRows
  | GetAlert | PostDisposition | Liveness | ApiHealth | ApiQueueDepth | ApiFeedbackContext | ApiFeedback | Root

definition setup_router :: "(string \<times> string \<times> handler) list" where
  "setup_router =
     [(''GET'', ''/setup/license'', GetLicense), (''POST'', ''/setup/license'', PostLicense), (''GET'', ''/setup/health'', GetHealthCheck)]"

definition auth_router :: "(string \<times> string \<times> handler) list" where
  "auth_router =
     [(''GET'', ''/login'', GetLogin), (''POST'', ''/login'', PostLogin), (''POST'', ''/logout'', PostLogout), (''GET'', ''/logout'', GetLogout)]"

definition queue_router :: "(string \<times> string \<times> handler) list" where
  "queue_router = [(''GET'', ''/queue'', GetQueue), (''GET'', ''/api/queue-rows'', GetQueueRows)]"

definition alert_router :: "(string \<times> string \<times> handler) list" where
  "alert_router =
     [(''GET'', ''/alert/{alert_id}'', GetAlert), (''POST'', ''/alert/{alert_id}/disposition'', PostDisposition)]"

definition api_router :: "(string \<times> string \<times> handler) list" where
  "api_router =
     [(''GET'', ''/health'', Liveness), (''GET'', ''/api/health'', ApiHealth), (''GET'', ''/api/queue-depth'', ApiQueueDepth),
      (''GET'', ''/api/feedback-context'', ApiFeedbackContext), (''POST'', ''/api/feedback'', ApiFeedback)]"

definition create_app :: "(string \<times> string \<times> handler) list" where
  "create_app = setup_router @ auth_router @ queue_router @ alert_router @ api_router @ [(''GET'', ''/'', Root)]"

text \<open>A path matches a template segment by segment; a segment in braces matches any that is not empty, which becomes the parameter.\<close>

fun match_segments :: "string list \<Rightarrow> string list \<Rightarrow> string list option" where
  "match_segments [] [] = Some []"
| "match_segments (t # ts) (s # ss) =
     (if startswith t ''{'' then (if s = [] then None else map_option (Cons s) (match_segments ts ss))
      else if s = t then match_segments ts ss else None)"
| "match_segments _ _ = None"

fun find_route :: "(string \<times> string \<times> handler) list \<Rightarrow> string \<Rightarrow> string \<Rightarrow> (handler \<times> string list) option" where
  "find_route [] meth path = None"
| "find_route ((m, template, h) # rs) meth path =
     (case match_segments (split_on CHR ''/'' template) (split_on CHR ''/'' path) of
        Some ps \<Rightarrow> (if m = meth then Some (h, ps) else find_route rs meth path)
      | None \<Rightarrow> find_route rs meth path)"

section \<open>The handlers\<close>

definition query_or :: "web_input \<Rightarrow> string \<Rightarrow> string \<Rightarrow> string" where
  "query_or inp name dflt = (case wi_query inp name of Some v \<Rightarrow> v | None \<Rightarrow> dflt)"

definition get_login :: "string \<Rightarrow> response" where
  "get_login error = Page ''login.html'' [(''error'', JStr error)] 200"

definition get_logout :: "request \<Rightarrow> response \<times> jdict" where
  "get_logout req = (Redirect ''/login'', [])"

definition root :: response where
  "root = Redirect ''/queue''"

text \<open>A handler's outcome: its answer, the session it leaves, what it sends, and the state.\<close>

type_synonym outcome = "answer res \<times> jdict \<times> json option \<times> web_state"

definition answers :: "request \<Rightarrow> answer res \<Rightarrow> web_state \<Rightarrow> outcome" where
  "answers req a ws = (a, req_session req, None, ws)"

definition page_or :: "('a \<Rightarrow> answer) \<Rightarrow> (response + 'a) res \<Rightarrow> answer res" where
  "page_or f r = rbind r (\<lambda>x. Inr (case x of Inl resp \<Rightarrow> Plain resp | Inr a \<Rightarrow> f a))"

definition run_handler :: "'c web_config \<Rightarrow> web_input \<Rightarrow> request \<Rightarrow> handler \<Rightarrow> string \<Rightarrow> web_state \<Rightarrow> outcome" where
  "run_handler cfg inp req h alert_id ws =
     (case h of
        GetLicense \<Rightarrow>
          (case get_license (wi_license_fault inp) (Some (ws_db ws)) (ws_license ws) of
             (resp, lic) \<Rightarrow> answers req (Inr (Plain resp)) (ws\<lparr>ws_license := lic\<rparr>))
      | PostLicense \<Rightarrow>
          (case post_license (wi_uuid inp) (wi_now inp) (wi_form inp ''accepted'') (ws_db ws) (ws_license ws) of
             (resp, d, lic) \<Rightarrow> answers req (Inr (Plain resp)) (ws\<lparr>ws_db := d, ws_license := lic\<rparr>))
      | GetHealthCheck \<Rightarrow>
          answers req (rbind (get_health_check (wi_probes inp) (wi_files inp) (wi_now inp) (wi_status inp)) (\<lambda>r. Inr (Plain r))) ws
      | GetLogin \<Rightarrow> answers req (Inr (Plain (get_login (query_or inp ''error'' [])))) ws
      | PostLogin \<Rightarrow>
          (case post_login (wf_admin_password cfg) (wi_times inp) req (wi_form inp ''password'') (ws_lockout ws) of
             (resp, session, lo) \<Rightarrow> (Inr (Plain resp), session, None, ws\<lparr>ws_lockout := lo\<rparr>))
      | PostLogout \<Rightarrow> (case post_logout req of (resp, session) \<Rightarrow> (Inr (Plain resp), session, None, ws))
      | GetLogout \<Rightarrow> (case get_logout req of (resp, session) \<Rightarrow> (Inr (Plain resp), session, None, ws))
      | GetQueue \<Rightarrow>
          answers req (page_or QueuePage (get_queue (wi_now inp) (wi_now2 inp) (wi_row_now inp) req (wi_status inp)
            (query_or inp ''window'' ''24h'') (query_or inp ''status'' ''all'') (ws_db ws))) ws
      | GetQueueRows \<Rightarrow>
          answers req (page_or (\<lambda>(rows, window, n). QueueTable rows window n) (get_queue_rows (wi_now inp) (wi_row_now inp) req
            (query_or inp ''window'' ''24h'') (query_or inp ''status'' ''all'') (ws_db ws))) ws
      | GetAlert \<Rightarrow> answers req (page_or AlertPage (get_alert_page req alert_id (ws_db ws))) ws
      | PostDisposition \<Rightarrow>
          (case post_disposition (wi_uuid inp) (wi_now inp) req alert_id (wi_form inp ''action'') (wi_form inp ''override_reason'') (ws_db ws) of
             Inl e \<Rightarrow> answers req (Inl e) ws
           | Inr (resp, d) \<Rightarrow> answers req (Inr (Plain resp)) (ws\<lparr>ws_db := d\<rparr>))
      | Liveness \<Rightarrow> answers req (Inr (Plain (liveness (wi_status inp)))) ws
      | ApiHealth \<Rightarrow> answers req (rbind (api_health (wi_probes inp) (wi_status inp)) (\<lambda>r. Inr (Plain r))) ws
      | ApiQueueDepth \<Rightarrow>
          answers req (Inr (Plain (api_queue_depth (wf_daily_cap cfg) (wf_reset_hour cfg) (wi_now inp) req (wi_status inp) (ws_db ws)))) ws
      | ApiFeedbackContext \<Rightarrow>
          answers req (Inr (Plain (api_feedback_context (wi_probes inp) (wi_host inp) (wi_config_fault inp) (wi_metrics_fault inp) (wi_now inp)
            req (ws_db ws)))) ws
      | ApiFeedback \<Rightarrow>
          (case api_feedback (wi_install_fault inp) (wi_now inp) req (wi_body inp) (ws_db ws) of
             (r, sent) \<Rightarrow> (rbind r (\<lambda>resp. Inr (Plain resp)), req_session req, sent, ws))
      | Root \<Rightarrow> answers req (Inr (Plain root)) ws)"

section \<open>One request\<close>

text \<open>No template has more than one parameter.\<close>

definition routed :: "'c web_config \<Rightarrow> web_input \<Rightarrow> request \<Rightarrow> web_state \<Rightarrow> outcome" where
  "routed cfg inp req ws =
     (if wf_static_dir cfg \<and> startswith (req_path req) ''/static/'' then answers req (Inr (StaticFile (req_path req))) ws
      else case find_route create_app (req_method req) (req_path req) of
             None \<Rightarrow> answers req (Inr Unrouted) ws
           | Some (h, ps) \<Rightarrow> run_handler cfg inp req h (concat ps) ws)"

definition with_session :: "'c web_config \<Rightarrow> web_input \<Rightarrow> 'c option \<Rightarrow> request \<Rightarrow> request" where
  "with_session cfg inp cookie req = req\<lparr>req_session := wf_load cfg (session_secret cfg) (wi_clock inp) cookie\<rparr>"

definition serve :: "'c web_config \<Rightarrow> web_input \<times> 'c option \<times> request \<Rightarrow> web_state \<Rightarrow> 'c reply \<times> web_state" where
  "serve cfg = (\<lambda>(inp, cookie, req) ws.
     let req = with_session cfg inp cookie req;
         (gate, lic) = gate_dispatch (wi_license_fault inp) (Some (ws_db ws)) (wi_status inp) req (ws_license ws);
         ws = ws\<lparr>ws_license := lic\<rparr>;
         (a, session, sent, ws) = (case gate of Some resp \<Rightarrow> answers req (Inr (Plain resp)) ws | None \<Rightarrow> routed cfg inp req ws)
     in (\<lparr>rp_answer = a, rp_session = session,
          rp_cookie = (case a of Inr _ \<Rightarrow> wf_save cfg (session_secret cfg) (wi_clock inp) (req_session req) session | Inl _ \<Rightarrow> None),
          rp_sent = sent\<rparr>, ws))"

definition logged_in :: "'c web_config \<Rightarrow> web_input \<times> 'c option \<times> request \<Rightarrow> bool" where
  "logged_in cfg = (\<lambda>(inp, cookie, req). is_authenticated (with_session cfg inp cookie req))"

section \<open>What a request without a session can see\<close>

definition same_view :: "web_state \<Rightarrow> web_state \<Rightarrow> bool" where
  "same_view ws ws' \<longleftrightarrow> system_config (ws_db ws) = system_config (ws_db ws') \<and> ws_lockout ws = ws_lockout ws' \<and> ws_license ws = ws_license ws'"

lemma same_view_refl [simp]: "same_view ws ws"
  by (simp add: same_view_def)

lemma same_view_license [simp]: "same_view ws ws' \<Longrightarrow> same_view (ws\<lparr>ws_license := lic\<rparr>) (ws'\<lparr>ws_license := lic\<rparr>)"
  by (simp add: same_view_def)

fun same_outcome :: "outcome \<Rightarrow> outcome \<Rightarrow> bool" where
  "same_outcome (a, session, sent, ws) (a', session', sent', ws') \<longleftrightarrow> a = a' \<and> session = session' \<and> sent = sent' \<and> same_view ws ws'"

lemma same_outcome_answers [simp]: "same_outcome (answers req a ws) (answers req a ws') = same_view ws ws'"
  by (simp add: answers_def)

lemma get_config_settings: "system_config d = system_config d' \<Longrightarrow> get_config k d = get_config k d'"
  by (simp add: get_config_def)

lemma set_config_settings: "system_config d = system_config d' \<Longrightarrow> system_config (set_config k v now d) = system_config (set_config k v now d')"
  by (simp add: set_config_def split: option.split)

lemma ensure_install_id_settings:
  assumes "system_config d = system_config d'"
  shows "system_config (snd (ensure_install_id u now d)) = system_config (snd (ensure_install_id u now d'))"
  using assms set_config_settings [OF assms] unfolding ensure_install_id_def get_config_settings [OF assms]
  by (auto split: option.split list.split)

lemma check_license_settings:
  "system_config d = system_config d' \<Longrightarrow> check_license_accepted fault (Some d) cached = check_license_accepted fault (Some d') cached"
  using get_config_settings [of d d' "''eula_accepted''"] unfolding check_license_accepted_def by (auto split: option.split)

lemma gate_settings:
  "system_config d = system_config d' \<Longrightarrow> gate_dispatch fault (Some d) status req cached = gate_dispatch fault (Some d') status req cached"
  unfolding gate_dispatch_def by (simp only: check_license_settings [of d d'])

lemma post_license_settings:
  assumes "system_config d = system_config d'"
  shows "case (post_license u now x d c, post_license u now x d' c) of
    ((r, e, l), (r', e', l')) \<Rightarrow> r = r' \<and> l = l' \<and> system_config e = system_config e'"
proof -
  let ?set = "\<lambda>d. set_config ''eula_accepted_at'' (isoformat now) now (set_config ''eula_accepted'' ''true'' now d)"
  have "system_config (snd (ensure_install_id u now (?set d))) = system_config (snd (ensure_install_id u now (?set d')))"
    by (intro ensure_install_id_settings set_config_settings assms)
  with assms show ?thesis by (auto simp: post_license_def Let_def split: prod.split)
qed

text \<open>The handlers check the session themselves: without one, none of them reads more than the settings, and only the acceptance of the
  licence writes to the database.\<close>

lemma handler_view:
  assumes "\<not> is_authenticated req" "same_view ws ws'"
  shows "same_outcome (run_handler cfg inp req h a ws) (run_handler cfg inp req h a ws')"
proof -
  have eq: "system_config (ws_db ws) = system_config (ws_db ws')" "ws_lockout ws = ws_lockout ws'" "ws_license ws = ws_license ws'"
    using assms(2) by (simp_all add: same_view_def)
  show ?thesis
  proof (cases h)
    case GetLicense
    then show ?thesis using eq check_license_settings [OF eq(1)]
      by (auto simp: run_handler_def answers_def get_license_def same_view_def split: prod.split)
  next
    case PostLicense
    then show ?thesis using eq post_license_settings [OF eq(1), of "wi_uuid inp" "wi_now inp" "wi_form inp ''accepted''" "ws_license ws'"]
      by (auto simp: run_handler_def answers_def same_view_def split: prod.splits)
  next
    case PostLogin
    then show ?thesis using eq by (auto simp: run_handler_def same_view_def split: prod.split)
  qed (use assms in \<open>auto simp: run_handler_def answers_def page_or_def get_queue_def get_queue_rows_def get_alert_page_def post_disposition_def
      api_queue_depth_def api_feedback_context_def api_feedback_def post_logout_def get_logout_def\<close>)
qed

lemma serve_view:
  assumes "\<not> logged_in cfg x" "same_view ws ws'"
  shows "fst (serve cfg x ws) = fst (serve cfg x ws') \<and> same_view (snd (serve cfg x ws)) (snd (serve cfg x ws'))"
proof -
  obtain inp cookie req0 where x: "x = (inp, cookie, req0)" by (cases x) auto
  define req where "req = with_session cfg inp cookie req0"
  have n: "\<not> is_authenticated req" using assms(1) by (simp add: logged_in_def x req_def)
  have eq: "system_config (ws_db ws) = system_config (ws_db ws')" "ws_license ws = ws_license ws'"
    using assms(2) by (simp_all add: same_view_def)
  obtain g lic where g: "gate_dispatch (wi_license_fault inp) (Some (ws_db ws')) (wi_status inp) req (ws_license ws') = (g, lic)"
    by fastforce
  have v: "same_view (ws\<lparr>ws_license := lic\<rparr>) (ws'\<lparr>ws_license := lic\<rparr>)" using assms(2) by simp
  have "same_outcome (routed cfg inp req (ws\<lparr>ws_license := lic\<rparr>)) (routed cfg inp req (ws'\<lparr>ws_license := lic\<rparr>))"
    using handler_view [OF n v] v by (auto simp: routed_def split: option.split)
  then show ?thesis using v g gate_settings [OF eq(1)] eq(2)
    by (auto simp: serve_def x req_def [symmetric] answers_def Let_def split: prod.splits option.splits)
qed

text \<open>Observations of a system by its answers, while others change its state in between.\<close>

fun observe :: "('i \<Rightarrow> 's \<Rightarrow> 'o \<times> 's) \<Rightarrow> (('s \<Rightarrow> 's) \<times> 'i) list \<Rightarrow> 's \<Rightarrow> 'o list \<times> 's" where
  "observe act [] s = ([], s)"
| "observe act ((f, i) # xs) s = (case act i (f s) of (r, s) \<Rightarrow> (case observe act xs s of (rs, s) \<Rightarrow> (r # rs, s)))"

locale unwinding =
  fixes view :: "'s \<Rightarrow> 's \<Rightarrow> bool" and act :: "'i \<Rightarrow> 's \<Rightarrow> 'o \<times> 's" and low :: "'i \<Rightarrow> bool"
  assumes consistent: "low i \<Longrightarrow> view s t \<Longrightarrow> fst (act i s) = fst (act i t) \<and> view (snd (act i s)) (snd (act i t))"
begin

lemma observe_view:
  "list_all2 (\<lambda>(f, i) (g, j). i = j \<and> low i \<and> (\<forall>s t. view s t \<longrightarrow> view (f s) (g t))) xs ys \<Longrightarrow> view s t \<Longrightarrow>
     fst (observe act xs s) = fst (observe act ys t) \<and> view (snd (observe act xs s)) (snd (observe act ys t))"
proof (induction xs ys arbitrary: s t rule: list_all2_induct)
  case (Cons x xs y ys)
  obtain f g i where xy: "x = (f, i)" "y = (g, i)" and i: "low i" "view (f s) (g t)"
    using Cons(1,4) by (cases x; cases y) auto
  show ?case using consistent [OF i] Cons.IH [of "snd (act i (f s))" "snd (act i (g t))"]
    by (auto simp: xy split: prod.split)
qed simp

end

interpretation intruder: unwinding same_view "serve cfg" "\<lambda>x. \<not> logged_in cfg x" for cfg :: "'c web_config"
  by unfold_locales (rule serve_view)

text \<open>C6: whoever has no session learns nothing of the alerts: two installations with the same settings, lockouts and licence, whatever alerts,
  events, verdicts, dispositions and users their databases hold, give the same answers, sessions and cookies to every sequence of
  requests without a session, to any path by any method, also while all other users and tasks change the rest of
  the two databases in different ways in between.\<close>

theorem intruder_learns_nothing:
  assumes "list_all2 (\<lambda>(f, x) (g, y). x = y \<and> \<not> logged_in cfg x \<and> (\<forall>ws ws'. same_view ws ws' \<longrightarrow> same_view (f ws) (g ws'))) steps steps'"
    and "same_view ws ws'"
  shows "fst (observe (serve cfg) steps ws) = fst (observe (serve cfg) steps' ws')"
  using intruder.observe_view [OF assms] by simp

section \<open>What a request without a session can do\<close>

lemma match_plain: "match_segments ts ss = Some ps \<Longrightarrow> list_all (\<lambda>t. \<not> startswith t ''{'') ts \<Longrightarrow> ss = ts"
  by (induction ts ss arbitrary: ps rule: match_segments.induct) (auto split: if_splits)

lemma find_route_sound:
  "find_route rs meth path = Some (h, ps) \<Longrightarrow>
     \<exists>t. (meth, t, h) \<in> set rs \<and> match_segments (split_on CHR ''/'' t) (split_on CHR ''/'' path) = Some ps"
  by (induction rs) (auto split: option.splits if_splits)

lemma find_route_plain:
  assumes "find_route rs meth path = Some (h, ps)" "\<forall>(m, t, h')\<in>set rs. h' = h \<longrightarrow> m = m0 \<and> t = t0"
    and "list_all (\<lambda>t. \<not> startswith t ''{'') (split_on CHR ''/'' t0)"
  shows "meth = m0 \<and> path = t0"
proof -
  obtain t where "(meth, t, h) \<in> set rs" "match_segments (split_on CHR ''/'' t) (split_on CHR ''/'' path) = Some ps"
    using find_route_sound [OF assms(1)] by blast
  then have m: "meth = m0" "match_segments (split_on CHR ''/'' t0) (split_on CHR ''/'' path) = Some ps" using assms(2) by auto
  from match_plain [OF this(2) assms(3)] have "path = t0" by (metis join_split_on)
  with m(1) show ?thesis by simp
qed

lemmas routers = create_app_def setup_router_def auth_router_def queue_router_def alert_router_def api_router_def

lemma find_route_login: "find_route create_app meth path = Some (PostLogin, ps) \<Longrightarrow> meth = ''POST'' \<and> path = ''/login''"
  by (erule find_route_plain) (simp_all add: routers startswith_def)

lemma find_route_license: "find_route create_app meth path = Some (PostLicense, ps) \<Longrightarrow> meth = ''POST'' \<and> path = ''/setup/license''"
  by (erule find_route_plain) (simp_all add: routers startswith_def)

lemma post_license_system:
  assumes "post_license u now x d c = (resp, d', c')"
  shows "(\<exists>t. d' = d\<lparr>system_config := t\<rparr>) \<and> (d' \<noteq> d \<longrightarrow> x = ''true'')"
proof -
  let ?step = "\<lambda>d d'. \<exists>t. d' = d\<lparr>system_config := t\<rparr>"
  have trans: "?step d d' \<Longrightarrow> ?step d' d'' \<Longrightarrow> ?step d d''" for d d' d'' :: db by auto
  have refl: "?step d d" for d :: db by (rule exI [of _ "system_config d"]) simp
  have "?step d (snd (ensure_install_id u now d))" for d
    using refl set_config_system by (auto simp: ensure_install_id_def split: option.split list.split)
  with trans have "?step d (snd (ensure_install_id u now
      (set_config ''eula_accepted_at'' (isoformat now) now (set_config ''eula_accepted'' ''true'' now d))))"
    using set_config_system by meson
  then show ?thesis using assms refl by (auto simp: post_license_def Let_def split: if_splits prod.splits)
qed

lemma session_needs_password:
  assumes "post_login pw t req p lo = (resp, session, lo')" "\<not> is_authenticated req" "truthy (dget session ''user'' JNull)"
  shows "verify_password pw p \<and> check_lockout (lt_check t) (client_ip req) lo = None"
  using assms by (auto simp: post_login_def is_authenticated_def Let_def split: option.splits if_splits prod.splits)

text \<open>What a handler may do for a request without a session.\<close>

definition harmless :: "'c web_config \<Rightarrow> web_input \<Rightarrow> request \<Rightarrow> handler option \<Rightarrow> web_state \<Rightarrow> outcome \<Rightarrow> bool" where
  "harmless cfg inp req h ws = (\<lambda>(a, session, sent, ws').
     (\<exists>t. ws_db ws' = (ws_db ws)\<lparr>system_config := t\<rparr>) \<and>
     (ws_db ws' \<noteq> ws_db ws \<longrightarrow> h = Some PostLicense \<and> wi_form inp ''accepted'' = ''true'') \<and>
     sent = None \<and> (\<forall>v. a = Inr v \<longrightarrow> v \<in> range Plain \<union> range StaticFile \<union> {Unrouted}) \<and>
     (truthy (dget session ''user'' JNull) \<longrightarrow> h = Some PostLogin \<and>
        verify_password (wf_admin_password cfg) (wi_form inp ''password'') \<and>
        check_lockout (lt_check (wi_times inp)) (client_ip req) (ws_lockout ws) = None))"

lemma same_db: "\<exists>t. d = d\<lparr>system_config := t\<rparr>" for d :: db
  by (rule exI [of _ "system_config d"]) simp

lemma answers_harmless:
  assumes "\<not> is_authenticated req" "\<And>v. a = Inr v \<Longrightarrow> v \<in> range Plain \<union> range StaticFile \<union> {Unrouted}" "ws_db ws' = ws_db ws"
  shows "harmless cfg inp req h ws (answers req a ws')"
  using assms same_db by (auto simp: harmless_def answers_def is_authenticated_def)

lemma handler_harmless:
  assumes n: "\<not> is_authenticated req"
  shows "harmless cfg inp req (Some h) ws (run_handler cfg inp req h alert_id ws)"
proof (cases h)
  case PostLicense
  obtain resp d c where p: "post_license (wi_uuid inp) (wi_now inp) (wi_form inp ''accepted'') (ws_db ws) (ws_license ws) = (resp, d, c)"
    using prod_cases3 by blast
  show ?thesis using post_license_system [OF p] n
    by (auto simp: run_handler_def PostLicense p answers_def harmless_def is_authenticated_def)
next
  case PostLogin
  obtain resp session lo where p: "post_login (wf_admin_password cfg) (wi_times inp) req (wi_form inp ''password'') (ws_lockout ws) = (resp, session, lo)"
    using prod_cases3 by blast
  show ?thesis using session_needs_password [OF p n] same_db
    by (auto simp: run_handler_def PostLogin p harmless_def)
next
  case ApiFeedback
  with n show ?thesis using same_db by (auto simp: run_handler_def api_feedback_def harmless_def is_authenticated_def)
next
  case PostLogout
  then show ?thesis using same_db by (auto simp: run_handler_def post_logout_def harmless_def dget_def)
next
  case GetLogout
  then show ?thesis using same_db by (auto simp: run_handler_def get_logout_def harmless_def dget_def)
next
  case GetLicense
  obtain resp lic where "get_license (wi_license_fault inp) (Some (ws_db ws)) (ws_license ws) = (resp, lic)" by fastforce
  then show ?thesis using n by (auto simp: run_handler_def GetLicense intro!: answers_harmless)
qed (use n in \<open>auto simp: run_handler_def page_or_def get_queue_def get_queue_rows_def get_alert_page_def post_disposition_def
    intro!: answers_harmless\<close>)

lemma routed_harmless:
  assumes "\<not> is_authenticated req" "routed cfg inp req ws = out"
  shows "harmless cfg inp req (map_option fst (find_route create_app (req_method req) (req_path req))) ws out \<or>
    harmless cfg inp req None ws out"
  using assms handler_harmless [OF assms(1)]
  by (auto simp: routed_def split: if_splits option.splits intro!: answers_harmless)


text \<open>The licence is accepted as often as anyone likes: the time of the acceptance is overwritten without a session.\<close>

theorem acceptance_overwritten:
  assumes "\<not> logged_in cfg (inp, cookie, req)" "ws_license ws = Some True" "wi_form inp ''accepted'' = ''true''"
    and "req_method req = ''POST''" "req_path req = ''/setup/license''" "wi_status inp = None"
  shows "get_config ''eula_accepted_at'' (ws_db (snd (serve cfg (inp, cookie, req) ws))) = Some (isoformat (wi_now inp))"
proof -
  define r where "r = with_session cfg inp cookie req"
  have r: "req_method r = ''POST''" "req_path r = ''/setup/license''" "\<not> is_authenticated r"
    using assms by (simp_all add: r_def with_session_def logged_in_def)
  have g: "gate_dispatch (wi_license_fault inp) (Some (ws_db ws)) (wi_status inp) r (ws_license ws) = (None, Some True)"
    using r assms(2,6) by (simp add: gate_dispatch_def check_license_accepted_def ALWAYS_OPEN_def POST_LICENSE_OPEN_def blocked_ingestion_status_def
        startswith_def)
  have f: "find_route create_app ''POST'' ''/setup/license'' = Some (PostLicense, [])" by code_simp
  have "get_config ''eula_accepted_at'' (snd (ensure_install_id u n (set_config ''eula_accepted_at'' v n d))) = Some v" for u n v d
    by (auto simp: ensure_install_id_def get_config_set split: option.split list.split)
  then have "get_config ''eula_accepted_at'' (fst (snd (post_license u n ''true'' d c))) = Some (isoformat n)" for u n d c
    by (simp add: post_license_def Let_def split: prod.split) (metis snd_conv)
  moreover have "ws_db (snd (serve cfg (inp, cookie, req) ws)) =
      fst (snd (post_license (wi_uuid inp) (wi_now inp) (wi_form inp ''accepted'') (ws_db ws) (Some True)))"
    using r(1,2) by (simp add: serve_def r_def [symmetric] g routed_def f run_handler_def answers_def startswith_def split: prod.split)
  ultimately show ?thesis using assms(3) by simp
qed

section \<open>Sessions without a password\<close>

text \<open>Without a password nobody can log in, but everybody can get in: the secret that signs the sessions is then a constant of the
  source, and a cookie made with it opens every page, an alert with its verdict included, to whoever sends it.
  Of the session middleware it is used that a signed session comes back within fourteen days.\<close>

theorem empty_password_forges_session:
  assumes "wf_admin_password cfg = []" "now \<le> wi_clock inp" "wi_clock inp \<le> now + 14 * 24 * 3600"
    and "\<And>secret t t' session. session \<noteq> [] \<Longrightarrow> t \<le> t' \<Longrightarrow> t' \<le> t + 14 * 24 * 3600 \<Longrightarrow>
      wf_load cfg secret t' (wf_save cfg secret t [] session) = session"
    and "cookie = wf_save cfg (wf_sha256 cfg ''vx-session-v1:'') now [] [(''user'', JStr ''anyone'')]"
    and "req_method req = ''GET''" "req_path req = ''/alert/'' @ alert_id" "alert_id \<noteq> []" "CHR ''/'' \<notin> set alert_id"
    and "ws_license ws = Some True" "wi_status inp = None"
    and "get_alert alert_id (ws_db ws) = Some row" "alert_view_of row (ws_db ws) = Inr v"
  shows "(\<forall>p. \<not> verify_password (wf_admin_password cfg) p) \<and> rp_answer (fst (serve cfg (inp, cookie, req) ws)) = Inr (AlertPage v)"
proof -
  define r where "r = with_session cfg inp cookie req"
  have "req_session r = [(''user'', JStr ''anyone'')]"
    using assms(1-5) by (simp add: r_def with_session_def session_secret_def)
  then have r: "req_method r = ''GET''" "req_path r = ''/alert/'' @ alert_id" "is_authenticated r"
    using assms(6,7) by (simp_all add: r_def with_session_def is_authenticated_def dget_def)
  have s: "split_on CHR ''/'' (''/alert/'' @ alert_id) = [[], ''alert'', alert_id]"
    using assms(9) by (simp add: split_on_single)
  have g: "gate_dispatch (wi_license_fault inp) (Some (ws_db ws)) (wi_status inp) r (ws_license ws) = (None, Some True)"
    using r assms(10,11) by (simp add: gate_dispatch_def check_license_accepted_def ALWAYS_OPEN_def blocked_ingestion_status_def startswith_def)
  have f: "find_route create_app ''GET'' (''/alert/'' @ alert_id) = Some (GetAlert, [alert_id])"
    unfolding routers using assms(8) by (simp add: s [simplified] startswith_def)
  have "get_alert_page r alert_id (ws_db ws) = Inr (Inr v)" using r(3) assms(12,13) by (simp add: get_alert_page_def)
  then have "rp_answer (fst (serve cfg (inp, cookie, req) ws)) = Inr (AlertPage v)"
    using r f by (simp add: serve_def r_def [symmetric] g routed_def run_handler_def answers_def page_or_def startswith_def)
  then show ?thesis using assms(1) by (simp add: verify_password_def)
qed

section \<open>Instances\<close>

definition sample_web :: "string \<Rightarrow> (string \<times> rat \<times> jdict) web_config" where
  "sample_web pw =
     \<lparr>wf_admin_password = pw, wf_sha256 = id,
      wf_load = (\<lambda>secret t' c. case c of
        Some (secret', t, session) \<Rightarrow> (if secret' = secret \<and> t \<le> t' \<and> t' \<le> t + 14 * 24 * 3600 then session else []) | None \<Rightarrow> []),
      wf_save = (\<lambda>secret t before session. if session = [] then None else Some (secret, t, session)),
      wf_static_dir = True, wf_daily_cap = 300, wf_reset_hour = 0\<rparr>"

definition sample_input :: web_input where
  "sample_input =
     \<lparr>wi_form = (\<lambda>_. ''true''), wi_query = Map.empty, wi_body = Inr (JObj []), wi_clock = 100, wi_times = sample_login 100, wi_now = 100, wi_now2 = 100,
      wi_row_now = (\<lambda>_. 100), wi_uuid = ''u'', wi_status = None, wi_probes = sample_probes,
      wi_files = sample_env JNull,
      wi_host = sample_figures, wi_license_fault = None, wi_config_fault = None, wi_metrics_fault = None, wi_install_fault = None\<rparr>"

lemma sample_anonymous: "\<not> logged_in (sample_web pw) (sample_input, None, req)"
  by (simp add: logged_in_def with_session_def sample_web_def is_authenticated_def dget_def)

text \<open>One installation has an alert, another none; the requests ask for it.\<close>

theorem intruder_learns_nothing_witness:
  "let reqs = map (\<lambda>(m, p). (id, sample_input, None, sample_request m p)) [(''GET'', ''/queue''), (''GET'', ''/alert/a''), (''POST'', ''/setup/license'')];
       ws = \<lparr>ws_db = empty_db, ws_lockout = [], ws_license = Some True\<rparr>
   in fst (observe (serve (sample_web ''secret'')) reqs ws) =
      fst (observe (serve (sample_web ''secret'')) reqs (ws\<lparr>ws_db := empty_db\<lparr>alerts := [sample_alert_row ''a'' 0 ''queued'']\<rparr>\<rparr>))"
  unfolding Let_def
  by (rule intruder_learns_nothing) (simp_all add: sample_anonymous same_view_def empty_db_def)


theorem empty_password_forges_session_witness:
  "\<exists>v. rp_answer (fst (serve (sample_web []) (sample_input, Some (''vx-session-v1:'', 90, [(''user'', JStr ''anyone'')]), sample_request ''GET'' ''/alert/a'')
      \<lparr>ws_db = empty_db\<lparr>alerts := [sample_alert_row ''a'' 0 ''queued'']\<rparr>, ws_lockout = [], ws_license = Some True\<rparr>)) = Inr (AlertPage v)"
proof -
  let ?d = "empty_db\<lparr>alerts := [sample_alert_row ''a'' 0 ''queued'']\<rparr>"
  obtain v where v: "alert_view_of (sample_alert_row ''a'' 0 ''queued'') ?d = Inr v"
    by (simp add: alert_view_of_def sample_alert_row_def dget_def Let_def)
  have "rp_answer (fst (serve (sample_web []) (sample_input, Some (''vx-session-v1:'', 90, [(''user'', JStr ''anyone'')]), sample_request ''GET'' ''/alert/a'')
      \<lparr>ws_db = ?d, ws_lockout = [], ws_license = Some True\<rparr>)) = Inr (AlertPage v)"
    by (rule conjunct2 [OF empty_password_forges_session [where now = 90 and alert_id = "''a''" and row = "sample_alert_row ''a'' 0 ''queued''"]])
       (use v in \<open>simp_all add: sample_web_def sample_input_def sample_request_def get_alert_def empty_db_def sample_alert_row_def\<close>)
  then show ?thesis ..
qed

end
