(* ===== verification/Infrastructure.thy ===== *)
theory Infrastructure
  imports Json_Text Datetime
begin

text \<open>
  What every component uses: the HTTP client factory (\<open>src/infra/http/factory.py\<close>), with the certificates it trusts, the configuration of the
  logging (\<open>src/infra/logging/setup.py\<close>) and its context (\<open>src/infra/logging/context.py\<close>). The environment variables and the existence of files are
  arguments; a client is the arguments the factory passes to \<open>httpx\<close>, a configuration what is passed to \<open>structlog\<close> and \<open>logging\<close>, and
  a context the variables \<open>structlog\<close> merges into every line of a task.
\<close>

section \<open>HTTP clients\<close>

text \<open>\<open>str(Path(s))\<close>: single slashes and no dots as components; two leading slashes stay two.\<close>

definition path_str :: "string \<Rightarrow> string" where
  "path_str s =
     (let root = (if startswith s ''//'' \<and> \<not> startswith s ''///'' then ''//'' else if startswith s ''/'' then ''/'' else []);
          parts = filter (\<lambda>c. c \<noteq> [] \<and> c \<noteq> ''.'') (split_on (CHR ''/'') s)
      in if root = [] \<and> parts = [] then ''.'' else root @ join ''/'' parts)"

datatype ca_bundle = SystemCAs | CABundle string

definition DEFAULT_CA_BUNDLE_PATH :: string where
  "DEFAULT_CA_BUNDLE_PATH = ''/host/certs/ca-bundle.pem''"

definition resolve_ca_bundle :: "(string \<Rightarrow> string option) \<Rightarrow> (string \<Rightarrow> bool) \<Rightarrow> ca_bundle" where
  "resolve_ca_bundle env exists =
     (let vx = path_str (case env ''VX_CA_BUNDLE_PATH'' of None \<Rightarrow> DEFAULT_CA_BUNDLE_PATH | Some p \<Rightarrow> p);
          fallback = (if exists vx then CABundle vx else SystemCAs)
      in case env ''SSL_CERT_FILE'' of
           Some (c # cs) \<Rightarrow> (if exists (path_str (c # cs)) then CABundle (path_str (c # cs)) else fallback)
         | _ \<Rightarrow> fallback)"

definition VERSION :: string where
  "VERSION = ''0.3.2''"

record http_client =
  hc_timeout :: string
  hc_verify :: ca_bundle
  hc_headers :: "(string \<times> string) list"

definition create_http_client :: "(string \<Rightarrow> string option) \<Rightarrow> (string \<Rightarrow> bool) \<Rightarrow> string \<Rightarrow> string \<Rightarrow> http_client" where
  "create_http_client env exists timeout purpose =
     \<lparr>hc_timeout = timeout, hc_verify = resolve_ca_bundle env exists,
      hc_headers = [(''User-Agent'', ''Verdix/'' @ VERSION @ '' (purpose='' @ purpose @ '')'')]\<rparr>"

text \<open>A client never trusts a file that is not there, and the standard variable wins over the program's own.\<close>

lemma ca_bundle_exists: "resolve_ca_bundle env exists = CABundle p \<Longrightarrow> exists p"
  by (auto simp: resolve_ca_bundle_def Let_def split: option.splits list.splits if_splits)

lemma ca_bundle_order:
  assumes "env ''SSL_CERT_FILE'' = Some s" "s \<noteq> []" "exists (path_str s)"
  shows "resolve_ca_bundle env exists = CABundle (path_str s)"
  using assms by (cases s) (simp_all add: resolve_ca_bundle_def Let_def)

lemma ca_bundle_system:
  "(\<And>p. \<not> exists p) \<Longrightarrow> resolve_ca_bundle env exists = SystemCAs"
  by (auto simp: resolve_ca_bundle_def Let_def split: option.splits list.splits)

text \<open>The variable the factory documents, \<open>SC_CA_BUNDLE_PATH\<close>, has no effect.\<close>

lemma documented_ca_variable_ignored: "resolve_ca_bundle (env(''SC_CA_BUNDLE_PATH'' := v)) exists = resolve_ca_bundle env exists"
  by (simp add: resolve_ca_bundle_def)

section \<open>Logging\<close>

type_synonym log_context = "(string \<times> json) list"

definition bind_contextvars :: "(string \<times> json) list \<Rightarrow> log_context \<Rightarrow> log_context" where
  "bind_contextvars kvs ctx = foldl (\<lambda>c p. dict_set (fst p) (snd p) c) ctx kvs"

definition SENSOR_ID :: int where
  "SENSOR_ID = 1"

definition bind_alert_context :: "string \<Rightarrow> string \<Rightarrow> string option \<Rightarrow> log_context \<Rightarrow> string \<times> log_context" where
  "bind_alert_context uid alert_id trace_id ctx =
     (let tid = (case trace_id of Some (c # cs) \<Rightarrow> c # cs | _ \<Rightarrow> uid)
      in (tid, bind_contextvars [(''alert_id'', JStr alert_id), (''trace_id'', JStr tid), (''sensor_id'', JInt SENSOR_ID)] ctx))"

definition bind_http_context :: "string \<Rightarrow> log_context \<Rightarrow> log_context" where
  "bind_http_context purpose ctx = bind_contextvars [(''purpose'', JStr purpose)] ctx"

definition clear_alert_context :: "log_context \<Rightarrow> log_context" where
  "clear_alert_context ctx = []"

text \<open>A task that works on one alert after the other: the context in which it works on each, and the one it leaves.\<close>

fun alert_contexts :: "(string \<times> string) list \<Rightarrow> log_context \<Rightarrow> log_context list \<times> log_context" where
  "alert_contexts [] ctx = ([], ctx)"
| "alert_contexts ((uid, alert_id) # as) ctx =
     (let during = snd (bind_alert_context uid alert_id None ctx);
          (rest, final) = alert_contexts as (clear_alert_context during)
      in (during # rest, final))"

text \<open>No alert's lines carry what was bound for another.\<close>

lemma alert_contexts_own:
  "fst (alert_contexts as []) =
     map (\<lambda>(uid, a). [(''alert_id'', JStr a), (''trace_id'', JStr uid), (''sensor_id'', JInt SENSOR_ID)]) as \<and>
   snd (alert_contexts as []) = []"
  by (induction as) (auto simp: bind_alert_context_def bind_contextvars_def clear_alert_context_def Let_def split: prod.splits)

text \<open>The configuration. \<open>logging.getLevelName\<close> gives the number of a level's name, and a text for any other; \<open>structlog\<close> may refuse it, and
  \<open>basicConfig\<close> refuses a text that names no level. Upper case is that of ASCII.\<close>

definition upper :: "string \<Rightarrow> string" where
  "upper s = map (\<lambda>c. if 97 \<le> (of_char c :: nat) \<and> (of_char c :: nat) \<le> 122 then char_of ((of_char c :: nat) - 32) else c) s"

definition level_names :: "(string \<times> int) list" where
  "level_names = [(''CRITICAL'', 50), (''FATAL'', 50), (''ERROR'', 40), (''WARN'', 30), (''WARNING'', 30), (''INFO'', 20), (''DEBUG'', 10), (''NOTSET'', 0)]"

definition getLevelName :: "string \<Rightarrow> int + string" where
  "getLevelName name = (case map_of level_names name of Some n \<Rightarrow> Inl n | None \<Rightarrow> Inr (''Level '' @ name))"

record log_config =
  lc_processors :: "string list"
  lc_level :: int
  lc_stdlib_format :: string
  lc_stream :: string

definition configure_logging :: "(int + string \<Rightarrow> exn option) \<Rightarrow> string \<Rightarrow> log_config res" where
  "configure_logging make_filtering_bound_logger log_level =
     (let numeric_level = getLevelName (upper log_level)
      in case make_filtering_bound_logger numeric_level of
           Some e \<Rightarrow> Inl e
         | None \<Rightarrow>
             (case numeric_level of
                Inr text \<Rightarrow> Inl (ValueError (''Unknown level: '' @ repr_str text))
              | Inl n \<Rightarrow> Inr
                  \<lparr>lc_processors = [''merge_contextvars'', ''add_log_level'', ''TimeStamper'', ''ExceptionRenderer'', ''StackInfoRenderer'', ''JSONRenderer''],
                   lc_level = n, lc_stdlib_format = ''%(message)s'', lc_stream = ''stdout''\<rparr>))"

text \<open>With a \<open>structlog\<close> that takes numbers, exactly the names of levels, in any case, are accepted.\<close>

lemma configure_logging_levels:
  assumes "\<And>n. make_filtering (Inl n) = None"
  shows "(\<exists>c. configure_logging make_filtering log_level = Inr c \<and> lc_level c = n) \<longleftrightarrow> map_of level_names (upper log_level) = Some n"
  using assms by (auto simp: configure_logging_def getLevelName_def Let_def split: option.splits)

end
