(* ===== verification/Startup.thy ===== *)
theory Startup
  imports Health_Check Worker_Correct Infrastructure
begin

text \<open>
  The entry point, \<open>src/main.py\<close>: reading the settings from the environment, and the start of the program: the database, the install
  identifier, the two files without which ingestion is blocked, the clients and the background tasks. What the start meets is an argument
  (\<open>start_env\<close>): the environment variables, the file system, faults of the two databases, the clock and a fresh identifier. A setting that is a
  float is kept as the text \<open>float()\<close> accepted. Log lines and the web server are not modelled.
\<close>

section \<open>Settings\<close>

text \<open>\<open>int(s)\<close> and the texts \<open>float(s)\<close> accepts: groups of digits with single underscores between them.\<close>

fun digit_groups :: "string \<Rightarrow> string option" where
  "digit_groups [] = None"
| "digit_groups [c] = (if is_digit c then Some [c] else None)"
| "digit_groups (c # d # s) =
     (if \<not> is_digit c then None
      else map_option (Cons c) (if d = CHR ''_'' then digit_groups s else digit_groups (d # s)))"

definition read_sign :: "string \<Rightarrow> int \<times> string" where
  "read_sign s = (case s of [] \<Rightarrow> (1, []) | c # t \<Rightarrow> if c = CHR ''-'' then (-1, t) else if c = CHR ''+'' then (1, t) else (1, s))"

definition py_int :: "string \<Rightarrow> int res" where
  "py_int s =
     (let (sign, t) = read_sign (strip s)
      in case digit_groups t of
           Some ds \<Rightarrow> Inr (sign * int (read_nat ds))
         | None \<Rightarrow> Inl (ValueError (''invalid literal for int() with base 10: '' @ repr_str s)))"

definition is_decimal :: "string \<Rightarrow> bool" where
  "is_decimal t =
     (let m = takeWhile (\<lambda>c. c \<noteq> CHR ''e'') t; e = drop (length m) t;
          p = takeWhile (\<lambda>c. c \<noteq> CHR ''.'') m; q = drop (length p + 1) m
      in (p = [] \<or> digit_groups p \<noteq> None) \<and> (q = [] \<or> digit_groups q \<noteq> None) \<and> (p \<noteq> [] \<or> q \<noteq> [])
         \<and> (e = [] \<or> digit_groups (snd (read_sign (tl e))) \<noteq> None))"

definition py_float_text :: "string \<Rightarrow> string res" where
  "py_float_text s =
     (let t = snd (read_sign (lower (strip s)))
      in if t \<in> set [''inf'', ''infinity'', ''nan''] \<or> is_decimal t then Inr s
         else Inl (ValueError (''could not convert string to float: '' @ repr_str s)))"

text \<open>\<open>os.path\<close>: \<open>normpath\<close> of an absolute path, \<open>abspath\<close>, \<open>dirname\<close> and \<open>join\<close>.\<close>

fun path_parts :: "string list \<Rightarrow> string list \<Rightarrow> string list" where
  "path_parts acc [] = rev acc"
| "path_parts acc (c # cs) =
     (if c = [] \<or> c = ''.'' then path_parts acc cs
      else if c = ''..'' then path_parts (tl acc) cs
      else path_parts (c # acc) cs)"

definition normpath :: "string \<Rightarrow> string" where
  "normpath p =
     (let slashes = (if startswith p ''//'' \<and> \<not> startswith p ''///'' then ''//'' else ''/'')
      in slashes @ join ''/'' (path_parts [] (split_on (CHR ''/'') p)))"

definition path_join :: "string \<Rightarrow> string \<Rightarrow> string" where
  "path_join d n = (if startswith n ''/'' then n else if d = [] \<or> endswith d ''/'' then d @ n else d @ ''/'' @ n)"

definition abspath :: "string \<Rightarrow> string \<Rightarrow> string" where
  "abspath cwd p = normpath (path_join cwd p)"

definition dirname :: "string \<Rightarrow> string" where
  "dirname p =
     (let head = rev (dropWhile (\<lambda>c. c \<noteq> CHR ''/'') (rev p))
      in if list_all (\<lambda>c. c = CHR ''/'') head then head else rstrip_char (CHR ''/'') head)"

definition sibling_path :: "string \<Rightarrow> string \<Rightarrow> string \<Rightarrow> string" where
  "sibling_path cwd base name = path_join (dirname (abspath cwd base)) name"

record app_config =
  cfg_db_path :: string
  cfg_cache_db_path :: string
  cfg_host :: string
  cfg_port :: int
  cfg_log_level :: string
  cfg_eve_log_path :: string
  cfg_suricata_config_path :: string
  cfg_poll_interval_ms :: int
  cfg_context_delay_s :: string
  cfg_daily_cap :: int
  cfg_retention_days :: int
  cfg_ollama_url :: string
  cfg_ollama_model :: string
  cfg_ollama_timeout :: string
  cfg_geoip_country_db :: string
  cfg_geoip_asn_db :: string
  cfg_vt_api_key :: "string option"

record start_env =
  s_env :: "string \<Rightarrow> string option"
  s_cwd :: string
  s_files :: config_env
  s_readable_file :: "string \<Rightarrow> bool"
  s_db_fault :: "exn option"
  s_cache_fault :: "exn option"
  s_now :: instant
  s_uuid :: string
  s_bound_logger :: "int + string \<Rightarrow> exn option"

definition env_or :: "start_env \<Rightarrow> string \<Rightarrow> string \<Rightarrow> string" where
  "env_or env v dflt = (case s_env env v of Some s \<Rightarrow> s | None \<Rightarrow> dflt)"

definition read_env :: "start_env \<Rightarrow> app_config res" where
  "read_env env =
     (let db_path = env_or env ''VX_DB_PATH'' ''verdix.db''
      in rbind (py_int (env_or env ''VX_PORT'' ''8080'')) (\<lambda>port.
         rbind (py_int (env_or env ''VX_EVE_POLL_INTERVAL_MS'' ''500'')) (\<lambda>poll.
         rbind (py_float_text (env_or env ''VX_FLOW_CONTEXT_DELAY_SECONDS'' ''30'')) (\<lambda>delay.
         rbind (py_int (env_or env ''VX_TRIAGE_DAILY_CAP'' ''300'')) (\<lambda>cap.
         rbind (py_int (env_or env ''VX_EVE_CONTEXT_RETENTION_DAYS'' ''7'')) (\<lambda>days.
         rbind (py_float_text (env_or env ''VX_OLLAMA_TIMEOUT_SECONDS'' ''600'')) (\<lambda>timeout.
           Inr \<lparr>cfg_db_path = db_path,
                cfg_cache_db_path = sibling_path (s_cwd env) db_path ''cache.db'',
                cfg_host = env_or env ''VX_HOST'' ''0.0.0.0'',
                cfg_port = port,
                cfg_log_level = env_or env ''VX_LOG_LEVEL'' ''INFO'',
                cfg_eve_log_path = env_or env ''VX_EVE_LOG_PATH'' DEFAULT_EVE_PATH,
                cfg_suricata_config_path = env_or env ''VX_SURICATA_CONFIG_PATH'' DEFAULT_CONFIG_PATH,
                cfg_poll_interval_ms = poll,
                cfg_context_delay_s = delay,
                cfg_daily_cap = cap,
                cfg_retention_days = days,
                cfg_ollama_url = env_or env ''VX_OLLAMA_URL'' ''http://llm:11434/api/chat'',
                cfg_ollama_model = env_or env ''VX_OLLAMA_MODEL'' ''gemma4:e4b-it-q8_0'',
                cfg_ollama_timeout = timeout,
                cfg_geoip_country_db = env_or env ''VX_GEOIP_COUNTRY_DB_PATH'' ''/var/lib/verdix/geoip/dbip-country-lite.mmdb'',
                cfg_geoip_asn_db = env_or env ''VX_GEOIP_ASN_DB_PATH'' ''/var/lib/verdix/geoip/dbip-asn-lite.mmdb'',
                cfg_vt_api_key = s_env env ''VX_VIRUSTOTAL_API_KEY''\<rparr>)))))))"

section \<open>The start of the program\<close>

text \<open>A background task with the arguments its component is built with.\<close>

datatype task =
    EvePipeline (eve_path: string) (poll_ms: int) (context_delay: string) (pipe_cap: int)
  | TriageWorker suricata_config ollama (llm_url: string) (llm_timeout: string) "string option" string string (triage_cap: int)
  | EveCleanup (keep_days: int)

fun task_name :: "task \<Rightarrow> string" where
  "task_name (EvePipeline _ _ _ _) = ''eve_pipeline''"
| "task_name (TriageWorker _ _ _ _ _ _ _ _) = ''triage_worker''"
| "task_name (EveCleanup _) = ''eve_cleanup''"

record app =
  app_status :: ingestion_status
  app_config :: "suricata_config option"
  app_tasks :: "task list"

definition blocking_reasons :: "start_env \<Rightarrow> app_config \<Rightarrow> config_error + suricata_config \<Rightarrow> string list" where
  "blocking_reasons env cfg read =
     (case read of
        Inl e \<Rightarrow> [''suricata.yaml unreadable at '' @ cfg_suricata_config_path cfg @ '': '' @ config_error_text e]
      | Inr _ \<Rightarrow> [])
     @ (if s_readable_file env (cfg_eve_log_path cfg) then [] else [''eve.json unreadable at '' @ cfg_eve_log_path cfg])"

definition vt_key :: "app_config \<Rightarrow> string option" where
  "vt_key cfg = (case cfg_vt_api_key cfg of Some (c # cs) \<Rightarrow> Some (c # cs) | _ \<Rightarrow> None)"

definition pinned_ollama :: "app_config \<Rightarrow> ollama" where
  "pinned_ollama cfg = \<lparr>o_model = cfg_ollama_model cfg, o_temperature = Some (JFloat ''0.0''), o_num_thread = None\<rparr>"

definition start_tasks :: "app_config \<Rightarrow> suricata_config option \<Rightarrow> string list \<Rightarrow> task list" where
  "start_tasks cfg config reasons =
     (case config of
        Some sc \<Rightarrow>
          (if reasons = []
           then [EvePipeline (cfg_eve_log_path cfg) (cfg_poll_interval_ms cfg) (cfg_context_delay_s cfg) (cfg_daily_cap cfg),
                 TriageWorker sc (pinned_ollama cfg) (cfg_ollama_url cfg) (cfg_ollama_timeout cfg) (vt_key cfg) (cfg_geoip_country_db cfg)
                   (cfg_geoip_asn_db cfg) (cfg_daily_cap cfg)]
           else [])
      | None \<Rightarrow> [])
     @ [EveCleanup (cfg_retention_days cfg)]"

text \<open>The result of the start and the database as it leaves it.\<close>

definition lifespan :: "start_env \<Rightarrow> app_config \<Rightarrow> db \<Rightarrow> app res \<times> db" where
  "lifespan env cfg d =
     (case s_db_fault env of
        Some e \<Rightarrow> (Inl e, d)
      | None \<Rightarrow>
          let (i, d) = ensure_install_id (s_uuid env) (s_now env) d;
              status = new_status (cfg_poll_interval_ms cfg);
              read = read_config (s_files env) (Some (cfg_suricata_config_path cfg)) (s_env env ''VX_SURICATA_CONFIG_PATH'') (s_now env);
              config = (case read of Inr sc \<Rightarrow> Some sc | Inl _ \<Rightarrow> None);
              reasons = blocking_reasons env cfg read;
              status = (if reasons \<noteq> [] then record_blocked (s_now env) (join ''; '' reasons) status else status)
          in case s_cache_fault env of
               Some e \<Rightarrow> (Inl e, d)
             | None \<Rightarrow> (Inr \<lparr>app_status = status, app_config = config, app_tasks = start_tasks cfg config reasons\<rparr>, d))"

definition main_start :: "start_env \<Rightarrow> db \<Rightarrow> app res \<times> db" where
  "main_start env d =
     (case read_env env of
        Inl e \<Rightarrow> (Inl e, d)
      | Inr cfg \<Rightarrow>
          (case configure_logging (s_bound_logger env) (cfg_log_level cfg) of
             Inl e \<Rightarrow> (Inl e, d)
           | Inr _ \<Rightarrow> lifespan env cfg d))"

text \<open>The worker the program starts: the outside world of \<open>outside\<close> (network, clocks, other tasks, faults) with the configuration, the
  clients, the model and the cap that the start gives it.\<close>

fun start_worker ::
  "worker_env \<Rightarrow> vt_env \<Rightarrow> pydantic \<Rightarrow> (json list \<Rightarrow> http_result) \<Rightarrow> (nat \<Rightarrow> rat) \<Rightarrow> task \<Rightarrow> worker_env option" where
  "start_worker outside vt pv post clock (TriageWorker sc cl url timeout key country asn cap) =
     Some (outside\<lparr>we_cfg := sc, we_identity := True, we_env := (we_env outside)\<lparr>te_vt := map_option (\<lambda>k. vt\<lparr>vt_api_key := k\<rparr>) key\<rparr>,
       we_daily_cap := cap\<rparr>\<lparr>we_complete := ollama_complete pv cl post clock\<rparr>)"
| "start_worker outside vt pv post clock _ = None"

section \<open>Lemmas\<close>

lemma ensure_install_id_stable:
  assumes "ensure_install_id u now d = (i, d')" "u \<noteq> []"
  shows "i \<noteq> [] \<and> get_install_id d' = Some i \<and> ensure_install_id u' now' d' = (i, d')"
  using assms by (auto simp: ensure_install_id_def get_install_id_def get_config_set split: option.splits list.splits)

lemma ensure_install_id_external: "ensure_install_id u now d = (i, d') \<Longrightarrow> d' = d \<or> external_write d d'"
  by (auto simp: ensure_install_id_def split: option.splits list.splits intro: x_config)

lemma main_start_db: "main_start env d = (r, d') \<Longrightarrow> d' = d \<or> external_write d d'"
  using ensure_install_id_external
  by (auto simp: main_start_def lifespan_def Let_def split: sum.splits option.splits prod.splits)

lemma reasons_ne: "[] \<notin> set (blocking_reasons env cfg read)"
  by (auto simp: blocking_reasons_def split: sum.splits)

lemma join_ne: "xs \<noteq> [] \<Longrightarrow> [] \<notin> set xs \<Longrightarrow> join sep xs \<noteq> []"
  by (induction sep xs rule: join.induct) auto

lemma blocking_reasons_iff: "blocking_reasons env cfg read = [] \<longleftrightarrow> (\<exists>sc. read = Inr sc) \<and> s_readable_file env (cfg_eve_log_path cfg)"
  by (auto simp: blocking_reasons_def split: sum.splits)

lemma main_start_Inr:
  assumes "main_start env d = (Inr a, d')" "read_env env = Inr cfg"
    "read = read_config (s_files env) (Some (cfg_suricata_config_path cfg)) (s_env env ''VX_SURICATA_CONFIG_PATH'') (s_now env)"
  shows "app_config a = (case read of Inr sc \<Rightarrow> Some sc | Inl _ \<Rightarrow> None)"
    and "app_tasks a = start_tasks cfg (app_config a) (blocking_reasons env cfg read)"
    and "app_status a = (if blocking_reasons env cfg read = [] then new_status (cfg_poll_interval_ms cfg)
       else record_blocked (s_now env) (join ''; '' (blocking_reasons env cfg read)) (new_status (cfg_poll_interval_ms cfg)))"
  using assms by (auto simp: main_start_def lifespan_def Let_def split: sum.splits option.splits prod.splits)

lemma main_start_id: "main_start env d = (Inr a, d') \<Longrightarrow> \<exists>i. ensure_install_id (s_uuid env) (s_now env) d = (i, d')"
  by (auto simp: main_start_def lifespan_def Let_def split: sum.splits option.splits prod.splits)

lemma liveness_of_start:
  "liveness (Some (new_status n)) = JsonResp (JObj [(''status'', JStr ''ok''), (''version'', JStr APP_VERSION)]) 200"
  "r \<noteq> [] \<Longrightarrow> liveness (Some (record_blocked now r st)) =
     JsonResp (JObj [(''status'', JStr ''red''), (''reason'', JStr r), (''version'', JStr APP_VERSION)]) 503"
  by (auto simp: liveness_def new_status_def record_blocked_def red_reason_def split: list.split)

definition start_ready :: "start_env \<Rightarrow> app_config \<Rightarrow> bool" where
  "start_ready env cfg \<longleftrightarrow> s_readable_file env (cfg_eve_log_path cfg) \<and>
     (\<exists>sc. read_config (s_files env) (Some (cfg_suricata_config_path cfg)) (s_env env ''VX_SURICATA_CONFIG_PATH'') (s_now env) = Inr sc)"

text \<open>C18: the program starts all of its pipeline or none of it. When suricata.yaml is read and the alert log is a readable file, ingestion, triage
  and cleanup run and the liveness probe answers 200. Otherwise cleanup alone runs, the liveness probe answers 503 with the reason, and
  with the licence accepted no route is reached but the health pages, login and logout.\<close>

theorem start_all_or_nothing:
  assumes "main_start env d = (Inr a, d')" "read_env env = Inr cfg"
  shows "if start_ready env cfg
    then map task_name (app_tasks a) = [''eve_pipeline'', ''triage_worker'', ''eve_cleanup''] \<and>
      liveness (Some (app_status a)) = JsonResp (JObj [(''status'', JStr ''ok''), (''version'', JStr APP_VERSION)]) 200
    else map task_name (app_tasks a) = [''eve_cleanup''] \<and>
      (\<exists>r. r \<noteq> [] \<and> blocked_reason (app_status a) = Some r \<and>
        liveness (Some (app_status a)) = JsonResp (JObj [(''status'', JStr ''red''), (''reason'', JStr r), (''version'', JStr APP_VERSION)]) 503) \<and>
      (\<forall>req cached'. gate_dispatch None (Some d') (Some (app_status a)) req (Some True) = (None, cached') \<longrightarrow>
        req_path req \<in> set BLOCKED_OPEN \<or> startswith (req_path req) ''/static/'')"
proof -
  define read where
    "read = read_config (s_files env) (Some (cfg_suricata_config_path cfg)) (s_env env ''VX_SURICATA_CONFIG_PATH'') (s_now env)"
  note s = read_def main_start_Inr [OF assms read_def]
  note iff = blocking_reasons_iff [of env cfg read]
  show ?thesis
  proof (cases "blocking_reasons env cfg read = []")
    case True
    then obtain sc where "read = Inr sc" "start_ready env cfg" using iff s(1) by (auto simp: start_ready_def)
    then show ?thesis using s True by (simp add: start_tasks_def liveness_of_start)
  next
    case False
    let ?r = "join ''; '' (blocking_reasons env cfg read)"
    have not_ready: "\<not> start_ready env cfg" using False iff s(1) by (auto simp: start_ready_def)
    have r: "?r \<noteq> []" using False reasons_ne join_ne by blast
    have st: "app_status a = record_blocked (s_now env) ?r (new_status (cfg_poll_interval_ms cfg))" using s False by simp
    have reason: "blocked_reason (app_status a) = Some ?r" unfolding st by (simp add: record_blocked_def)
    have "req_path req \<in> set BLOCKED_OPEN \<or> startswith (req_path req) ''/static/''"
      if "gate_dispatch None (Some d') (Some (app_status a)) req (Some True) = (None, c)" for req c
      using gate_cases [OF that] reason
      by (auto simp: blocked_ingestion_status_def check_license_accepted_def ALWAYS_OPEN_def BLOCKED_OPEN_def)
    moreover have "map task_name (app_tasks a) = [''eve_cleanup'']" using s False by (simp add: start_tasks_def split: option.split)
    ultimately show ?thesis
      unfolding if_not_P [OF not_ready] using r reason liveness_of_start(2) [OF r, of "s_now env"] st by auto
  qed
qed

text \<open>The identifier of an installation is created at the first start and never changes: a later start finds it and writes nothing.\<close>

theorem install_id_permanent:
  assumes "main_start env d = (Inr a, d1)" "s_uuid env \<noteq> []" "main_start env' d1 = (r, d2)"
  shows "d2 = d1 \<and> (\<exists>i. i \<noteq> [] \<and> get_install_id d1 = Some i)"
proof -
  obtain i where i: "ensure_install_id (s_uuid env) (s_now env) d = (i, d1)"
    using main_start_id [OF assms(1)] by blast
  note stable = ensure_install_id_stable [OF i assms(2)]
  then have "d2 = d1" using assms(3) stable
    by (auto simp: main_start_def lifespan_def Let_def split: sum.splits option.splits)
  with stable show ?thesis by blast
qed

text \<open>The worker that the program starts keeps the database sound for ever: from the database the start leaves, whatever the network, the model
  and the clock do, and while the other tasks write. It asks the model greedily, at temperature zero, and is built with the configured
  daily cap.\<close>

theorem started_worker_sound:
  assumes "main_start env d = (Inr a, d')" "read_env env = Inr cfg" "sound d" "t \<in> set (app_tasks a)"
    "start_worker outside vt pv post clock t = Some wenv" "rely outside" "w_db w = d'"
  shows "sound (w_db (worker_run wenv n w)) \<and> we_daily_cap wenv = cfg_daily_cap cfg \<and>
    we_complete wenv = ollama_complete pv \<lparr>o_model = cfg_ollama_model cfg, o_temperature = Some (JFloat ''0.0''), o_num_thread = None\<rparr> post clock"
proof -
  have "sound d'" using main_start_db [OF assms(1)] assms(3) sound_external by blast
  moreover have t: "\<exists>sc url timeout key country asn. t = TriageWorker sc (pinned_ollama cfg) url timeout key country asn (cfg_daily_cap cfg)"
    using assms(4,5) unfolding main_start_Inr(2) [OF assms(1,2) refl] by (auto simp: start_tasks_def split: option.splits if_splits)
  ultimately show ?thesis
    using assms(5-7) ollama_worker.run_sound by (auto simp: rely_def pinned_ollama_def)
qed

section \<open>Witnesses\<close>

definition sample_start :: "string \<Rightarrow> start_env" where
  "sample_start uuid =
     \<lparr>s_env = (\<lambda>_. None), s_cwd = ''/app'', s_files = sample_env sample_doc, s_readable_file = (\<lambda>_. True), s_db_fault = None, s_cache_fault = None,
      s_now = 0, s_uuid = uuid, s_bound_logger = (\<lambda>_. None)\<rparr>"

lemma sample_read_env:
  "\<exists>cfg. read_env (sample_start u) = Inr cfg \<and> cfg_suricata_config_path cfg = DEFAULT_CONFIG_PATH \<and> cfg_daily_cap cfg = 300 \<and> cfg_log_level cfg = ''INFO''"
proof -
  have ints: "py_int ''8080'' = Inr 8080" "py_int ''500'' = Inr 500" "py_float_text ''30'' = Inr ''30''" "py_int ''300'' = Inr 300" "py_int ''7'' = Inr 7"
    "py_float_text ''600'' = Inr ''600''" by code_simp+
  show ?thesis by (simp add: read_env_def env_or_def sample_start_def ints Let_def)
qed

lemma sample_config_read: "\<exists>sc. read_config (sample_env sample_doc) (Some DEFAULT_CONFIG_PATH) None 0 = Inr sc"
proof -
  have "case read_config (sample_env sample_doc) (Some DEFAULT_CONFIG_PATH) None 0 of Inr cfg \<Rightarrow> True | Inl _ \<Rightarrow> False" by code_simp
  then show ?thesis by (auto split: sum.splits)
qed

text \<open>With the two variables unset, the program opens the databases at their default paths, which the image ships, while the health page
  reports GeoIP as not configured.\<close>

lemma geoip_default_not_shown:
  assumes "s_env env = p_env p" "p_env p ''VX_GEOIP_COUNTRY_DB_PATH'' = None" "p_env p ''VX_GEOIP_ASN_DB_PATH'' = None" "read_env env = Inr cfg"
  shows "cfg_geoip_country_db cfg = ''/var/lib/verdix/geoip/dbip-country-lite.mmdb'' \<and>
    cfg_geoip_asn_db cfg = ''/var/lib/verdix/geoip/dbip-asn-lite.mmdb'' \<and>
    check_geoip p = item ''GeoIP / ASN'' ''info'' (''Not configured '' @ emdash @ '' set VX_GEOIP_COUNTRY_DB_PATH and VX_GEOIP_ASN_DB_PATH'')"
  using assms by (auto simp: read_env_def env_or_def check_geoip_def getenv_def Let_def)

lemma sample_main_start: "\<exists>a d'. main_start (sample_start u) d = (Inr a, d')"
proof -
  obtain c where "configure_logging (\<lambda>_. None) ''INFO'' = Inr c"
    using configure_logging_levels [of "\<lambda>_. None" "''INFO''" 20] by (auto simp: level_names_def upper_def)
  then show ?thesis
    using sample_read_env [of u] by (auto simp: main_start_def lifespan_def sample_start_def Let_def split: prod.split)
qed

theorem start_all_or_nothing_witness:
  "\<exists>a d'. main_start (sample_start ''u'') empty_db = (Inr a, d') \<and>
     map task_name (app_tasks a) = [''eve_pipeline'', ''triage_worker'', ''eve_cleanup'']"
proof -
  obtain a d' where a: "main_start (sample_start ''u'') empty_db = (Inr a, d')" using sample_main_start by blast
  obtain cfg where cfg: "read_env (sample_start ''u'') = Inr cfg" "cfg_suricata_config_path cfg = DEFAULT_CONFIG_PATH"
    using sample_read_env by blast
  have "start_ready (sample_start ''u'') cfg"
    using sample_config_read cfg(2) by (simp add: start_ready_def sample_start_def)
  with start_all_or_nothing [OF a cfg(1)] a show ?thesis by auto
qed

theorem install_id_permanent_witness:
  "\<exists>a d1. main_start (sample_start ''first'') empty_db = (Inr a, d1) \<and> snd (main_start (sample_start ''second'') d1) = d1"
proof -
  obtain a d1 where a: "main_start (sample_start ''first'') empty_db = (Inr a, d1)" using sample_main_start by blast
  obtain r d2 where r: "main_start (sample_start ''second'') d1 = (r, d2)" by fastforce
  have "s_uuid (sample_start ''first'') \<noteq> []" by (simp add: sample_start_def)
  from install_id_permanent [OF a this r] a r show ?thesis by auto
qed

lemma sample_started:
  obtains a d1 t wenv where "main_start (sample_start ''u'') d = (Inr a, d1)" "t \<in> set (app_tasks a)"
    "start_worker sample_worker_env bad_vt sample_pydantic sample_post (\<lambda>_. 0) t = Some wenv"
proof -
  obtain a d1 where a: "main_start (sample_start ''u'') d = (Inr a, d1)" using sample_main_start by blast
  obtain cfg where cfg: "read_env (sample_start ''u'') = Inr cfg" "cfg_suricata_config_path cfg = DEFAULT_CONFIG_PATH"
    using sample_read_env by blast
  obtain sc where sc: "read_config (s_files (sample_start ''u'')) (Some (cfg_suricata_config_path cfg))
      (s_env (sample_start ''u'') ''VX_SURICATA_CONFIG_PATH'') (s_now (sample_start ''u'')) = Inr sc"
    using sample_config_read cfg(2) by (auto simp: sample_start_def)
  let ?t = "TriageWorker sc (pinned_ollama cfg) (cfg_ollama_url cfg) (cfg_ollama_timeout cfg) (vt_key cfg) (cfg_geoip_country_db cfg)
    (cfg_geoip_asn_db cfg) (cfg_daily_cap cfg)"
  have "?t \<in> set (app_tasks a)"
    using main_start_Inr [OF a cfg(1) refl] by (simp add: sc start_tasks_def blocking_reasons_def) (simp add: sample_start_def)
  with that [OF a] show ?thesis by simp
qed

theorem started_worker_sound_witness:
  "\<exists>a d' t wenv. main_start (sample_start ''u'') (w_db sample_world) = (Inr a, d') \<and> t \<in> set (app_tasks a) \<and>
     start_worker sample_worker_env bad_vt sample_pydantic sample_post (\<lambda>_. 0) t = Some wenv \<and>
     sound (w_db (worker_run wenv 5 (sample_world\<lparr>w_db := d'\<rparr>)))"
proof -
  obtain a d' t wenv where s: "main_start (sample_start ''u'') (w_db sample_world) = (Inr a, d')" "t \<in> set (app_tasks a)"
      "start_worker sample_worker_env bad_vt sample_pydantic sample_post (\<lambda>_. 0) t = Some wenv"
    by (rule sample_started)
  obtain cfg where "read_env (sample_start ''u'') = Inr cfg" using sample_read_env by blast
  from started_worker_sound [OF s(1) this sample_world_sound s(2,3) sample_rely, of "sample_world\<lparr>w_db := d'\<rparr>" 5] s
  show ?thesis by auto
qed

end
