(* ===== verification/Schema.thy ===== *)
theory Schema
  imports Operational_Store
begin

text \<open>
  The schema of the database as it is declared twice: by the ORM models of \<open>src/infra/db/models.py\<close>, from which \<open>init_db\<close>
  creates missing tables, and by the forward-only migrations of \<open>alembic/versions/\<close>; and the sessions of
  \<open>src/infra/db/session.py\<close> in which every operation of a store runs. A schema is the list of its tables; what a table admits
  (\<open>admits\<close>) is what its columns and unique keys require. Lengths of text columns are recorded; SQLite does not enforce them.
\<close>

section \<open>Tables\<close>

datatype sql_type = VARCHAR nat | TEXT | INTEGER | BIGINT | FLOAT | BOOLEAN

record column =
  c_name :: string
  c_type :: sql_type
  c_primary_key :: bool
  c_nullable :: bool
  c_server_default :: "string option"
  c_default :: "json option"

record index =
  i_name :: string
  i_columns :: "string list"
  i_unique :: bool

record table =
  t_name :: string
  t_columns :: "column list"
  t_indexes :: "index list"
  t_uniques :: "string list list"

text \<open>A primary key is never null.\<close>

definition primary_key :: "string \<Rightarrow> sql_type \<Rightarrow> column" where
  "primary_key n t = \<lparr>c_name = n, c_type = t, c_primary_key = True, c_nullable = False, c_server_default = None, c_default = None\<rparr>"

definition required :: "string \<Rightarrow> sql_type \<Rightarrow> column" where
  "required n t = \<lparr>c_name = n, c_type = t, c_primary_key = False, c_nullable = False, c_server_default = None, c_default = None\<rparr>"

definition optional :: "string \<Rightarrow> sql_type \<Rightarrow> column" where
  "optional n t = \<lparr>c_name = n, c_type = t, c_primary_key = False, c_nullable = True, c_server_default = None, c_default = None\<rparr>"

definition ix :: "string \<Rightarrow> string list \<Rightarrow> bool \<Rightarrow> index" where
  "ix n cs u = \<lparr>i_name = n, i_columns = cs, i_unique = u\<rparr>"

section \<open>The models\<close>

definition Alert_table :: table where
  "Alert_table = \<lparr>t_name = ''alerts'', t_columns = [
      primary_key ''alert_id'' (VARCHAR 36), (required ''sensor_id'' INTEGER)\<lparr>c_default := Some (JInt 1)\<rparr>,
      optional ''eve_alert_uuid'' (VARCHAR 36), optional ''signature_id'' INTEGER, optional ''signature_msg'' TEXT,
      optional ''signature_severity'' INTEGER, optional ''flow_id'' BIGINT, optional ''src_ip'' (VARCHAR 45),
      optional ''src_port'' INTEGER, optional ''dst_ip'' (VARCHAR 45), optional ''dst_port'' INTEGER,
      optional ''proto'' (VARCHAR 10), optional ''app_proto'' (VARCHAR 32), optional ''event_timestamp'' (VARCHAR 40),
      required ''ingest_timestamp'' (VARCHAR 40), required ''raw_eve'' TEXT, optional ''home_net_match'' (VARCHAR 4),
      optional ''initiator_role'' (VARCHAR 16), optional ''target_role'' (VARCHAR 16), optional ''attacker_role'' (VARCHAR 16),
      optional ''victim_role'' (VARCHAR 16), optional ''role_assignment_confidence'' (VARCHAR 16),
      optional ''role_assignment_reasoning'' TEXT, optional ''role_assignment_signals'' TEXT,
      (required ''status'' (VARCHAR 16))\<lparr>c_default := Some (JStr ''queued'')\<rparr>,
      (required ''auto_analyzed'' BOOLEAN)\<lparr>c_default := Some (JBool False)\<rparr>,
      optional ''verdict_id'' (VARCHAR 36), optional ''disposition_id'' (VARCHAR 36)],
      t_indexes = [ix ''ix_alerts_flow_id'' [''flow_id''] False,
        ix ''ix_alerts_event_timestamp'' [''event_timestamp''] False,
        ix ''ix_alerts_status'' [''status''] False,
        ix ''ix_alerts_sensor_id'' [''sensor_id''] False,
        ix ''ix_alerts_ingest_timestamp'' [''ingest_timestamp''] False],
      t_uniques = []\<rparr>"

definition EveEvent_table :: table where
  "EveEvent_table = \<lparr>t_name = ''eve_events'', t_columns = [
      primary_key ''event_id'' (VARCHAR 36), (required ''sensor_id'' INTEGER)\<lparr>c_default := Some (JInt 1)\<rparr>,
      required ''event_type'' (VARCHAR 32), optional ''flow_id'' BIGINT, optional ''event_timestamp'' (VARCHAR 40),
      required ''ingest_timestamp'' (VARCHAR 40), required ''raw_eve'' TEXT],
      t_indexes = [ix ''ix_eve_events_flow_id'' [''flow_id''] False,
        ix ''ix_eve_events_event_timestamp'' [''event_timestamp''] False,
        ix ''ix_eve_events_event_type'' [''event_type''] False,
        ix ''ix_eve_events_sensor_id'' [''sensor_id''] False],
      t_uniques = []\<rparr>"

definition SuricataConfigFact_table :: table where
  "SuricataConfigFact_table = \<lparr>t_name = ''suricata_config_facts'', t_columns = [
      primary_key ''fact_id'' (VARCHAR 36), required ''fact_type'' (VARCHAR 32), required ''fact_key'' (VARCHAR 128),
      required ''fact_value'' TEXT, required ''read_at'' (VARCHAR 40),
      (required ''is_current'' BOOLEAN)\<lparr>c_default := Some (JBool True)\<rparr>],
      t_indexes = [ix ''ix_suricata_config_facts_is_current'' [''is_current''] False,
        ix ''ix_suricata_config_facts_fact_type'' [''fact_type''] False],
      t_uniques = []\<rparr>"

definition Verdict_table :: table where
  "Verdict_table = \<lparr>t_name = ''verdicts'', t_columns = [
      primary_key ''verdict_id'' (VARCHAR 36), required ''alert_id'' (VARCHAR 36), required ''verdict_category'' (VARCHAR 32),
      required ''confidence_score'' FLOAT, required ''reasoning'' TEXT, required ''contributing_facts'' TEXT,
      required ''evidence_chain'' TEXT, required ''model_version'' (VARCHAR 128), required ''prompt_version'' (VARCHAR 64),
      required ''llm_inputs'' TEXT, required ''llm_raw_output'' TEXT, required ''latency_ms'' INTEGER,
      (required ''is_current'' BOOLEAN)\<lparr>c_default := Some (JBool True)\<rparr>, required ''created_at'' (VARCHAR 40)],
      t_indexes = [ix ''ix_verdicts_alert_id'' [''alert_id''] False,
        ix ''ix_verdicts_is_current'' [''is_current''] False,
        ix ''ix_verdicts_created_at'' [''created_at''] False],
      t_uniques = []\<rparr>"

definition Disposition_table :: table where
  "Disposition_table = \<lparr>t_name = ''dispositions'', t_columns = [
      primary_key ''disposition_id'' (VARCHAR 36), required ''alert_id'' (VARCHAR 36), optional ''verdict_id'' (VARCHAR 36),
      required ''analyst_user_id'' (VARCHAR 36), required ''disposition_action'' (VARCHAR 16),
      optional ''override_category'' (VARCHAR 32), optional ''override_reason_freetext'' TEXT,
      (required ''schema_version'' INTEGER)\<lparr>c_default := Some (JInt 1)\<rparr>, required ''created_at'' (VARCHAR 40)],
      t_indexes = [ix ''ix_dispositions_alert_id'' [''alert_id''] False,
        ix ''ix_dispositions_analyst_user_id'' [''analyst_user_id''] False,
        ix ''ix_dispositions_created_at'' [''created_at''] False],
      t_uniques = []\<rparr>"

definition User_table :: table where
  "User_table = \<lparr>t_name = ''users'', t_columns = [
      primary_key ''user_id'' (VARCHAR 36), required ''username'' (VARCHAR 128), optional ''password_hash'' (VARCHAR 256),
      (required ''role'' (VARCHAR 16))\<lparr>c_default := Some (JStr ''admin'')\<rparr>, required ''created_at'' (VARCHAR 40),
      optional ''last_login_at'' (VARCHAR 40), (required ''is_active'' BOOLEAN)\<lparr>c_default := Some (JBool True)\<rparr>],
      t_indexes = [ix ''ix_users_username'' [''username''] False],
      t_uniques = [[''username'']]\<rparr>"

definition SystemConfig_table :: table where
  "SystemConfig_table = \<lparr>t_name = ''system_config'', t_columns = [
      primary_key ''config_key'' (VARCHAR 128), required ''config_value'' TEXT, required ''updated_at'' (VARCHAR 40)],
      t_indexes = [],
      t_uniques = []\<rparr>"

definition metadata :: "table list" where
  "metadata = [Alert_table, EveEvent_table, SuricataConfigFact_table, Verdict_table, Disposition_table, User_table, SystemConfig_table]"

text \<open>\<open>Base.metadata.create_all\<close> creates the tables that do not exist, with their indexes, and leaves the others as they are.\<close>

definition create_all :: "table list \<Rightarrow> table list \<Rightarrow> table list" where
  "create_all meta s = s @ filter (\<lambda>t. t_name t \<notin> t_name ` set s) meta"

section \<open>The migrations\<close>

datatype ddl = Create_Table string "column list" | Create_Index string string "string list" bool

definition upgrade_0001 :: "ddl list" where
  "upgrade_0001 = [
      Create_Table ''alerts'' [
        primary_key ''alert_id'' (VARCHAR 36), (required ''sensor_id'' INTEGER)\<lparr>c_server_default := Some ''1''\<rparr>,
        optional ''eve_alert_uuid'' (VARCHAR 36), optional ''signature_id'' INTEGER, optional ''signature_msg'' TEXT,
        optional ''signature_severity'' INTEGER, optional ''flow_id'' BIGINT, optional ''src_ip'' (VARCHAR 45),
        optional ''src_port'' INTEGER, optional ''dst_ip'' (VARCHAR 45), optional ''dst_port'' INTEGER,
        optional ''proto'' (VARCHAR 10), optional ''app_proto'' (VARCHAR 32), optional ''event_timestamp'' (VARCHAR 40),
        required ''ingest_timestamp'' (VARCHAR 40), required ''raw_eve'' TEXT, optional ''home_net_match'' (VARCHAR 4),
        optional ''initiator_role'' (VARCHAR 16), optional ''target_role'' (VARCHAR 16),
        optional ''attacker_role'' (VARCHAR 16), optional ''victim_role'' (VARCHAR 16),
        optional ''role_assignment_confidence'' (VARCHAR 16), optional ''role_assignment_reasoning'' TEXT,
        optional ''role_assignment_signals'' TEXT,
        (required ''status'' (VARCHAR 16))\<lparr>c_server_default := Some ''queued''\<rparr>,
        (required ''auto_analyzed'' BOOLEAN)\<lparr>c_server_default := Some ''0''\<rparr>,
        optional ''verdict_id'' (VARCHAR 36), optional ''disposition_id'' (VARCHAR 36)],
      Create_Index ''ix_alerts_flow_id'' ''alerts'' [''flow_id''] False,
      Create_Index ''ix_alerts_event_timestamp'' ''alerts'' [''event_timestamp''] False,
      Create_Index ''ix_alerts_status'' ''alerts'' [''status''] False,
      Create_Index ''ix_alerts_sensor_id'' ''alerts'' [''sensor_id''] False,
      Create_Index ''ix_alerts_ingest_timestamp'' ''alerts'' [''ingest_timestamp''] False,
      Create_Table ''eve_events'' [
        primary_key ''event_id'' (VARCHAR 36), (required ''sensor_id'' INTEGER)\<lparr>c_server_default := Some ''1''\<rparr>,
        required ''event_type'' (VARCHAR 32), optional ''flow_id'' BIGINT, optional ''event_timestamp'' (VARCHAR 40),
        required ''ingest_timestamp'' (VARCHAR 40), required ''raw_eve'' TEXT],
      Create_Index ''ix_eve_events_flow_id'' ''eve_events'' [''flow_id''] False,
      Create_Index ''ix_eve_events_event_timestamp'' ''eve_events'' [''event_timestamp''] False,
      Create_Index ''ix_eve_events_event_type'' ''eve_events'' [''event_type''] False,
      Create_Index ''ix_eve_events_sensor_id'' ''eve_events'' [''sensor_id''] False,
      Create_Table ''suricata_config_facts'' [
        primary_key ''fact_id'' (VARCHAR 36), required ''fact_type'' (VARCHAR 32), required ''fact_key'' (VARCHAR 128),
        required ''fact_value'' TEXT, required ''read_at'' (VARCHAR 40),
        (required ''is_current'' BOOLEAN)\<lparr>c_server_default := Some ''1''\<rparr>],
      Create_Index ''ix_suricata_config_facts_is_current'' ''suricata_config_facts'' [''is_current''] False,
      Create_Index ''ix_suricata_config_facts_fact_type'' ''suricata_config_facts'' [''fact_type''] False]"

definition upgrade_0002 :: "ddl list" where
  "upgrade_0002 = [
      Create_Table ''verdicts'' [
        primary_key ''verdict_id'' (VARCHAR 36), required ''alert_id'' (VARCHAR 36),
        required ''verdict_category'' (VARCHAR 32), required ''confidence_score'' FLOAT, required ''reasoning'' TEXT,
        required ''contributing_facts'' TEXT, required ''evidence_chain'' TEXT, required ''model_version'' (VARCHAR 128),
        required ''prompt_version'' (VARCHAR 64), required ''llm_inputs'' TEXT, required ''llm_raw_output'' TEXT,
        required ''latency_ms'' INTEGER, (required ''is_current'' BOOLEAN)\<lparr>c_server_default := Some ''1''\<rparr>,
        required ''created_at'' (VARCHAR 40)],
      Create_Index ''ix_verdicts_alert_id'' ''verdicts'' [''alert_id''] False,
      Create_Index ''ix_verdicts_is_current'' ''verdicts'' [''is_current''] False,
      Create_Index ''ix_verdicts_created_at'' ''verdicts'' [''created_at''] False,
      Create_Table ''dispositions'' [
        primary_key ''disposition_id'' (VARCHAR 36), required ''alert_id'' (VARCHAR 36), optional ''verdict_id'' (VARCHAR 36),
        required ''analyst_user_id'' (VARCHAR 36), required ''disposition_action'' (VARCHAR 16),
        optional ''override_category'' (VARCHAR 32), optional ''override_reason_freetext'' TEXT,
        (required ''schema_version'' INTEGER)\<lparr>c_server_default := Some ''1''\<rparr>,
        required ''created_at'' (VARCHAR 40)],
      Create_Index ''ix_dispositions_alert_id'' ''dispositions'' [''alert_id''] False,
      Create_Index ''ix_dispositions_analyst_user_id'' ''dispositions'' [''analyst_user_id''] False,
      Create_Index ''ix_dispositions_created_at'' ''dispositions'' [''created_at''] False,
      Create_Table ''users'' [
        primary_key ''user_id'' (VARCHAR 36), required ''username'' (VARCHAR 128), optional ''password_hash'' (VARCHAR 256),
        (required ''role'' (VARCHAR 16))\<lparr>c_server_default := Some ''admin''\<rparr>,
        required ''created_at'' (VARCHAR 40), optional ''last_login_at'' (VARCHAR 40),
        (required ''is_active'' BOOLEAN)\<lparr>c_server_default := Some ''1''\<rparr>],
      Create_Index ''ix_users_username'' ''users'' [''username''] True,
      Create_Table ''system_config'' [
        primary_key ''config_key'' (VARCHAR 128), required ''config_value'' TEXT, required ''updated_at'' (VARCHAR 40)]]"

record migration =
  revision :: string
  down_revision :: "string option"
  upgrade :: "ddl list"
  downgrade :: "ddl list"

definition versions :: "migration list" where
  "versions =
     [\<lparr>revision = ''0001'', down_revision = None, upgrade = upgrade_0001, downgrade = []\<rparr>,
      \<lparr>revision = ''0002'', down_revision = Some ''0001'', upgrade = upgrade_0002, downgrade = []\<rparr>]"

definition OperationalError :: "string \<Rightarrow> exn" where
  "OperationalError m = Exn ''OperationalError'' m None"

fun apply_ddl :: "ddl \<Rightarrow> table list \<Rightarrow> table list res" where
  "apply_ddl (Create_Table n cs) s =
     (if n \<in> t_name ` set s then Inl (OperationalError (''table '' @ n @ '' already exists''))
      else Inr (s @ [\<lparr>t_name = n, t_columns = cs, t_indexes = [], t_uniques = []\<rparr>]))"
| "apply_ddl (Create_Index i n cs u) s =
     (if n \<notin> t_name ` set s then Inl (OperationalError (''no such table: main.'' @ n))
      else if \<exists>t\<in>set s. i \<in> i_name ` set (t_indexes t) then Inl (OperationalError (''index '' @ i @ '' already exists''))
      else Inr (map (\<lambda>t. if t_name t = n then t\<lparr>t_indexes := t_indexes t @ [ix i cs u]\<rparr> else t) s))"

fun apply_all :: "ddl list \<Rightarrow> table list \<Rightarrow> table list res" where
  "apply_all [] s = Inr s"
| "apply_all (x # xs) s = rbind (apply_ddl x s) (apply_all xs)"

text \<open>\<open>upgrade head\<close>: from the revision of the database, each migration that follows it in turn. The first argument bounds the
  number of steps; as many as there are migrations suffice.\<close>

fun upgrade_head :: "nat \<Rightarrow> migration list \<Rightarrow> string option \<Rightarrow> table list \<Rightarrow> (string option \<times> table list) res" where
  "upgrade_head 0 ms cur s = Inr (cur, s)"
| "upgrade_head (Suc n) ms cur s =
     (case find (\<lambda>m. down_revision m = cur) ms of
        None \<Rightarrow> Inr (cur, s)
      | Some m \<Rightarrow> rbind (apply_all (upgrade m) s) (upgrade_head n ms (Some (revision m))))"

section \<open>What a table admits\<close>

text \<open>A row lists its values in the order of the columns. A unique key constrains the rows in which none of its columns is null.\<close>

definition project :: "table \<Rightarrow> string list \<Rightarrow> json list \<Rightarrow> json list" where
  "project t key r = map (\<lambda>n. case map_of (zip (map c_name (t_columns t)) r) n of Some v \<Rightarrow> v | None \<Rightarrow> JNull) key"

definition keys :: "table \<Rightarrow> string list list" where
  "keys t = [map c_name (filter c_primary_key (t_columns t))] @ t_uniques t @ map i_columns (filter i_unique (t_indexes t))"

definition admits :: "table \<Rightarrow> json list list \<Rightarrow> json list \<Rightarrow> bool" where
  "admits t rows r \<longleftrightarrow> list_all2 (\<lambda>c v. c_nullable c \<or> v \<noteq> JNull) (t_columns t) r \<and>
     (\<forall>k\<in>set (keys t). JNull \<notin> set (project t k r) \<longrightarrow> project t k r \<notin> project t k ` set rows)"

text \<open>The rows of the database, as rows of these tables. The first argument of the verdicts is how the driver writes a number.\<close>

definition nullable_str :: "string option \<Rightarrow> json" where
  "nullable_str x = (case x of None \<Rightarrow> JNull | Some s \<Rightarrow> JStr s)"

definition alert_values :: "alert_row \<Rightarrow> json list" where
  "alert_values r =
     [JStr (a_alert_id r), JInt (a_sensor_id r), a_eve_alert_uuid r, a_signature_id r, a_signature_msg r, a_signature_severity r,
      a_flow_id r, a_src_ip r, a_src_port r, a_dst_ip r, a_dst_port r, a_proto r, a_app_proto r, a_event_timestamp r,
      JStr (a_ingest_timestamp r), JStr (a_raw_eve r), a_home_net_match r, a_initiator_role r, a_target_role r, a_attacker_role r,
      a_victim_role r, a_role_assignment_confidence r, a_role_assignment_reasoning r, a_role_assignment_signals r,
      JStr (a_status r), JBool (a_auto_analyzed r), nullable_str (a_verdict_id r), nullable_str (a_disposition_id r)]"

definition eve_values :: "eve_row \<Rightarrow> json list" where
  "eve_values r = [JStr (e_event_id r), JInt (e_sensor_id r), e_event_type r, e_flow_id r, e_event_timestamp r, JStr (e_ingest_timestamp r),
     JStr (e_raw_eve r)]"

definition verdict_values :: "(rat \<Rightarrow> string) \<Rightarrow> verdict_row \<Rightarrow> json list" where
  "verdict_values num v =
     [JStr (v_verdict_id v), JStr (v_alert_id v), JStr (v_verdict_category v), JFloat (num (v_confidence_score v)), JStr (v_reasoning v),
      JStr (v_contributing_facts v), JStr (v_evidence_chain v), JStr (v_model_version v), JStr (v_prompt_version v),
      JStr (v_llm_inputs v), JStr (v_llm_raw_output v), JInt (v_latency_ms v), JBool (v_is_current v), JStr (v_created_at v)]"

definition disposition_values :: "disposition_row \<Rightarrow> json list" where
  "disposition_values r =
     [d_disposition_id r, d_alert_id r, d_verdict_id r, d_analyst_user_id r, d_disposition_action r, d_override_category r,
      d_override_reason_freetext r, d_schema_version r, d_created_at r]"

definition user_values :: "user_row \<Rightarrow> json list" where
  "user_values u =
     [JStr (u_user_id u), JStr (u_username u), nullable_str (u_password_hash u), JStr (u_role u), JStr (u_created_at u),
      nullable_str (u_last_login_at u), JBool (u_is_active u)]"

section \<open>The two schemas agree\<close>

definition migrated :: "table list" where
  "migrated = (case upgrade_head (length versions) versions None [] of Inr (_, s) \<Rightarrow> s | Inl _ \<Rightarrow> [])"

definition shape :: "table \<Rightarrow> (string \<times> sql_type \<times> bool \<times> bool) list \<times> (string \<times> string list) list" where
  "shape t = (map (\<lambda>c. (c_name c, c_type c, c_primary_key c, c_nullable c)) (t_columns t), map (\<lambda>i. (i_name i, i_columns i)) (t_indexes t))"

text \<open>What a table admits depends on the shape of its columns and on its keys.\<close>

lemma admits_cong:
  assumes "shape u = shape t" "keys u = keys t"
  shows "admits u = admits t"
proof -
  have n: "map c_name (t_columns u) = map c_name (t_columns t)" "map c_nullable (t_columns u) = map c_nullable (t_columns t)"
    using arg_cong [OF assms(1), of "\<lambda>s. map fst (fst s)"] arg_cong [OF assms(1), of "\<lambda>s. map (\<lambda>(_, _, _, b). b) (fst s)"]
    by (simp_all add: shape_def comp_def)
  have l: "list_all2 (\<lambda>c v. c_nullable c \<or> v \<noteq> JNull) cs r = list_all2 (\<lambda>b v. b \<or> v \<noteq> JNull) (map c_nullable cs) r" for cs :: "column list" and r
    by (simp add: list.rel_map)
  show ?thesis unfolding admits_def [abs_def] project_def assms(2) l n ..
qed

lemma migrated_eq: "upgrade_head (length versions) versions None [] = Inr (Some ''0002'', migrated)"
  unfolding migrated_def by code_simp

lemma migrated_same: "map t_name migrated = map t_name metadata" "map shape migrated = map shape metadata" "map keys migrated = map keys metadata"
  by code_simp+

lemma create_all_migrated: "create_all metadata migrated = migrated"
proof -
  have "t_name ` set metadata = t_name ` set migrated" using arg_cong [OF migrated_same(1), of set] by simp
  then show ?thesis by (auto simp: create_all_def filter_empty_conv)
qed

lemma upgrade_after_init: "\<exists>e. upgrade_head (length versions) versions None (create_all metadata []) = Inl e"
proof -
  have "(case upgrade_head (length versions) versions None (create_all metadata []) of Inl _ \<Rightarrow> True | Inr _ \<Rightarrow> False)" by code_simp
  then show ?thesis by (auto split: sum.splits)
qed


section \<open>The checks of the stores\<close>

lemma keys_of:
  "keys Alert_table = [[''alert_id'']]" "keys EveEvent_table = [[''event_id'']]" "keys Verdict_table = [[''verdict_id'']]"
  "keys Disposition_table = [[''disposition_id'']]" "keys User_table = [[''user_id''], [''username'']]"
  by code_simp+

lemma project_of:
  "project Alert_table [''alert_id''] (alert_values r) = [JStr (a_alert_id r)]"
  "project EveEvent_table [''event_id''] (eve_values e) = [JStr (e_event_id e)]"
  "project Verdict_table [''verdict_id''] (verdict_values num v) = [JStr (v_verdict_id v)]"
  "project Disposition_table [''disposition_id''] (disposition_values q) = [d_disposition_id q]"
  "project User_table [''user_id''] (user_values u) = [JStr (u_user_id u)]"
  "project User_table [''username''] (user_values u) = [JStr (u_username u)]"
  by (simp_all add: project_def Alert_table_def EveEvent_table_def Verdict_table_def Disposition_table_def User_table_def
      alert_values_def eve_values_def verdict_values_def disposition_values_def user_values_def primary_key_def required_def)

lemma nulls_of:
  "list_all2 (\<lambda>c v. c_nullable c \<or> v \<noteq> JNull) (t_columns Alert_table) (alert_values r)"
  "list_all2 (\<lambda>c v. c_nullable c \<or> v \<noteq> JNull) (t_columns EveEvent_table) (eve_values e) \<longleftrightarrow> e_event_type e \<noteq> JNull"
  "list_all2 (\<lambda>c v. c_nullable c \<or> v \<noteq> JNull) (t_columns Verdict_table) (verdict_values num v)"
  "list_all2 (\<lambda>c v. c_nullable c \<or> v \<noteq> JNull) (t_columns Disposition_table) (disposition_values q) \<longleftrightarrow>
     JNull \<notin> set [d_disposition_id q, d_alert_id q, d_analyst_user_id q, d_disposition_action q, d_schema_version q, d_created_at q]"
  "list_all2 (\<lambda>c v. c_nullable c \<or> v \<noteq> JNull) (t_columns User_table) (user_values u)"
  by (auto simp: Alert_table_def EveEvent_table_def Verdict_table_def Disposition_table_def User_table_def primary_key_def required_def optional_def
      alert_values_def eve_values_def verdict_values_def disposition_values_def user_values_def)

lemma admits_alert: "admits Alert_table (map alert_values rs) (alert_values r) \<longleftrightarrow> a_alert_id r \<notin> a_alert_id ` set rs"
  by (auto simp: admits_def keys_of project_of nulls_of image_image image_iff)

lemma admits_event:
  "admits EveEvent_table (map eve_values rs) (eve_values r) \<longleftrightarrow> e_event_type r \<noteq> JNull \<and> e_event_id r \<notin> e_event_id ` set rs"
  by (auto simp: admits_def keys_of project_of nulls_of image_image image_iff)

lemma admits_verdict:
  "admits Verdict_table (map (verdict_values num) rs) (verdict_values num r) \<longleftrightarrow> v_verdict_id r \<notin> v_verdict_id ` set rs"
  by (auto simp: admits_def keys_of project_of nulls_of image_image image_iff)

lemma admits_disposition:
  "admits Disposition_table (map disposition_values rs) (disposition_values r) \<longleftrightarrow>
     JNull \<notin> set [d_disposition_id r, d_alert_id r, d_analyst_user_id r, d_disposition_action r, d_schema_version r, d_created_at r] \<and>
     d_disposition_id r \<notin> d_disposition_id ` set rs"
  by (auto simp: admits_def keys_of project_of nulls_of image_image image_iff)

lemma admits_user:
  "admits User_table (map user_values rs) (user_values r) \<longleftrightarrow> u_user_id r \<notin> u_user_id ` set rs \<and> u_username r \<notin> u_username ` set rs"
  by (auto simp: admits_def keys_of project_of nulls_of image_image image_iff)

lemma jor_default: "jor x (JStr s) \<noteq> JNull"
  by (cases x) (simp_all add: jor_def)

text \<open>The constraints the stores meet are those the schema declares: a row of values the driver can bind is inserted exactly
  if the table of the schema admits it beside the rows that are there. So an alert and a verdict fail on a known identifier
  only, an event also without a type, a disposition also without an alert, an analyst, an action or a version; and the
  administrator's account is created in a form the table of users admits.\<close>

theorem stores_enforce_schema:
  assumes "alert_row_of uid now alert st = Inr r" "alert_row_ok r = None"
    and "eve_row_of uid now event = Inr e" "list_all bindable (eve_values e)"
    and "disposition_row_of uid now disp = Inr q" "list_all bindable (disposition_values q)"
  shows "((\<exists>d'. insert_alert uid now alert st d = Inr (uid, d')) \<longleftrightarrow> admits Alert_table (map alert_values (alerts d)) (alert_values r)) \<and>
    ((\<exists>d'. insert_eve_event uid now event d = Inr d') \<longleftrightarrow> admits EveEvent_table (map eve_values (eve_events d)) (eve_values e)) \<and>
    ((\<exists>d'. record_verdict uid now (Some (v_verdict_id v)) (Some (v_created_at v)) v d = Inr d') \<longleftrightarrow>
       admits Verdict_table (map (verdict_values num) (verdicts d)) (verdict_values num v)) \<and>
    ((\<exists>d'. record_disposition uid now disp d = Inr (d_disposition_id q, d')) \<longleftrightarrow>
       admits Disposition_table (map disposition_values (dispositions d)) (disposition_values q)) \<and>
    (\<forall>d' u. ensure_admin_user uid now d = Inr d' \<and> users d' = users d @ [u] \<longrightarrow>
       admits User_table (map user_values (users d)) (user_values u))"
proof (intro conjI)
  have "a_alert_id r = uid" using assms(1) by (auto simp: alert_row_of_def)
  then show "(\<exists>d'. insert_alert uid now alert st d = Inr (uid, d')) \<longleftrightarrow> admits Alert_table (map alert_values (alerts d)) (alert_values r)"
    by (simp add: insert_alert_def assms(1,2) admits_alert del: rbind_eq_Inr)
  have b: "bindable (e_event_type e) \<and> bindable (e_flow_id e) \<and> bindable (e_event_timestamp e)"
    using assms(4) by (simp add: eve_values_def)
  show "(\<exists>d'. insert_eve_event uid now event d = Inr d') \<longleftrightarrow> admits EveEvent_table (map eve_values (eve_events d)) (eve_values e)"
    using b by (simp add: insert_eve_event_def assms(3) admits_event eve_row_ok_def del: rbind_eq_Inr)
  show "(\<exists>d'. record_verdict uid now (Some (v_verdict_id v)) (Some (v_created_at v)) v d = Inr d') \<longleftrightarrow>
      admits Verdict_table (map (verdict_values num) (verdicts d)) (verdict_values num v)"
    by (simp add: record_verdict_def admits_verdict)
  have "d_disposition_id q \<noteq> JNull" "d_created_at q \<noteq> JNull" using assms(5) jor_default by (auto simp: disposition_row_of_def)
  moreover have "list_all bindable [d_disposition_id q, d_alert_id q, d_verdict_id q, d_analyst_user_id q, d_disposition_action q,
      d_override_category q, d_override_reason_freetext q, d_schema_version q, d_created_at q]"
    using assms(6) by (simp add: disposition_values_def)
  ultimately show "(\<exists>d'. record_disposition uid now disp d = Inr (d_disposition_id q, d')) \<longleftrightarrow>
      admits Disposition_table (map disposition_values (dispositions d)) (disposition_values q)"
    by (auto simp: record_disposition_def assms(5) admits_disposition disposition_row_ok_def simp del: rbind_eq_Inr)
  have "u_user_id u \<notin> u_user_id ` set (users d) \<and> u_username u \<notin> u_username ` set (users d)"
    if "ensure_admin_user uid now d = Inr d'" "users d' = users d @ [u]" for d' u
    using that unfolding ensure_admin_user_def
    by (cases "filter (\<lambda>u. u_username u = ''admin'') (users d)") (auto simp: filter_empty_conv split: if_splits, blast)
  then show "\<forall>d' u. ensure_admin_user uid now d = Inr d' \<and> users d' = users d @ [u] \<longrightarrow>
      admits User_table (map user_values (users d)) (user_values u)"
    by (simp add: admits_user)
qed

theorem stores_enforce_schema_witness:
  "\<exists>d'. insert_alert ''i'' 0 (JObj []) ''queued'' empty_db = Inr (''i'', d')"
proof -
  obtain r where r: "alert_row_of ''i'' 0 (JObj []) ''queued'' = Inr r" "alert_row_ok r = None"
    by (simp add: alert_row_of_def dget_def alert_row_ok_def)
  obtain e where e: "eve_row_of ''i'' 0 (JObj []) = Inr e" "list_all bindable (eve_values e)"
    by (simp add: eve_row_of_def dget_def eve_values_def)
  let ?d = "JObj [(''alert_id'', JStr ''a''), (''analyst_user_id'', JStr ''u''), (''disposition_action'', JStr ''accept'')]"
  obtain q where q: "disposition_row_of ''i'' 0 ?d = Inr q" "list_all bindable (disposition_values q)"
    by (simp add: disposition_row_of_def dget_def jor_def disposition_values_def)
  have "admits Alert_table (map alert_values (alerts empty_db)) (alert_values r)" using admits_alert [of "[]" r] by (simp add: empty_db_def)
  then show ?thesis using stores_enforce_schema [OF r e q, of empty_db] by blast
qed

section \<open>Sessions\<close>

text \<open>The module's state: the engine and the session factory, here the address of the database each is bound to.\<close>

record session_state =
  se_engine :: "string option"
  se_factory :: "string option"

definition new_session_state :: session_state where
  "new_session_state = \<lparr>se_engine = None, se_factory = None\<rparr>"

definition not_initialised :: exn where
  "not_initialised = Exn ''ProgrammerError'' ''Database not initialised - call init_db() first'' None"

text \<open>The engine and the factory are there before the tables are created, and stay when that fails.\<close>

definition init_db :: "exn option \<Rightarrow> string \<Rightarrow> session_state \<times> table list \<Rightarrow> unit res \<times> session_state \<times> table list" where
  "init_db fault url = (\<lambda>(st, s).
     let st = st\<lparr>se_engine := Some url, se_factory := Some url\<rparr>
     in case fault of Some e \<Rightarrow> (Inl e, st, s) | None \<Rightarrow> (Inr (), st, create_all metadata s))"

definition close_db :: "session_state \<Rightarrow> session_state" where
  "close_db st = (if se_engine st \<noteq> None then \<lparr>se_engine = None, se_factory = None\<rparr> else st)"

definition get_engine :: "session_state \<Rightarrow> string res" where
  "get_engine st = (case se_engine st of None \<Rightarrow> Inl not_initialised | Some e \<Rightarrow> Inr e)"

text \<open>The statements of a session see each other's effects; the database sees them when the session commits.\<close>

fun statements :: "('d \<Rightarrow> 'd res) list \<Rightarrow> 'd \<Rightarrow> unit res \<times> 'd" where
  "statements [] d = (Inr (), d)"
| "statements (f # fs) d = (case f d of Inl e \<Rightarrow> (Inl e, d) | Inr d' \<Rightarrow> statements fs d')"

definition get_session :: "session_state \<Rightarrow> exn option \<Rightarrow> ('d \<Rightarrow> unit res \<times> 'd) \<Rightarrow> 'd \<Rightarrow> unit res \<times> 'd" where
  "get_session st commit body d =
     (case se_factory st of
        None \<Rightarrow> (Inl not_initialised, d)
      | Some _ \<Rightarrow>
          (case body d of
             (Inl e, _) \<Rightarrow> (Inl e, d)
           | (Inr u, d') \<Rightarrow> (case commit of None \<Rightarrow> (Inr u, d') | Some e \<Rightarrow> (Inl e, d))))"

text \<open>The engine and the factory come and go together.\<close>

definition session_ok :: "session_state \<Rightarrow> bool" where
  "session_ok st \<longleftrightarrow> (se_engine st = None \<longleftrightarrow> se_factory st = None)"

lemma session_ok_new: "session_ok new_session_state"
  by (simp add: session_ok_def new_session_state_def)

lemma session_ok_init: "init_db fault url (st, s) = (r, st', s') \<Longrightarrow> session_ok st'"
  by (auto simp: init_db_def session_ok_def Let_def split: option.splits)

lemma session_ok_close: "session_ok st \<Longrightarrow> session_ok (close_db st) \<and> se_factory (close_db st) = None"
  by (auto simp: close_db_def session_ok_def)

lemma statements_append:
  "statements (fs @ gs) d = (case statements fs d of (Inl e, d') \<Rightarrow> (Inl e, d') | (Inr _, d') \<Rightarrow> statements gs d')"
  by (induction fs arbitrary: d) (simp_all split: sum.splits)

text \<open>A session is all or nothing: with the database initialised, a session of any number of statements leaves exactly what
  its statements leave when all of them and the commit succeed, and otherwise raises and leaves the database as it was,
  however many statements had run; before \<open>init_db\<close> and after \<open>close_db\<close> it raises and runs none.\<close>

theorem session_atomic:
  assumes "session_ok st" "get_session st commit (statements fs) d = (r, d')"
  shows "(r = Inr () \<longrightarrow> statements fs d = (Inr (), d') \<and> commit = None \<and> se_engine st \<noteq> None) \<and> (r \<noteq> Inr () \<longrightarrow> d' = d) \<and>
    (se_engine st \<noteq> None \<and> commit = None \<longrightarrow> r = fst (statements fs d)) \<and>
    get_session (close_db st) commit (statements fs) d = (Inl not_initialised, d) \<and> get_engine (close_db st) = Inl not_initialised"
proof -
  have c: "get_session (close_db st) commit (statements fs) d = (Inl not_initialised, d)" "get_engine (close_db st) = Inl not_initialised"
    using session_ok_close [OF assms(1)] by (auto simp: get_session_def get_engine_def session_ok_def split: option.split)
  show ?thesis
  proof (cases "se_factory st")
    case None
    then show ?thesis using assms c by (auto simp: get_session_def session_ok_def)
  next
    case (Some f)
    obtain u d1 where s: "statements fs d = (u, d1)" by fastforce
    then show ?thesis using assms c Some
      by (cases u; cases commit) (auto simp: get_session_def session_ok_def)
  qed
qed

theorem session_atomic_witness:
  "snd (get_session \<lparr>se_engine = Some ''db'', se_factory = Some ''db''\<rparr> None (statements [Inr \<circ> Suc, (\<lambda>_. Inl not_initialised)]) 7) = 7"
proof -
  let ?s = "\<lparr>se_engine = Some ''db'', se_factory = Some ''db''\<rparr>"
  have "get_session ?s None (statements [Inr \<circ> Suc, (\<lambda>_. Inl not_initialised)]) 7 = (Inl not_initialised, 7)"
    by (simp add: get_session_def)
  from session_atomic [OF _ this] show ?thesis by (simp add: session_ok_def) (simp add: get_session_def)
qed

end
