(* ===== verification/Shutdown.thy ===== *)
theory Shutdown
  imports Pipeline_Correct Startup Schema "HOL-Library.Multiset"
begin

text \<open>
  The end of ingestion: \<open>EvePipeline.run\<close> of \<open>src/ingestion/pipeline.py\<close> stops its four tasks when it is cancelled or one of them fails,
  the indexer and the dispatcher handle their cancellation, and the program's \<open>lifespan\<close> (\<open>src/main.py\<close>) cancels its tasks and closes
  the database. A pipeline started again begins with empty queues, at the end of the log. What becomes of every alert and every
  event is accounted for, over the runs of the pipeline of \<open>Ingestion\<close>.
\<close>

section \<open>Stopping\<close>

definition new_pipeline :: "db \<Rightarrow> pipeline" where
  "new_pipeline d = \<lparr>tailer_queue = [], indexer_queue = [], dispatcher_queue = [], index_batch = [], pending = [], pipe_db = d\<rparr>"

text \<open>Where the cancellation finds the indexer: waiting for an event, or in a flush whose transaction has been committed or not; the
  batch is cleared only when the flush has returned.\<close>

datatype indexer_at = Waiting | Flushing bool

definition interrupted_flush :: "indexer_at \<Rightarrow> (nat \<Rightarrow> string) \<Rightarrow> instant \<Rightarrow> json list \<Rightarrow> db \<Rightarrow> db" where
  "interrupted_flush point uid now batch d =
     (if point = Flushing True then snd (indexer_flush None uid now batch d) else d)"

definition indexer_cancelled :: "exn option \<Rightarrow> (nat \<Rightarrow> string) \<Rightarrow> instant \<Rightarrow> json list \<times> db \<Rightarrow> bool \<times> db" where
  "indexer_cancelled fault uid now bd = (if fst bd \<noteq> [] then indexer_flush fault uid now (fst bd) (snd bd) else (True, snd bd))"

definition dispatcher_cancelled :: "pipeline \<Rightarrow> pipeline" where
  "dispatcher_cancelled p = p\<lparr>pending := []\<rparr>"

record stop_env =
  st_at :: indexer_at
  st_fault :: "exn option"
  st_uids :: "nat \<Rightarrow> string"
  st_uids2 :: "nat \<Rightarrow> string"
  st_now :: instant

text \<open>The handler of \<open>EvePipeline.run\<close>: all tasks are cancelled and waited for. Whether the indexer's last flush worked is returned too.\<close>

definition pipeline_cancelled :: "stop_env \<Rightarrow> pipeline \<Rightarrow> bool \<times> pipeline" where
  "pipeline_cancelled env p =
     (let d = interrupted_flush (st_at env) (st_uids env) (st_now env) (index_batch p) (pipe_db p);
          (ok, d) = indexer_cancelled (st_fault env) (st_uids2 env) (st_now env) (index_batch p, d)
      in (ok, dispatcher_cancelled (p\<lparr>pipe_db := d\<rparr>)))"

text \<open>One poll of the tailer as a task of the pipeline: an exception that escapes it stops the other tasks and is raised again.\<close>

definition pipeline_poll ::
  "stop_env \<Rightarrow> instant \<Rightarrow> stat_result \<Rightarrow> file_read \<Rightarrow> tailer \<times> pipeline \<Rightarrow> exn option \<times> tailer \<times> pipeline" where
  "pipeline_poll env now stat file = (\<lambda>(t, p).
     case tail_poll now stat file t (tailer_queue p) of
       (None, t', q) \<Rightarrow> (None, t', p\<lparr>tailer_queue := q\<rparr>)
     | (Some e, t', q) \<Rightarrow> (Some e, t', snd (pipeline_cancelled env (p\<lparr>tailer_queue := q\<rparr>))))"

text \<open>The end of \<open>lifespan\<close>, with ingestion active or not.\<close>

definition lifespan_stop :: "stop_env \<Rightarrow> pipeline option \<times> session_state \<Rightarrow> pipeline option \<times> session_state" where
  "lifespan_stop env = (\<lambda>(p, st). (map_option (snd \<circ> pipeline_cancelled env) p, close_db st))"

section \<open>What becomes of the alerts\<close>

definition text_of :: "eve_event \<Rightarrow> string" where
  "text_of ev = dumps (ev_raw ev)"

lemma text_of_fun: "text_of = (\<lambda>ev. dumps (ev_raw ev))"
  by (rule ext) (simp add: text_of_def)

definition stored_alerts :: "db \<Rightarrow> string multiset" where
  "stored_alerts d = mset (map a_raw_eve (alerts d))"

text \<open>The alerts on their way to the database.\<close>

definition waiting_alerts :: "pipeline \<Rightarrow> string multiset" where
  "waiting_alerts p = mset (map text_of (pending p @ filter is_alert (dispatcher_queue p @ tailer_queue p)))"

text \<open>The alert a step has handled without inserting it.\<close>

definition dropped :: "pipeline \<Rightarrow> pipeline \<Rightarrow> eve_event multiset" where
  "dropped p p' = (if alerts (pipe_db p') = alerts (pipe_db p) then mset (pending p) - mset (pending p') else {#})"

text \<open>An alert the database refuses, or whose handling meets an exception of the count.\<close>

definition refused :: "int \<Rightarrow> int \<Rightarrow> eve_event \<Rightarrow> bool" where
  "refused h c ev \<longleftrightarrow> (\<exists>uid now1 now2 d. \<forall>i.
     fst (dispatcher_handle (count_analyzed_today h 1) insert_alert c uid now1 now2 ev d) \<noteq> Inr (Some i))"

inductive alert_run :: "nat \<Rightarrow> int \<Rightarrow> int \<Rightarrow> pipeline \<Rightarrow> eve_event list \<Rightarrow> eve_event multiset \<Rightarrow> pipeline \<Rightarrow> bool"
  for b :: nat and h c :: int where
  alert_nil: "alert_run b h c p [] {#} p"
| alert_cons: "pipe_step b h c p evs p' \<Longrightarrow> alert_run b h c p' evs' lost p'' \<Longrightarrow>
    alert_run b h c p (evs @ evs') (dropped p p' + lost) p''"

lemma alert_run_exists: "pipe_run b h c p evs p' \<Longrightarrow> \<exists>lost. alert_run b h c p evs lost p'"
  by (induction rule: pipe_run.induct) (blast intro: alert_run.intros)+

lemma alert_run_pipe: "alert_run b h c p evs lost p' \<Longrightarrow> pipe_run b h c p evs p'"
  by (induction rule: alert_run.induct) (blast intro: pipe_run.intros)+

lemma insert_alert_raw: "insert_alert uid now a st d = Inr (i, d') \<Longrightarrow> \<exists>r. alerts d' = alerts d @ [r] \<and> a_raw_eve r = dumps a"
  by (auto simp: insert_alert_def alert_row_of_def split: option.splits if_splits)

lemma flush_alerts: "alerts (snd (indexer_flush fault uid now b d)) = alerts d"
  using insert_batch_raw by (auto simp: indexer_flush_def split: option.splits sum.splits)

lemma try_flush_alerts: "alerts (snd (try_flush fault uid now bd)) = alerts (snd bd)"
  using flush_alerts [of fault uid now "fst bd" "snd bd"] by (auto simp: try_flush_def split: prod.splits bool.splits)

text \<open>The outcomes of handling an alert: inserted, or dropped.\<close>

lemma handle_cases:
  assumes "dispatcher_handle (count_analyzed_today h 1) insert_alert c uid now1 now2 ev d = (r, d')"
  obtains (inserted) row where "alerts d' = alerts d @ [row]" "a_raw_eve row = text_of ev"
  | (dropped) "alerts d' = alerts d" "refused h c ev"
proof (cases "\<exists>i. r = Inr (Some i)")
  case True
  then obtain i st where "insert_alert uid now2 (ev_raw ev) st d = Inr (i, d')"
    using assms by (auto simp: dispatcher_handle_def Let_def split: sum.splits)
  then show ?thesis using insert_alert_raw inserted by (fastforce simp: text_of_def)
next
  case False
  then have "refused h c ev" using assms unfolding refused_def by (metis fst_conv)
  moreover have "alerts d' = alerts d" using assms False by (auto simp: dispatcher_handle_def Let_def split: sum.splits)
  ultimately show ?thesis by (rule dropped [rotated])
qed

lemma pipe_step_alerts:
  assumes "pipe_step b h c p evs p'"
  shows "stored_alerts (pipe_db p') + image_mset text_of (dropped p p') + waiting_alerts p' =
      stored_alerts (pipe_db p) + waiting_alerts p + image_mset text_of (mset (filter is_alert evs)) \<and>
    (\<forall>ev\<in>#dropped p p'. refused h c ev)"
  using assms
proof (cases rule: pipe_step.cases)
  case (index ev q fault uid now bt d)
  have "alerts d = alerts (pipe_db p)"
    using index(4) try_flush_alerts [of fault uid now "(index_batch p @ [ev_raw ev], pipe_db p)"]
    by (auto simp: indexer_event_def Let_def split: if_splits)
  then show ?thesis using index by (simp add: stored_alerts_def waiting_alerts_def dropped_def)
next
  case (timeout fault uid now bt d)
  have "alerts d = alerts (pipe_db p)"
    using timeout(3) try_flush_alerts [of fault uid now "(index_batch p, pipe_db p)"] by (auto simp: indexer_timeout_def split: if_splits)
  then show ?thesis using timeout by (simp add: stored_alerts_def waiting_alerts_def dropped_def)
next
  case (handle as ev bs uid now1 now2 r d)
  from handle(4) show ?thesis
    by (cases rule: handle_cases) (use handle in \<open>simp_all add: stored_alerts_def waiting_alerts_def dropped_def\<close>)
qed (auto simp: stored_alerts_def waiting_alerts_def dropped_def broadcast_one_def Let_def)

lemma account_trans:
  fixes a :: "'m multiset"
  assumes "a' + l + w' = b + v + e'" "b + d + v = a + w + e"
  shows "a' + (d + l) + w' = a + w + (e + e')"
proof -
  have "a' + (d + l) + w' = d + (a' + l + w')" by (simp add: ac_simps)
  also have "\<dots> = (b + d + v) + e'" unfolding assms(1) by (simp add: ac_simps)
  finally show ?thesis unfolding assms(2) by (simp add: ac_simps)
qed

lemma alert_run_accounts:
  "alert_run b h c p evs lost p' \<Longrightarrow>
     stored_alerts (pipe_db p') + image_mset text_of lost + waiting_alerts p' =
       stored_alerts (pipe_db p) + waiting_alerts p + image_mset text_of (mset (filter is_alert evs)) \<and> (\<forall>ev\<in>#lost. refused h c ev)"
proof (induction rule: alert_run.induct)
  case (alert_cons p evs p' evs' lost p'')
  note step = pipe_step_alerts [OF alert_cons(1)]
  have "stored_alerts (pipe_db p'') + image_mset text_of lost + waiting_alerts p'' =
      stored_alerts (pipe_db p') + waiting_alerts p' + image_mset text_of (mset (filter is_alert evs'))"
    using alert_cons.IH by simp
  from account_trans [OF this, of "image_mset text_of (dropped p p')"] step show ?case using alert_cons.IH by auto
qed simp

lemma new_pipeline_waiting [simp]: "waiting_alerts (new_pipeline d) = {#}" "pipe_db (new_pipeline d) = d"
  by (simp_all add: waiting_alerts_def new_pipeline_def)

text \<open>No alert disappears unseen while ingestion runs: at any time, whatever the interleaving of the tasks, each alert the tailer
  has delivered is exactly once in the database, or in a queue or a task on its way there, or was refused by the database; and
  every alert stored was there at the start or was delivered.\<close>

theorem alerts_accounted:
  assumes "alert_run b h c (new_pipeline d) evs lost p"
  shows "stored_alerts (pipe_db p) + image_mset text_of lost + waiting_alerts p =
      stored_alerts d + image_mset text_of (mset (filter is_alert evs)) \<and> (\<forall>ev\<in>#lost. refused h c ev)"
  using alert_run_accounts [OF assms] by simp

lemma cancelled_alerts:
  assumes "pipeline_cancelled env p = (ok, q)"
  shows "alerts (pipe_db q) = alerts (pipe_db p) \<and> pending q = []"
  using assms flush_alerts [of None "st_uids env" "st_now env" "index_batch p" "pipe_db p"]
    flush_alerts [of "st_fault env" "st_uids2 env" "st_now env" "index_batch p"]
  by (auto simp: pipeline_cancelled_def indexer_cancelled_def dispatcher_cancelled_def interrupted_flush_def Let_def
      split: prod.splits if_splits) (metis snd_conv)+

lemma cancelled_events:
  assumes "pipeline_cancelled env p = (True, q)" "st_at env \<noteq> Flushing True"
  shows "map e_raw_eve (eve_events (pipe_db q)) = indexed_texts (index_batch p, pipe_db p)"
  using assms insert_batch_raw
  by (fastforce simp: pipeline_cancelled_def indexer_cancelled_def dispatcher_cancelled_def interrupted_flush_def indexer_flush_def
      indexed_texts_def Let_def split: prod.splits if_splits option.splits sum.splits)


text \<open>A flush interrupted after its commit is repeated: its events are stored twice.\<close>

lemma interrupted_commit_duplicates:
  assumes "pipeline_cancelled env p = (True, q)" "st_at env = Flushing True" "index_batch p \<noteq> []"
    and "insert_eve_events_batch (st_uids env) (st_now env) (index_batch p) (pipe_db p) = Inr d"
  shows "map e_raw_eve (eve_events (pipe_db q)) =
    map e_raw_eve (eve_events (pipe_db p)) @ map dumps (index_batch p) @ map dumps (index_batch p)"
  using assms insert_batch_raw [OF assms(4)] insert_batch_raw
  by (fastforce simp: pipeline_cancelled_def indexer_cancelled_def dispatcher_cancelled_def interrupted_flush_def indexer_flush_def
      Let_def split: prod.splits option.splits sum.splits)

text \<open>A dead pipeline is reported as healthy: a complete line of the log that is valid JSON but no object raises in the tailer, which
  stops all tasks of the pipeline with the alerts they hold; the status the probe reads is not touched, so the
  probe of a program that was healthy goes on answering that all is well, though nothing is ingested any more.\<close>

theorem dead_pipeline_reports_ok:
  assumes "loads line = Some v" "\<not> is_dict v" "line \<noteq> []" "CHR 0x0A \<notin> set line" "CHR 0x0D \<notin> set line"
    and "t_position t = length old" "ino = 0 \<or> ino = t_inode t" "length old \<le> sz" "st_state (t_status t) \<noteq> ''red''"
  shows "\<exists>t' q. pipeline_poll env now (Stat ino sz) (Contents (old @ line @ [newline])) (t, p) = (Some (AttributeError v ''get''), t', q) \<and>
    pending q = [] \<and> alerts (pipe_db q) = alerts (pipe_db p) \<and>
    liveness (Some (t_status t')) = JsonResp (JObj [(''status'', JStr ''ok''), (''version'', JStr APP_VERSION)]) 200"
proof -
  obtain t' q where r: "tail_poll now (Stat ino sz) (Contents (old @ line @ [newline])) t (tailer_queue p) = (Some (AttributeError v ''get''), t', q)"
    using tailer_stopped_by_scalar_line [OF assms(1-8), of now "tailer_queue p"]
    by (cases "tail_poll now (Stat ino sz) (Contents (old @ line @ [newline])) t (tailer_queue p)") auto
  then have "t_status t' = t_status t"
    by (auto simp: tail_poll_def read_new_lines_def Let_def split: prod.splits option.splits if_splits)
  then have "liveness (Some (t_status t')) = JsonResp (JObj [(''status'', JStr ''ok''), (''version'', JStr APP_VERSION)]) 200"
    using assms(9) by (simp add: liveness_def)
  moreover have "alerts (pipe_db (snd (pipeline_cancelled env (p\<lparr>tailer_queue := q\<rparr>)))) = alerts (pipe_db p) \<and>
      pending (snd (pipeline_cancelled env (p\<lparr>tailer_queue := q\<rparr>))) = []"
    using cancelled_alerts [OF surjective_pairing, of env "p\<lparr>tailer_queue := q\<rparr>"] by simp
  ultimately show ?thesis using r by (auto simp: pipeline_poll_def)
qed

section \<open>Instances\<close>

definition an_alert :: eve_event where
  "an_alert = event_of [(''event_type'', JStr ''alert'')]"

lemma an_alert: "is_alert an_alert"
  unfolding an_alert_def by code_simp

lemma alert_tailed: "alert_run 100 0 300 (new_pipeline d) [an_alert] {#} ((new_pipeline d)\<lparr>tailer_queue := [an_alert]\<rparr>)"
proof -
  have "pipe_step 100 0 300 (new_pipeline d) [an_alert] ((new_pipeline d)\<lparr>tailer_queue := tailer_queue (new_pipeline d) @ [an_alert]\<rparr>)"
    by (rule pipe_step.tail)
  from alert_cons [OF this alert_nil] show ?thesis by (simp add: new_pipeline_def dropped_def)
qed

theorem alerts_accounted_witness:
  "waiting_alerts ((new_pipeline empty_db)\<lparr>tailer_queue := [an_alert]\<rparr>) = {#text_of an_alert#}"
  using alerts_accounted [OF alert_tailed, of empty_db] an_alert by (simp add: stored_alerts_def new_pipeline_def empty_db_def)


theorem dead_pipeline_reports_ok_witness:
  "\<exists>t' q. pipeline_poll \<lparr>st_at = Waiting, st_fault = None, st_uids = show_nat, st_uids2 = show_nat, st_now = 0\<rparr> 0 (Stat 0 2)
      (Contents ([] @ ''5'' @ [newline])) (\<lparr>t_position = 0, t_inode = 0, t_status = new_status 500\<rparr>, new_pipeline empty_db) =
      (Some (AttributeError (JInt 5) ''get''), t', q) \<and>
    liveness (Some (t_status t')) = JsonResp (JObj [(''status'', JStr ''ok''), (''version'', JStr APP_VERSION)]) 200"
proof -
  have l: "loads ''5'' = Some (JInt 5)" by code_simp
  have "st_state (new_status 500) \<noteq> ''red''" by (simp add: new_status_def)
  with dead_pipeline_reports_ok [OF l, of "\<lparr>t_position = 0, t_inode = 0, t_status = new_status 500\<rparr>" "[]" 0 2
      "\<lparr>st_at = Waiting, st_fault = None, st_uids = show_nat, st_uids2 = show_nat, st_now = 0\<rparr>" 0 "new_pipeline empty_db"]
  show ?thesis by auto
qed

end
