(* ===== verification/Evaluation.thy ===== *)
theory Evaluation
  imports Llm Prompt_Context
begin

text \<open>
  The evaluation harness, \<open>eval/\<close>: one corpus entry through prompt and model (\<open>pipeline.py\<close>), the metrics (\<open>scoring.py\<close>), the selection of
  entries, the choice of the client and the exit status (\<open>run.py\<close>). The template engine and the model are arguments. Rates are exact quotients;
  the program's doubles compare with the two thresholds in the same way for every corpus of fewer than \<open>2^50\<close> entries.
  What the harness reads and prints is in \<open>Evaluation_Report\<close>.
\<close>

section \<open>Entries and results\<close>

datatype verdict_category = LIKELY_FP | SUSPICIOUS_INVESTIGATE | LIKELY_TP

definition VerdictCategory :: "verdict_category list" where
  "VerdictCategory = [LIKELY_FP, SUSPICIOUS_INVESTIGATE, LIKELY_TP]"

fun category_value :: "verdict_category \<Rightarrow> string" where
  "category_value LIKELY_FP = ''likely_fp''"
| "category_value SUSPICIOUS_INVESTIGATE = ''suspicious_investigate''"
| "category_value LIKELY_TP = ''likely_tp''"

definition category_of :: "string \<Rightarrow> verdict_category option" where
  "category_of s = find (\<lambda>c. category_value c = s) VerdictCategory"

record corpus_entry =
  ce_alert_id :: string
  ce_raw_eve :: json
  ce_correlated_events :: "json list"
  ce_threat_intel_context :: "threat_intel_hit list"
  ce_ground_truth :: verdict_category
  ce_split :: "string option"

record eval_result =
  er_alert_id :: string
  er_ground_truth :: verdict_category
  er_predicted :: verdict_category
  er_confidence_score :: rat
  er_reasoning :: string
  er_contributing_facts :: "string list"
  er_latency_ms :: int
  er_first_attempt_valid :: bool
  er_attempts :: nat
  er_error :: "string option"

definition er_correct :: "eval_result \<Rightarrow> bool" where
  "er_correct r \<longleftrightarrow> er_ground_truth r = er_predicted r"

definition er_false_negative :: "eval_result \<Rightarrow> bool" where
  "er_false_negative r \<longleftrightarrow> er_ground_truth r = LIKELY_TP \<and> er_predicted r = LIKELY_FP"

section \<open>One entry\<close>

definition PROMPT_VERSION :: string where
  "PROMPT_VERSION = ''verdict_v6''"

definition EVAL_OUTPUT_SCHEMA :: json where
  "EVAL_OUTPUT_SCHEMA =
     JObj [(''type'', JStr ''object''),
       (''properties'', JObj
          [(''verdict_category'', JObj [(''type'', JStr ''string''),
              (''enum'', JArr [JStr ''likely_fp'', JStr ''suspicious_investigate'', JStr ''likely_tp''])]),
           (''confidence_score'', JObj [(''type'', JStr ''number'')]),
           (''reasoning'', JObj [(''type'', JStr ''string'')]),
           (''contributing_facts'', JObj [(''type'', JStr ''array''), (''items'', JObj [(''type'', JStr ''string'')])])]),
       (''required'', JArr [JStr ''verdict_category'', JStr ''confidence_score'', JStr ''reasoning'', JStr ''contributing_facts''])]"

definition error_result :: "corpus_entry \<Rightarrow> string \<Rightarrow> eval_result" where
  "error_result entry msg =
     \<lparr>er_alert_id = ce_alert_id entry, er_ground_truth = ce_ground_truth entry, er_predicted = ce_ground_truth entry, er_confidence_score = 0,
      er_reasoning = [], er_contributing_facts = [], er_latency_ms = 0, er_first_attempt_valid = False, er_attempts = 2, er_error = Some msg\<rparr>"

text \<open>The first argument gives the text of the validation error for an answer of no known category.\<close>

definition evaluate_entry ::
  "(string \<Rightarrow> string) \<Rightarrow> (string \<Rightarrow> prompt_args \<Rightarrow> string res) \<Rightarrow> (string \<Rightarrow> json \<Rightarrow> string \<Rightarrow> json list \<Rightarrow> llm_response res \<times> json list) \<Rightarrow>
   string option \<Rightarrow> corpus_entry \<Rightarrow> json list \<Rightarrow> eval_result res \<times> json list" where
  "evaluate_entry invalid render client prompt_version entry reqs =
     (let version = (case prompt_version of None \<Rightarrow> PROMPT_VERSION | Some v \<Rightarrow> v);
          args = \<lparr>pa_alert = ce_raw_eve entry, pa_correlated_events = ce_correlated_events entry,
                  pa_enrichment_context = eval_enrichment_context_from_hits (ce_threat_intel_context entry),
                  pa_src_hostname = JNull, pa_dst_hostname = JNull\<rparr>
      in case build_prompt render version args of
           Inl e \<Rightarrow> (Inl e, reqs)
         | Inr prompt \<Rightarrow>
             (case client prompt EVAL_OUTPUT_SCHEMA version reqs of
                (Inl e, reqs') \<Rightarrow> (Inr (error_result entry (exn_msg e)), reqs')
              | (Inr r, reqs') \<Rightarrow>
                  (case category_of (lr_verdict_category r) of
                     None \<Rightarrow> (Inr (error_result entry (invalid (lr_verdict_category r))), reqs')
                   | Some c \<Rightarrow>
                       (Inr \<lparr>er_alert_id = ce_alert_id entry, er_ground_truth = ce_ground_truth entry, er_predicted = c,
                          er_confidence_score = lr_confidence_score r, er_reasoning = lr_reasoning r,
                          er_contributing_facts = lr_contributing_facts r, er_latency_ms = lr_latency_ms r,
                          er_first_attempt_valid = lr_first_attempt_valid r, er_attempts = lr_attempts r, er_error = None\<rparr>, reqs'))))"

fun evaluate_all ::
  "(string \<Rightarrow> string) \<Rightarrow> (string \<Rightarrow> prompt_args \<Rightarrow> string res) \<Rightarrow> (string \<Rightarrow> json \<Rightarrow> string \<Rightarrow> json list \<Rightarrow> llm_response res \<times> json list) \<Rightarrow>
   string option \<Rightarrow> corpus_entry list \<Rightarrow> json list \<Rightarrow> eval_result list res \<times> json list" where
  "evaluate_all invalid render client version [] reqs = (Inr [], reqs)"
| "evaluate_all invalid render client version (e # es) reqs =
     (case evaluate_entry invalid render client version e reqs of
        (Inl x, reqs) \<Rightarrow> (Inl x, reqs)
      | (Inr r, reqs) \<Rightarrow>
          (case evaluate_all invalid render client version es reqs of
             (Inl x, reqs) \<Rightarrow> (Inl x, reqs)
           | (Inr rs, reqs) \<Rightarrow> (Inr (r # rs), reqs)))"

section \<open>Metrics\<close>

type_synonym breakdown = "(string \<times> (string \<times> nat) list) list"

record eval_metrics =
  em_total :: nat
  em_errors :: nat
  em_verdict_accuracy :: rat
  em_false_negative_rate :: rat
  em_latency_p95_ms :: int
  em_structured_output_reliability :: rat
  em_per_category_accuracy :: breakdown

definition empty_breakdown :: breakdown where
  "empty_breakdown = map (\<lambda>cat. (category_value cat, map (\<lambda>pred. (category_value pred, 0)) VerdictCategory)) VerdictCategory"

definition cell :: "string \<Rightarrow> string \<Rightarrow> breakdown \<Rightarrow> nat" where
  "cell gt pred b = (case map_of b gt of None \<Rightarrow> 0 | Some row \<Rightarrow> (case map_of row pred of None \<Rightarrow> 0 | Some n \<Rightarrow> n))"

definition add_to_breakdown :: "eval_result \<Rightarrow> breakdown \<Rightarrow> breakdown" where
  "add_to_breakdown r b =
     (let gt = category_value (er_ground_truth r); pred = category_value (er_predicted r);
          row = (case map_of b gt of None \<Rightarrow> [] | Some row \<Rightarrow> row)
      in dict_set gt (dict_set pred (cell gt pred b + 1) row) b)"

definition compute_metrics :: "eval_result list \<Rightarrow> eval_metrics" where
  "compute_metrics results =
     (let scorable = filter (\<lambda>r. er_error r = None) results; errors = length results - length scorable
      in if scorable = []
         then \<lparr>em_total = length results, em_errors = errors, em_verdict_accuracy = 0, em_false_negative_rate = 0, em_latency_p95_ms = 0,
               em_structured_output_reliability = 0, em_per_category_accuracy = []\<rparr>
         else let tp_results = filter (\<lambda>r. er_ground_truth r = LIKELY_TP) scorable;
                  fn_rate = (if tp_results = [] then 0
                    else of_nat (length (filter er_false_negative tp_results)) / of_nat (length tp_results));
                  latencies = sort (map er_latency_ms scorable)
              in \<lparr>em_total = length results, em_errors = errors,
                  em_verdict_accuracy = of_nat (length (filter er_correct scorable)) / of_nat (length scorable),
                  em_false_negative_rate = fn_rate,
                  em_latency_p95_ms = latencies ! (19 * length latencies div 20 - 1),
                  em_structured_output_reliability = of_nat (length (filter er_first_attempt_valid results)) / of_nat (length results),
                  em_per_category_accuracy = fold add_to_breakdown scorable empty_breakdown\<rparr>)"

section \<open>The command\<close>

definition select_entries :: "string option \<Rightarrow> string option \<Rightarrow> int \<Rightarrow> corpus_entry list \<Rightarrow> corpus_entry list" where
  "select_entries split ids limit entries =
     (let entries = (case split of Some (c # cs) \<Rightarrow> filter (\<lambda>e. ce_split e = Some (lower (c # cs))) entries | _ \<Rightarrow> entries);
          entries = (case ids of
              Some (c # cs) \<Rightarrow> filter (\<lambda>e. ce_alert_id e \<in> set (map strip (split_on (CHR '','') (c # cs)))) entries
            | _ \<Rightarrow> entries)
      in if limit > 0 then take (nat limit) entries else entries)"

datatype eval_client = UseOllama ollama string string | UseGemini gemini

definition model_or :: "string \<Rightarrow> string option \<Rightarrow> string" where
  "model_or dflt model = (case model of Some (c # cs) \<Rightarrow> c # cs | _ \<Rightarrow> dflt)"

definition choose_client ::
  "string \<Rightarrow> string option \<Rightarrow> string option \<Rightarrow> string \<Rightarrow> string \<Rightarrow> json option \<Rightarrow> int option \<Rightarrow> eval_client res" where
  "choose_client provider model api_key ollama_url timeout temperature num_thread =
     (if provider = ''gemini''
      then (case api_key of
              Some (c # cs) \<Rightarrow>
                Inr (UseGemini \<lparr>g_api_key = c # cs, g_model = model_or ''gemini-2.5-flash'' model, g_temperature = temperature\<rparr>)
            | _ \<Rightarrow> Inl (Exn ''UsageError'' ''--api-key (or GEMINI_API_KEY env var) is required for --provider gemini'' None))
      else Inr (UseOllama \<lparr>o_model = model_or ''gemma4:e4b-it-q8_0'' model, o_temperature = temperature, o_num_thread = num_thread\<rparr> ollama_url timeout))"

definition exit_status :: "eval_metrics \<Rightarrow> int" where
  "exit_status m = (if em_verdict_accuracy m < 4/5 \<or> em_false_negative_rate m > 1/20 then 1 else 0)"

definition eval_main ::
  "(string \<Rightarrow> string) \<Rightarrow> (string \<Rightarrow> prompt_args \<Rightarrow> string res) \<Rightarrow> (string \<Rightarrow> json \<Rightarrow> string \<Rightarrow> json list \<Rightarrow> llm_response res \<times> json list) \<Rightarrow>
   string option \<Rightarrow> string option \<Rightarrow> string option \<Rightarrow> int \<Rightarrow> corpus_entry list \<Rightarrow> (eval_metrics \<times> int) res" where
  "eval_main invalid render client prompt_version split ids limit entries =
     rbind (fst (evaluate_all invalid render client prompt_version (select_entries split ids limit entries) []))
       (\<lambda>results. let m = compute_metrics results in Inr (m, exit_status m))"

section \<open>Lemmas\<close>

lemma schema_shared: "EVAL_OUTPUT_SCHEMA = OUTPUT_SCHEMA"
  by (simp add: EVAL_OUTPUT_SCHEMA_def OUTPUT_SCHEMA_def CATEGORIES_def)

lemma category_value_inj: "category_value a = category_value b \<longleftrightarrow> a = b"
  by (cases a; cases b) simp_all

lemma category_of_value: "category_of s = Some c \<longleftrightarrow> category_value c = s"
  by (cases c) (auto simp: category_of_def VerdictCategory_def)

lemma category_of_known: "s \<in> set CATEGORIES \<Longrightarrow> category_of s \<noteq> None"
  by (auto simp: CATEGORIES_def category_of_def VerdictCategory_def)

lemma cell_add:
  "cell gt pred (add_to_breakdown r b) =
     cell gt pred b + (if category_value (er_ground_truth r) = gt \<and> category_value (er_predicted r) = pred then 1 else 0)"
  by (auto simp: cell_def add_to_breakdown_def Let_def split: option.split)

lemma cell_empty: "cell gt pred empty_breakdown = 0"
  by (simp add: cell_def empty_breakdown_def VerdictCategory_def)

lemma cell_fold:
  "cell (category_value g) (category_value p) (fold add_to_breakdown rs b) =
     cell (category_value g) (category_value p) b + length (filter (\<lambda>r. er_ground_truth r = g \<and> er_predicted r = p) rs)"
  by (induction rs arbitrary: b) (auto simp: cell_add category_value_inj)

abbreviation confusion :: "eval_result list \<Rightarrow> verdict_category \<Rightarrow> verdict_category \<Rightarrow> nat" where
  "confusion rs g p \<equiv> cell (category_value g) (category_value p) (em_per_category_accuracy (compute_metrics rs))"

lemma confusion_count:
  "filter (\<lambda>r. er_error r = None) rs \<noteq> [] \<Longrightarrow>
   confusion rs g p = length (filter (\<lambda>r. er_error r = None \<and> er_ground_truth r = g \<and> er_predicted r = p) rs)"
  by (simp add: compute_metrics_def Let_def cell_fold cell_empty conj_commute conj_left_commute)

lemma split_count: "length (filter P xs) = sum_list (map (\<lambda>c. length (filter (\<lambda>r. P r \<and> f r = c) xs)) VerdictCategory)"
proof (induction xs)
  case (Cons x xs)
  then show ?case by (cases "f x") (simp_all add: VerdictCategory_def)
qed (simp add: VerdictCategory_def)

definition row_total :: "(verdict_category \<Rightarrow> verdict_category \<Rightarrow> nat) \<Rightarrow> verdict_category \<Rightarrow> nat" where
  "row_total m g = sum_list (map (m g) VerdictCategory)"

lemma row_total_count:
  assumes "filter (\<lambda>r. er_error r = None) rs \<noteq> []"
  shows "row_total (confusion rs) g = length (filter (\<lambda>r. er_error r = None \<and> er_ground_truth r = g) rs)"
  unfolding row_total_def confusion_count [OF assms] split_count [of "\<lambda>r. er_error r = None \<and> er_ground_truth r = g" rs er_predicted] conj_assoc ..

text \<open>The reported rates are those of the reported confusion matrix: accuracy is the share of its diagonal, and the false-negative rate is the share
  of true positives called false positives in the row of true positives; the matrix counts every entry that did not end in an error,
  once.\<close>

theorem metrics_match_confusion:
  assumes "filter (\<lambda>r. er_error r = None) rs \<noteq> []"
  shows "sum_list (map (row_total (confusion rs)) VerdictCategory) + em_errors (compute_metrics rs) = length rs \<and>
    em_verdict_accuracy (compute_metrics rs) =
      of_nat (sum_list (map (\<lambda>c. confusion rs c c) VerdictCategory)) / of_nat (sum_list (map (row_total (confusion rs)) VerdictCategory)) \<and>
    em_false_negative_rate (compute_metrics rs) =
      (if row_total (confusion rs) LIKELY_TP = 0 then 0
       else of_nat (confusion rs LIKELY_TP LIKELY_FP) / of_nat (row_total (confusion rs) LIKELY_TP))"
proof -
  let ?ok = "\<lambda>r. er_error r = None"
  have all: "sum_list (map (row_total (confusion rs)) VerdictCategory) = length (filter ?ok rs)"
    unfolding row_total_count [OF assms] split_count [of ?ok rs er_ground_truth] ..
  have diag: "sum_list (map (\<lambda>c. confusion rs c c) VerdictCategory) = length (filter er_correct (filter ?ok rs))"
    unfolding confusion_count [OF assms] filter_filter split_count [of "\<lambda>r. ?ok r \<and> er_correct r" rs er_ground_truth]
    by (intro arg_cong [where f = sum_list] map_cong refl arg_cong [where f = length] filter_cong) (auto simp: er_correct_def)
  have row: "row_total (confusion rs) LIKELY_TP = length (filter (\<lambda>r. er_ground_truth r = LIKELY_TP) (filter ?ok rs))"
    unfolding row_total_count [OF assms] filter_filter ..
  have fn: "confusion rs LIKELY_TP LIKELY_FP = length (filter er_false_negative (filter (\<lambda>r. er_ground_truth r = LIKELY_TP) (filter ?ok rs)))"
    unfolding confusion_count [OF assms] filter_filter
    by (intro arg_cong [where f = length] filter_cong) (auto simp: er_false_negative_def)
  show ?thesis
    unfolding all diag row fn using assms by (simp add: compute_metrics_def Let_def)
qed

lemma evaluate_entry_faithful:
  assumes "evaluate_entry invalid render client version e reqs = (Inr r, reqs')"
  shows "er_alert_id r = ce_alert_id e \<and> er_ground_truth r = ce_ground_truth e \<and> (er_error r \<noteq> None \<longrightarrow> er_predicted r = ce_ground_truth e)"
  using assms by (auto simp: evaluate_entry_def error_result_def Let_def split: sum.splits prod.splits option.splits)

lemma evaluate_all_faithful:
  assumes "evaluate_all invalid render client version es reqs = (Inr rs, reqs')"
  shows "map er_alert_id rs = map ce_alert_id es \<and> map er_ground_truth rs = map ce_ground_truth es"
  using assms
proof (induction es arbitrary: reqs rs)
  case (Cons e es)
  then show ?case by (auto split: prod.splits sum.splits dest!: evaluate_entry_faithful)
qed simp

text \<open>An entry whose model call failed carries the expected verdict as its prediction, but it is left out of both rates: a run in which the model
  answers one entry and fails on all the others meets the bar.\<close>

lemma errors_pass_the_bar:
  assumes "er_error r = None" "er_correct r" "\<And>x. x \<in> set rs \<Longrightarrow> er_error x \<noteq> None"
  shows "exit_status (compute_metrics (r # rs)) = 0"
proof -
  have "filter (\<lambda>r. er_error r = None) rs = []" using assms(3) by (simp add: filter_empty_conv)
  then show ?thesis using assms(1,2)
    by (auto simp: exit_status_def compute_metrics_def Let_def er_correct_def er_false_negative_def)
qed

definition sample_result :: "verdict_category \<Rightarrow> verdict_category \<Rightarrow> eval_result" where
  "sample_result gt pred =
     \<lparr>er_alert_id = ''a'', er_ground_truth = gt, er_predicted = pred, er_confidence_score = 1, er_reasoning = [], er_contributing_facts = [],
      er_latency_ms = 100, er_first_attempt_valid = True, er_attempts = 1, er_error = None\<rparr>"

theorem metrics_match_confusion_witness:
  "em_verdict_accuracy (compute_metrics [sample_result LIKELY_FP LIKELY_FP, sample_result LIKELY_TP LIKELY_FP]) = 1 / 2"
proof -
  let ?rs = "[sample_result LIKELY_FP LIKELY_FP, sample_result LIKELY_TP LIKELY_FP]"
  have ne: "filter (\<lambda>r. er_error r = None) ?rs \<noteq> []" by (simp add: sample_result_def)
  have "sum_list (map (\<lambda>c. confusion ?rs c c) VerdictCategory) = 1" "sum_list (map (row_total (confusion ?rs)) VerdictCategory) = 2"
    by code_simp+
  with metrics_match_confusion [OF ne] show ?thesis by simp
qed

end
