(* ===== verification/Evaluation_Report.thy ===== *)
theory Evaluation_Report
  imports Evaluation
begin

text \<open>
  What the evaluation harness reads and prints: the corpus file (\<open>eval/corpus/loader.py\<close>), what the command announces
  (\<open>eval/run.py\<close>), and the report (\<open>eval/report.py\<close>) as the list of the lines it prints and as the object it saves. The validation of an entry by
  pydantic and the way a float is written with a number of decimals are arguments; a line with the symbols of the report holds their UTF-8 bytes.
\<close>

section \<open>Formatting\<close>

definition ljust :: "nat \<Rightarrow> string \<Rightarrow> string" where
  "ljust n s = s @ replicate (n - char_len s) CHR '' ''"

definition rjust :: "nat \<Rightarrow> string \<Rightarrow> string" where
  "rjust n s = replicate (n - char_len s) CHR '' '' @ s"

definition PASS :: string where
  "PASS = [CHR 0xE2, CHR 0x9C, CHR 0x93]"

definition FAIL :: string where
  "FAIL = [CHR 0xE2, CHR 0x9C, CHR 0x97]"

definition WARN :: string where
  "WARN = [CHR 0xE2, CHR 0x9A, CHR 0xA0]"

section \<open>The corpus\<close>

definition load_corpus :: "(json \<Rightarrow> corpus_entry res) \<Rightarrow> string \<Rightarrow> corpus_entry list res" where
  "load_corpus validate file =
     rbind (case loads file of Some v \<Rightarrow> Inr v | None \<Rightarrow> Inl (Exn ''JSONDecodeError'' ''Expecting value'' None)) (\<lambda>raw.
     rbind (jindex raw ''entries'') (\<lambda>entries.
     rbind (jiter entries) (\<lambda>items.
       rmap validate items)))"

text \<open>The validator of the list of correlated events: a missing list is empty.\<close>

definition coerce_correlated :: "json \<Rightarrow> json list res" where
  "coerce_correlated v = (if v = JNull then Inr [] else jiter v)"

section \<open>What the command announces\<close>

definition announce :: "(json \<Rightarrow> string) \<Rightarrow> string \<Rightarrow> corpus_entry list \<Rightarrow> eval_client \<Rightarrow> int option \<Rightarrow> string option \<Rightarrow> string list" where
  "announce num corpus entries client num_thread prompt_version =
     (let loaded = ''Loaded '' @ show_nat (length entries) @ '' corpus entries from '' @ corpus;
          version = (case prompt_version of
             Some (c # cs) \<Rightarrow> [''Prompt version: '' @ (c # cs) @ ''  (override of pinned '' @ PROMPT_VERSION @ '')'']
           | _ \<Rightarrow> [])
      in (case client of
            UseGemini g \<Rightarrow>
              (case num_thread of None \<Rightarrow> [] | Some _ \<Rightarrow> [''Warning: --num-thread has no effect with --provider gemini (ignored).'']) @
              [loaded, ''Provider: Gemini  Model: '' @ g_model g @ ''  Temperature: ''
                 @ (case g_temperature g of None \<Rightarrow> ''API default'' | Some t \<Rightarrow> num t)]
          | UseOllama ol url _ \<Rightarrow>
              [loaded, ''Provider: Ollama  Model: '' @ o_model ol @ ''  URL: '' @ url @ ''  Temperature: ''
                 @ (case o_temperature ol of None \<Rightarrow> ''model default'' | Some t \<Rightarrow> num t) @ ''  num_thread: ''
                 @ (case o_num_thread ol of None \<Rightarrow> ''Ollama default (visible cores)'' | Some n \<Rightarrow> show_int n)])
         @ version @ [[]])"

section \<open>The report\<close>

definition pass_fail :: "rat \<Rightarrow> rat \<Rightarrow> bool \<Rightarrow> string" where
  "pass_fail val target lower_is_better =
     (if lower_is_better then (if val \<le> target then PASS else FAIL) else (if val \<ge> target then PASS else FAIL))"

definition metric_lines :: "(nat \<Rightarrow> rat \<Rightarrow> string) \<Rightarrow> eval_metrics \<Rightarrow> string list" where
  "metric_lines fmt m =
     [''  METRIC                          VALUE    TARGET   STATUS'',
      ''  '' @ replicate 55 CHR ''-'',
      ''  Verdict accuracy                '' @ rjust 6 (fmt 1 (em_verdict_accuracy m * 100)) @ ''%   >=80%    ''
        @ pass_fail (em_verdict_accuracy m) (4/5) False,
      ''  False-negative rate             '' @ rjust 6 (fmt 1 (em_false_negative_rate m * 100)) @ ''%   <=5%     ''
        @ pass_fail (em_false_negative_rate m) (1/20) True,
      ''  Latency p95                  '' @ rjust 7 (fmt 1 (of_int (em_latency_p95_ms m) / 1000)) @ ''s   <=180s'',
      ''  Structured-output reliability   '' @ rjust 6 (fmt 1 (em_structured_output_reliability m * 100)) @ ''%   >=99%    ''
        @ pass_fail (em_structured_output_reliability m) (99/100) False,
      []]"

definition matrix_cell :: "breakdown \<Rightarrow> string \<Rightarrow> string \<Rightarrow> string" where
  "matrix_cell b gt pred =
     (let count = cell gt pred b
      in rjust 11 (show_nat count) @ (if gt \<noteq> pred \<and> count > 0 then ''*'' else '' '') @ '' '')"

definition matrix_lines :: "breakdown \<Rightarrow> string list" where
  "matrix_lines b =
     (let cats = map category_value VerdictCategory
      in [''  CONFUSION MATRIX (rows=ground_truth, cols=predicted)'',
          ''  '' @ ljust 30 [] @ join ''  '' (map (\<lambda>c. ljust 12 (take_chars 12 c)) cats)]
         @ map (\<lambda>gt. ''  '' @ ljust 30 gt @ concat (map (matrix_cell b gt) cats)) cats @ [[]])"

definition false_negatives :: "eval_result list \<Rightarrow> eval_result list" where
  "false_negatives results = filter (\<lambda>r. er_error r = None \<and> er_false_negative r) results"

definition misclassified :: "eval_result list \<Rightarrow> eval_result list" where
  "misclassified results = filter (\<lambda>r. er_error r = None \<and> \<not> er_correct r \<and> \<not> er_false_negative r) results"

definition failed_entries :: "eval_result list \<Rightarrow> eval_result list" where
  "failed_entries results = filter (\<lambda>r. er_error r \<noteq> None) results"

definition miss_line :: "(nat \<Rightarrow> rat \<Rightarrow> string) \<Rightarrow> eval_result \<Rightarrow> string" where
  "miss_line fmt r = ''    '' @ er_alert_id r @ ''  conf='' @ fmt 2 (er_confidence_score r) @ ''  '' @ take_chars 80 (er_reasoning r)"

definition wrong_line :: "(nat \<Rightarrow> rat \<Rightarrow> string) \<Rightarrow> eval_result \<Rightarrow> string" where
  "wrong_line fmt r = ''    '' @ er_alert_id r @ ''  gt='' @ category_value (er_ground_truth r) @ ''  pred=''
     @ category_value (er_predicted r) @ ''  conf='' @ fmt 2 (er_confidence_score r)"

definition error_line :: "eval_result \<Rightarrow> string" where
  "error_line r = ''    '' @ er_alert_id r @ ''  '' @ take_chars 100 (case er_error r of Some e \<Rightarrow> e | None \<Rightarrow> [])"

definition listing :: "(eval_result list \<Rightarrow> string) \<Rightarrow> (eval_result \<Rightarrow> string) \<Rightarrow> eval_result list \<Rightarrow> string list" where
  "listing title line rs = (if rs = [] then [] else [title rs] @ map line rs @ [[]])"

definition print_report :: "(nat \<Rightarrow> rat \<Rightarrow> string) \<Rightarrow> eval_metrics \<Rightarrow> eval_result list \<Rightarrow> string list" where
  "print_report fmt m results =
     [[], replicate 60 CHR ''='', ''VERDIX EVAL HARNESS '' @ emdash @ '' RESULTS'', replicate 60 CHR ''='',
      ''  Total entries evaluated : '' @ show_nat (em_total m), ''  Errors (LLM/timeout)    : '' @ show_nat (em_errors m), []]
     @ metric_lines fmt m @ matrix_lines (em_per_category_accuracy m)
     @ listing (\<lambda>rs. ''  '' @ FAIL @ '' FALSE NEGATIVES ('' @ show_nat (length rs) @ '') '' @ emdash @ '' TP alerts called FP:'')
         (miss_line fmt) (false_negatives results)
     @ listing (\<lambda>rs. ''  '' @ WARN @ '' OTHER MISCLASSIFICATIONS ('' @ show_nat (length rs) @ ''):'') (wrong_line fmt) (misclassified results)
     @ listing (\<lambda>rs. ''  '' @ FAIL @ '' ERRORS ('' @ show_nat (length rs) @ ''):'') error_line (failed_entries results)
     @ [replicate 60 CHR ''='']"

text \<open>The object \<open>save_json_report\<close> writes; \<open>num\<close> is the text of a float.\<close>

definition dump_result :: "(rat \<Rightarrow> string) \<Rightarrow> eval_result \<Rightarrow> json" where
  "dump_result num r =
     JObj [(''alert_id'', JStr (er_alert_id r)), (''ground_truth'', JStr (category_value (er_ground_truth r))),
       (''predicted'', JStr (category_value (er_predicted r))), (''confidence_score'', JFloat (num (er_confidence_score r))),
       (''reasoning'', JStr (er_reasoning r)), (''contributing_facts'', JArr (map JStr (er_contributing_facts r))),
       (''latency_ms'', JFloat (num (of_int (er_latency_ms r)))), (''first_attempt_valid'', JBool (er_first_attempt_valid r)),
       (''attempts'', JInt (int (er_attempts r))), (''error'', jopt (er_error r))]"

definition json_report :: "(rat \<Rightarrow> string) \<Rightarrow> eval_metrics \<Rightarrow> eval_result list \<Rightarrow> string \<Rightarrow> json" where
  "json_report num m results prompt_version =
     JObj [(''prompt_version'', JStr prompt_version),
       (''metrics'', JObj [(''total'', JInt (int (em_total m))), (''errors'', JInt (int (em_errors m))),
          (''verdict_accuracy'', JFloat (num (em_verdict_accuracy m))), (''false_negative_rate'', JFloat (num (em_false_negative_rate m))),
          (''latency_p95_ms'', JFloat (num (of_int (em_latency_p95_ms m)))),
          (''structured_output_reliability'', JFloat (num (em_structured_output_reliability m)))]),
       (''per_category_accuracy'', JObj (map (\<lambda>(gt, row). (gt, JObj (map (\<lambda>(p, n). (p, JInt (int n))) row))) (em_per_category_accuracy m))),
       (''results'', JArr (map (dump_result num) results))]"

section \<open>The report accounts for every result\<close>

lemma PASS_FAIL [simp]: "PASS \<noteq> FAIL" "FAIL \<noteq> PASS"
  by (simp_all add: PASS_def FAIL_def)

lemma partition_results:
  "length (filter (\<lambda>r. er_error r = None \<and> er_correct r) rs) + length (false_negatives rs) + length (misclassified rs) +
   length (failed_entries rs) = length rs"
  by (induction rs) (auto simp: false_negatives_def misclassified_def failed_entries_def er_correct_def er_false_negative_def)

lemma listing_lines: "r \<in> set rs \<Longrightarrow> line r \<in> set (listing title line rs)"
  by (auto simp: listing_def)

lemma id_shown: "sublist (er_alert_id r) (miss_line fmt r)" "sublist (er_alert_id r) (wrong_line fmt r)" "sublist (er_alert_id r) (error_line r)"
  unfolding miss_line_def wrong_line_def error_line_def by (metis append_assoc sublist_appendI)+



text \<open>The mark for the reliability of the structured output has no part in the exit status.\<close>

lemma unreliable_output_passes:
  "exit_status (compute_metrics [sample_result LIKELY_FP LIKELY_FP\<lparr>er_first_attempt_valid := False\<rparr>]) = 0 \<and>
   pass_fail (em_structured_output_reliability (compute_metrics [sample_result LIKELY_FP LIKELY_FP\<lparr>er_first_attempt_valid := False\<rparr>])) (99/100) False = FAIL"
  by (simp add: compute_metrics_def exit_status_def pass_fail_def er_correct_def sample_result_def Let_def)

section \<open>The command line\<close>

text \<open>The options \<open>main\<close> declares: whether they are required, their default, the type their text is converted to and the variable they may come
  from. The conversion is click's and an argument.\<close>

datatype option_type = TextOption | ChoiceOption "string list" | IntOption | FloatOption | PathOption bool

record cli_option =
  op_required :: bool
  op_default :: "string option"
  op_type :: option_type
  op_envvar :: "string option"

definition plain_option :: cli_option where
  "plain_option = \<lparr>op_required = False, op_default = None, op_type = TextOption, op_envvar = None\<rparr>"

definition cli_options :: "(string \<times> cli_option) list" where
  "cli_options =
     [(''corpus'', plain_option\<lparr>op_required := True, op_type := PathOption True\<rparr>),
      (''provider'', plain_option\<lparr>op_default := Some ''ollama'', op_type := ChoiceOption [''ollama'', ''gemini'']\<rparr>),
      (''model'', plain_option),
      (''limit'', plain_option\<lparr>op_default := Some ''0'', op_type := IntOption\<rparr>),
      (''ids'', plain_option),
      (''split'', plain_option\<lparr>op_type := ChoiceOption [''dev'', ''held_out'']\<rparr>),
      (''output'', plain_option\<lparr>op_type := PathOption False\<rparr>),
      (''ollama-url'', plain_option\<lparr>op_default := Some ''http://localhost:11434/api/chat''\<rparr>),
      (''api-key'', plain_option\<lparr>op_envvar := Some ''GEMINI_API_KEY''\<rparr>),
      (''timeout'', plain_option\<lparr>op_default := Some ''300.0'', op_type := FloatOption\<rparr>),
      (''temperature'', plain_option\<lparr>op_type := FloatOption\<rparr>),
      (''num-thread'', plain_option\<lparr>op_type := IntOption\<rparr>),
      (''prompt-version'', plain_option)]"

definition option_text :: "(string \<Rightarrow> string option) \<Rightarrow> (string \<Rightarrow> string option) \<Rightarrow> string \<Rightarrow> cli_option \<Rightarrow> string option" where
  "option_text env args name opt =
     (case args name of
        Some v \<Rightarrow> Some v
      | None \<Rightarrow>
          (case Option.bind (op_envvar opt) env of
             Some (c # cs) \<Rightarrow> Some (c # cs)
           | _ \<Rightarrow> op_default opt))"

definition option_value ::
  "(option_type \<Rightarrow> string \<Rightarrow> string res) \<Rightarrow> (string \<Rightarrow> string option) \<Rightarrow> (string \<Rightarrow> string option) \<Rightarrow> string \<Rightarrow> string option res" where
  "option_value convert env args name =
     (case map_of cli_options name of
        None \<Rightarrow> Inr None
      | Some opt \<Rightarrow>
          (case option_text env args name opt of
             None \<Rightarrow> (if op_required opt then Inl (Exn ''MissingParameter'' name None) else Inr None)
           | Some v \<Rightarrow> rbind (convert (op_type opt) v) (\<lambda>v. Inr (Some v))))"

text \<open>The client and the entries of a command line; an option with a default always has a value.\<close>

definition command_client ::
  "(option_type \<Rightarrow> string \<Rightarrow> string res) \<Rightarrow> (string \<Rightarrow> int) \<Rightarrow> (string \<Rightarrow> string option) \<Rightarrow> (string \<Rightarrow> string option) \<Rightarrow> eval_client res" where
  "command_client convert int_of env args =
     (let opt = option_value convert env args; or_empty = (\<lambda>v. case v of Some s \<Rightarrow> s | None \<Rightarrow> [])
      in rbind (opt ''provider'') (\<lambda>provider. rbind (opt ''model'') (\<lambda>model. rbind (opt ''ollama-url'') (\<lambda>url.
         rbind (opt ''api-key'') (\<lambda>key. rbind (opt ''timeout'') (\<lambda>timeout. rbind (opt ''temperature'') (\<lambda>temp. rbind (opt ''num-thread'') (\<lambda>threads.
           choose_client (or_empty provider) model key (or_empty url) (or_empty timeout) (map_option JFloat temp) (map_option int_of threads)))))))))"

definition command_entries ::
  "(option_type \<Rightarrow> string \<Rightarrow> string res) \<Rightarrow> (string \<Rightarrow> int) \<Rightarrow> (string \<Rightarrow> string option) \<Rightarrow> (string \<Rightarrow> string option) \<Rightarrow> corpus_entry list \<Rightarrow>
   corpus_entry list res" where
  "command_entries convert int_of env args entries =
     (let opt = option_value convert env args
      in rbind (opt ''split'') (\<lambda>split. rbind (opt ''ids'') (\<lambda>ids. rbind (opt ''limit'') (\<lambda>limit.
           Inr (select_entries split ids (case limit of Some s \<Rightarrow> int_of s | None \<Rightarrow> 0) entries)))))"

text \<open>With no option but the corpus, the whole corpus goes to the local Ollama with the default model; the key for Gemini may come from the
  environment, but does not choose the provider.\<close>

lemma default_command:
  assumes "\<And>ty v. convert ty v = Inr v" "args = [''corpus'' \<mapsto> path]" "int_of ''0'' = 0"
  shows "command_client convert int_of env args =
      Inr (UseOllama \<lparr>o_model = ''gemma4:e4b-it-q8_0'', o_temperature = None, o_num_thread = None\<rparr> ''http://localhost:11434/api/chat'' ''300.0'') \<and>
    command_entries convert int_of env args entries = Inr entries"
  using assms(1,3) unfolding assms(2)
  by (auto simp: command_client_def command_entries_def option_value_def option_text_def cli_options_def plain_option_def choose_client_def
      model_or_def select_entries_def Let_def split: option.splits list.splits)

end
