(* ===== verification/Lifecycle.thy ===== *)
theory Lifecycle
  imports Worker_Correct
begin

text \<open>
  The life of an alert, over all the transactions of \<open>src/infra/db/event_store.py\<close> and \<open>operational_store.py\<close> that touch it:
  what the worker (\<open>src/triage/worker.py\<close>) and the other tasks do to one alert refines a small state machine, and the queue
  serves every alert. The abstraction of a database is the phase of the alert (\<open>phase_of\<close>); \<open>life\<close> is the machine. Actions
  with an exceptional exit have triples with a postcondition for each exit (\<open>exits\<close>).
\<close>

section \<open>The machine\<close>

datatype phase = Absent | Queued | Deferred | Analyzing | Failed | Analyzed "string option" | Unknown string

text \<open>The phase two columns of the row, \<open>status\<close> and \<open>verdict_id\<close>, stand for.\<close>

definition status_phase :: "string \<Rightarrow> string option \<Rightarrow> phase" where
  "status_phase s v =
     (if s = ''queued'' then Queued else if s = ''deferred'' then Deferred else if s = ''analyzing'' then Analyzing
      else if s = ''failed'' then Failed else if s = ''analyzed'' then Analyzed v else Unknown s)"

abbreviation row_phase :: "alert_row \<Rightarrow> phase" where
  "row_phase r \<equiv> status_phase (a_status r) (a_verdict_id r)"

definition phase_of :: "string \<Rightarrow> db \<Rightarrow> phase" where
  "phase_of a d = (case get_alert a d of None \<Rightarrow> Absent | Some r \<Rightarrow> row_phase r)"

inductive life :: "phase \<Rightarrow> phase \<Rightarrow> bool" where
  admitted: "life Absent Queued"
| deferred: "life Absent Deferred"
| started: "life Queued Analyzing"
| not_started: "life Queued Failed"
| failed: "life Analyzing Failed"
| analysed: "life Analyzing (Analyzed (Some v))"

inductive_simps life_from [simp]: "life Deferred p" "life Failed p" "life (Analyzed v) p" "life (Unknown s) p"
inductive_cases life_queued: "life Queued p"
inductive_cases life_analyzing: "life Analyzing p"

lemma life_final:
  assumes "life\<^sup>*\<^sup>* p q" "p \<in> {Deferred, Failed} \<or> p = Analyzed v \<or> p = Unknown s"
  shows "q = p"
  using assms(1,2) by (induction rule: converse_rtranclp_induct) auto

lemma life_analyzing_star:
  assumes "life\<^sup>*\<^sup>* Analyzing q"
  shows "q \<in> {Analyzing, Failed} \<or> (\<exists>v. q = Analyzed (Some v))"
  using assms
proof (cases rule: converse_rtranclpE)
  case (step p)
  then show ?thesis using life_final [OF step(2)] by (auto elim!: life_analyzing)
qed simp

section \<open>The phase under each write\<close>

lemma status_phase_simps [simp]:
  "status_phase ''queued'' v = Queued" "status_phase ''deferred'' v = Deferred" "status_phase ''analyzing'' v = Analyzing"
  "status_phase ''failed'' v = Failed" "status_phase ''analyzed'' v = Analyzed v" "status_phase s v \<noteq> Absent"
  "status_phase s v = Queued \<longleftrightarrow> s = ''queued''"
  by (auto simp: status_phase_def)

lemma phase_none: "phase_of b d = Absent \<longleftrightarrow> get_alert b d = None"
  by (simp add: phase_of_def split: option.split)

lemma phase_same_alerts: "alerts d' = alerts d \<Longrightarrow> phase_of b d' = phase_of b d"
  by (simp add: phase_of_def get_alert_def)

lemma phase_supersede: "phase_of b (mark_previous_verdicts_superseded a d) = phase_of b d"
  by (rule phase_same_alerts) (simp add: mark_previous_verdicts_superseded_def)

lemma phase_add_verdict: "phase_of b (add_verdict v d) = phase_of b d"
  by (rule phase_same_alerts) (simp add: add_verdict_def)

lemma phase_absent: "phase_of b d = Absent \<longleftrightarrow> b \<notin> a_alert_id ` set (alerts d)"
  by (simp add: phase_none get_alert_None)

lemma phase_update:
  assumes "\<And>r. a_alert_id (f r) = a_alert_id r"
  shows "phase_of b (d\<lparr>alerts := update_where (\<lambda>r. a_alert_id r = a) f (alerts d)\<rparr>) =
    (if b = a \<and> phase_of a d \<noteq> Absent then row_phase (f (the (get_alert a d))) else phase_of b d)"
  unfolding phase_of_def get_alert_update [of f, OF assms]
  by (cases "b = a"; cases "get_alert b d") simp_all

lemma phase_writes:
  "phase_of b (update_alert_status a ''analyzing'' d) = (if b = a \<and> phase_of a d \<noteq> Absent then Analyzing else phase_of b d)"
  "phase_of b (update_alert_status a ''failed'' d) = (if b = a \<and> phase_of a d \<noteq> Absent then Failed else phase_of b d)"
  "phase_of b (link_verdict_to_alert a v d) = (if b = a \<and> phase_of a d \<noteq> Absent then Analyzed (Some v) else phase_of b d)"
  unfolding update_alert_status_def link_verdict_to_alert_def by (simp_all add: phase_update)

lemma phase_fields:
  assumes "\<And>r. a_alert_id (f r) = a_alert_id r" "\<And>r. a_verdict_id (f r) = a_verdict_id r" "\<And>r. a_status (f r) = a_status r"
  shows "phase_of b (d\<lparr>alerts := update_where (\<lambda>r. a_alert_id r = a) f (alerts d)\<rparr>) = phase_of b d"
  unfolding phase_update [of f, OF assms(1)] by (cases "get_alert a d") (simp_all add: assms phase_of_def)

lemma phase_role: "update_alert_role_assignment a r d = Inr d' \<Longrightarrow> phase_of b d' = phase_of b d"
  by (drule update_role_other) (metis phase_fields)

lemma phase_external:
  assumes "external_write d d'"
  shows "phase_of b d' = phase_of b d \<or> phase_of b d = Absent \<and> phase_of b d' \<in> {Queued, Deferred}"
  using assms
proof (cases rule: external_write_cases)
  case 1
  from phase_same_alerts [OF 1(2)] show ?thesis by simp
next
  case (2 r)
  have g: "get_alert b d' = (if a_alert_id r = b then Some r else get_alert b d)"
    using get_alert_append [OF 2(3), of b] by (simp add: get_alert_def 2(2))
  have "get_alert (a_alert_id r) d = None" using 2(3) by (simp add: get_alert_None)
  moreover have "row_phase r \<in> {Queued, Deferred}" using 2(5) by (elim insertE) simp_all
  ultimately show ?thesis using g by (cases "a_alert_id r = b") (simp_all add: phase_of_def)
next
  case (3 i did)
  have "phase_of b d' = phase_of b (d\<lparr>alerts := alerts d'\<rparr>)" by (rule phase_same_alerts) simp
  then show ?thesis unfolding 3(2) by (simp add: phase_fields)
qed

lemma phase_present: "external_write d d' \<Longrightarrow> phase_of b d \<noteq> Absent \<Longrightarrow> phase_of b d' = phase_of b d"
  using phase_external by blast

lemma life_external: "external_write d d' \<Longrightarrow> life\<^sup>*\<^sup>* p (phase_of b d) \<Longrightarrow> life\<^sup>*\<^sup>* p (phase_of b d')"
  using phase_external [of d d' b] admitted deferred by (metis insertE rtranclp.rtrancl_into_rtrancl singletonD)

lemma others_keep_phase:
  assumes "rely env" "\<not> P Absent"
  shows "others_keep env (\<lambda>d. P (phase_of b d))"
  using assms by (intro others_keepI) (auto dest!: phase_external [where b = b])

section \<open>Triples with two postconditions\<close>

definition exits :: "(db \<Rightarrow> bool) \<Rightarrow> 'a act \<Rightarrow> (db \<Rightarrow> bool) \<Rightarrow> (db \<Rightarrow> bool) \<Rightarrow> bool" where
  "exits K m N E \<longleftrightarrow> (\<forall>w w'. K (w_db w) \<longrightarrow>
     (\<forall>e. m w = (Inl e, w') \<longrightarrow> E (w_db w')) \<and> (\<forall>x. m w = (Inr x, w') \<longrightarrow> N (w_db w')))"

lemma exits_bind: "exits K m M E \<Longrightarrow> (\<And>x. exits M (f x) N E) \<Longrightarrow> exits K (wbind m f) N E"
  unfolding exits_def wbind_def by (simp split: prod.splits sum.splits) blast

lemma exits_keeps: "keeps (\<lambda>w. K (w_db w)) m (\<lambda>_. True) \<Longrightarrow> exits K m K K"
  unfolding exits_def triple_def by (metis snd_conv)

lemma exits_mono: "exits K m N E \<Longrightarrow> (\<And>d. N d \<Longrightarrow> N' d) \<Longrightarrow> (\<And>d. E d \<Longrightarrow> E' d) \<Longrightarrow> exits K m N' E'"
  unfolding exits_def by blast

lemma exits_write: "others_keep env K \<Longrightarrow> (\<And>d. K d \<Longrightarrow> N (f d)) \<Longrightarrow> exits K (store_write env f) N K"
  unfolding exits_def store_write_def store_def others_keep_def
  by (auto simp: Let_def split: option.splits sum.splits)

section \<open>What one turn does to an alert\<close>

text \<open>Triage of an alert leaves the phase of every other alert to the other tasks. \<open>P\<close> is any set of phases the other tasks keep.\<close>

definition tame :: "(alert_row \<Rightarrow> alert_row) \<Rightarrow> bool" where
  "tame f \<longleftrightarrow> (\<forall>r. a_alert_id (f r) = a_alert_id r \<and> a_ingest_timestamp (f r) = a_ingest_timestamp r \<and> a_sensor_id (f r) = a_sensor_id r \<and>
     (a_status (f r) = ''queued'' \<longrightarrow> a_status r = ''queued'') \<and> (a_status (f r) = ''deferred'' \<longrightarrow> a_status r = ''deferred''))"

lemma tameD:
  "tame f \<Longrightarrow> a_alert_id (f r) = a_alert_id r" "tame f \<Longrightarrow> a_ingest_timestamp (f r) = a_ingest_timestamp r"
  "tame f \<Longrightarrow> a_status (f r) = ''queued'' \<Longrightarrow> a_status r = ''queued''"
  unfolding tame_def by blast+

lemma tame_counted: "tame f \<Longrightarrow> counted 1 reset r \<Longrightarrow> counted 1 reset (f r)"
  unfolding tame_def counted_def by metis

lemma triage_alerts:
  assumes ok: "others_keep env K" and same: "\<And>d d'. alerts d' = alerts d \<Longrightarrow> K d \<Longrightarrow> K d'"
    and up: "\<And>d f. K d \<Longrightarrow> tame f \<Longrightarrow> K (d\<lparr>alerts := update_where (\<lambda>r. a_alert_id r = a) f (alerts d)\<rparr>)"
  shows "triage_invariant env a K K (\<lambda>_. True)"
proof
  have link: "K (link_verdict_to_alert a i d)" if "K d" for i d
    unfolding link_verdict_to_alert_def using that by (rule up) (simp add: tame_def)
  show "keeps (\<lambda>w. K (w_db w)) (persist env a v) (\<lambda>_. True)" for v
    by (rule triple_persist [where L = K and M = "\<lambda>_. K"])
      (auto intro: link ok same simp: add_verdict_def mark_previous_verdicts_superseded_def)
  show "K (update_alert_status a ''analyzing'' d)" "K (update_alert_status a ''failed'' d)" if "K d" for d
    unfolding update_alert_status_def using that by (auto intro!: up simp: tame_def)
  show "K d'" if "K d" "update_alert_role_assignment a r d = Inr d'" for r d d'
    using that(2) up [OF that(1)] by (auto simp: update_alert_role_assignment_def tame_def split: if_splits)
qed (use ok in simp_all)

lemma triage_others:
  assumes "others_keep env (\<lambda>d. P (phase_of b d))" "b \<noteq> a"
  shows "triage_invariant env a (\<lambda>d. P (phase_of b d)) (\<lambda>d. P (phase_of b d)) (\<lambda>_. True)"
proof (rule triage_alerts [OF assms(1)])
  show "P (phase_of b d')" if "alerts d' = alerts d" "P (phase_of b d)" for d d' using that phase_same_alerts by metis
  show "P (phase_of b (d\<lparr>alerts := update_where (\<lambda>r. a_alert_id r = a) f (alerts d)\<rparr>))" if "P (phase_of b d)" "tame f" for d f
    using that(1) assms(2) phase_update [of f, OF tameD(1) [OF that(2)]] by simp
qed

lemmas process_others = triage_invariant.alert_keeps [OF triage_others refl]

text \<open>The alert itself goes through the phases in order: its verdict is linked only at the normal exit.\<close>

definition in_phase :: "string \<Rightarrow> phase set \<Rightarrow> db \<Rightarrow> bool" where
  "in_phase a P d \<longleftrightarrow> phase_of a d \<in> P"

lemma others_in_phase: "rely env \<Longrightarrow> Absent \<notin> P \<Longrightarrow> others_keep env (in_phase a P)"
  using others_keep_phase [of env "\<lambda>p. p \<in> P" a] by (simp add: in_phase_def [abs_def])

abbreviation verdict_phases :: "phase set" where
  "verdict_phases \<equiv> range (\<lambda>v. Analyzed (Some v))"

lemma exits_persist:
  assumes "rely env"
  shows "exits (in_phase a {Analyzing}) (persist env a v) (in_phase a verdict_phases) (in_phase a {Analyzing})"
proof -
  have k: "phase_of a (we_others env n d) = Analyzing" if "phase_of a d = Analyzing" for n d
    using others_in_phase [OF assms, of "{Analyzing}"] that by (simp add: others_keep_def in_phase_def)
  have "(\<forall>e. r = Inl e \<longrightarrow> in_phase a {Analyzing} (w_db w')) \<and> (\<forall>x. r = Inr x \<longrightarrow> in_phase a verdict_phases (w_db w'))"
    if r: "persist env a v w = (r, w')" and p: "in_phase a {Analyzing} (w_db w)" for r w w'
    by (rule persist_exits [OF r]) (use p k in \<open>auto simp: in_phase_def phase_supersede phase_add_verdict phase_writes\<close>)
  then show ?thesis unfolding exits_def by blast
qed

lemma keeps_inheritable: "others_keep env K \<Longrightarrow> keeps (\<lambda>w. K (w_db w)) (inheritable env row) (\<lambda>_. True)"
  unfolding inheritable_def
  by (intro keeps_bind [where P = "\<lambda>_. True"] keeps_store)
    (auto intro!: keeps_bind [where P = "\<lambda>_. True"] keeps_fetch keeps_intros split: option.splits list.splits)

lemma exits_analyse:
  assumes "rely env"
  shows "exits (in_phase a {Analyzing}) (analyse env a raw events ra) (in_phase a verdict_phases) (in_phase a {Analyzing})"
  unfolding analyse_def
  by (auto intro!: exits_bind [OF exits_keeps] keeps_intros keeps_complete exits_persist assms split: prod.splits)

lemma exits_body:
  assumes "rely env" "a_alert_id row = a"
  shows "exits (in_phase a {Queued}) (process_body env row) (in_phase a verdict_phases) (in_phase a {Queued, Analyzing})"
proof -
  let ?K = "in_phase a {Analyzing}"
  have ok: "others_keep env ?K" "others_keep env (in_phase a {Queued})" using others_in_phase [OF assms(1)] by simp_all
  have rl: "keeps (\<lambda>w. ?K (w_db w)) (store env (\<lambda>d. rbind (update_alert_role_assignment a ra d) (\<lambda>d. Inr ((), d)))) (\<lambda>_. True)" for ra
    by (rule keeps_store [OF ok(1)]) (auto simp: in_phase_def phase_role)
  have ev: "keeps (\<lambda>w. ?K (w_db w)) (if b then fetch env f else wret []) (\<lambda>_. True)" for b and f :: "db \<Rightarrow> eve_row list"
    using ok by (auto intro!: keeps_intros keeps_fetch)
  have src: "exits ?K (case s of Some (i, x) \<Rightarrow> inherit env a i x | None \<Rightarrow> analyse env a raw events ra) (in_phase a verdict_phases) ?K"
    for s raw events ra
    by (auto simp: inherit_def intro: exits_persist exits_analyse assms split: option.splits)
  have st: "exits (in_phase a {Queued}) (store_write env (update_alert_status a ''analyzing'')) ?K (in_phase a {Queued, Analyzing})"
    by (rule exits_mono [OF exits_write [OF ok(2)]]) (auto simp: in_phase_def phase_writes)
  have "exits ?K (wbind (wlift (json_loads (a_raw_eve row))) (\<lambda>raw.
      wbind (if truthy (a_flow_id row) then fetch env (get_correlated_events (a_flow_id row) None None) else wret []) (\<lambda>rows.
      wbind (wlift (rmap (\<lambda>r. json_loads (e_raw_eve r)) rows)) (\<lambda>events.
      wbind (wlift (assign_roles raw (we_cfg env))) (\<lambda>role.
      wbind (store env (\<lambda>d. rbind (update_alert_role_assignment a role d) (\<lambda>d. Inr ((), d)))) (\<lambda>_.
      wbind (inheritable env row) (\<lambda>source.
        case source of Some (vid, v) \<Rightarrow> inherit env a vid v | None \<Rightarrow> analyse env a raw events role)))))))
    (in_phase a verdict_phases) ?K"
    by (intro exits_bind [OF exits_keeps [OF keeps_lift]] exits_bind [OF exits_keeps [OF ev]] exits_bind [OF exits_keeps [OF rl]]
        exits_bind [OF exits_keeps [OF keeps_inheritable [OF ok(1)]]] TrueI src)
  then show ?thesis unfolding process_body_def assms(2)
    by (rule exits_bind [OF st exits_mono]) (auto simp: in_phase_def)
qed

lemma process_own:
  assumes "rely env" "a_alert_id row = a" "phase_of a (w_db w) = Queued"
  shows "in_phase a ({Queued, Analyzing, Failed} \<union> verdict_phases) (w_db (process_alert env row w))"
proof (cases "process_body env row w")
  case (Pair r w')
  have e: "(\<forall>e. r = Inl e \<longrightarrow> in_phase a {Queued, Analyzing} (w_db w')) \<and> (\<forall>x. r = Inr x \<longrightarrow> in_phase a verdict_phases (w_db w'))"
    using exits_body [OF assms(1,2)] Pair assms(3) unfolding exits_def in_phase_def by blast
  have f: "exits (in_phase a {Queued, Analyzing}) (store_write env (update_alert_status a ''failed'')) (in_phase a {Failed}) (in_phase a {Queued, Analyzing})"
    by (rule exits_write [OF others_in_phase [OF assms(1)]]) (auto simp: in_phase_def phase_writes)
  show ?thesis
  proof (cases r)
    case (Inl x)
    obtain u w2 where u: "store_write env (update_alert_status a ''failed'') w' = (u, w2)" by fastforce
    have "in_phase a {Queued, Analyzing, Failed} (w_db w2)"
      using f u e Inl unfolding exits_def in_phase_def by (cases u) blast+
    then show ?thesis using Inl Pair u assms(2) by (auto simp: process_alert_def in_phase_def)
  next
    case (Inr x)
    then show ?thesis using e Pair by (auto simp: process_alert_def in_phase_def)
  qed
qed

section \<open>Refinement\<close>

definition ids_ok :: "db \<Rightarrow> bool" where
  "ids_ok d \<longleftrightarrow> distinct (map a_alert_id (alerts d))"

lemma ids_ok_alerts:
  "(\<And>r. a_alert_id (f r) = a_alert_id r) \<Longrightarrow> ids_ok (d\<lparr>alerts := update_where p f (alerts d)\<rparr>) = ids_ok d"
  by (simp add: ids_ok_def map_update_where)

lemma ids_ok_external: "external_write d d' \<Longrightarrow> ids_ok d \<Longrightarrow> ids_ok d'"
  by (erule external_write_cases) (auto simp: ids_ok_def map_update_where)

lemma others_ids: "rely env \<Longrightarrow> others_keep env ids_ok"
  by (erule others_keepI) (rule ids_ok_external)

lemma triage_ids: "rely env \<Longrightarrow> triage_invariant env a ids_ok ids_ok (\<lambda>_. True)"
  by (rule triage_alerts [OF others_ids]) (simp_all add: ids_ok_alerts tameD(1), simp_all add: ids_ok_def)

lemma ids_phase: "ids_ok d \<Longrightarrow> row \<in> set (alerts d) \<Longrightarrow> get_alert (a_alert_id row) d = Some row"
  unfolding ids_ok_def by (rule get_alert_distinct)

text \<open>What a turn does: nothing but what the other tasks do, or triage of a queued alert. \<open>K\<close> is any invariant of the others.\<close>

lemma turn_dequeued:
  assumes "rely env" "ids_ok (w_db w)" "others_keep env K" "K (w_db w)" "dequeue_next env w = (Inr (Some row), w')"
  shows "worker_turn env w = process_alert env row w' \<and> K (w_db w') \<and> ids_ok (w_db w') \<and> row \<in> set (alerts (w_db w')) \<and>
    phase_of (a_alert_id row) (w_db w') = Queued \<and> ids_ok (w_db (worker_turn env w))"
proof -
  have "others_keep env (\<lambda>d. K d \<and> ids_ok d)" using assms(3) others_ids [OF assms(1)] by (simp add: others_keep_def)
  from dequeue_keeps [OF this] have k: "K (w_db w')" "ids_ok (w_db w')" using assms(2,4,5) by (auto simp: triple_def)
  have q: "row \<in> set (alerts (w_db w'))" "a_status row = ''queued''" using dequeue_row [OF assms(5)] by auto
  have t: "worker_turn env w = process_alert env row w'" by (simp add: worker_turn_def assms(5))
  have "phase_of (a_alert_id row) (w_db w') = Queued" using ids_phase [OF k(2) q(1)] q(2) by (simp add: phase_of_def)
  moreover have "ids_ok (w_db (process_alert env row w'))"
    by (rule triage_invariant.alert_keeps [OF triage_ids [OF assms(1)] refl k(2)])
  ultimately show ?thesis using t k q(1) by simp
qed

lemma turn_cases:
  assumes "rely env" "ids_ok (w_db w)" "others_keep env K" "K (w_db w)"
  obtains "ids_ok (w_db (worker_turn env w))" "K (w_db (worker_turn env w))"
  | row w' where "worker_turn env w = process_alert env row w'" "K (w_db w')"
      "phase_of (a_alert_id row) (w_db w') = Queued" "ids_ok (w_db (worker_turn env w))"
proof -
  obtain r w' where p: "dequeue_next env w = (r, w')" by fastforce
  show thesis
  proof (cases "\<exists>row. r = Inr (Some row)")
    case True
    then obtain row where "dequeue_next env w = (Inr (Some row), w')" using p by blast
    from turn_dequeued [OF assms this] show ?thesis using that(2) by blast
  next
    case False
    have "others_keep env (\<lambda>d. K d \<and> ids_ok d)" using assms(3) others_ids [OF assms(1)] by (simp add: others_keep_def)
    from dequeue_keeps [OF this] have k: "K (w_db w')" "ids_ok (w_db w')" using p assms(2,4) by (auto simp: triple_def)
    have "worker_turn env w = w'" using p False by (auto simp: worker_turn_def split: sum.splits option.splits)
    then show ?thesis using that(1) k by simp
  qed
qed

lemma turn_life:
  assumes "rely env" "ids_ok (w_db w)"
  shows "ids_ok (w_db (worker_turn env w)) \<and> life\<^sup>*\<^sup>* (phase_of b (w_db w)) (phase_of b (w_db (worker_turn env w)))"
proof -
  let ?P = "\<lambda>p. life\<^sup>*\<^sup>* (phase_of b (w_db w)) p"
  have ok: "others_keep env (\<lambda>d. ?P (phase_of b d))" by (rule others_keepI [OF assms(1) life_external])
  show ?thesis
  proof (rule turn_cases [OF assms ok])
    fix row w' assume t: "worker_turn env w = process_alert env row w'" "?P (phase_of b (w_db w'))" "ids_ok (w_db (worker_turn env w))"
      and q: "phase_of (a_alert_id row) (w_db w') = Queued"
    show ?thesis
    proof (cases "b = a_alert_id row")
      case True
      have s: "life\<^sup>*\<^sup>* Queued Analyzing" "life\<^sup>*\<^sup>* Queued Failed" "life\<^sup>*\<^sup>* Queued (Analyzed (Some v))" for v
        by (auto intro: life.intros converse_rtranclp_into_rtranclp)
      have "life\<^sup>*\<^sup>* Queued (phase_of b (w_db (process_alert env row w')))"
        using process_own [OF assms(1) refl q] s True by (auto simp: in_phase_def)
      then show ?thesis using t q True by auto
    next
      case False
      then show ?thesis using process_others [OF ok False, of w'] t by simp
    qed
  qed auto
qed

lemma run_life:
  "rely env \<Longrightarrow> ids_ok (w_db w) \<Longrightarrow>
   ids_ok (w_db (worker_run env n w)) \<and> life\<^sup>*\<^sup>* (phase_of b (w_db w)) (phase_of b (w_db (worker_run env n w)))"
proof (induction n arbitrary: w)
  case (Suc n)
  show ?case using turn_life [OF Suc.prems, of b] Suc.IH [OF Suc.prems(1), of "worker_turn env w"] by auto
qed simp

text \<open>C7: the life of an alert refines a machine of six transitions: however long the worker runs, whatever its clients, the
  model and the database do, and with the other tasks writing between any two of its transactions, every alert only goes
  forward, from absent to queued or deferred, from queued to analyzing, and from there to failed or to analysed under a
  verdict. In particular an alert that has failed, was deferred, or is linked to a verdict stays so: it is never triaged
  again.\<close>

theorem life_of_an_alert:
  assumes "rely env" "distinct (map a_alert_id (alerts (w_db w)))" "p = phase_of b (w_db w)" "q = phase_of b (w_db (worker_run env n w))"
  shows "life\<^sup>*\<^sup>* p q \<and> (p \<in> {Deferred, Failed} \<or> p = Analyzed v \<longrightarrow> q = p) \<and>
    (p = Analyzing \<longrightarrow> q \<in> {Analyzing, Failed} \<or> (\<exists>i. q = Analyzed (Some i)))"
proof -
  have l: "life\<^sup>*\<^sup>* p q" using run_life [OF assms(1), of w n b] assms(2-4) by (simp add: ids_ok_def)
  then show ?thesis using life_final [OF l] life_analyzing_star by blast
qed

section \<open>The queue is served\<close>

text \<open>The alerts that are queued and arrived no later than \<open>t\<close>.\<close>

definition waiting :: "string \<Rightarrow> db \<Rightarrow> string set" where
  "waiting t d = a_alert_id ` set (filter (\<lambda>r. a_status r = ''queued'' \<and> a_ingest_timestamp r \<le> t) (alerts d))"

text \<open>What the other tasks admit arrives later.\<close>

definition arrivals_after :: "worker_env \<Rightarrow> string \<Rightarrow> bool" where
  "arrivals_after env t \<longleftrightarrow> (\<forall>n d. \<forall>r\<in>set (alerts (we_others env n d)). a_alert_id r \<notin> a_alert_id ` set (alerts d) \<longrightarrow> t < a_ingest_timestamp r)"

lemma finite_waiting [simp]: "finite (waiting t d)"
  by (simp add: waiting_def)

lemma waitingI: "r \<in> set (alerts d) \<Longrightarrow> a_status r = ''queued'' \<Longrightarrow> a_ingest_timestamp r \<le> t \<Longrightarrow> a_alert_id r \<in> waiting t d"
  by (simp add: waiting_def)

lemma waitingE:
  assumes "b \<in> waiting t d"
  obtains r where "r \<in> set (alerts d)" "a_status r = ''queued''" "a_ingest_timestamp r \<le> t" "a_alert_id r = b"
  using assms unfolding waiting_def by auto

lemma waiting_queued: "ids_ok d \<Longrightarrow> b \<in> waiting t d \<Longrightarrow> phase_of b d = Queued"
  by (elim waitingE) (auto dest: ids_phase simp: phase_of_def)

lemma waiting_not: "ids_ok d \<Longrightarrow> phase_of b d \<noteq> Queued \<Longrightarrow> b \<notin> waiting t d"
  using waiting_queued by blast

lemma waiting_shrinks:
  assumes "\<And>r. a_alert_id (f r) = a_alert_id r" "\<And>r. a_ingest_timestamp (f r) = a_ingest_timestamp r"
    "\<And>r. a_status (f r) = ''queued'' \<Longrightarrow> a_status r = ''queued''"
  shows "waiting t (d\<lparr>alerts := update_where p f (alerts d)\<rparr>) \<subseteq> waiting t d"
proof
  fix b assume "b \<in> waiting t (d\<lparr>alerts := update_where p f (alerts d)\<rparr>)"
  then obtain r where r: "r \<in> set (update_where p f (alerts d))" "a_status r = ''queued''" "a_ingest_timestamp r \<le> t" "a_alert_id r = b"
    by (elim waitingE) simp
  then obtain q where q: "q \<in> set (alerts d)" "r = (if p q then f q else q)" unfolding set_update_where by blast
  have "a_status q = ''queued''" "a_ingest_timestamp q \<le> t" "a_alert_id q = b" using r q(2) assms by (cases "p q"; simp)+
  then show "b \<in> waiting t d" using waitingI [OF q(1)] by simp
qed

lemma waiting_stays:
  assumes "b \<in> waiting t d" "\<And>r. r \<in> set (alerts d) \<Longrightarrow> a_alert_id r = b \<Longrightarrow> p r \<Longrightarrow>
      a_alert_id (f r) = b \<and> a_status (f r) = a_status r \<and> a_ingest_timestamp (f r) = a_ingest_timestamp r"
  shows "b \<in> waiting t (d\<lparr>alerts := update_where p f (alerts d)\<rparr>)"
proof -
  obtain r where r: "r \<in> set (alerts d)" "a_status r = ''queued''" "a_ingest_timestamp r \<le> t" "a_alert_id r = b"
    by (rule waitingE [OF assms(1)])
  let ?r = "if p r then f r else r"
  have "?r \<in> set (alerts (d\<lparr>alerts := update_where p f (alerts d)\<rparr>))" using r(1) by (simp add: set_update_where)
  from waitingI [OF this, of t] show ?thesis using assms(2) [OF r(1,4)] r by (cases "p r") simp_all
qed

lemma waiting_same_alerts: "alerts d' = alerts d \<Longrightarrow> waiting t d' = waiting t d"
  by (simp add: waiting_def)

lemma external_ids: "external_write\<^sup>*\<^sup>* d d' \<Longrightarrow> b \<in> a_alert_id ` set (alerts d) \<Longrightarrow> b \<in> a_alert_id ` set (alerts d')"
proof (induction rule: rtranclp_induct)
  case (step e e')
  then show ?case using phase_present [OF step.hyps(2)] phase_absent by metis
qed

lemma external_old_row:
  "external_write\<^sup>*\<^sup>* d d' \<Longrightarrow> r \<in> set (alerts d') \<Longrightarrow> a_alert_id r \<in> a_alert_id ` set (alerts d) \<Longrightarrow>
   \<exists>q\<in>set (alerts d). (a_alert_id q, a_status q, a_ingest_timestamp q) = (a_alert_id r, a_status r, a_ingest_timestamp r)"
proof (induction arbitrary: r rule: rtranclp_induct)
  case base
  then show ?case by blast
next
  case (step e d')
  have old: "a_alert_id r \<in> a_alert_id ` set (alerts e)" by (rule external_ids [OF step.hyps(1) step.prems(2)])
  have "\<exists>q\<in>set (alerts e). (a_alert_id q, a_status q, a_ingest_timestamp q) = (a_alert_id r, a_status r, a_ingest_timestamp r)"
    using step.hyps(2)
  proof (cases rule: external_write_cases)
    case 1
    then show ?thesis using step.prems(1) by auto
  next
    case (2 q)
    then have "r \<noteq> q" using old by blast
    then show ?thesis using step.prems(1) 2(2) by auto
  next
    case (3 i did)
    then obtain q where "q \<in> set (alerts e)" "r = (if a_alert_id q = i then q\<lparr>a_disposition_id := Some did\<rparr> else q)"
      using step.prems(1) unfolding 3(2) set_update_where by blast
    then show ?thesis by (intro bexI [of _ q]) simp_all
  qed
  then obtain q where "q \<in> set (alerts e)"
    "(a_alert_id q, a_status q, a_ingest_timestamp q) = (a_alert_id r, a_status r, a_ingest_timestamp r)" by blast
  then show ?case using step.IH [of q] step.prems(2) by simp
qed

lemma others_waiting:
  assumes "rely env" "arrivals_after env t"
  shows "others_keep env (\<lambda>d. waiting t d \<subseteq> S)"
  unfolding others_keep_def
proof (intro allI impI subsetI)
  fix n d b assume S: "waiting t d \<subseteq> S" and b: "b \<in> waiting t (we_others env n d)"
  obtain r where r: "r \<in> set (alerts (we_others env n d))" "a_status r = ''queued''" "a_ingest_timestamp r \<le> t" "a_alert_id r = b"
    by (rule waitingE [OF b])
  have "a_alert_id r \<in> a_alert_id ` set (alerts d)" using assms(2) r(1,3) unfolding arrivals_after_def by (meson leD)
  then obtain q where "q \<in> set (alerts d)"
    "(a_alert_id q, a_status q, a_ingest_timestamp q) = (a_alert_id r, a_status r, a_ingest_timestamp r)"
    using external_old_row [OF _ r(1), of d] assms(1) unfolding rely_def by blast
  then have "b \<in> waiting t d" using waitingI [of q d t] r by simp
  then show "b \<in> S" using S by blast
qed

lemma others_waits:
  assumes "rely env"
  shows "others_keep env (\<lambda>d. b \<in> waiting t d)"
proof (rule others_keepI [OF assms])
  fix d d' assume "external_write d d'" and b: "b \<in> waiting t d"
  then show "b \<in> waiting t d'"
  proof (cases rule: external_write_cases)
    case 1
    then show ?thesis using b by (simp add: waiting_def)
  next
    case (2 r)
    then show ?thesis using b by (auto simp: waiting_def)
  next
    case (3 i did)
    have "b \<in> waiting t (d\<lparr>alerts := alerts d'\<rparr>)" unfolding 3(2) using b by (rule waiting_stays) simp
    then show ?thesis by (simp add: waiting_def)
  qed
qed

lemma process_waiting:
  assumes "others_keep env (\<lambda>d. waiting t d \<subseteq> S)" "waiting t (w_db w) \<subseteq> S"
  shows "waiting t (w_db (process_alert env row w)) \<subseteq> S"
proof (rule triage_invariant.alert_keeps [OF triage_alerts [OF assms(1)] refl assms(2)])
  show "waiting t d' \<subseteq> S" if "alerts d' = alerts d" "waiting t d \<subseteq> S" for d d' using that waiting_same_alerts by metis
  show "waiting t (d\<lparr>alerts := update_where (\<lambda>r. a_alert_id r = a_alert_id row) f (alerts d)\<rparr>) \<subseteq> S" if "waiting t d \<subseteq> S" "tame f" for d f
    using that(1) waiting_shrinks [of f, OF tameD [OF that(2)]] by blast
qed

lemma process_waits:
  assumes "others_keep env (\<lambda>d. b \<in> waiting t d)" "b \<noteq> a_alert_id row" "b \<in> waiting t (w_db w)"
  shows "b \<in> waiting t (w_db (process_alert env row w))"
proof (rule triage_invariant.alert_keeps [OF triage_alerts [OF assms(1)] refl assms(3)])
  show "b \<in> waiting t d'" if "alerts d' = alerts d" "b \<in> waiting t d" for d d' using that waiting_same_alerts by metis
  show "b \<in> waiting t (d\<lparr>alerts := update_where (\<lambda>r. a_alert_id r = a_alert_id row) f (alerts d)\<rparr>)" if "b \<in> waiting t d" "tame f" for d f
    using that(1) by (rule waiting_stays) (use assms(2) in simp)
qed

text \<open>The number of alerts that count since a time never falls.\<close>

definition active :: "string \<Rightarrow> db \<Rightarrow> nat" where
  "active reset d = length (filter (counted 1 reset) (alerts d))"

lemma active_update: "tame f \<Longrightarrow> active reset d \<le> active reset (d\<lparr>alerts := update_where q f (alerts d)\<rparr>)"
proof -
  assume f: "tame f"
  have "length (filter (counted 1 reset) rs) \<le> length (filter (counted 1 reset) (update_where q f rs))" for rs
    using tame_counted [OF f, of reset] by (induction rs) (auto simp: update_where_def)
  then show ?thesis by (simp add: active_def)
qed

lemma active_external: "external_write d d' \<Longrightarrow> active reset d \<le> active reset d'"
proof (erule external_write_cases)
  fix i did assume "alerts d' = update_where (\<lambda>r. a_alert_id r = i) (\<lambda>r. r\<lparr>a_disposition_id := Some did\<rparr>) (alerts d)"
  then show ?thesis using active_update [of "\<lambda>r. r\<lparr>a_disposition_id := Some did\<rparr>" reset d "\<lambda>r. a_alert_id r = i"]
    by (simp add: active_def tame_def)
qed (simp_all add: active_def)

lemma others_active: "rely env \<Longrightarrow> others_keep env (\<lambda>d. m \<le> active reset d)"
  by (erule others_keepI) (use active_external order_trans in blast)

lemma process_active:
  assumes "rely env" "m \<le> active reset (w_db w)"
  shows "m \<le> active reset (w_db (process_alert env row w))"
proof (rule triage_invariant.alert_keeps [OF triage_alerts [OF others_active [OF assms(1)]] refl assms(2)])
  show "m \<le> active reset (d\<lparr>alerts := update_where (\<lambda>r. a_alert_id r = a_alert_id row) f (alerts d)\<rparr>)"
    if "m \<le> active reset d" "tame f" for d f
    using that active_update order_trans by blast
qed (simp add: active_def)

lemma turn_active:
  assumes "rely env" "ids_ok (w_db w)" "m \<le> active reset (w_db w)"
  shows "m \<le> active reset (w_db (worker_turn env w))"
  by (rule turn_cases [OF assms(1,2) others_active [OF assms(1)] assms(3)]) (simp_all add: process_active [OF assms(1)])

lemma run_active:
  "rely env \<Longrightarrow> ids_ok (w_db w) \<Longrightarrow> active reset (w_db w) \<le> active reset (w_db (worker_run env n w))"
proof (induction n arbitrary: w)
  case (Suc n)
  show ?case using turn_active [OF Suc.prems order_refl] Suc.IH [of "worker_turn env w"] turn_life [OF Suc.prems] Suc.prems(1)
    by (fastforce intro: order_trans)
qed simp

text \<open>The worker counts since the reset of the day of its clock. \<open>counts_since\<close>: none of these resets is earlier than the given one.\<close>

definition reset_text :: "worker_env \<Rightarrow> instant \<Rightarrow> string" where
  "reset_text env now = isoformat (now div day_us * day_us + we_reset_hour env * hour_us)"

definition counts_since :: "worker_env \<Rightarrow> string \<Rightarrow> bool" where
  "counts_since env reset \<longleftrightarrow> (\<forall>n. reset \<le> reset_text env (we_now env n))"

text \<open>Without a fault of the database triage comes to an end, and as long as the cap is not reached an alert is dequeued,
  one that arrived no later than any that waits.\<close>

definition faultless :: "worker_env \<Rightarrow> bool" where
  "faultless env \<longleftrightarrow> (\<forall>n. we_fault env n = None)"

lemma process_served:
  assumes "rely env" "faultless env" "phase_of (a_alert_id row) (w_db w) = Queued"
  shows "in_phase (a_alert_id row) ({Failed} \<union> verdict_phases) (w_db (process_alert env row w))"
proof (cases "process_body env row w")
  case (Pair r w')
  let ?a = "a_alert_id row" and ?f = "store_write env (update_alert_status (a_alert_id row) ''failed'')"
  have e: "(\<forall>e. r = Inl e \<longrightarrow> in_phase ?a {Queued, Analyzing} (w_db w')) \<and> (\<forall>x. r = Inr x \<longrightarrow> in_phase ?a verdict_phases (w_db w'))"
    using exits_body [OF assms(1) refl] Pair assms(3) unfolding exits_def in_phase_def by blast
  show ?thesis
  proof (cases r)
    case (Inl x)
    have "phase_of ?a (we_others env (w_calls w') (w_db w')) \<in> {Queued, Analyzing}"
      using others_in_phase [OF assms(1), of "{Queued, Analyzing}" ?a] e Inl unfolding others_keep_def in_phase_def by blast
    then have "phase_of ?a (update_alert_status ?a ''failed'' (we_others env (w_calls w') (w_db w'))) = Failed"
      by (auto simp: phase_writes)
    then show ?thesis using Inl Pair assms(2) by (simp add: process_alert_def store_write_def store_def Let_def faultless_def in_phase_def)
  next
    case (Inr x)
    then show ?thesis using e Pair by (auto simp: process_alert_def in_phase_def)
  qed
qed

lemma dequeue_served:
  assumes "rely env" "faultless env" "0 \<le> we_reset_hour env" "we_reset_hour env \<le> 23" "b \<in> waiting t (w_db w)"
    and since: "counts_since env reset" and cap: "int (active reset (w_db (worker_turn env w))) < we_daily_cap env"
  shows "\<exists>row w'. dequeue_next env w = (Inr (Some row), w') \<and> a_ingest_timestamp row \<le> t"
proof -
  define d0 where "d0 = we_others env (w_calls w) (w_db w)"
  define d1 where "d1 = we_others env (w_calls w + 1) d0"
  define c where "c = length (filter (counted 1 (reset_text env (we_now env (w_calls w)))) (alerts d0))"
  have no: "we_fault env n = None" for n using assms(2) by (simp add: faultless_def)
  let ?q = "\<lambda>d. query_alerts None None (Some ''queued'') None 1 0 d"
  have dq: "dequeue_next env w = (if int c \<ge> we_daily_cap env then (Inr None, w\<lparr>w_calls := w_calls w + 1, w_db := d0\<rparr>)
      else (Inr (first_row (?q d1)), w\<lparr>w_calls := w_calls w + 2, w_db := d1\<rparr>))"
    using assms(3,4) unfolding dequeue_next_def wbind_def store_def fetch_def
    by (simp add: no Let_def count_analyzed_today_def at_hour_def wret_def reset_text_def [symmetric] d0_def [symmetric] d1_def c_def [symmetric])
  have "\<not> int c \<ge> we_daily_cap env"
  proof
    assume c: "int c \<ge> we_daily_cap env"
    then have "w_db (worker_turn env w) = d0" by (simp add: worker_turn_def dq)
    moreover have "length (filter (counted 1 u) rs) \<le> length (filter (counted 1 reset) rs)" if "reset \<le> u" for u rs
      using that by (induction rs) (auto simp: counted_def dest: order_trans)
    then have "c \<le> active reset d0" using since unfolding c_def active_def counts_since_def by blast
    ultimately show False using cap c by simp
  qed
  then have dq: "dequeue_next env w = (Inr (first_row (?q d1)), w\<lparr>w_calls := w_calls w + 2, w_db := d1\<rparr>)" using dq by simp
  have "b \<in> waiting t d1" using others_waits [OF assms(1), of b t] assms(5) unfolding others_keep_def d0_def d1_def by blast
  then obtain r where r: "r \<in> set (alerts d1)" "a_status r = ''queued''" "a_ingest_timestamp r \<le> t" by (rule waitingE)
  have q: "?q d1 = take 1 (sort_key a_ingest_timestamp (filter (\<lambda>r. a_status r = ''queued'') (alerts d1)))"
    by (simp add: query_alerts_def opt_ge_def opt_le_def)
  note one = take_one_sorted [of a_ingest_timestamp "\<lambda>r. a_status r = ''queued''" "alerts d1", folded q]
  have "?q d1 \<noteq> []" using one r by blast
  moreover have "length (?q d1) \<le> 1" unfolding q by simp
  ultimately obtain row where row: "?q d1 = [row]" by (cases "?q d1") auto
  then have "a_ingest_timestamp row \<le> a_ingest_timestamp r" using one r by blast
  then show ?thesis using dq row r(3) by auto
qed

lemma turn_serves:
  assumes "rely env" "faultless env" "0 \<le> we_reset_hour env" "we_reset_hour env \<le> 23" "ids_ok (w_db w)" "arrivals_after env t"
    and "b \<in> waiting t (w_db w)" "counts_since env reset" "int (active reset (w_db (worker_turn env w))) < we_daily_cap env"
  shows "in_phase b ({Failed} \<union> verdict_phases) (w_db (worker_turn env w)) \<or>
    b \<in> waiting t (w_db (worker_turn env w)) \<and> waiting t (w_db (worker_turn env w)) \<subset> waiting t (w_db w)"
proof -
  obtain row w1 where dq: "dequeue_next env w = (Inr (Some row), w1)" "a_ingest_timestamp row \<le> t"
    using dequeue_served [OF assms(1-4,7-9)] by blast
  let ?K = "\<lambda>d. waiting t d \<subseteq> waiting t (w_db w) \<and> b \<in> waiting t d"
  have ok: "others_keep env (\<lambda>d. waiting t d \<subseteq> S)" "others_keep env (\<lambda>d. b \<in> waiting t d)" for S
    by (rule others_waiting [OF assms(1,6)], rule others_waits [OF assms(1)])
  then have k: "others_keep env ?K" by (simp add: others_keep_def)
  have t: "worker_turn env w = process_alert env row w1" and K: "waiting t (w_db w1) \<subseteq> waiting t (w_db w)" "b \<in> waiting t (w_db w1)"
    and i: "ids_ok (w_db w1)" "row \<in> set (alerts (w_db w1))" "phase_of (a_alert_id row) (w_db w1) = Queued" "ids_ok (w_db (worker_turn env w))"
    using turn_dequeued [OF assms(1,5) k _ dq(1)] assms(7) by blast+
  have p: "in_phase (a_alert_id row) ({Failed} \<union> verdict_phases) (w_db (worker_turn env w))"
    unfolding t by (rule process_served [OF assms(1,2) i(3)])
  show ?thesis
  proof (cases "b = a_alert_id row")
    case True
    then show ?thesis using p by simp
  next
    case False
    let ?W = "waiting t (w_db (worker_turn env w))"
    have "?W \<subseteq> waiting t (w_db w1)" unfolding t by (rule process_waiting [OF ok(1)]) simp
    moreover have "a_status row = ''queued''" using i(3) ids_phase [OF i(1,2)] by (simp add: phase_of_def)
    then have "a_alert_id row \<in> waiting t (w_db w1)" using waitingI i(2) dq(2) by simp
    moreover have "a_alert_id row \<notin> ?W" by (rule waiting_not [OF i(4)]) (use p in \<open>auto simp: in_phase_def\<close>)
    moreover have "b \<in> ?W" unfolding t by (rule process_waits [OF ok(2) False K(2)])
    ultimately show ?thesis using K(1) by blast
  qed
qed

lemma run_serves:
  assumes "rely env" "faultless env" "0 \<le> we_reset_hour env" "we_reset_hour env \<le> 23" "arrivals_after env t" "counts_since env reset"
  shows "ids_ok (w_db w) \<Longrightarrow> b \<in> waiting t (w_db w) \<Longrightarrow> card (waiting t (w_db w)) \<le> n \<Longrightarrow>
    int (active reset (w_db (worker_run env n w))) < we_daily_cap env \<Longrightarrow>
    in_phase b ({Failed} \<union> verdict_phases) (w_db (worker_run env n w))"
proof (induction n arbitrary: w)
  case 0
  then have "waiting t (w_db w) = {}" by (simp add: card_eq_0_iff)
  then show ?case using 0 by simp
next
  case (Suc n)
  let ?w = "worker_turn env w"
  have ids: "ids_ok (w_db ?w)" using turn_life [OF assms(1) Suc.prems(1)] by simp
  have cap: "int (active reset (w_db ?w)) < we_daily_cap env"
    using run_active [OF assms(1) ids, of reset n] Suc.prems(4) by simp
  consider "in_phase b ({Failed} \<union> verdict_phases) (w_db ?w)" | "b \<in> waiting t (w_db ?w)" "waiting t (w_db ?w) \<subset> waiting t (w_db w)"
    using turn_serves [OF assms(1-4) Suc.prems(1) assms(5) Suc.prems(2) assms(6) cap] by blast
  then show ?case
  proof cases
    case 1
    have "life\<^sup>*\<^sup>* (phase_of b (w_db ?w)) (phase_of b (w_db (worker_run env n ?w)))" using run_life [OF assms(1) ids] by blast
    from life_final [OF this] have "phase_of b (w_db (worker_run env n ?w)) = phase_of b (w_db ?w)"
      using 1 unfolding in_phase_def by blast
    then show ?thesis using 1 by (simp add: in_phase_def)
  next
    case 2
    have "card (waiting t (w_db ?w)) < card (waiting t (w_db w))" by (rule psubset_card_mono [OF finite_waiting 2(2)])
    then show ?thesis using Suc.IH [OF ids 2(1)] Suc.prems(3,4) by simp
  qed
qed


section \<open>Shutdown\<close>

text \<open>The shutdown of the program cancels the worker's task: the call it waits for raises \<open>CancelledError\<close>, which is not an
  \<open>Exception\<close>, so that it passes every handler of \<open>_process_alert\<close> and ends \<open>run\<close>. Any other exception is handled as before.\<close>

definition cancelled :: "'a res \<Rightarrow> bool" where
  "cancelled r = (case r of Inl e \<Rightarrow> qualname e = ''CancelledError'' | Inr _ \<Rightarrow> False)"

definition process_alert_until :: "worker_env \<Rightarrow> alert_row \<Rightarrow> unit act" where
  "process_alert_until env row w =
     (let (r, w') = process_body env row w in
      case r of
        Inr _ \<Rightarrow> (Inr (), w')
      | Inl e \<Rightarrow>
          (if cancelled r then (Inl e, w')
           else let (u, w'') = store_write env (update_alert_status (a_alert_id row) ''failed'') w' in
             ((if cancelled u then u else Inr ()), w'')))"

definition turn_until :: "worker_env \<Rightarrow> unit act" where
  "turn_until env w =
     (let (r, w') = dequeue_next env w in
      case r of
        Inl e \<Rightarrow> ((if cancelled r then Inl e else Inr ()), w')
      | Inr None \<Rightarrow> (Inr (), w')
      | Inr (Some row) \<Rightarrow> process_alert_until env row w')"

text \<open>At most \<open>n\<close> turns, fewer if the task is cancelled.\<close>

fun run_until :: "worker_env \<Rightarrow> nat \<Rightarrow> unit act" where
  "run_until env 0 w = (Inr (), w)"
| "run_until env (Suc n) w = (case turn_until env w of (Inl e, w') \<Rightarrow> (Inl e, w') | (Inr _, w') \<Rightarrow> run_until env n w')"

text \<open>A cancelled turn stops early; any other is a turn of the worker.\<close>

lemma process_until: "process_alert_until env row w = (r, w') \<Longrightarrow> w' = process_alert env row w \<or> r \<noteq> Inr () \<and> (\<exists>e. process_body env row w = (Inl e, w'))"
  by (cases "process_body env row w")
    (auto simp: process_alert_until_def process_alert_def split: sum.splits if_splits prod.splits)

lemma process_until_done: "process_alert_until env row w = (Inr (), w') \<Longrightarrow> w' = process_alert env row w"
  using process_until by blast

lemma turn_until_done: "turn_until env w = (Inr (), w') \<Longrightarrow> w' = worker_turn env w"
  by (auto simp: turn_until_def worker_turn_def split: prod.splits sum.splits option.splits dest: process_until_done)

lemma turn_until_cases:
  assumes "turn_until env w = (r, w')"
  shows "w' = worker_turn env w \<or> (\<exists>row w1 e. dequeue_next env w = (Inr (Some row), w1) \<and> process_body env row w1 = (Inl e, w'))"
  using assms by (auto simp: turn_until_def worker_turn_def split: prod.splits sum.splits option.splits dest!: process_until)

lemma life_queued_star: "p \<in> {Queued, Analyzing, Failed} \<union> verdict_phases \<Longrightarrow> life\<^sup>*\<^sup>* Queued p"
  by (auto intro: life.intros converse_rtranclp_into_rtranclp)

lemma turn_until_life:
  assumes "rely env" "ids_ok (w_db w)" "turn_until env w = (r, w')"
  shows "ids_ok (w_db w') \<and> life\<^sup>*\<^sup>* (phase_of b (w_db w)) (phase_of b (w_db w'))"
proof -
  let ?P = "\<lambda>p. life\<^sup>*\<^sup>* (phase_of b (w_db w)) p"
  have ok: "others_keep env (\<lambda>d. ?P (phase_of b d))" by (rule others_keepI [OF assms(1) life_external])
  consider "w' = worker_turn env w"
    | row w1 e where "dequeue_next env w = (Inr (Some row), w1)" "process_body env row w1 = (Inl e, w')"
    using turn_until_cases [OF assms(3)] by blast
  then show ?thesis
  proof cases
    case 1
    then show ?thesis using turn_life [OF assms(1,2)] by simp
  next
    case 2
    have t: "?P (phase_of b (w_db w1))" "ids_ok (w_db w1)" "phase_of (a_alert_id row) (w_db w1) = Queued"
      using turn_dequeued [OF assms(1,2) ok _ 2(1)] by blast+
    have "ids_ok (w_db w')"
      using tripleD [OF triage_invariant.body_keeps [OF triage_ids [OF assms(1)] refl] t(2) 2(2)] by blast
    moreover have "?P (phase_of b (w_db w'))"
    proof (cases "b = a_alert_id row")
      case True
      then have "in_phase b {Queued, Analyzing} (w_db w')"
        using exits_body [OF assms(1) refl, of row] 2(2) t(3) unfolding exits_def in_phase_def by blast
      then have "life\<^sup>*\<^sup>* Queued (phase_of b (w_db w'))" by (intro life_queued_star) (auto simp: in_phase_def)
      then show ?thesis using t(1,3) True by simp
    next
      case False
      then show ?thesis using tripleD [OF triage_invariant.body_keeps [OF triage_others [OF ok False] refl] t(1) 2(2)] by blast
    qed
    ultimately show ?thesis by blast
  qed
qed

lemma run_until_life:
  "rely env \<Longrightarrow> ids_ok (w_db w) \<Longrightarrow> run_until env n w = (r, w') \<Longrightarrow>
   ids_ok (w_db w') \<and> life\<^sup>*\<^sup>* (phase_of b (w_db w)) (phase_of b (w_db w')) \<and> (r = Inr () \<longrightarrow> w' = worker_run env n w)"
proof (induction n arbitrary: w)
  case (Suc n)
  obtain u w1 where t: "turn_until env w = (u, w1)" by fastforce
  note l = turn_until_life [OF Suc.prems(1,2) t, of b]
  show ?case
  proof (cases u)
    case (Inl e)
    then show ?thesis using Suc.prems(3) t l by auto
  next
    case (Inr x)
    then have "run_until env n w1 = (r, w')" "w1 = worker_turn env w" using Suc.prems(3) t turn_until_done by auto
    then show ?thesis using Suc.IH [OF Suc.prems(1)] l by (auto intro: rtranclp_trans)
  qed
qed auto

text \<open>Nothing dequeues an alert that is being analysed.\<close>

lemma analyzing_stays:
  "rely env \<Longrightarrow> ids_ok (w_db w) \<Longrightarrow> phase_of b (w_db w) = Analyzing \<Longrightarrow> phase_of b (w_db (worker_run env n w)) = Analyzing"
proof (induction n arbitrary: w)
  case (Suc n)
  have ok: "others_keep env (\<lambda>d. phase_of b d = Analyzing)" using others_keep_phase [OF Suc.prems(1), of "\<lambda>p. p = Analyzing"] by simp
  have "phase_of b (w_db (worker_turn env w)) = Analyzing"
  proof (rule turn_cases [OF Suc.prems(1,2) ok Suc.prems(3)])
    fix row w' assume t: "worker_turn env w = process_alert env row w'" "phase_of b (w_db w') = Analyzing" "phase_of (a_alert_id row) (w_db w') = Queued"
    then have "b \<noteq> a_alert_id row" by auto
    then show ?thesis using process_others [OF ok _ t(2)] t(1) by simp
  qed simp
  then show ?case using Suc.IH [OF Suc.prems(1)] turn_life [OF Suc.prems(1,2)] by simp
qed simp


section \<open>Samples\<close>

theorem life_of_an_alert_witness:
  "phase_of ''a'' (w_db (worker_run sample_worker_env 3 sample_world)) = Analyzed (Some ''v'')"
proof -
  have p: "Analyzed (Some ''v'') = phase_of ''a'' (w_db sample_world)"
    by (simp add: phase_of_def get_alert_def sample_defs)
  have "distinct (map a_alert_id (alerts (w_db sample_world)))" by (simp add: sample_defs)
  from life_of_an_alert [OF sample_rely this p refl] show ?thesis by blast
qed

lemma sample_turn_length: "length (alerts (w_db (worker_turn sample_worker_env sample_world))) = 2"
proof -
  let ?K = "\<lambda>d. length (alerts d) = 2"
  have ok: "others_keep sample_worker_env ?K" by (simp add: others_keep_def sample_worker_env_def)
  have ids: "ids_ok (w_db sample_world)" by (simp add: ids_ok_def sample_defs)
  show ?thesis
  proof (rule turn_cases [OF sample_rely ids ok])
    fix row w' assume "worker_turn sample_worker_env sample_world = process_alert sample_worker_env row w'" "?K (w_db w')"
    then show ?thesis using triage_invariant.alert_keeps [OF triage_alerts [OF ok] refl, of row w'] by simp
  qed (simp_all add: sample_defs)
qed


text \<open>The program is shut down while the worker waits for the store to save the roles.\<close>

definition stopped_env :: worker_env where
  "stopped_env = sample_worker_env\<lparr>we_fault := \<lambda>n. if n = 3 then Some (Exn ''CancelledError'' [] None) else None\<rparr>"

lemma stopped_rely: "rely stopped_env"
  by (simp add: rely_def stopped_env_def sample_worker_env_def)

lemma stopped_dequeue:
  "dequeue_next stopped_env sample_world = (Inr (Some repeated_alert), sample_world\<lparr>w_calls := 2\<rparr>)"
proof -
  have "count_analyzed_today 0 1 (5 * hour_us) (w_db sample_world) = Inr 2" by code_simp
  moreover have "query_alerts None None (Some ''queued'') None 1 0 (w_db sample_world) = [repeated_alert]"
    by (simp add: query_alerts_def sample_defs opt_ge_def opt_le_def)
  moreover have "w_calls sample_world = 0" by (simp add: sample_world_def)
  ultimately show ?thesis
    by (simp add: dequeue_next_def wbind_def store_def fetch_def wret_def Let_def stopped_env_def sample_worker_env_def)
qed

lemma stopped_body:
  "case process_body stopped_env repeated_alert (sample_world\<lparr>w_calls := 2\<rparr>) of (r, w') \<Rightarrow> cancelled r \<and> phase_of ''b'' (w_db w') = Analyzing"
proof -
  have l: "json_loads ''{}'' = Inr (JObj [])" by code_simp
  have "case assign_roles (JObj []) home_config of Inr _ \<Rightarrow> True | Inl _ \<Rightarrow> False" by code_simp
  then obtain ra where a: "assign_roles (JObj []) home_config = Inr ra" by (auto split: sum.splits)
  have p: "phase_of ''b'' (update_alert_status ''b'' ''analyzing'' (w_db sample_world)) = Analyzing"
    by (simp add: phase_writes phase_absent) (simp add: sample_defs)
  have r: "a_alert_id repeated_alert = ''b''" "a_raw_eve repeated_alert = ''{}''" "a_flow_id repeated_alert = JNull"
    by (simp_all add: repeated_alert_def sample_alert_row_def)
  show ?thesis using p
    by (simp add: process_body_def wbind_def store_write_def store_def wlift_def wret_def Let_def r l a
        stopped_env_def sample_worker_env_def cancelled_def truthy.simps)
qed

lemma stopped_run:
  "case run_until stopped_env 1 sample_world of (r, w') \<Rightarrow> cancelled r \<and> phase_of ''b'' (w_db w') = Analyzing"
proof -
  obtain r w' where b: "process_body stopped_env repeated_alert (sample_world\<lparr>w_calls := 2\<rparr>) = (r, w')" by fastforce
  then obtain e where "r = Inl e" using stopped_body by (cases r) (auto simp: cancelled_def)
  then show ?thesis using stopped_body b
    by (simp add: turn_until_def stopped_dequeue process_alert_until_def Let_def)
qed


end
