(* ===== verification/Migration_Runs.thy ===== *)
theory Migration_Runs
  imports Startup Schema
begin

text \<open>
  Running the migrations, \<open>src/alembic/env.py\<close>, beside the program: which database each works on and what becomes of it in either order. A
  database is named by its address and holds a revision and tables; what alembic prints in its offline mode is the list of statements.
\<close>

record database_state =
  df_revision :: "string option"
  df_tables :: "table list"

definition new_file :: database_state where
  "new_file = \<lparr>df_revision = None, df_tables = []\<rparr>"

text \<open>\<open>sqlalchemy.url\<close> of \<open>alembic.ini\<close>, and the address alembic takes.\<close>

definition ini_url :: string where
  "ini_url = ''sqlite+aiosqlite:///verdix.db''"

definition get_url :: "(string \<Rightarrow> string option) \<Rightarrow> string" where
  "get_url env = (case env ''VX_DB_URL'' of Some url \<Rightarrow> url | None \<Rightarrow> ini_url)"

definition run_migrations_online :: "(string \<Rightarrow> string option) \<Rightarrow> (string \<Rightarrow> database_state) \<Rightarrow> (string \<Rightarrow> database_state) res" where
  "run_migrations_online env files =
     (let url = get_url env
      in rbind (upgrade_head (length versions) versions (df_revision (files url)) (df_tables (files url)))
           (\<lambda>(rev, tables). Inr (files(url := \<lparr>df_revision = rev, df_tables = tables\<rparr>))))"

text \<open>The statements of all migrations from the beginning, in the order of their revisions.\<close>

fun statements_of :: "nat \<Rightarrow> migration list \<Rightarrow> string option \<Rightarrow> ddl list" where
  "statements_of 0 ms cur = []"
| "statements_of (Suc n) ms cur =
     (case find (\<lambda>m. down_revision m = cur) ms of
        None \<Rightarrow> []
      | Some m \<Rightarrow> upgrade m @ statements_of n ms (Some (revision m)))"

definition run_migrations_offline :: "(string \<Rightarrow> string option) \<Rightarrow> string \<times> ddl list" where
  "run_migrations_offline env = (get_url env, statements_of (length versions) versions None)"

definition alembic_env :: "bool \<Rightarrow> (string \<Rightarrow> string option) \<Rightarrow> (string \<Rightarrow> database_state) \<Rightarrow> (ddl list \<times> (string \<Rightarrow> database_state)) res" where
  "alembic_env is_offline_mode env files =
     (if is_offline_mode then Inr (snd (run_migrations_offline env), files)
      else rbind (run_migrations_online env files) (\<lambda>files. Inr ([], files)))"

text \<open>The program's side: the address made from the path of the settings, and the tables after \<open>init_db\<close>.\<close>

definition db_url :: "app_config \<Rightarrow> string" where
  "db_url cfg = ''sqlite+aiosqlite:///'' @ cfg_db_path cfg"

definition program_opens :: "app_config \<Rightarrow> session_state \<Rightarrow> (string \<Rightarrow> database_state) \<Rightarrow> session_state \<times> (string \<Rightarrow> database_state)" where
  "program_opens cfg st files =
     (case init_db None (db_url cfg) (st, df_tables (files (db_url cfg))) of
        (_, st, tables) \<Rightarrow> (st, files(db_url cfg := (files (db_url cfg))\<lparr>df_tables := tables\<rparr>)))"

section \<open>The two orders\<close>

lemma apply_all_append: "apply_all (xs @ ys) s = rbind (apply_all xs s) (apply_all ys)"
proof (induction xs arbitrary: s)
  case (Cons x xs)
  then show ?case by (cases "apply_ddl x s") simp_all
qed simp

text \<open>The statements printed offline do what the online run does.\<close>

lemma statements_upgrade: "map_sum id snd (upgrade_head n ms cur s) = apply_all (statements_of n ms cur) s"
proof (induction n arbitrary: cur s)
  case (Suc n)
  show ?case
  proof (cases "find (\<lambda>m. down_revision m = cur) ms")
    case (Some m)
    then show ?thesis using Suc.IH [of "Some (revision m)"]
      by (cases "apply_all (upgrade m) s") (simp_all add: apply_all_append)
  qed simp
qed simp

lemma upgrade_again: "upgrade_head (length versions) versions (Some ''0002'') s = Inr (Some ''0002'', s)"
  by (simp add: versions_def)

text \<open>Migrations before the program: on a new database they create and record the schema, the program adds nothing to it, and
  running them again changes nothing. The offline run touches no database and prints statements with the same effect. The program before the
  migrations: they fail, as long as no revision is recorded.\<close>

theorem migrate_then_start:
  assumes "get_url env = db_url cfg" "files (db_url cfg) = new_file"
  shows "\<exists>files'. alembic_env False env files = Inr ([], files') \<and>
      files' (db_url cfg) = \<lparr>df_revision = Some ''0002'', df_tables = migrated\<rparr> \<and>
      snd (program_opens cfg st files') = files' \<and> alembic_env False env files' = Inr ([], files') \<and>
      (\<exists>stmts. alembic_env True env files = Inr (stmts, files) \<and> apply_all stmts [] = Inr migrated) \<and>
      (\<exists>e. alembic_env False env (snd (program_opens cfg st files)) = Inl e)"
proof -
  let ?u = "db_url cfg"
  define files' where "files' = files(?u := \<lparr>df_revision = Some ''0002'', df_tables = migrated\<rparr>)"
  have "alembic_env False env files = Inr ([], files')"
    using migrated_eq assms by (simp add: alembic_env_def run_migrations_online_def new_file_def files'_def)
  moreover have "snd (program_opens cfg st files') = files'"
    using create_all_migrated by (simp add: program_opens_def init_db_def files'_def)
  moreover have "alembic_env False env files' = Inr ([], files')"
    using assms(1) upgrade_again by (simp add: alembic_env_def run_migrations_online_def files'_def)
  moreover have "apply_all (statements_of (length versions) versions None) [] = Inr migrated"
    using statements_upgrade [of "length versions" versions None "[]"] unfolding migrated_eq by simp
  then have "\<exists>stmts. alembic_env True env files = Inr (stmts, files) \<and> apply_all stmts [] = Inr migrated"
    by (simp add: alembic_env_def run_migrations_offline_def)
  moreover obtain e where "upgrade_head (length versions) versions None (create_all metadata []) = Inl e"
    using upgrade_after_init by blast
  then have "alembic_env False env (snd (program_opens cfg st files)) = Inl e"
    using assms by (simp add: alembic_env_def run_migrations_online_def program_opens_def init_db_def new_file_def)
  ultimately show ?thesis by (auto simp: files'_def)
qed

text \<open>But the program reads the path \<open>VX_DB_PATH\<close> and alembic the address \<open>VX_DB_URL\<close>: with only the first set, as the compose file does, the
  migrations run on another database, and the program's stays as it is.\<close>

theorem migrations_miss_program:
  assumes "read_env env = Inr cfg" "s_env env ''VX_DB_PATH'' = Some path" "path \<noteq> ''verdix.db''" "s_env env ''VX_DB_URL'' = None"
    and "alembic_env False (s_env env) files = Inr (out, files')"
  shows "files' (db_url cfg) = files (db_url cfg)"
proof -
  have "cfg_db_path cfg = path" using assms(1,2) by (auto simp: read_env_def env_or_def Let_def)
  then have "db_url cfg \<noteq> ini_url" using assms(3) by (simp add: db_url_def ini_url_def)
  then show ?thesis using assms(4,5) by (auto simp: alembic_env_def run_migrations_online_def get_url_def Let_def)
qed

theorem migrate_then_start_witness:
  "\<exists>files'. alembic_env False (\<lambda>v. if v = ''VX_DB_URL'' then Some (db_url cfg) else None) (\<lambda>_. new_file) = Inr ([], files') \<and>
    df_tables (files' (db_url cfg)) = migrated"
proof -
  let ?env = "\<lambda>v. if v = ''VX_DB_URL'' then Some (db_url cfg) else None"
  have "get_url ?env = db_url cfg" by (simp add: get_url_def)
  from migrate_then_start [OF this refl, of new_session_state] show ?thesis by (auto simp: o_def)
qed

end
