(* ===== verification/Interfaces.thy ===== *)
theory Interfaces
  imports Store_Correct
begin

text \<open>
  The interfaces of the stores, \<open>src/interfaces/event_store.py\<close>, \<open>operational_store.py\<close> and \<open>disposition_store.py\<close>: a protocol class is a
  record with an operation for each method, over any type of state, and what its documentation promises is a locale. Clients depend on the
  protocol only, so what they need is proved in the locale: each store is a plain map to anyone who uses its operations. The SQLite stores
  interpret the locales. As elsewhere, the clock readings and fresh identifiers an operation uses are arguments.
\<close>

section \<open>The protocols\<close>

record 'd event_store =
  es_insert_eve_event :: "string \<Rightarrow> instant \<Rightarrow> json \<Rightarrow> 'd \<Rightarrow> 'd res"
  es_insert_eve_events_batch :: "(nat \<Rightarrow> string) \<Rightarrow> instant \<Rightarrow> json list \<Rightarrow> 'd \<Rightarrow> 'd res"
  es_insert_alert :: "string \<Rightarrow> instant \<Rightarrow> json \<Rightarrow> string \<Rightarrow> 'd \<Rightarrow> (string \<times> 'd) res"
  es_get_alert :: "string \<Rightarrow> 'd \<Rightarrow> alert_row option"
  es_get_correlated_events :: "json \<Rightarrow> instant option \<Rightarrow> instant option \<Rightarrow> 'd \<Rightarrow> eve_row list"
  es_query_alerts :: "instant option \<Rightarrow> instant option \<Rightarrow> string option \<Rightarrow> int option \<Rightarrow> nat \<Rightarrow> nat \<Rightarrow> 'd \<Rightarrow> alert_row list"
  es_count_analyzed_today :: "int \<Rightarrow> int \<Rightarrow> instant \<Rightarrow> 'd \<Rightarrow> nat res"
  es_update_alert_status :: "string \<Rightarrow> string \<Rightarrow> 'd \<Rightarrow> 'd"
  es_update_alert_role_assignment :: "string \<Rightarrow> role_assignment \<Rightarrow> 'd \<Rightarrow> 'd res"
  es_find_recent_verdict_for_group :: "json \<Rightarrow> json \<Rightarrow> json \<Rightarrow> string \<Rightarrow> int \<Rightarrow> 'd \<Rightarrow> string option res"
  es_count_alerts_by_status :: "instant option \<Rightarrow> 'd \<Rightarrow> (string \<times> nat) list"
  es_delete_expired_eve_events :: "int \<Rightarrow> instant \<Rightarrow> 'd \<Rightarrow> (nat \<times> 'd) res"

record 'd operational_store =
  os_get_config :: "string \<Rightarrow> 'd \<Rightarrow> string option"
  os_set_config :: "string \<Rightarrow> string \<Rightarrow> instant \<Rightarrow> 'd \<Rightarrow> 'd"
  os_get_user_by_username :: "string \<Rightarrow> 'd \<Rightarrow> user_row option"
  os_ensure_admin_user :: "string \<Rightarrow> instant \<Rightarrow> 'd \<Rightarrow> 'd res"
  os_update_last_login :: "string \<Rightarrow> instant \<Rightarrow> 'd \<Rightarrow> 'd"
  os_record_verdict :: "string \<Rightarrow> instant \<Rightarrow> string option \<Rightarrow> string option \<Rightarrow> verdict_row \<Rightarrow> 'd \<Rightarrow> 'd res"
  os_mark_previous_verdicts_superseded :: "string \<Rightarrow> 'd \<Rightarrow> 'd"
  os_get_verdict :: "string \<Rightarrow> 'd \<Rightarrow> verdict_row option"
  os_get_current_verdict_for_alert :: "string \<Rightarrow> 'd \<Rightarrow> verdict_row option"
  os_link_verdict_to_alert :: "string \<Rightarrow> string \<Rightarrow> 'd \<Rightarrow> 'd"
  os_link_disposition_to_alert :: "string \<Rightarrow> string \<Rightarrow> 'd \<Rightarrow> 'd"

record 'd disposition_store =
  ds_record_disposition :: "string \<Rightarrow> instant \<Rightarrow> json \<Rightarrow> 'd \<Rightarrow> (json \<times> 'd) res"
  ds_get_disposition :: "json \<Rightarrow> 'd \<Rightarrow> disposition_row option"
  ds_get_latest_disposition :: "json \<Rightarrow> 'd \<Rightarrow> disposition_row option"
  ds_get_dispositions_for_alert :: "json \<Rightarrow> 'd \<Rightarrow> disposition_row list"

definition SQLiteEventStore :: "db event_store" where
  "SQLiteEventStore =
     \<lparr>es_insert_eve_event = insert_eve_event, es_insert_eve_events_batch = insert_eve_events_batch, es_insert_alert = insert_alert,
      es_get_alert = get_alert, es_get_correlated_events = get_correlated_events, es_query_alerts = query_alerts,
      es_count_analyzed_today = count_analyzed_today, es_update_alert_status = update_alert_status,
      es_update_alert_role_assignment = update_alert_role_assignment, es_find_recent_verdict_for_group = find_recent_verdict_for_group,
      es_count_alerts_by_status = count_alerts_by_status, es_delete_expired_eve_events = delete_expired_eve_events\<rparr>"

definition SQLiteOperationalStore :: "db operational_store" where
  "SQLiteOperationalStore =
     \<lparr>os_get_config = get_config, os_set_config = set_config, os_get_user_by_username = get_user_by_username,
      os_ensure_admin_user = ensure_admin_user, os_update_last_login = update_last_login, os_record_verdict = record_verdict,
      os_mark_previous_verdicts_superseded = mark_previous_verdicts_superseded, os_get_verdict = get_verdict,
      os_get_current_verdict_for_alert = get_current_verdict_for_alert, os_link_verdict_to_alert = link_verdict_to_alert,
      os_link_disposition_to_alert = link_disposition_to_alert\<rparr>"

definition SQLiteDispositionStore :: "db disposition_store" where
  "SQLiteDispositionStore =
     \<lparr>ds_record_disposition = record_disposition, ds_get_disposition = get_disposition,
      ds_get_latest_disposition = get_latest_disposition, ds_get_dispositions_for_alert = get_dispositions_for_alert\<rparr>"

section \<open>A client of the event store\<close>

text \<open>A client's writes, and the map from identifiers to statuses they stand for.\<close>

datatype event_write =
    Insert_Event string instant json
  | Insert_Batch "nat \<Rightarrow> string" instant "json list"
  | Insert_Alert string instant json string
  | Set_Status string string
  | Set_Roles string role_assignment
  | Expire int instant

definition event_apply :: "'d event_store \<Rightarrow> event_write \<Rightarrow> 'd \<Rightarrow> 'd res" where
  "event_apply s w d =
     (case w of
        Insert_Event uid now e \<Rightarrow> es_insert_eve_event s uid now e d
      | Insert_Batch uids now es \<Rightarrow> es_insert_eve_events_batch s uids now es d
      | Insert_Alert uid now a st \<Rightarrow> rbind (es_insert_alert s uid now a st d) (\<lambda>r. Inr (snd r))
      | Set_Status i st \<Rightarrow> Inr (es_update_alert_status s i st d)
      | Set_Roles i role \<Rightarrow> es_update_alert_role_assignment s i role d
      | Expire days now \<Rightarrow> rbind (es_delete_expired_eve_events s days now d) (\<lambda>r. Inr (snd r)))"

fun apply_writes :: "('w \<Rightarrow> 'd \<Rightarrow> 'd res) \<Rightarrow> 'w list \<Rightarrow> 'd \<Rightarrow> 'd res" where
  "apply_writes f [] d = Inr d"
| "apply_writes f (w # ws) d = rbind (f w d) (apply_writes f ws)"

fun status_write :: "event_write \<Rightarrow> (string \<rightharpoonup> string) \<Rightarrow> (string \<rightharpoonup> string)" where
  "status_write (Insert_Alert uid now a st) m = m(uid \<mapsto> st)"
| "status_write (Set_Status i st) m = (if m i = None then m else m(i \<mapsto> st))"
| "status_write _ m = m"

definition statuses :: "'d event_store \<Rightarrow> 'd \<Rightarrow> (string \<rightharpoonup> string)" where
  "statuses s d = (\<lambda>i. map_option a_status (es_get_alert s i d))"

text \<open>Runs of writes refine runs of the map's writes when every write does. \<open>I\<close> is an invariant of the store.\<close>

lemma apply_writes_refine:
  assumes "\<And>w d d'. I d \<Longrightarrow> f w d = Inr d' \<Longrightarrow> I d' \<and> view d' = g w (view d)"
  shows "I d \<Longrightarrow> apply_writes f ws d = Inr d' \<Longrightarrow> I d' \<and> view d' = fold g ws (view d)"
  by (induction ws arbitrary: d) (auto dest: assms)

locale event_store_contract =
  fixes s :: "'d event_store" and inv :: "'d \<Rightarrow> bool"
  assumes inserted: "inv d \<Longrightarrow> es_insert_alert s uid now a st d = Inr (i, d') \<Longrightarrow>
      inv d' \<and> i = uid \<and> statuses s d uid = None \<and> statuses s d' = (statuses s d)(uid \<mapsto> st)"
    and status_set: "inv d \<Longrightarrow> inv (es_update_alert_status s i st d) \<and>
      statuses s (es_update_alert_status s i st d) = (if statuses s d i = None then statuses s d else (statuses s d)(i \<mapsto> st))"
    and roles_set: "inv d \<Longrightarrow> es_update_alert_role_assignment s i role d = Inr d' \<Longrightarrow> inv d' \<and> statuses s d' = statuses s d"
    and event_inserted: "inv d \<Longrightarrow> es_insert_eve_event s uid now e d = Inr d' \<Longrightarrow> inv d' \<and> statuses s d' = statuses s d"
    and batch_inserted: "inv d \<Longrightarrow> es_insert_eve_events_batch s uids now es d = Inr d' \<Longrightarrow> inv d' \<and> statuses s d' = statuses s d"
    and expired: "inv d \<Longrightarrow> es_delete_expired_eve_events s days now d = Inr (n, d') \<Longrightarrow> inv d' \<and> statuses s d' = statuses s d"
    and queried: "inv d \<Longrightarrow> r \<in> set (es_query_alerts s None None (Some st) None n k d) \<Longrightarrow> statuses s d (a_alert_id r) = Some st"
    and queried_all: "inv d \<Longrightarrow> statuses s d i = Some st \<Longrightarrow> es_query_alerts s None None (Some st) None 1 0 d \<noteq> []"
begin

lemma write_refines: "inv d \<Longrightarrow> event_apply s w d = Inr d' \<Longrightarrow> inv d' \<and> statuses s d' = status_write w (statuses s d)"
proof (cases w)
  case (Set_Status i st)
  then show "inv d \<Longrightarrow> event_apply s w d = Inr d' \<Longrightarrow> inv d' \<and> statuses s d' = status_write w (statuses s d)"
    using status_set [of d i st] by (auto simp: event_apply_def)
qed (auto simp: event_apply_def dest: inserted roles_set event_inserted batch_inserted expired)

text \<open>To its clients the store is the map: whatever they write, in whatever order, and a query for a status finds an alert exactly when
  the map has one.\<close>

lemma writes_refine:
  assumes "inv d" "apply_writes (event_apply s) ws d = Inr d'"
  shows "statuses s d' = fold status_write ws (statuses s d) \<and>
    (es_query_alerts s None None (Some st) None 1 0 d' \<noteq> [] \<longleftrightarrow> st \<in> ran (fold status_write ws (statuses s d)))"
proof -
  have r: "inv d'" "statuses s d' = fold status_write ws (statuses s d)"
    using apply_writes_refine [of inv "event_apply s" "statuses s" status_write, OF write_refines assms] by simp_all
  have "es_query_alerts s None None (Some st) None 1 0 d' \<noteq> [] \<longleftrightarrow> st \<in> ran (statuses s d')"
  proof
    assume "es_query_alerts s None None (Some st) None 1 0 d' \<noteq> []"
    then obtain x where "x \<in> set (es_query_alerts s None None (Some st) None 1 0 d')" by (meson list.set_sel(1))
    then show "st \<in> ran (statuses s d')" using queried [OF r(1)] by (blast intro: ranI)
  next
    assume "st \<in> ran (statuses s d')"
    then show "es_query_alerts s None None (Some st) None 1 0 d' \<noteq> []" using queried_all [OF r(1)] by (auto simp: ran_def)
  qed
  then show ?thesis using r(2) by simp
qed

end

section \<open>The SQLite event store\<close>

definition alert_ids_ok :: "db \<Rightarrow> bool" where
  "alert_ids_ok d \<longleftrightarrow> distinct (map a_alert_id (alerts d))"

lemma statuses_sqlite: "statuses SQLiteEventStore d i = map_option a_status (get_alert i d)"
  by (simp add: statuses_def SQLiteEventStore_def)

lemma statuses_same_alerts: "alerts d' = alerts d \<Longrightarrow> statuses SQLiteEventStore d' = statuses SQLiteEventStore d"
  by (rule ext) (simp add: statuses_sqlite get_alert_def)

lemma query_sub: "r \<in> set (query_alerts None None (Some st) None n k d) \<Longrightarrow> r \<in> set (alerts d) \<and> a_status r = st"
proof -
  assume "r \<in> set (query_alerts None None (Some st) None n k d)"
  then have "r \<in> set (sort_key a_ingest_timestamp (filter (\<lambda>r. a_status r = st) (alerts d)))"
    unfolding query_alerts_def by (auto simp: opt_ge_def opt_le_def dest!: in_set_takeD in_set_dropD)
  then show ?thesis by simp
qed

lemma alert_update_statuses:
  assumes "\<And>r. a_alert_id (f r) = a_alert_id r"
  shows "statuses SQLiteEventStore (d\<lparr>alerts := update_where (\<lambda>r. a_alert_id r = i) f (alerts d)\<rparr>) =
    (case get_alert i d of None \<Rightarrow> statuses SQLiteEventStore d | Some r \<Rightarrow> (statuses SQLiteEventStore d)(i \<mapsto> a_status (f r)))"
  by (rule ext) (simp add: statuses_sqlite get_alert_update assms split: option.split)

lemma sqlite_events_ops [simp]:
  "es_insert_eve_event SQLiteEventStore = insert_eve_event" "es_insert_eve_events_batch SQLiteEventStore = insert_eve_events_batch"
  "es_insert_alert SQLiteEventStore = insert_alert" "es_query_alerts SQLiteEventStore = query_alerts"
  "es_update_alert_status SQLiteEventStore = update_alert_status"
  "es_update_alert_role_assignment SQLiteEventStore = update_alert_role_assignment"
  "es_delete_expired_eve_events SQLiteEventStore = delete_expired_eve_events"
  by (simp_all add: SQLiteEventStore_def)

lemma statuses_insert:
  assumes "alert_ids_ok d" "insert_alert uid now a st d = Inr (i, d')"
  shows "alert_ids_ok d' \<and> i = uid \<and> statuses SQLiteEventStore d uid = None \<and>
    statuses SQLiteEventStore d' = (statuses SQLiteEventStore d)(uid \<mapsto> st)"
proof -
  obtain r where a: "alert_row_of uid now a st = Inr r" "d' = d\<lparr>alerts := alerts d @ [r]\<rparr>" "i = uid" "uid \<notin> a_alert_id ` set (alerts d)"
    using assms(2) unfolding insert_alert_def by (auto split: option.splits if_splits)
  have r: "a_alert_id r = uid" "a_status r = st" using a(1) by (auto simp: alert_row_of_def)
  have "statuses SQLiteEventStore d' = (statuses SQLiteEventStore d)(uid \<mapsto> st)"
    using get_alert_append [of r d] a(4) r by (simp add: fun_eq_iff statuses_sqlite a(2))
  then show ?thesis using assms(1) a r by (simp add: alert_ids_ok_def statuses_sqlite get_alert_None)
qed

lemma statuses_set:
  "statuses SQLiteEventStore (update_alert_status i st d) =
    (if statuses SQLiteEventStore d i = None then statuses SQLiteEventStore d else (statuses SQLiteEventStore d)(i \<mapsto> st))"
  unfolding update_alert_status_def by (cases "get_alert i d") (simp_all add: alert_update_statuses statuses_sqlite)

lemma statuses_roles:
  assumes "update_alert_role_assignment i role d = Inr d'"
  shows "statuses SQLiteEventStore d' = statuses SQLiteEventStore d \<and> map a_alert_id (alerts d') = map a_alert_id (alerts d)"
proof -
  obtain f where f: "d' = d\<lparr>alerts := update_where (\<lambda>r. a_alert_id r = i) f (alerts d)\<rparr>" "\<And>r. a_alert_id (f r) = a_alert_id r"
    "\<And>r. a_status (f r) = a_status r"
    using update_role_other [OF assms] by blast
  have "statuses SQLiteEventStore d' = statuses SQLiteEventStore d"
    unfolding f(1) by (cases "get_alert i d") (simp_all add: alert_update_statuses f(2,3), simp add: statuses_sqlite fun_upd_idem)
  then show ?thesis by (simp add: f map_update_where)
qed

lemma statuses_events:
  assumes "d' = d\<lparr>eve_events := t\<rparr>" "alert_ids_ok d"
  shows "alert_ids_ok d' \<and> statuses SQLiteEventStore d' = statuses SQLiteEventStore d"
  using assms(2) by (simp add: assms(1) alert_ids_ok_def fun_eq_iff statuses_sqlite get_alert_def)

interpretation sqlite_events: event_store_contract SQLiteEventStore alert_ids_ok
proof (unfold_locales, unfold sqlite_events_ops)
  show "alert_ids_ok (update_alert_status i st d) \<and> statuses SQLiteEventStore (update_alert_status i st d) =
      (if statuses SQLiteEventStore d i = None then statuses SQLiteEventStore d else (statuses SQLiteEventStore d)(i \<mapsto> st))"
    if "alert_ids_ok d" for d i st
    using that statuses_set [of i st d] by (simp add: alert_ids_ok_def update_alert_status_def map_update_where)
  show "alert_ids_ok d' \<and> statuses SQLiteEventStore d' = statuses SQLiteEventStore d"
    if "alert_ids_ok d" "update_alert_role_assignment i role d = Inr d'" for d d' i role
    using that statuses_roles by (simp add: alert_ids_ok_def)
  show "statuses SQLiteEventStore d (a_alert_id r) = Some st"
    if "alert_ids_ok d" "r \<in> set (query_alerts None None (Some st) None n k d)" for d r st n k
    using that(1) query_sub [OF that(2)] get_alert_distinct [of d r] by (simp add: statuses_sqlite alert_ids_ok_def)
  show "query_alerts None None (Some st) None 1 0 d \<noteq> []" if w: "statuses SQLiteEventStore d i = Some st" for d i st
  proof -
    obtain q where "get_alert i d = Some q" "a_status q = st" using w by (auto simp: statuses_sqlite)
    then have "\<exists>r\<in>set (alerts d). a_status r = st" using get_alert_id [of i d q] by blast
    moreover have "query_alerts None None (Some st) None 1 0 d = take 1 (sort_key a_ingest_timestamp (filter (\<lambda>r. a_status r = st) (alerts d)))"
      by (simp add: query_alerts_def opt_ge_def opt_le_def)
    ultimately show ?thesis using conjunct1 [OF take_one_sorted [of a_ingest_timestamp "\<lambda>r. a_status r = st" "alerts d"]] by metis
  qed
  show "alert_ids_ok d' \<and> statuses SQLiteEventStore d' = statuses SQLiteEventStore d"
    if "alert_ids_ok d" "insert_eve_event uid now e d = Inr d'" for d d' uid now e
    using statuses_events [OF _ that(1)] insert_eve_event_other [OF that(2)] by blast
  show "alert_ids_ok d' \<and> statuses SQLiteEventStore d' = statuses SQLiteEventStore d"
    if "alert_ids_ok d" "insert_eve_events_batch uids now es d = Inr d'" for d d' uids now es
    using statuses_events [OF _ that(1)] insert_eve_events_batch_other [OF that(2)] by blast
  show "alert_ids_ok d' \<and> statuses SQLiteEventStore d' = statuses SQLiteEventStore d"
    if "alert_ids_ok d" "delete_expired_eve_events days now d = Inr (n, d')" for d d' days now n
    using statuses_events [OF _ that(1)] delete_expired_other [OF that(2)] by blast
qed (rule statuses_insert)

section \<open>A client of the operational store\<close>

datatype operational_write =
    Set_Config string string instant
  | Ensure_Admin string instant
  | Update_Login string instant
  | Record_Verdict string instant "string option" "string option" verdict_row
  | Supersede string
  | Link_Verdict string string
  | Link_Disposition string string

definition operational_apply :: "'d operational_store \<Rightarrow> operational_write \<Rightarrow> 'd \<Rightarrow> 'd res" where
  "operational_apply s w d =
     (case w of
        Set_Config k v now \<Rightarrow> Inr (os_set_config s k v now d)
      | Ensure_Admin uid now \<Rightarrow> os_ensure_admin_user s uid now d
      | Update_Login uid now \<Rightarrow> Inr (os_update_last_login s uid now d)
      | Record_Verdict uid now vid created v \<Rightarrow> os_record_verdict s uid now vid created v d
      | Supersede a \<Rightarrow> Inr (os_mark_previous_verdicts_superseded s a d)
      | Link_Verdict a v \<Rightarrow> Inr (os_link_verdict_to_alert s a v d)
      | Link_Disposition a i \<Rightarrow> Inr (os_link_disposition_to_alert s a i d))"

text \<open>The settings, and whether the administrator's account is there.\<close>

definition settings :: "'d operational_store \<Rightarrow> 'd \<Rightarrow> (string \<rightharpoonup> string) \<times> bool" where
  "settings s d = ((\<lambda>k. os_get_config s k d), os_get_user_by_username s ''admin'' d \<noteq> None)"

fun setting_write :: "operational_write \<Rightarrow> (string \<rightharpoonup> string) \<times> bool \<Rightarrow> (string \<rightharpoonup> string) \<times> bool" where
  "setting_write (Set_Config k v now) (m, admin) = (m(k \<mapsto> v), admin)"
| "setting_write (Ensure_Admin uid now) (m, admin) = (m, True)"
| "setting_write _ x = x"

locale operational_store_contract =
  fixes s :: "'d operational_store"
  assumes config_set: "settings s (os_set_config s k x now d) = ((fst (settings s d))(k \<mapsto> x), snd (settings s d))"
    and admin_ensured: "os_ensure_admin_user s uid now d = Inr d' \<Longrightarrow> settings s d' = (fst (settings s d), True)"
    and admin_once: "os_get_user_by_username s ''admin'' d \<noteq> None \<Longrightarrow> os_ensure_admin_user s uid now d = Inr d"
    and others_same: "settings s (os_update_last_login s uid now d) = settings s d"
      "settings s (os_mark_previous_verdicts_superseded s a d) = settings s d"
      "settings s (os_link_verdict_to_alert s a i d) = settings s d" "settings s (os_link_disposition_to_alert s a j d) = settings s d"
    and verdict_same: "os_record_verdict s uid now vid created v d = Inr d' \<Longrightarrow> settings s d' = settings s d"
    and superseded: "os_record_verdict s uid now (Some i) created v (os_mark_previous_verdicts_superseded s (v_alert_id v) d) = Inr d' \<Longrightarrow>
      v_is_current v \<Longrightarrow> map_option v_verdict_id (os_get_current_verdict_for_alert s (v_alert_id v) d') = Some i"
begin

lemma setting_refines: "operational_apply s w d = Inr d' \<Longrightarrow> settings s d' = setting_write w (settings s d)"
  by (cases w; cases "settings s d") (auto simp: operational_apply_def config_set others_same dest: admin_ensured verdict_same)

lemma settings_refine: "apply_writes (operational_apply s) ws d = Inr d' \<Longrightarrow> settings s d' = fold setting_write ws (settings s d)"
  using apply_writes_refine [of "\<lambda>_. True" "operational_apply s" "settings s" setting_write] setting_refines by blast

text \<open>Startup ensures the account every time; from the first time on that is no write at all.\<close>

lemma admin_idempotent:
  assumes "os_ensure_admin_user s uid now d = Inr d1" "apply_writes (operational_apply s) ws d1 = Inr d2"
  shows "os_ensure_admin_user s uid' now' d2 = Inr d2"
proof -
  have "snd x \<Longrightarrow> snd (setting_write w x)" for w x by (cases w; cases x) simp_all
  then have "snd (fold setting_write ws x)" if "snd x" for x using that by (induction ws arbitrary: x) simp_all
  then have "snd (settings s d2)" using settings_refine [OF assms(2)] admin_ensured [OF assms(1)] by simp
  then show ?thesis using admin_once by (simp add: settings_def)
qed

end

lemma sqlite_operational_ops [simp]:
  "os_get_config SQLiteOperationalStore = get_config" "os_set_config SQLiteOperationalStore = set_config"
  "os_get_user_by_username SQLiteOperationalStore = get_user_by_username" "os_ensure_admin_user SQLiteOperationalStore = ensure_admin_user"
  "os_update_last_login SQLiteOperationalStore = update_last_login" "os_record_verdict SQLiteOperationalStore = record_verdict"
  "os_mark_previous_verdicts_superseded SQLiteOperationalStore = mark_previous_verdicts_superseded"
  "os_get_current_verdict_for_alert SQLiteOperationalStore = get_current_verdict_for_alert"
  "os_link_verdict_to_alert SQLiteOperationalStore = link_verdict_to_alert"
  "os_link_disposition_to_alert SQLiteOperationalStore = link_disposition_to_alert"
  by (simp_all add: SQLiteOperationalStore_def)

lemma settings_sqlite: "settings SQLiteOperationalStore d = ((\<lambda>k. get_config k d), get_user_by_username ''admin'' d \<noteq> None)"
  by (simp add: settings_def)

lemma settings_same:
  "system_config d' = system_config d \<Longrightarrow> users d' = users d \<Longrightarrow> settings SQLiteOperationalStore d' = settings SQLiteOperationalStore d"
  by (simp add: settings_sqlite get_config_def get_user_by_username_def)

lemma admin_after: "ensure_admin_user uid now d = Inr d' \<Longrightarrow> system_config d' = system_config d \<and> get_user_by_username ''admin'' d' \<noteq> None"
  by (cases "filter (\<lambda>u. u_username u = ''admin'') (users d)") (auto simp: ensure_admin_user_def get_user_by_username_def split: if_splits)

lemma login_admin: "get_user_by_username u (update_last_login uid now d) = None \<longleftrightarrow> get_user_by_username u d = None"
proof -
  have "first_row (filter (\<lambda>r. u_username r = u) (update_where (\<lambda>r. u_user_id r = uid) (\<lambda>r. r\<lparr>u_last_login_at := Some (isoformat now)\<rparr>) (users d))) =
      map_option (\<lambda>r. if u_user_id r = uid then r\<lparr>u_last_login_at := Some (isoformat now)\<rparr> else r)
      (first_row (filter (\<lambda>r. u_username r = u) (users d)))"
    by (rule first_row_update_where) simp
  then show ?thesis by (simp add: get_user_by_username_def update_last_login_def)
qed

lemma superseded_recorded:
  assumes "record_verdict uid now (Some i) created v (mark_previous_verdicts_superseded (v_alert_id v) d) = Inr d'" "v_is_current v"
  shows "map_option v_verdict_id (get_current_verdict_for_alert (v_alert_id v) d') = Some i"
proof -
  obtain v' where v: "verdicts d' = verdicts (mark_previous_verdicts_superseded (v_alert_id v) d) @ [v']" "v_alert_id v' = v_alert_id v"
      "v_is_current v' = v_is_current v" "v_verdict_id v' = i"
    using record_verdict_other [OF assms(1)] by auto
  then show ?thesis using supersede_none [of "v_alert_id v" d] assms(2) by (simp add: get_current_verdict_for_alert_def)
qed

interpretation sqlite_operational: operational_store_contract SQLiteOperationalStore
proof (unfold_locales, unfold sqlite_operational_ops)
  show "settings SQLiteOperationalStore (set_config k v now d) = ((fst (settings SQLiteOperationalStore d))(k \<mapsto> v), snd (settings SQLiteOperationalStore d))"
    for k v now d
  proof -
    have "users (set_config k v now d) = users d" by (simp add: set_config_def split: option.split)
    then show ?thesis by (simp add: settings_sqlite get_config_set get_user_by_username_def fun_eq_iff)
  qed
  show "settings SQLiteOperationalStore d' = (fst (settings SQLiteOperationalStore d), True)" if "ensure_admin_user uid now d = Inr d'" for uid now d d'
    using admin_after [OF that] by (simp add: settings_sqlite get_config_def)
  show "ensure_admin_user uid now d = Inr d" if "get_user_by_username ''admin'' d \<noteq> None" for uid now d
    using that by (auto simp: get_user_by_username_def ensure_admin_user_def)
  show "settings SQLiteOperationalStore (update_last_login uid now d) = settings SQLiteOperationalStore d" for uid now d
    using login_admin [of "''admin''" uid now d] by (simp add: settings_sqlite get_config_def) (simp add: update_last_login_def)
  show "settings SQLiteOperationalStore d' = settings SQLiteOperationalStore d" if "record_verdict uid now vid created v d = Inr d'" for uid now vid created v d d'
    using record_verdict_other [OF that] by (intro settings_same) auto
  show "map_option v_verdict_id (get_current_verdict_for_alert (v_alert_id v) d') = Some i"
    if "record_verdict uid now (Some i) created v (mark_previous_verdicts_superseded (v_alert_id v) d) = Inr d'" "v_is_current v" for uid now i created v d d'
    using that by (rule superseded_recorded)
qed (auto intro!: settings_same
      simp: mark_previous_verdicts_superseded_def link_verdict_to_alert_def link_disposition_to_alert_def)

text \<open>C21: to their clients the stores are maps: after any sequence of writes through the event store's interface that succeeds, the
  status of every alert is the one a plain map would hold after the same writes, and a query for a status finds an alert
  exactly when the map has one; after any sequence of writes through the operational store's interface, every setting has
  the value last written to it, and once the administrator's account is ensured, ensuring it again never writes.\<close>

theorem stores_refine_maps:
  assumes "distinct (map a_alert_id (alerts d))" "apply_writes (event_apply SQLiteEventStore) ws d = Inr e"
    and "apply_writes (operational_apply SQLiteOperationalStore) os d = Inr f"
    and "ensure_admin_user uid now d = Inr d1" "apply_writes (operational_apply SQLiteOperationalStore) os1 d1 = Inr d2"
  shows "(\<forall>i. map_option a_status (get_alert i e) = fold status_write ws (\<lambda>i. map_option a_status (get_alert i d)) i) \<and>
    (query_alerts None None (Some st) None 1 0 e \<noteq> [] \<longleftrightarrow>
       st \<in> ran (fold status_write ws (\<lambda>i. map_option a_status (get_alert i d)))) \<and>
    (\<forall>k. get_config k f = fst (fold setting_write os (\<lambda>k. get_config k d, get_user_by_username ''admin'' d \<noteq> None)) k) \<and>
    ensure_admin_user uid' now' d2 = Inr d2"
proof -
  have s: "statuses SQLiteEventStore d = (\<lambda>i. map_option a_status (get_alert i d))" for d by (rule ext) (rule statuses_sqlite)
  have "settings SQLiteOperationalStore f = fold setting_write os (settings SQLiteOperationalStore d)"
    by (rule sqlite_operational.settings_refine [OF assms(3)])
  then have c: "(\<lambda>k. get_config k f) = fst (fold setting_write os (\<lambda>k. get_config k d, get_user_by_username ''admin'' d \<noteq> None))"
    by (simp add: settings_sqlite) (metis fst_conv)
  have "ensure_admin_user uid' now' d2 = Inr d2"
    using sqlite_operational.admin_idempotent [of uid now d d1 os1 d2 uid' now'] assms(4,5) by simp
  then show ?thesis
    using sqlite_events.writes_refine [of d ws e st] assms(1,2) fun_cong [OF c] by (simp add: alert_ids_ok_def s fun_eq_iff)
qed

theorem stores_refine_maps_witness:
  "\<exists>e. apply_writes (event_apply SQLiteEventStore) [Insert_Alert ''a'' 0 (JObj []) ''queued'', Set_Status ''a'' ''failed''] empty_db = Inr e \<and>
     map_option a_status (get_alert ''a'' e) = Some ''failed''"
proof -
  let ?ws = "[Insert_Alert ''a'' 0 (JObj []) ''queued'', Set_Status ''a'' ''failed'']"
  obtain e where e: "apply_writes (event_apply SQLiteEventStore) ?ws empty_db = Inr e"
    by (simp add: event_apply_def insert_alert_def alert_row_of_def dget_def alert_row_ok_def empty_db_def)
  obtain d1 where a: "ensure_admin_user ''u'' 0 empty_db = Inr d1" by (simp add: ensure_admin_user_def empty_db_def)
  have "distinct (map a_alert_id (alerts empty_db))" by (simp add: empty_db_def)
  from stores_refine_maps [OF this e apply_writes.simps(1) a apply_writes.simps(1)]
  have "map_option a_status (get_alert ''a'' e) = fold status_write ?ws (\<lambda>i. map_option a_status (get_alert i empty_db)) ''a''" by blast
  also have "\<dots> = Some ''failed''" by simp
  finally show ?thesis using e by blast
qed

end
