(* ===== verification/Scripts.thy ===== *)
theory Scripts
  imports Json_Text
begin

text \<open>
  The maintenance scripts: \<open>scripts/fetch_geoip.py\<close> downloads the two GeoIP databases, \<open>eval/scripts/enrich_corpus.py\<close> adds simulated
  threat intelligence to the evaluation corpus, and \<open>eval/fixtures/virustotal/loader.py\<close> serves recorded answers of VirusTotal. The network, the
  clock and the files are arguments.
\<close>

section \<open>GeoIP databases\<close>

definition DBIP_BASE_URL :: string where
  "DBIP_BASE_URL = ''https://download.db-ip.com/free''"

definition DATABASES :: "string list" where
  "DATABASES = [''dbip-country-lite'', ''dbip-asn-lite'']"

definition candidate_months :: "nat \<Rightarrow> nat \<Rightarrow> (nat \<times> nat) list" where
  "candidate_months year month = [(year, month), (if month = 1 then (year - 1, 12) else (year, month - 1))]"

text \<open>What a request is answered with: an HTTP error, another exception before the file is opened, or a body, of which the given bytes
  are written before the copy ends or raises.\<close>

datatype download = HTTPError int | Raises exn | Body string "exn option"

definition zfill :: "nat \<Rightarrow> nat \<Rightarrow> string" where
  "zfill n i = (let s = show_nat i in replicate (n - length s) CHR ''0'' @ s)"

definition month_url :: "string \<Rightarrow> nat \<times> nat \<Rightarrow> string" where
  "month_url name ym = DBIP_BASE_URL @ ''/'' @ name @ ''-'' @ zfill 4 (fst ym) @ ''-'' @ zfill 2 (snd ym) @ ''.mmdb.gz''"

definition database_file :: "string \<Rightarrow> string" where
  "database_file name = name @ ''.mmdb''"

fun try_months :: "(string \<Rightarrow> download) \<Rightarrow> string \<Rightarrow> (nat \<times> nat) list \<Rightarrow> string list \<Rightarrow> (string \<rightharpoonup> string) \<Rightarrow> unit res \<times> (string \<rightharpoonup> string)" where
  "try_months http name [] errors files =
     (Inl (Exn ''SystemExit'' (''Could not fetch '' @ name @ '': every candidate month failed.'' @ [CHR 10] @ join [CHR 10] errors) None), files)"
| "try_months http name (ym # yms) errors files =
     (let url = month_url name ym
      in case http url of
           HTTPError code \<Rightarrow> try_months http name yms (errors @ [url @ '' -> HTTP '' @ show_int code]) files
         | Raises e \<Rightarrow> (Inl e, files)
         | Body bytes fault \<Rightarrow> ((case fault of None \<Rightarrow> Inr () | Some e \<Rightarrow> Inl e), files(database_file name \<mapsto> bytes)))"

definition fetch_one :: "(string \<Rightarrow> download) \<Rightarrow> nat \<times> nat \<Rightarrow> string \<Rightarrow> (string \<rightharpoonup> string) \<Rightarrow> unit res \<times> (string \<rightharpoonup> string)" where
  "fetch_one http today name files = try_months http name (candidate_months (fst today) (snd today)) [] files"

fun fetch_all :: "(string \<Rightarrow> download) \<Rightarrow> nat \<times> nat \<Rightarrow> string list \<Rightarrow> (string \<rightharpoonup> string) \<Rightarrow> unit res \<times> (string \<rightharpoonup> string)" where
  "fetch_all http today [] files = (Inr (), files)"
| "fetch_all http today (name # names) files =
     (case fetch_one http today name files of
        (Inl e, files) \<Rightarrow> (Inl e, files)
      | (Inr _, files) \<Rightarrow> fetch_all http today names files)"

definition fetch_main :: "(string \<Rightarrow> download) \<Rightarrow> nat \<times> nat \<Rightarrow> (string \<rightharpoonup> string) \<Rightarrow> int res \<times> (string \<rightharpoonup> string)" where
  "fetch_main http today files =
     (case fetch_all http today DATABASES files of (Inl e, files) \<Rightarrow> (Inl e, files) | (Inr _, files) \<Rightarrow> (Inr 0, files))"

text \<open>The second month is the one before the first, over the turn of the year as well.\<close>

lemma candidate_months_consecutive:
  "1 \<le> m \<Longrightarrow> 1 \<le> y \<Longrightarrow> candidate_months y m = [a, b] \<Longrightarrow> a = (y, m) \<and> 12 * fst b + snd b + 1 = 12 * y + m \<and> snd b \<in> {1..12} \<union> {m - 1}"
  by (auto simp: candidate_months_def split: if_splits)

text \<open>The freshest database that is served: a successful fetch leaves the file of the first candidate month that is not refused.\<close>

lemma fetch_one_fresh:
  assumes "fetch_one http (y, m) name files = (Inr (), files')"
  shows "\<exists>ym bytes. ym \<in> set (candidate_months y m) \<and> http (month_url name ym) = Body bytes None \<and> files' = files(database_file name \<mapsto> bytes) \<and>
    (ym = (y, m) \<or> (\<exists>c. http (month_url name (y, m)) = HTTPError c))"
  using assms by (auto simp: fetch_one_def candidate_months_def Let_def split: download.splits option.splits if_splits)

lemma fetch_one_other: "fetch_one http today name files = (r, files') \<Longrightarrow> p \<noteq> database_file name \<Longrightarrow> files' p = files p"
  by (auto simp: fetch_one_def candidate_months_def Let_def split: download.splits if_splits)

text \<open>A refusal of both months leaves every file as it was.\<close>

lemma fetch_one_refused:
  assumes "\<And>ym. ym \<in> set (candidate_months y m) \<Longrightarrow> \<exists>c. http (month_url name ym) = HTTPError c"
  shows "\<exists>e. fetch_one http (y, m) name files = (Inl e, files) \<and> qualname e = ''SystemExit''"
proof -
  have "\<exists>e. try_months http name yms errors files = (Inl e, files) \<and> qualname e = ''SystemExit''"
    if "\<And>ym. ym \<in> set yms \<Longrightarrow> \<exists>c. http (month_url name ym) = HTTPError c" for yms errors
    using that
  proof (induction yms arbitrary: errors)
    case (Cons ym yms)
    obtain c where "http (month_url name ym) = HTTPError c" using Cons.prems by fastforce
    then show ?case using Cons by (simp add: Let_def)
  qed simp
  then show ?thesis using assms by (simp add: fetch_one_def)
qed

text \<open>A download that breaks off has overwritten the file: a good database is replaced by a truncated one.\<close>

lemma broken_download_truncates:
  "http (month_url name (y, m)) = Body part (Some e) \<Longrightarrow> fetch_one http (y, m) name files = (Inl e, files(database_file name \<mapsto> part))"
  by (simp add: fetch_one_def candidate_months_def Let_def)

section \<open>Simulated threat intelligence\<close>

record sim =
  sim_label :: string
  sim_malicious :: int
  sim_total :: int

definition VT_SIM :: "(string \<times> sim) list" where
  "VT_SIM =
     [(''188.227.106.13'', \<lparr>sim_label = ''RIG Exploit Kit server (June 2023 campaign)'', sim_malicious = 15, sim_total = 90\<rparr>),
      (''62.204.41.175'', \<lparr>sim_label = ''Malware loader / Redline Stealer C2 (RIG EK chain)'', sim_malicious = 20, sim_total = 90\<rparr>),
      (''206.166.251.62'', \<lparr>sim_label = ''IcedID installer server (March 2023 campaign)'', sim_malicious = 20, sim_total = 90\<rparr>),
      (''195.20.17.21'', \<lparr>sim_label = ''IcedID C2 server (March 2023 campaign)'', sim_malicious = 18, sim_total = 90\<rparr>),
      (''5.230.73.157'', \<lparr>sim_label = ''IcedID C2 server (March 2023 campaign)'', sim_malicious = 17, sim_total = 90\<rparr>),
      (''193.239.85.16'', \<lparr>sim_label = ''BackConnect C2 server (IcedID post-exploitation)'', sim_malicious = 22, sim_total = 90\<rparr>),
      (''31.220.50.207'', \<lparr>sim_label = ''Cobalt Strike C2 server (IcedID post-exploitation)'', sim_malicious = 25, sim_total = 90\<rparr>)]"

definition build_hit :: "string \<Rightarrow> json res" where
  "build_hit ip =
     (case map_of VT_SIM ip of
        None \<Rightarrow> Inl (KeyError ip)
      | Some s \<Rightarrow> Inr (JObj [(''indicator'', JStr ip), (''type'', JStr ''ip''), (''label'', JStr (sim_label s)),
          (''vt_malicious'', JInt (sim_malicious s)), (''vt_total'', JInt (sim_total s)),
          (''source'', JStr ''VirusTotal (eval-time simulation)'')]))"

fun dict_values :: "json \<Rightarrow> json list res" where
  "dict_values (JObj d) = Inr (map snd d)"
| "dict_values v = Inl (AttributeError v ''values'')"

definition ips_of_ioc :: "json \<Rightarrow> json list res" where
  "ips_of_ioc ioc =
     rbind (jget ioc ''malicious_ips'' (JArr [])) (\<lambda>ips.
     rbind (jiter ips) (\<lambda>xs.
     if list_all hashable xs then Inr xs else Inl unhashable))"

definition all_malicious_ips :: "json \<Rightarrow> json list res" where
  "all_malicious_ips data =
     rbind (jget data ''pcap_iocs'' (JObj [])) (\<lambda>iocs.
     rbind (dict_values iocs) (\<lambda>vs.
     rbind (rmap ips_of_ioc vs) (\<lambda>ls. Inr (concat ls))))"

text \<open>One address of an entry: a hit if it is malicious, simulated and not seen yet.\<close>

definition hit_of :: "json list \<Rightarrow> json \<Rightarrow> string list \<Rightarrow> json list res" where
  "hit_of malicious ip seen =
     (if \<not> hashable ip then Inl unhashable
      else case ip of
         JStr s \<Rightarrow> (if ip \<in> set malicious \<and> map_of VT_SIM s \<noteq> None \<and> s \<notin> set seen then rbind (build_hit s) (\<lambda>h. Inr [h]) else Inr [])
       | _ \<Rightarrow> Inr [])"

definition hits_of :: "json list \<Rightarrow> json \<Rightarrow> json \<Rightarrow> json list res" where
  "hits_of malicious src_ip dest_ip =
     rbind (hit_of malicious src_ip []) (\<lambda>hs.
     rbind (hit_of malicious dest_ip (if hs = [] then [] else [case src_ip of JStr s \<Rightarrow> s | _ \<Rightarrow> []])) (\<lambda>ds. Inr (hs @ ds)))"

text \<open>The entry with its context, and whether it was updated.\<close>

definition enrich_entry :: "json list \<Rightarrow> json \<Rightarrow> (json \<times> bool) res" where
  "enrich_entry malicious entry =
     rbind (jget entry ''raw_eve'' (JObj [])) (\<lambda>raw.
     rbind (jget raw ''src_ip'' (JStr [])) (\<lambda>src_ip.
     rbind (jget raw ''dest_ip'' (JStr [])) (\<lambda>dest_ip.
     rbind (hits_of malicious src_ip dest_ip) (\<lambda>hits.
       case entry of
         JObj d \<Rightarrow>
           (if hits \<noteq> [] then Inr (JObj (dict_set ''threat_intel_context'' (JArr hits) d), True)
            else if map_of d ''threat_intel_context'' = None then Inr (JObj (dict_set ''threat_intel_context'' (JArr []) d), False)
            else Inr (entry, False))
       | _ \<Rightarrow> Inr (entry, False)))))"

text \<open>The new corpus, the number of entries updated and of all entries.\<close>

definition enrich_corpus :: "json \<Rightarrow> (json \<times> nat \<times> nat) res" where
  "enrich_corpus data =
     rbind (all_malicious_ips data) (\<lambda>malicious.
     rbind (jindex data ''entries'') (\<lambda>entries.
     rbind (jiter entries) (\<lambda>es.
     rbind (rmap (enrich_entry malicious) es) (\<lambda>rs.
       Inr ((case data of
               JObj d \<Rightarrow> (if is_list entries then JObj (dict_set ''entries'' (JArr (map fst rs)) d) else data)
             | _ \<Rightarrow> data), length (filter snd rs), length rs)))))"

lemma dict_set_twice: "dict_set k v (dict_set k v d) = dict_set k v d"
  by (induction k v d rule: dict_set.induct) simp_all

lemma enrich_entry_again:
  assumes "enrich_entry mal e = Inr (e', b)"
  shows "enrich_entry mal e' = Inr (e', b)"
proof -
  obtain d raw src dst hits where d: "e = JObj d" "dget d ''raw_eve'' (JObj []) = raw" "jget raw ''src_ip'' (JStr []) = Inr src"
      "jget raw ''dest_ip'' (JStr []) = Inr dst" "hits_of mal src dst = Inr hits"
    and r: "(e', b) = (if hits \<noteq> [] then (JObj (dict_set ''threat_intel_context'' (JArr hits) d), True)
        else if map_of d ''threat_intel_context'' = None then (JObj (dict_set ''threat_intel_context'' (JArr []) d), False)
        else (e, False))"
    using assms by (auto simp: enrich_entry_def jget_cases split: if_splits)
  obtain d' where d': "e' = JObj d'" "map_of d' ''raw_eve'' = map_of d ''raw_eve''" "map_of d' ''threat_intel_context'' \<noteq> None"
      "hits \<noteq> [] \<longrightarrow> d' = dict_set ''threat_intel_context'' (JArr hits) d" "b = (hits \<noteq> [])"
    using r d(1) by (cases "hits \<noteq> []"; cases "map_of d ''threat_intel_context'' = None") auto
  have "dget d' ''raw_eve'' (JObj []) = raw" using d(2) d'(2) by (simp add: dget_def)
  then show ?thesis using d d' dict_set_twice [of "''threat_intel_context''" "JArr hits" d] by (auto simp: enrich_entry_def)
qed

lemma rmap_again:
  "rmap f xs = Inr rs \<Longrightarrow> (\<And>x y b. f x = Inr (y, b) \<Longrightarrow> f y = Inr (y, b)) \<Longrightarrow> rmap f (map fst rs) = Inr rs"
proof (induction xs arbitrary: rs)
  case (Cons x xs)
  then obtain y b ys where "f x = Inr (y, b)" "rmap f xs = Inr ys" "rs = (y, b) # ys" by auto
  then show ?case using Cons by simp
qed simp

text \<open>The script that adds simulated threat intelligence to the corpus can be run again at will: on its own output it
  succeeds, changes nothing and reports the same numbers.\<close>

theorem enrich_corpus_idempotent:
  assumes "enrich_corpus data = Inr (data', updated, n)"
  shows "enrich_corpus data' = Inr (data', updated, n)"
proof -
  obtain mal d entries es rs where a: "all_malicious_ips data = Inr mal" "data = JObj d" "map_of d ''entries'' = Some entries"
      "jiter entries = Inr es" "rmap (enrich_entry mal) es = Inr rs"
    and r: "data' = (if is_list entries then JObj (dict_set ''entries'' (JArr (map fst rs)) d) else data)"
      "updated = length (filter snd rs)" "n = length rs"
    using assms by (cases data) (auto simp: enrich_corpus_def split: option.splits)
  show ?thesis
  proof (cases "is_list entries")
    case True
    let ?d = "dict_set ''entries'' (JArr (map fst rs)) d"
    have r: "data' = JObj ?d" "updated = length (filter snd rs)" "n = length rs" using r True by simp_all
    have "dget ?d ''pcap_iocs'' (JObj []) = dget d ''pcap_iocs'' (JObj [])" by (simp add: dget_def)
    then have "all_malicious_ips data' = Inr mal" using a(1) by (simp add: all_malicious_ips_def r(1) a(2) del: rbind_eq_Inr)
    moreover have "rmap (enrich_entry mal) (map fst rs) = Inr rs" by (rule rmap_again [OF a(5) enrich_entry_again])
    ultimately show ?thesis
      using dict_set_twice [of "''entries''" "JArr (map fst rs)" d] by (simp add: enrich_corpus_def r del: rbind_eq_Inr)
  next
    case False
    then have "data' = data" using r by simp
    then show ?thesis using assms by simp
  qed
qed

definition sample_corpus :: json where
  "sample_corpus = JObj [(''pcap_iocs'', JObj [(''c1'', JObj [(''malicious_ips'', JArr [JStr ''195.20.17.21''])])]),
     (''entries'', JArr [JObj [(''raw_eve'', JObj [(''src_ip'', JStr ''10.0.0.5''), (''dest_ip'', JStr ''195.20.17.21'')])]])]"

theorem enrich_corpus_idempotent_witness:
  "\<exists>data'. enrich_corpus sample_corpus = Inr (data', 1, 1) \<and> enrich_corpus data' = Inr (data', 1, 1)"
proof -
  have "case enrich_corpus sample_corpus of Inr (_, u, t) \<Rightarrow> u = 1 \<and> t = 1 | Inl _ \<Rightarrow> False" by code_simp
  then obtain data' where "enrich_corpus sample_corpus = Inr (data', 1, 1)" by (auto split: sum.splits)
  from enrich_corpus_idempotent [OF this] this show ?thesis by blast
qed

section \<open>Recorded answers\<close>

definition make_vt_fixture_loader :: "jdict \<Rightarrow> string \<Rightarrow> string \<Rightarrow> json option" where
  "make_vt_fixture_loader fixtures =
     (let responses = filter (\<lambda>(k, v). \<not> startswith k ''_'') fixtures
      in (\<lambda>indicator_type indicator_value. map_of responses (indicator_type @ '':'' @ indicator_value)))"

text \<open>The metadata keys are never served, whatever the type.\<close>

lemma loader_no_metadata:
  "make_vt_fixture_loader fixtures t v = Some r \<Longrightarrow> (t @ '':'' @ v, r) \<in> set fixtures \<and> \<not> startswith t ''_''"
  by (cases t) (auto simp: make_vt_fixture_loader_def Let_def startswith_def dest!: map_of_SomeD)

end
