(* ===== verification/Spec2Isabelle.thy ===== *)
theory Spec2Isabelle
  imports Errors Rate_Limiter Role_Assignment Store_Correct Pipeline_Correct Dispatcher_Tasks Cache_Sections Concurrent_Enrichment Prompt_Context
    Llm Worker_Correct Web_App Startup Shutdown Evaluation_Report Lifecycle Schema Migration_Runs Interfaces Infrastructure Scripts
begin

text \<open>
  Verification of Verdix, a triage system for the alerts of the Suricata intrusion-detection system.

  \<^bold>\<open>The program.\<close> Suricata writes a log of events (EVE JSON). \<^emph>\<open>Ingestion\<close> (\<open>src/ingestion\<close>) tails that log, indexes every event and
  inserts the alerts into the database as queued, or as deferred beyond a daily cap. The \<^emph>\<open>triage worker\<close> (\<open>src/triage/worker.py\<close>)
  takes the oldest queued alert, decides which endpoint is attacker and which victim (\<open>src/domain/role_assignment\<close>, with the
  networks of \<open>suricata.yaml\<close> read by \<open>src/infra/suricata_config\<close>), and either inherits a recent verdict of the same group
  or resolves identities (\<open>src/identity\<close>), looks external indicators up (\<open>src/enrichment\<close>: VirusTotal, GeoIP, RDAP, behind
  caches, circuit breakers and a rate limiter of \<open>src/infra\<close>), renders a prompt, asks a language model (\<open>src/llm\<close>) and records
  its verdict. Analysts read
  the queue and record dispositions through the web interface (\<open>src/web\<close>), behind a licence, a health gate and a login; feedback may be sent
  with a context of usage figures (\<open>src/telemetry\<close>). \<open>src/main.py\<close> reads the settings and starts the tasks. The stores of \<open>src/infra/db\<close> are shared by all.

  \<^bold>\<open>Theories and sources.\<close>
  \<^item> \<open>Prelude\<close>: Python's string operations, exceptions and results that may be exceptions (\<open>'a res\<close>, \<open>rbind\<close>, \<open>rmap\<close>), ordered dictionaries.
  \<^item> \<open>Json\<close>, \<open>Json_Text\<close>: JSON values as Python sees them, \<open>json.dumps\<close> and \<open>json.loads\<close> with their round trip. A string is its
    UTF-8 bytes. \<open>Datetime\<close>: instants in microseconds and their ISO text, whose order is that of time. \<open>Ip_Address\<close>: \<open>ipaddress\<close>.
  \<^item> \<open>Errors\<close>: \<open>src/errors\<close>. \<open>Circuit_Breaker\<close>: \<open>src/infra/circuit_breaker.py\<close>. \<open>Cache\<close>: \<open>src/interfaces/cache.py\<close> (the locale
    \<open>ttl_cache\<close>) and both implementations in \<open>src/infra/cache\<close>. \<open>Rate_Limiter\<close>: \<open>src/enrichment/virustotal/rate_limiter.py\<close>.
  \<^item> \<open>Suricata_Config\<close>: \<open>src/infra/suricata_config\<close>. \<open>Role_Assignment\<close>: \<open>src/domain/role_assignment\<close>.
  \<^item> \<open>Database\<close>, \<open>Event_Store\<close>, \<open>Operational_Store\<close>: the tables of \<open>src/infra/db/models.py\<close> as lists of rows, and every operation of
    \<open>event_store.py\<close>, \<open>operational_store.py\<close> and \<open>disposition_store.py\<close>; \<open>Store_Correct\<close> has their properties.
  \<^item> \<open>Interfaces\<close>: the store protocols of \<open>src/interfaces\<close> as records of operations over any state, with their contracts as the locales
    \<open>event_store_contract\<close> and \<open>operational_store_contract\<close>, interpreted on the stores. \<open>Schema\<close>: the tables as declared by the models and
    by the migrations of \<open>alembic/versions\<close>, what a table admits, and the sessions of \<open>session.py\<close>. \<open>Migration_Runs\<close>:
    \<open>alembic/env.py\<close> beside the start of the program.
  \<^item> \<open>Ingestion_Status\<close>, \<open>Ingestion\<close>: \<open>src/ingestion\<close>; \<open>Pipeline_Correct\<close> has its properties, over the interleavings of its tasks
    (\<open>pipe_step\<close>) and, for the dispatcher, over any store of the locale \<open>capped_store\<close>. \<open>Dispatcher_Tasks\<close>: the dispatcher's tasks as they are
    run, with the lock of the cap; \<open>Shutdown\<close>: how the pipeline and the program end, and what becomes of every alert.
  \<^item> \<open>Enrichment\<close>: \<open>src/enrichment/models.py\<close>, the GeoIP client, the worker's \<open>_lookup\<close> and the provider contract, the locale
    \<open>threat_intel\<close>. \<open>Virustotal\<close>, \<open>Rdap\<close>, \<open>Reverse_Dns\<close>: the clients, over any cache of the protocol where they use one.
  \<^item> \<open>Indicators\<close>, \<open>Triage_Enrichment\<close>: which indicators of an alert are looked up, and the fan-out to the clients as \<open>src/main.py\<close> wires them,
    one after the other. \<open>Coroutine\<close>: coroutines and the schedules of an event loop; \<open>Locks\<close>: what a lock keeps (the locale \<open>lock\<close>), and
    serializability under one. \<open>Concurrent_Enrichment\<close>: the same lookups as they are gathered; \<open>Cache_Sections\<close>: concurrent uses of the cache.
  \<^item> \<open>Prompt_Context\<close>: \<open>src/llm/prompt_builder.py\<close>. \<open>Llm\<close>: \<open>src/llm\<close>, with the provider protocol as the locale \<open>llm_provider\<close>.
  \<^item> \<open>Worker\<close>: the rest of \<open>src/triage/worker.py\<close> and \<open>cleanup.py\<close>; \<open>Worker_Correct\<close> has their properties.
    \<open>Lifecycle\<close>: the state machine of an alert (\<open>life\<close>), which the worker and the other tasks refine, and cancellation (\<open>run_until\<close>).
  \<^item> \<open>Web_Gate\<close>: \<open>src/web/auth.py\<close>, \<open>deps.py\<close>, the gate of \<open>app.py\<close>, login, licence and the install identifier. \<open>Web_Alerts\<close>: \<open>alert_routes.py\<close>.
    \<open>Web_Queue\<close>: \<open>queue_routes.py\<close> and the probes of \<open>api_routes.py\<close>. \<open>Health_Check\<close>: \<open>health_check.py\<close> and its two routes.
    \<open>Web_App\<close>: the application of \<open>create_app\<close>, from the session through the gate and the route table to the handlers (\<open>serve\<close>).
  \<^item> \<open>Startup\<close>: the start of \<open>src/main.py\<close>, whose end is in \<open>Shutdown\<close>. \<open>Telemetry\<close>: \<open>src/telemetry\<close> and the feedback routes. \<open>Evaluation\<close>,
    \<open>Evaluation_Report\<close>: the harness of \<open>eval\<close>, and what it reads and prints.
  \<^item> \<open>Infrastructure\<close>: \<open>src/infra/http/factory.py\<close>, \<open>src/infra/logging/setup.py\<close> and \<open>context.py\<close>. \<open>Scripts\<close>: \<open>scripts/fetch_geoip.py\<close>,
    \<open>eval/scripts/enrich_corpus.py\<close> and the fixtures of \<open>eval/fixtures\<close>.

  \<^bold>\<open>State, errors, time, concurrency.\<close> Objects with state are records passed explicitly; an operation that may raise returns
  a sum whose left side is the exception with its class name, message and HTTP status. Clock readings, identifiers of
  \<open>uuid4\<close>, answers of servers, files and resolvers are arguments, so every theorem holds for all of them. A database operation is
  one transaction, as \<open>Schema\<close> shows of the sessions. What runs concurrently is modelled so: the circuit breaker and the ingestion pipeline as step relations;
  the lookups of an alert, the tasks of the dispatcher and the uses of the cache as coroutines under an arbitrary schedule, with the locks they take;
  the worker with the writes of the other tasks between any two of its transactions
  (\<open>we_others\<close>, restricted to the operations of those tasks by \<open>rely\<close>) and with a database fault possible at each
  (\<open>we_fault\<close>); cancellation is a fault that no handler stops. This theory puts the tasks of a started program together (\<open>other_task\<close>): pipeline, cleanup
  and web requests beside the worker. The worker's own model takes the lookups one after the other, and the pipeline's step handles
  an alert at once; both are shown to be what the schedules amount to.

  \<^bold>\<open>What is shown.\<close> Privacy: only public addresses outside HOME_NET and external names leave the machine,
  in whatever order the lookups run. Ingestion: no event is lost,
  duplicated or reordered between its tasks; the daily cap holds under every schedule, and the dispatcher's tasks are serializable; every alert
  delivered is stored, on its way or refused, and what a shutdown loses is known. Stores: the queue is first in, first out; retention is exact; the
  corpus is append-only; an inherited verdict comes from the right alert; to their clients the stores are maps; migrations and models
  declare one schema, reached if the migrations run first, whose constraints are those the stores meet; a session is all or nothing. Roles and configuration: the decisions follow the rules
  given, every address is on exactly one side, include cycles are rejected. Clients: the ledger has one entry per source whatever
  happens and whatever the order, no lookup waits for ever, the registry directory is downloaded once, breakers and limiters bound the calls, the two caches are equivalent, concurrent reads of the cache answer what was stored, stale answers are used as documented. Model:
  the retry policy, and that what comes back is a valid verdict. Worker: the database stays sound under interference and faults, no
  alert is left half way, an inherited verdict costs no request, and only the alert's own rows are written;
  with the other tasks it refines the state machine of an alert, and no queued alert starves; a shutdown strands at most the alert in work.
  The program as a whole, from its start through all its tasks to its end, keeps its database sound.
  Web: nobody reaches alerts without the licence and a session, and whoever has no session learns nothing that depends on them, whatever is
  asked and whatever the others do meanwhile; guesses are bounded, a request without a session changes nothing but the
  licence; decisions are recorded once, with the verdict they were made on; the queue counts every alert once and never asserts a
  category its group does not share. Health and start: a report is ready exactly when its three requirements hold; the
  pipeline starts whole or not at all, and then says why. Telemetry: the context depends on usage figures alone. Evaluation:
  the rates are those of the confusion matrix, and the report hides nothing. Scripts: enriching the corpus again changes nothing.

  \<^bold>\<open>Recursion and bounds.\<close> Loading included files ends by the depth limit of the program itself. The loops that never
  end (tailer, indexer, worker, cleanup) are given by one turn and, where needed, its iteration; the rate limiter's loop runs over its
  clock readings and is shown to end at the second. The JSON reader takes the length of its text as fuel, which the round trip shows
  to be enough; a coroutine is a finite tree of sections, of which a lookup has at most twelve and the handling of an alert five; \<open>upgrade_head\<close> takes as many steps as there are migrations. Floats the program computes with are rationals; float literals of JSON keep their text.

  \<^bold>\<open>Not modelled.\<close> The log lines themselves; the Jinja templates of prompts and pages (the rendering of a prompt is
  an argument, a page is the name of its template and its context); the forms, answers to unknown paths and session cookies of FastAPI, of
  which the last are an argument; how click converts the text of an option, which is an argument too. These configure libraries or are their work.
\<close>

section \<open>Ingestion beside the worker\<close>

lemma try_flush_external: "try_flush fault uid now (b, d) = (b', d') \<Longrightarrow> external_write\<^sup>*\<^sup>* d d'"
  by (auto simp: try_flush_def indexer_flush_def split: option.splits sum.splits if_splits intro: x_events)

lemma handle_external:
  "dispatcher_handle (count_analyzed_today h 1) insert_alert cap uid now1 now2 ev d = (r, d') \<Longrightarrow> external_write\<^sup>*\<^sup>* d d'"
  by (auto simp: dispatcher_handle_def Let_def split: sum.splits intro!: r_into_rtranclp elim!: x_alert)

lemma pipeline_external: "pipe_step b h c p evs p' \<Longrightarrow> external_write\<^sup>*\<^sup>* (pipe_db p) (pipe_db p')"
proof (induction rule: pipe_step.induct)
  case (index p ev q fault uid now b' d)
  then show ?case
    by (auto simp: indexer_event_def Let_def split: if_splits dest: try_flush_external)
next
  case (timeout fault uid now p b' d)
  then show ?case by (auto simp: indexer_timeout_def split: if_splits dest: try_flush_external)
next
  case (handle p as ev bs uid now1 now2 r d)
  from handle_external [OF handle(2)] show ?case by simp
qed (auto simp: broadcast_one_def Let_def)

text \<open>Ingestion and triage may be interleaved freely: after any number of steps of the pipeline on a sound database, the
  worker's invariant holds, and it still holds after any number of turns of the worker with further steps of the pipeline
  between any two of its transactions.\<close>

theorem ingestion_beside_worker:
  assumes "(\<lambda>p p'. \<exists>evs. pipe_step b h c p evs p')\<^sup>*\<^sup>* p p'" "sound (pipe_db p)"
    and "\<And>n d. \<exists>q q'. pipe_db q = d \<and> (\<lambda>p p'. \<exists>evs. pipe_step b h c p evs p')\<^sup>*\<^sup>* q q' \<and> pipe_db q' = we_others env n d"
    and "w_db w = pipe_db p'"
  shows "sound (w_db (worker_run (env\<lparr>we_complete := ollama_complete pv cl post clock\<rparr>) n w))"
proof -
  have ext: "external_write\<^sup>*\<^sup>* (pipe_db q) (pipe_db q')" if "(\<lambda>p p'. \<exists>evs. pipe_step b h c p evs p')\<^sup>*\<^sup>* q q'" for q q'
    using that by (induction rule: rtranclp_induct) (auto dest: pipeline_external)
  have "rely env" unfolding rely_def using assms(3) ext by metis
  moreover have "sound (pipe_db p')"
    using ext [OF assms(1)] assms(2) by (induction rule: rtranclp_induct) (auto intro: sound_external)
  ultimately show ?thesis using ollama_worker.run_sound [where env = env] assms(4) by (simp add: rely_def)
qed

theorem ingestion_beside_worker_witness:
  "sound (w_db (worker_run (sample_worker_env\<lparr>we_complete := ollama_complete sample_pydantic sample_ollama sample_post (\<lambda>_. 0)\<rparr>) 2 sample_world))"
proof (rule ingestion_beside_worker [of 10 0 10 "new_pipeline (w_db sample_world)"])
  show "sound (pipe_db (new_pipeline (w_db sample_world)))" using sample_world_sound by (simp add: new_pipeline_def)
  show "\<exists>q q'. pipe_db q = d \<and> (\<lambda>p p'. \<exists>evs. pipe_step 10 0 10 p evs p')\<^sup>*\<^sup>* q q' \<and> pipe_db q' = we_others sample_worker_env n d" for n d
    by (rule exI [of _ "new_pipeline d"], rule exI [of _ "new_pipeline d"]) (simp add: new_pipeline_def sample_worker_env_def)
qed (auto simp: new_pipeline_def)

section \<open>The program as a whole\<close>

lemma flush_external: "external_write\<^sup>*\<^sup>* d (snd (indexer_flush fault uid now b d))"
  by (auto simp: indexer_flush_def split: option.splits sum.splits intro: x_events)

lemma cancelled_external: "external_write\<^sup>*\<^sup>* (pipe_db p) (pipe_db (snd (pipeline_cancelled env p)))"
proof -
  let ?d = "interrupted_flush (st_at env) (st_uids env) (st_now env) (index_batch p) (pipe_db p)"
  have "external_write\<^sup>*\<^sup>* (pipe_db p) ?d" using flush_external by (simp add: interrupted_flush_def)
  moreover have "external_write\<^sup>*\<^sup>* ?d (snd (indexer_cancelled (st_fault env) (st_uids2 env) (st_now env) (index_batch p, ?d)))"
    using flush_external by (simp add: indexer_cancelled_def)
  ultimately show ?thesis
    by (simp add: pipeline_cancelled_def dispatcher_cancelled_def Let_def split: prod.split) (metis rtranclp_trans snd_conv)
qed

lemma ensure_id_external: "external_write\<^sup>*\<^sup>* d (snd (ensure_install_id u now d))"
  by (auto simp: ensure_install_id_def split: option.split list.split intro: x_config)

lemma post_license_external: "external_write\<^sup>*\<^sup>* d (fst (snd (post_license u now x d c)))"
proof -
  let ?d = "set_config ''eula_accepted_at'' (isoformat now) now (set_config ''eula_accepted'' ''true'' now d)"
  have "external_write\<^sup>*\<^sup>* d ?d" by (rule rtranclp.rtrancl_into_rtrancl [OF r_into_rtranclp]) (rule x_config)+
  from rtranclp_trans [OF this ensure_id_external [of ?d u now]] show ?thesis
    by (auto simp: post_license_def Let_def split: prod.split)
qed

lemma post_disposition_external:
  "post_disposition uid now req i action reason d = Inr (resp, d') \<Longrightarrow> external_write\<^sup>*\<^sup>* d d'"
  by (auto simp: post_disposition_def split: if_splits intro: rtranclp.rtrancl_into_rtrancl [OF r_into_rtranclp] x_disp x_link)

lemma handler_external: "external_write\<^sup>*\<^sup>* (ws_db ws) (ws_db (snd (snd (snd (run_handler cfg inp req h i ws)))))"
proof (cases h)
  case PostLicense
  then show ?thesis using post_license_external [of "ws_db ws" "wi_uuid inp" "wi_now inp" "wi_form inp ''accepted''" "ws_license ws"]
    by (auto simp: run_handler_def answers_def split: prod.split)
next
  case PostDisposition
  then show ?thesis using post_disposition_external by (auto simp: run_handler_def answers_def split: sum.split)
qed (auto simp: run_handler_def answers_def split: prod.split)

lemma serve_external: "external_write\<^sup>*\<^sup>* (ws_db ws) (ws_db (snd (serve cfg x ws)))"
proof -
  obtain inp cookie req where x: "x = (inp, cookie, req)" by (cases x) auto
  have "external_write\<^sup>*\<^sup>* (ws_db ws) (ws_db (snd (snd (snd (routed cfg inp r (ws\<lparr>ws_license := lic\<rparr>))))))" for r lic
    using handler_external [of "ws\<lparr>ws_license := lic\<rparr>"] by (auto simp: routed_def answers_def split: option.split)
  then show ?thesis by (simp add: serve_def x Let_def answers_def split: prod.split option.split) (metis snd_conv)
qed

text \<open>What the other tasks of a started program do to the database: the pipeline with the parameters it was started with, also when it is
  stopped, the nightly cleanup, and the requests to the web application.\<close>

inductive other_task :: "app \<Rightarrow> 'c web_config \<Rightarrow> db \<Rightarrow> db \<Rightarrow> bool" for a :: app and web :: "'c web_config" where
  pipeline_task: "EvePipeline path poll delay cap \<in> set (app_tasks a) \<Longrightarrow> pipe_step 100 h cap p evs p' \<Longrightarrow> other_task a web (pipe_db p) (pipe_db p')"
| pipeline_stop: "EvePipeline path poll delay cap \<in> set (app_tasks a) \<Longrightarrow> pipeline_cancelled env p = (ok, q) \<Longrightarrow> other_task a web (pipe_db p) (pipe_db q)"
| cleanup_task: "EveCleanup days \<in> set (app_tasks a) \<Longrightarrow> delete_expired_eve_events days now d = Inr (n, d') \<Longrightarrow> other_task a web d d'"
| web_request: "other_task a web (ws_db ws) (ws_db (snd (serve web x ws)))"

lemma other_task_external: "(other_task a web)\<^sup>*\<^sup>* d d' \<Longrightarrow> external_write\<^sup>*\<^sup>* d d'"
proof (induction rule: rtranclp_induct)
  case (step d d')
  from step.hyps(2) have "external_write\<^sup>*\<^sup>* d d'"
  proof (cases rule: other_task.cases)
    case (pipeline_stop path poll delay cap env p ok q)
    then show ?thesis using cancelled_external [of p env] by simp
  qed (use pipeline_external x_expire serve_external in blast)+
  with step.IH show ?case by (rule rtranclp_trans)
qed simp

lemma others_sound: "(other_task a web)\<^sup>*\<^sup>* d d' \<Longrightarrow> sound d \<Longrightarrow> sound d'"
proof -
  have "external_write\<^sup>*\<^sup>* d d' \<Longrightarrow> sound d \<Longrightarrow> sound d'"
    by (induction rule: rtranclp_induct) (auto intro: sound_external)
  then show "(other_task a web)\<^sup>*\<^sup>* d d' \<Longrightarrow> sound d \<Longrightarrow> sound d'" using other_task_external by blast
qed

text \<open>C1: the program as a whole keeps its database sound: from the database the start of the program leaves, after any number of steps of
  the pipeline, passes of the cleanup and requests to the web application, after any number of turns of the worker that was started with any
  number of these between any two of its transactions, and after whatever the others, a shutdown included, write then.\<close>

theorem program_keeps_database_sound:
  assumes "main_start env d = (Inr a, d1)" "sound d"
    and "t \<in> set (app_tasks a)" "start_worker outside vt pv post clock t = Some wenv"
    and "\<And>n e. (other_task a web)\<^sup>*\<^sup>* e (we_others outside n e)"
    and "(other_task a web)\<^sup>*\<^sup>* d1 (w_db w)" "(other_task a web)\<^sup>*\<^sup>* (w_db (worker_run wenv n w)) d2"
  shows "sound d2"
proof -
  obtain cfg where cfg: "read_env env = Inr cfg" using assms(1) by (auto simp: main_start_def split: sum.splits)
  obtain sc url timeout key country asn where t: "t = TriageWorker sc (pinned_ollama cfg) url timeout key country asn (cfg_daily_cap cfg)"
    using assms(3,4) unfolding main_start_Inr(2) [OF assms(1) cfg refl] by (auto simp: start_tasks_def split: option.splits if_splits)
  have "sound d1" using main_start_db [OF assms(1)] assms(2) sound_external by blast
  then have "sound (w_db w)" using assms(6) by (rule others_sound [rotated])
  moreover have "rely outside" unfolding rely_def using assms(5) other_task_external by blast
  ultimately have "sound (w_db (worker_run wenv n w))"
    using assms(4) ollama_worker.run_sound by (auto simp: t rely_def)
  with assms(7) show ?thesis by (rule others_sound)
qed

theorem program_keeps_database_sound_witness:
  "\<exists>a d1 t wenv. main_start (sample_start ''u'') (w_db sample_world) = (Inr a, d1) \<and> t \<in> set (app_tasks a) \<and>
     start_worker sample_worker_env bad_vt sample_pydantic sample_post (\<lambda>_. 0) t = Some wenv \<and>
     sound (ws_db (snd (serve (sample_web ''secret'') (sample_input, None, sample_request ''POST'' ''/setup/license'')
       \<lparr>ws_db = w_db (worker_run wenv 5 (sample_world\<lparr>w_db := d1\<rparr>)), ws_lockout = [], ws_license = None\<rparr>)))"
proof -
  obtain a d1 t wenv where s: "main_start (sample_start ''u'') (w_db sample_world) = (Inr a, d1)" "t \<in> set (app_tasks a)"
      "start_worker sample_worker_env bad_vt sample_pydantic sample_post (\<lambda>_. 0) t = Some wenv"
    by (rule sample_started)
  let ?web = "sample_web ''secret''" and ?d = "w_db (worker_run wenv 5 (sample_world\<lparr>w_db := d1\<rparr>))"
  have "sound (ws_db (snd (serve ?web (sample_input, None, sample_request ''POST'' ''/setup/license'')
      \<lparr>ws_db = ?d, ws_lockout = [], ws_license = None\<rparr>)))"
  proof (rule program_keeps_database_sound [OF s(1) sample_world_sound s(2,3), where web = ?web and w = "sample_world\<lparr>w_db := d1\<rparr>" and n = 5])
    show "(other_task a ?web)\<^sup>*\<^sup>* e (we_others sample_worker_env n e)" for n e by (simp add: sample_worker_env_def)
    from web_request [of a ?web "\<lparr>ws_db = ?d, ws_lockout = [], ws_license = None\<rparr>"]
    show "(other_task a ?web)\<^sup>*\<^sup>* ?d (ws_db (snd (serve ?web (sample_input, None, sample_request ''POST'' ''/setup/license'')
      \<lparr>ws_db = ?d, ws_lockout = [], ws_license = None\<rparr>)))" by (intro r_into_rtranclp) simp
  qed simp
  with s show ?thesis by blast
qed

end
